(* ===== verification/Prelude.thy ===== *)
theory Prelude
  imports Main "HOL-Library.Word" "HOL-Library.Monad_Syntax"
begin

unbundle bit_operations_syntax

section \<open>Shared vocabulary of the kernel model\<close>

text \<open>
  The machine types of \<open>w2/include/sys/defs.h\<close>, the page arithmetic macros of
  \<open>w2/include/sys/mmu/pt.h\<close>, and the generic facts on words, loops and lists that every
  component uses.  A C function that may fail to return (a loop that never ends, a null pointer
  or an unmapped address dereferenced) is a function into \<open>option\<close>, composed with the
  \<open>do\<close>-notation of \<open>Monad_Syntax\<close>; \<open>None\<close> stands for "does not return".
  Error codes that the C code returns stay ordinary values.
\<close>

type_synonym u8 = "8 word"
type_synonym u16 = "16 word"
type_synonym u32 = "32 word"
type_synonym u64 = "64 word"

text \<open>A NUL-free byte string, the contents of a C character array up to its terminator.\<close>

type_synonym bytes = "u8 list"

definition str_bytes :: "string \<Rightarrow> bytes" where
  "str_bytes s = map of_char s"

named_theorems page_simps \<open>page and frame arithmetic\<close>
named_theorems frame_simps \<open>fields an operation leaves alone\<close>

subsection \<open>Page arithmetic\<close>

abbreviation PAGE_SIZE :: u64 where "PAGE_SIZE \<equiv> 4096"

definition ALIGN_DOWN :: "u64 \<Rightarrow> u64" where
  "ALIGN_DOWN x = push_bit 12 (drop_bit 12 x)"

definition ALIGN_UP :: "u64 \<Rightarrow> u64" where
  "ALIGN_UP x = (if x AND (0x1000 - 1) \<noteq> 0 then ALIGN_DOWN (x + 0x1000) else x)"

definition page_aligned :: "u64 \<Rightarrow> bool" where
  "page_aligned x \<longleftrightarrow> x AND 0xFFF = 0"

lemma unat_u64: "unat (x :: u64) < 18446744073709551616"
proof -
  have "unat x < 2 ^ LENGTH(64)" by (rule unsigned_less)
  then show ?thesis by simp
qed

lemma mask12: "(0xFFF :: u64) = mask 12"
  by (simp add: mask_eq_exp_minus_1)

lemma bit_0xFFF [bit_simps]: "bit (0xFFF :: u64) n \<longleftrightarrow> n < 12"
  by (auto simp: mask12 bit_mask_iff)

lemma page_aligned_iff_bit: "page_aligned x \<longleftrightarrow> (\<forall>n < 12. \<not> bit x n)"
proof -
  have "(\<forall>n < 64. bit x n \<longrightarrow> \<not> n < 12) \<longleftrightarrow> (\<forall>n < 12. \<not> bit x n)"
  proof -
    have "n < 12 \<Longrightarrow> n < 64" for n :: nat by simp
    then show ?thesis by blast
  qed
  then show ?thesis
    by (simp add: page_aligned_def mask12 bit_eq_iff bit_and_iff bit_mask_iff)
qed

lemma page_aligned_iff_dvd: "page_aligned x \<longleftrightarrow> 4096 dvd unat x"
  using and_mask_dvd_nat [of 12 x] by (simp add: page_aligned_def mask12)

lemma bit_ALIGN_DOWN [bit_simps]: "bit (ALIGN_DOWN x) n \<longleftrightarrow> 12 \<le> n \<and> bit x n"
  by (auto simp: ALIGN_DOWN_def bit_simps dest: bit_imp_le_length)

lemma page_aligned_ALIGN_DOWN [simp, page_simps]: "page_aligned (ALIGN_DOWN x)"
  by (auto simp: page_aligned_iff_bit bit_simps)

lemma ALIGN_DOWN_id [simp, page_simps]: "page_aligned x \<Longrightarrow> ALIGN_DOWN x = x"
  by (rule bit_word_eqI) (auto simp: page_aligned_iff_bit bit_simps not_less)

lemma unat_ALIGN_DOWN: "unat (ALIGN_DOWN x) = unat x div 4096 * 4096"
proof -
  have "unat (drop_bit 12 x) = unat x div 4096"
    by (simp add: drop_bit_eq_div unat_div)
  moreover have "unat x div 4096 * 4096 < 2 ^ 64"
    using unat_u64 [of x] by simp
  ultimately show ?thesis
    by (simp add: ALIGN_DOWN_def push_bit_eq_mult unat_word_ariths)
qed

lemma page_aligned_numeral_mult: "page_aligned (x * 4096)"
proof -
  have "x * 4096 = push_bit 12 x" by (simp add: push_bit_eq_mult)
  then show ?thesis by (simp add: page_aligned_iff_bit bit_push_bit_iff)
qed

lemma page_aligned_add: "page_aligned x \<Longrightarrow> page_aligned y \<Longrightarrow> page_aligned (x + y)"
  unfolding page_aligned_iff_dvd
  by (simp add: unat_word_ariths dvd_mod)

lemma page_aligned_0 [simp]: "page_aligned 0"
  by (simp add: page_aligned_def)

lemma page_aligned_4096 [simp]: "page_aligned 4096"
  by (simp add: page_aligned_def)

lemma ALIGN_UP_aligned [simp, page_simps]: "page_aligned (ALIGN_UP x)"
  by (cases "page_aligned x") (simp_all add: ALIGN_UP_def, simp_all add: page_aligned_def)

lemma unat_div_eqI: "unat (x div 4096 :: u64) = unat x div 4096"
  by (simp add: unat_div)

subsection \<open>The loop \<open>for (i = start; i < end; i += PAGE_SIZE)\<close>\<close>

partial_function (option) page_loop ::
  "(u64 \<Rightarrow> 's \<Rightarrow> 's option) \<Rightarrow> u64 \<Rightarrow> u64 \<Rightarrow> 's \<Rightarrow> 's option" where
  "page_loop f i e s =
     (if i < e then do { s' \<leftarrow> f i s; page_loop f (i + PAGE_SIZE) e s' } else Some s)"

declare page_loop.simps [code]

text \<open>The same loop as a recursion over the pages it visits.\<close>

fun page_iter :: "(u64 \<Rightarrow> 's \<Rightarrow> 's option) \<Rightarrow> u64 list \<Rightarrow> 's \<Rightarrow> 's option" where
  "page_iter f [] s = Some s"
| "page_iter f (p # ps) s = do { s' \<leftarrow> f p s; page_iter f ps s' }"

definition pages_between :: "u64 \<Rightarrow> u64 \<Rightarrow> u64 list" where
  "pages_between i e = map (\<lambda>k. word_of_nat (k * 4096)) [unat i div 4096 ..< unat e div 4096]"

lemma page_step_unat:
  assumes "page_aligned i" "page_aligned e" "i < e"
  shows "unat (i + PAGE_SIZE) = unat i + 4096" and "i + PAGE_SIZE \<le> e"
proof -
  have "unat i < unat e" using assms(3) by (simp add: word_less_nat_alt)
  moreover have "4096 dvd unat i" "4096 dvd unat e"
    using assms by (auto simp: page_aligned_iff_dvd)
  ultimately have le: "unat i + 4096 \<le> unat e"
    by (metis add.commute dvd_add_triv_left_iff dvd_diff_nat le_add_diff_inverse
        less_imp_le_nat nat_dvd_not_less not_le_imp_less zero_less_diff add_le_cancel_left)
  have "unat e < 2 ^ 64" using unat_u64 [of e] by simp
  with le show "unat (i + PAGE_SIZE) = unat i + 4096"
    by (simp add: unat_word_ariths)
  with le show "i + PAGE_SIZE \<le> e"
    by (simp add: word_le_nat_alt)
qed

lemma pages_between_empty: "e \<le> i \<Longrightarrow> pages_between i e = []"
  by (simp add: pages_between_def word_le_nat_alt div_le_mono)

lemma word_of_nat_page: "page_aligned i \<Longrightarrow> word_of_nat (unat i div 4096 * 4096) = (i :: u64)"
  by (simp add: page_aligned_iff_dvd del: of_nat_mult)

lemma pages_between_step:
  assumes "page_aligned i" "page_aligned e" "i < e"
  shows "pages_between i e = i # pages_between (i + PAGE_SIZE) e"
proof -
  have "unat i div 4096 < unat e div 4096"
    using page_step_unat [OF assms] by (simp add: word_le_nat_alt)
  moreover have "unat (i + PAGE_SIZE) div 4096 = Suc (unat i div 4096)"
    using page_step_unat [OF assms] by simp
  ultimately show ?thesis
    using assms by (simp add: pages_between_def upt_conv_Cons word_of_nat_page del: of_nat_mult)
qed

lemma page_loop_iter:
  "page_aligned i \<Longrightarrow> page_aligned e \<Longrightarrow> page_loop f i e s = page_iter f (pages_between i e) s"
proof (induction "unat e - unat i" arbitrary: i s rule: less_induct)
  case less
  show ?case
  proof (cases "i < e")
    case True
    note step = page_step_unat [OF less.prems True]
    have "unat i < unat e" using True by (simp add: word_less_nat_alt)
    then have "unat e - unat (i + PAGE_SIZE) < unat e - unat i"
      using step by simp
    then have "page_loop f (i + PAGE_SIZE) e s' = page_iter f (pages_between (i + PAGE_SIZE) e) s'" for s'
      using less.hyps less.prems by (simp add: page_aligned_add)
    then have "page_loop f (i + PAGE_SIZE) e = page_iter f (pages_between (i + PAGE_SIZE) e)"
      by (rule ext)
    with True less.prems show ?thesis
      by (simp add: page_loop.simps [of f i e s] pages_between_step)
  next
    case False
    then show ?thesis
      by (auto simp: page_loop.simps [of f i e s] pages_between_empty)
  qed
qed

lemma page_iter_total:
  "(\<And>p s. p \<in> set ps \<Longrightarrow> \<exists>s'. f p s = Some s') \<Longrightarrow> \<exists>s'. page_iter f ps s = Some s'"
proof (induction ps arbitrary: s)
  case (Cons p ps)
  then obtain s' where "f p s = Some s'" by fastforce
  with Cons show ?case by simp
qed simp

lemma page_iter_pure: "page_iter (\<lambda>p s. Some (g p s)) ps s = Some (fold g ps s)"
  by (induction ps arbitrary: s) auto

text \<open>An invariant every page step keeps is kept by the loop.\<close>

lemma page_iter_invariant:
  assumes "page_iter f ps s = Some s'" and "I s"
    and "\<And>p s s'. p \<in> set ps \<Longrightarrow> I s \<Longrightarrow> f p s = Some s' \<Longrightarrow> I s'"
  shows "I s'"
  using assms
proof (induction ps arbitrary: s)
  case (Cons p ps)
  then obtain t where t: "f p s = Some t" "page_iter f ps t = Some s'"
    by (auto split: bind_splits)
  then have "I t" using Cons.prems(2,3) by (meson list.set_intros(1))
  with t show ?case using Cons.IH Cons.prems(3) by (meson list.set_intros(2))
qed simp

lemma mem_pages_between:
  "page_aligned i \<Longrightarrow> page_aligned e \<Longrightarrow>
   p \<in> set (pages_between i e) \<longleftrightarrow> page_aligned p \<and> i \<le> p \<and> p < e"
proof (induction "unat e - unat i" arbitrary: i rule: less_induct)
  case less
  show ?case
  proof (cases "i < e")
    case True
    note step = page_step_unat [OF less.prems True]
    have "unat i < unat e" using True by (simp add: word_less_nat_alt)
    then have "unat e - unat (i + PAGE_SIZE) < unat e - unat i" using step by simp
    then have IH: "p \<in> set (pages_between (i + PAGE_SIZE) e) \<longleftrightarrow>
        page_aligned p \<and> i + PAGE_SIZE \<le> p \<and> p < e"
      using less.hyps less.prems by (simp add: page_aligned_add)
    have "page_aligned p \<Longrightarrow> i < p \<Longrightarrow> i + PAGE_SIZE \<le> p"
      using page_step_unat (2) [OF less.prems(1)] by blast
    moreover have "i + PAGE_SIZE \<le> p \<Longrightarrow> i < p"
      using step by (simp add: word_le_nat_alt word_less_nat_alt)
    ultimately show ?thesis
      using IH True less.prems by (auto simp: pages_between_step order_le_less)
  next
    case False
    then show ?thesis by (auto simp: pages_between_empty not_less)
  qed
qed

text \<open>A fact some step of a loop establishes and every step keeps.\<close>

lemma fold_establishes:
  assumes "x \<in> set xs" and "\<And>s. P (f x s)" and "\<And>y s. P s \<Longrightarrow> P (f y s)"
  shows "P (fold f xs s)"
  using assms(1)
proof (induction xs arbitrary: s)
  case (Cons y ys)
  have "P t \<Longrightarrow> P (fold f ys t)" for t
    by (induction ys arbitrary: t) (auto intro: assms(3))
  with Cons assms(2) show ?case by auto
qed simp

end
