(* ===== verification/CString.thy ===== *)
theory CString
  imports Prelude
begin

section \<open>Strings and memory blocks (\<open>w2/sys/kstring.c\<close>, \<open>w2/libc/string.c\<close>)\<close>

text \<open>
  The routines work on byte memory through pointers, so that they can be run on overlapping or
  unterminated operands as well: a loop that never finds its terminator is \<open>None\<close>.  The counted
  loops \<open>while (n-- != 0)\<close> are recursions over the count.  The second half relates the routines to
  lists: \<open>cstr m p xs\<close> says that the NUL-terminated string \<open>xs\<close> is at \<open>p\<close>.
\<close>

type_synonym cmem = "u64 \<Rightarrow> u8"

fun memcpy_loop :: "nat \<Rightarrow> u64 \<Rightarrow> u64 \<Rightarrow> cmem \<Rightarrow> cmem" where
  "memcpy_loop 0 dst src m = m"
| "memcpy_loop (Suc n) dst src m = memcpy_loop n (dst + 1) (src + 1) (m(dst := m src))"

definition memcpy :: "u64 \<Rightarrow> u64 \<Rightarrow> u64 \<Rightarrow> cmem \<Rightarrow> cmem" where
  "memcpy s1 s2 n m = memcpy_loop (unat n) s1 s2 m"

partial_function (option) strlen_loop :: "cmem \<Rightarrow> u64 \<Rightarrow> u64 option" where
  "strlen_loop m s = (if m s = 0 then Some s else strlen_loop m (s + 1))"

definition strlen :: "u64 \<Rightarrow> cmem \<Rightarrow> u64 option" where
  "strlen str m = do { s \<leftarrow> strlen_loop m str; Some (s - str) }"

partial_function (option) kstrcpy_loop :: "u64 \<Rightarrow> u64 \<Rightarrow> cmem \<Rightarrow> cmem option" where
  "kstrcpy_loop dest src m =
     (let m' = m(dest := m src)
      in if m src \<noteq> 0 then kstrcpy_loop (dest + 1) (src + 1) m' else Some m')"

definition kstrcpy :: "u64 \<Rightarrow> u64 \<Rightarrow> cmem \<Rightarrow> cmem option" where
  "kstrcpy dest src m = kstrcpy_loop dest src m"

function kpower :: "u64 \<Rightarrow> u64 \<Rightarrow> u64" where
  "kpower x y =
     (if y = 0 then 1
      else if y mod 2 = 0 then kpower x (y div 2) * kpower x (y div 2)
      else x * kpower x (y div 2) * kpower x (y div 2))"
  by pat_completeness auto

lemma half_less: "y \<noteq> 0 \<Longrightarrow> unat (y div 2 :: u64) < unat y"
  by (simp add: unat_div unat_gt_0)

termination kpower
  by (relation "measure (\<lambda>(x, y). unat y)") (simp_all add: half_less)

declare kpower.simps [simp del]

function byte_to_binary_loop :: "u64 \<Rightarrow> u64 \<Rightarrow> bytes \<Rightarrow> bytes" where
  "byte_to_binary_loop x z b =
     (if z = 0 then b
      else byte_to_binary_loop x (z div 2) (b @ [if x AND z = z then 0x31 else 0x30]))"
  by pat_completeness auto

termination byte_to_binary_loop
  by (relation "measure (\<lambda>(x, z, b). unat z)") (simp_all add: half_less)

declare byte_to_binary_loop.simps [simp del]

definition byte_to_binary :: "u64 \<Rightarrow> bytes" where
  "byte_to_binary x = byte_to_binary_loop x (kpower 2 63) []"

text \<open>\<open>memsetw\<close> stores the low byte of its 16-bit value, \<open>count\<close> times, one byte apart.\<close>

fun memset_loop :: "nat \<Rightarrow> u64 \<Rightarrow> u8 \<Rightarrow> cmem \<Rightarrow> cmem" where
  "memset_loop 0 dst c m = m"
| "memset_loop (Suc n) dst c m = memset_loop n (dst + 1) c (m(dst := c))"

definition memset :: "u64 \<Rightarrow> u32 \<Rightarrow> u64 \<Rightarrow> cmem \<Rightarrow> cmem" where
  "memset str c n m = memset_loop (unat n) str (ucast c) m"

definition memsetw :: "u64 \<Rightarrow> u16 \<Rightarrow> u64 \<Rightarrow> cmem \<Rightarrow> cmem" where
  "memsetw s1 val count m = memset_loop (unat count) s1 (ucast val) m"

definition strcat :: "u64 \<Rightarrow> u64 \<Rightarrow> cmem \<Rightarrow> cmem option" where
  "strcat dest src m = do { d \<leftarrow> strlen_loop m dest; kstrcpy_loop d src m }"

text \<open>Decimal and octal numbers; a C \<open>int\<close> is an \<open>int\<close> or, where it may overflow, a \<open>u32\<close>.\<close>

partial_function (option) atoi_loop :: "u64 \<Rightarrow> u32 \<Rightarrow> cmem \<Rightarrow> u32 option" where
  "atoi_loop p k m =
     (if m p = 0 then Some k
      else atoi_loop (p + 1) (push_bit 3 k + push_bit 1 k + scast (m p) - 0x30) m)"

definition atoi :: "u64 \<Rightarrow> cmem \<Rightarrow> int option" where
  "atoi str m = map_option sint (atoi_loop str 0 m)"

function octal_loop :: "int \<Rightarrow> u64 \<Rightarrow> u64 \<Rightarrow> u64" where
  "octal_loop oct i res =
     (if oct = 0 then res
      else let digit = sgn oct * (\<bar>oct\<bar> mod 10); oct' = sgn oct * (\<bar>oct\<bar> div 10)
           in octal_loop oct' (i + 1) (res + of_int digit * kpower 8 i))"
  by pat_completeness auto

termination octal_loop
  by (relation "measure (\<lambda>(oct, i, res). nat \<bar>oct\<bar>)") (auto simp: abs_mult abs_sgn_eq)

declare octal_loop.simps [simp del]

definition octal_to_decimal :: "int \<Rightarrow> u64" where
  "octal_to_decimal oct = octal_loop oct 0 0"

partial_function (option) kstrcmp :: "u64 \<Rightarrow> u64 \<Rightarrow> cmem \<Rightarrow> int option" where
  "kstrcmp cs ct m =
     (let c1 = m cs; c2 = m ct
      in if c1 \<noteq> c2 then Some (if c1 < c2 then -1 else 1)
      else if c1 = 0 then Some 0
      else kstrcmp (cs + 1) (ct + 1) m)"

fun kstrncmp_loop :: "nat \<Rightarrow> u64 \<Rightarrow> u64 \<Rightarrow> cmem \<Rightarrow> int" where
  "kstrncmp_loop 0 cs ct m = 0"
| "kstrncmp_loop (Suc n) cs ct m =
     (let c1 = m cs; c2 = m ct
      in if c1 \<noteq> c2 then (if c1 < c2 then -1 else 1)
      else if c1 = 0 then 0
      else kstrncmp_loop n (cs + 1) (ct + 1) m)"

definition kstrncmp :: "u64 \<Rightarrow> u64 \<Rightarrow> u64 \<Rightarrow> cmem \<Rightarrow> int" where
  "kstrncmp cs ct sz m = kstrncmp_loop (unat sz) cs ct m"

fun kstrncpy_loop :: "nat \<Rightarrow> u64 \<Rightarrow> u64 \<Rightarrow> cmem \<Rightarrow> cmem" where
  "kstrncpy_loop 0 tmp src m = m"
| "kstrncpy_loop (Suc n) tmp src m =
     (let c = m src
      in kstrncpy_loop n (tmp + 1) (if c \<noteq> 0 then src + 1 else src) (m(tmp := c)))"

definition kstrncpy :: "u64 \<Rightarrow> u64 \<Rightarrow> u64 \<Rightarrow> cmem \<Rightarrow> cmem" where
  "kstrncpy dest src count m = kstrncpy_loop (unat count) dest src m"

subsection \<open>The routines only the C library has\<close>

fun memcmp_loop :: "nat \<Rightarrow> u64 \<Rightarrow> u64 \<Rightarrow> cmem \<Rightarrow> int" where
  "memcmp_loop 0 p1 p2 m = 0"
| "memcmp_loop (Suc n) p1 p2 m =
     (if m p1 \<noteq> m p2 then uint (m p1) - uint (m p2) else memcmp_loop n (p1 + 1) (p2 + 1) m)"

definition memcmp :: "u64 \<Rightarrow> u64 \<Rightarrow> u64 \<Rightarrow> cmem \<Rightarrow> int" where
  "memcmp s1 s2 n m = memcmp_loop (unat n) s1 s2 m"

partial_function (option) strstr_loop :: "u64 \<Rightarrow> u64 \<Rightarrow> u64 \<Rightarrow> u64 \<Rightarrow> cmem \<Rightarrow> u64 option" where
  "strstr_loop l1 l2 s1 s2 m =
     (if l1 \<ge> l2
      then if memcmp s1 s2 l2 m = 0 then Some s1
           else strstr_loop (l1 - 1) l2 (s1 + 1) s2 m
      else Some 0)"

definition strstr :: "u64 \<Rightarrow> u64 \<Rightarrow> cmem \<Rightarrow> u64 option" where
  "strstr s1 s2 m = do {
     l2 \<leftarrow> strlen s2 m;
     if l2 = 0 then Some s1
     else do { l1 \<leftarrow> strlen s1 m; strstr_loop l1 l2 s1 s2 m }
   }"

definition isspace :: "u8 \<Rightarrow> bool" where
  "isspace c \<longleftrightarrow> c = 0x20 \<or> c = 0x09 \<or> c = 0x0A \<or> c = 0x0A"

partial_function (option) strchr :: "u64 \<Rightarrow> u8 \<Rightarrow> cmem \<Rightarrow> u64 option" where
  "strchr s c m =
     (if m s \<noteq> c then if m s = 0 then Some 0 else strchr (s + 1) c m else Some s)"

definition isdigit :: "u32 \<Rightarrow> bool" where
  "isdigit ch \<longleftrightarrow> 0x30 \<le> sint ch \<and> sint ch \<le> 0x39"

partial_function (option) strcspn_loop :: "u64 \<Rightarrow> u64 \<Rightarrow> u64 \<Rightarrow> cmem \<Rightarrow> u64 option" where
  "strcspn_loop s reject count m =
     (if m s \<noteq> 0 then do {
        r \<leftarrow> strchr reject (m s) m;
        if r = 0 then strcspn_loop (s + 1) reject (count + 1) m else Some count
      } else Some count)"

definition strcspn :: "u64 \<Rightarrow> u64 \<Rightarrow> cmem \<Rightarrow> u64 option" where
  "strcspn s reject m = strcspn_loop s reject 0 m"

definition reset :: "u64 \<Rightarrow> int \<Rightarrow> cmem \<Rightarrow> cmem" where
  "reset str len m = memset_loop (nat len) str 0 m"

declare strlen_loop.simps [code] kstrcpy_loop.simps [code] atoi_loop.simps [code]
  kstrcmp.simps [code] strstr_loop.simps [code] strchr.simps [code] strcspn_loop.simps [code]

subsection \<open>Strings in memory\<close>

fun cstr :: "cmem \<Rightarrow> u64 \<Rightarrow> bytes \<Rightarrow> bool" where
  "cstr m p [] \<longleftrightarrow> m p = 0"
| "cstr m p (x # xs) \<longleftrightarrow> m p = x \<and> x \<noteq> 0 \<and> cstr m (p + 1) xs"

text \<open>The bytes of a block of \<open>n\<close> bytes at \<open>p\<close>.\<close>

fun block :: "u64 \<Rightarrow> nat \<Rightarrow> u64 list" where
  "block p 0 = []"
| "block p (Suc n) = p # block (p + 1) n"

lemma block_conv: "block p n = map (\<lambda>i. p + of_nat i) [0..<n]"
proof (induction n arbitrary: p)
  case (Suc n)
  have "map (\<lambda>i. p + of_nat i) [0..<Suc n] = p # map (\<lambda>i. p + of_nat (Suc i)) [0..<n]"
    by (simp add: upt_conv_Cons map_Suc_upt [symmetric] comp_def del: upt_Suc)
  then show ?case by (simp add: Suc.IH algebra_simps)
qed simp

lemma in_block: "a \<in> set (block p n) \<longleftrightarrow> (\<exists>i < n. a = p + of_nat i)"
  unfolding block_conv by auto

lemma block_mono: "n \<le> k \<Longrightarrow> set (block p n) \<subseteq> set (block p k)"
  unfolding in_block subset_iff by (metis order_less_le_trans)

lemma block_head: "n < 2 ^ 64 \<Longrightarrow> p \<notin> set (block (p + 1) n)"
proof
  assume n: "n < 2 ^ 64" and "p \<in> set (block (p + 1) n)"
  then obtain i where i: "i < n" "p = p + 1 + of_nat i" by (auto simp: block_conv)
  then have "(of_nat (Suc i) :: u64) = 0" by (simp add: add.assoc)
  then have "2 ^ 64 dvd Suc i" by (simp add: word_of_nat_eq_0_iff del: of_nat_Suc)
  with i(1) n show False by (metis Suc_lessI dvd_imp_le less_trans not_less_eq zero_less_Suc linorder_not_less)
qed

lemma cstr_cong: "(\<And>a. a \<in> set (block p (Suc (length xs))) \<Longrightarrow> m a = m' a) \<Longrightarrow> cstr m p xs = cstr m' p xs"
proof (induction xs arbitrary: p)
  case (Cons x xs)
  have "cstr m (p + 1) xs = cstr m' (p + 1) xs"
    by (rule Cons.IH) (use Cons.prems in simp)
  then show ?case using Cons.prems [of p] by simp
qed simp

lemma cstr_unique: "cstr m p xs \<Longrightarrow> cstr m p ys \<Longrightarrow> xs = ys"
  by (induction xs arbitrary: p ys; case_tac ys) auto

lemma cstr_nonzero: "cstr m p xs \<Longrightarrow> x \<in> set xs \<Longrightarrow> x \<noteq> 0"
  by (induction xs arbitrary: p) auto

lemma cstr_append:
  "cstr m p (xs @ ys) \<longleftrightarrow> (\<forall>i < length xs. m (p + of_nat i) = xs ! i \<and> xs ! i \<noteq> 0) \<and>
     cstr m (p + of_nat (length xs)) ys"
proof (induction xs arbitrary: p)
  case (Cons x xs)
  show ?case
    by (auto simp: Cons.IH less_Suc_eq_0_disj all_conj_distrib algebra_simps)
qed simp

lemma strlen_loop_cstr: "cstr m p xs \<Longrightarrow> strlen_loop m p = Some (p + of_nat (length xs))"
proof (induction xs arbitrary: p)
  case Nil
  then show ?case by (simp add: strlen_loop.simps [of m p])
next
  case (Cons x xs)
  then show ?case by (simp add: strlen_loop.simps [of m p] algebra_simps)
qed

lemma strlen_cstr: "cstr m p xs \<Longrightarrow> strlen p m = Some (of_nat (length xs))"
  by (simp add: strlen_def strlen_loop_cstr)

lemma kstrcpy_loop_cstr:
  assumes "cstr m src xs" and "length xs < 2 ^ 64 - 1"
    and "set (block dest (Suc (length xs))) \<inter> set (block src (Suc (length xs))) = {}"
  shows "\<exists>m'. kstrcpy_loop dest src m = Some m' \<and> cstr m' dest xs \<and>
    (\<forall>a. a \<notin> set (block dest (Suc (length xs))) \<longrightarrow> m' a = m a)"
  using assms
proof (induction xs arbitrary: dest src m)
  case Nil
  then show ?case by (simp add: kstrcpy_loop.simps [of dest src])
next
  case (Cons x xs)
  let ?m = "m(dest := x)"
  have x: "m src = x" "x \<noteq> 0" using Cons.prems(1) by auto
  have c: "cstr ?m (src + 1) xs"
    using Cons.prems(1,3) by (subst cstr_cong [of _ _ _ m]) auto
  have len: "length xs < 2 ^ 64 - 1" using Cons.prems(2) by simp
  have "set (block (dest + 1) (Suc (length xs))) \<inter> set (block (src + 1) (Suc (length xs))) = {}"
    using Cons.prems(3) by auto
  from Cons.IH [OF c len this]
  obtain m' where m': "kstrcpy_loop (dest + 1) (src + 1) ?m = Some m'" "cstr m' (dest + 1) xs"
    "\<forall>a. a \<notin> set (block (dest + 1) (Suc (length xs))) \<longrightarrow> m' a = ?m a"
    by blast
  have "dest \<notin> set (block (dest + 1) (Suc (length xs)))"
    by (rule block_head) (use Cons.prems(2) in simp)
  then have "m' dest = x" using m'(3) by simp
  with m' x show ?case by (simp add: kstrcpy_loop.simps [of dest src])
qed

lemma kstrcmp_cstr:
  "cstr m cs xs \<Longrightarrow> cstr m ct ys \<Longrightarrow>
   \<exists>r. kstrcmp cs ct m = Some r \<and> (r = 0 \<longleftrightarrow> xs = ys) \<and> r \<in> {-1, 0, 1}"
proof (induction xs arbitrary: ys cs ct)
  case Nil
  then show ?case by (cases ys) (simp_all add: kstrcmp.simps [of cs] Let_def)
next
  case (Cons x xs)
  show ?case
  proof (cases ys)
    case Nil
    with Cons.prems show ?thesis by (simp add: kstrcmp.simps [of cs] Let_def)
  next
    case (Cons y zs)
    with Cons.prems Cons.IH [of "cs + 1" "ct + 1" zs] show ?thesis
      by (auto simp: kstrcmp.simps [of cs] Let_def)
  qed
qed

lemma kstrcmp_sign:
  "cstr m cs xs \<Longrightarrow> cstr m ct ys \<Longrightarrow>
   kstrcmp cs ct m = Some (if xs = ys then 0 else if (xs, ys) \<in> lexord {(a, b). a < b} then -1 else 1)"
proof (induction xs arbitrary: ys cs ct)
  case Nil
  then show ?case by (cases ys) (auto simp: kstrcmp.simps [of cs] Let_def word_neq_0_conv)
next
  case (Cons x xs)
  show ?case
  proof (cases ys)
    case Nil
    with Cons.prems show ?thesis by (auto simp: kstrcmp.simps [of cs] Let_def)
  next
    case (Cons y zs)
    with Cons.prems Cons.IH [of "cs + 1" "ct + 1" zs] show ?thesis
      by (auto simp: kstrcmp.simps [of cs] Let_def)
  qed
qed

text \<open>The same routines on lists, for strings that are fields of kernel objects.\<close>

partial_function (option) read_cstr :: "cmem \<Rightarrow> u64 \<Rightarrow> bytes option" where
  "read_cstr m p = (if m p = 0 then Some [] else do { xs \<leftarrow> read_cstr m (p + 1); Some (m p # xs) })"

declare read_cstr.simps [code]

lemma read_cstr_cstr: "cstr m p xs \<Longrightarrow> read_cstr m p = Some xs"
proof (induction xs arbitrary: p)
  case Nil
  then show ?case by (subst read_cstr.simps) simp
next
  case (Cons x xs)
  then show ?case by (subst read_cstr.simps) simp
qed

fun strn_eq :: "nat \<Rightarrow> bytes \<Rightarrow> bytes \<Rightarrow> bool" where
  "strn_eq 0 xs ys \<longleftrightarrow> True"
| "strn_eq (Suc n) [] [] \<longleftrightarrow> True"
| "strn_eq (Suc n) (x # xs) (y # ys) \<longleftrightarrow> x = y \<and> strn_eq n xs ys"
| "strn_eq (Suc n) _ _ \<longleftrightarrow> False"

lemma kstrncmp_loop_strn_eq:
  "cstr m p xs \<Longrightarrow> cstr m q ys \<Longrightarrow> kstrncmp_loop n p q m = 0 \<longleftrightarrow> strn_eq n xs ys"
proof (induction n xs ys arbitrary: p q rule: strn_eq.induct)
  case (3 n x xs y ys)
  then show ?case by (auto simp: Let_def)
qed (auto simp: Let_def)

subsection \<open>Numbers\<close>

lemma kpower_eq: "kpower x y = x ^ unat y"
proof (induction x y rule: kpower.induct)
  case (1 x y)
  let ?n = "unat y"
  have h: "unat (y div 2) = ?n div 2" and e: "y mod 2 = 0 \<longleftrightarrow> even ?n"
    by (simp_all add: unat_div word_unat_eq_iff unat_mod even_iff_mod_2_eq_zero)
  have sq: "x ^ (?n div 2) * x ^ (?n div 2) = x ^ (2 * (?n div 2))"
    by (simp add: power_add [symmetric] mult_2)
  show ?case
  proof (cases "y = 0")
    case y: False
    show ?thesis
    proof (cases "even ?n")
      case True
      then have "2 * (?n div 2) = ?n" by simp
      then show ?thesis using 1 h e sq y True by (simp add: kpower.simps [of x y])
    next
      case False
      then have "x ^ ?n = x * x ^ (2 * (?n div 2))"
        by (metis odd_two_times_div_two_succ Suc_eq_plus1 power_Suc)
      then show ?thesis using 1 h e sq y False by (simp add: kpower.simps [of x y] mult.assoc del: power_Suc)
    qed
  qed (simp add: kpower.simps)
qed

fun octal_of :: "nat \<Rightarrow> nat" where
  "octal_of n = (if n = 0 then 0 else n mod 10 + 8 * octal_of (n div 10))"

declare octal_of.simps [simp del]

lemma octal_of_digit: "d < 10 \<Longrightarrow> octal_of (10 * n + d) = 8 * octal_of n + d"
  using octal_of.simps [of "10 * n + d"] octal_of.simps [of n] by auto

lemma octal_loop_octal_of:
  "unat i + n < 2 ^ 64 \<Longrightarrow> octal_loop (int n) i res = res + 8 ^ unat i * of_nat (octal_of n)"
proof (induction n arbitrary: i res rule: octal_of.induct)
  case (1 n)
  show ?case
  proof (cases "n = 0")
    case False
    have "unat i < 2 ^ 64 - 1" using 1(2) False by simp
    then have i: "unat (i + 1) = Suc (unat i)" by (simp add: unat_word_ariths)
    have "n div 10 < n" using False by simp
    then have "unat (i + 1) + n div 10 < 2 ^ 64" using i 1(2) by simp
    note IH = 1(1) [OF False this]
    have "octal_loop (int n) i res =
        octal_loop (int (n div 10)) (i + 1) (res + of_nat (n mod 10) * kpower 8 i)"
    proof -
      have "(of_int (int n mod 10) :: u64) = of_nat (n mod 10)"
        by (metis of_int_of_nat_eq of_nat_numeral zmod_int)
      then show ?thesis using False by (subst octal_loop.simps) (simp add: Let_def zdiv_int)
    qed
    also have "\<dots> = res + 8 ^ unat i * of_nat (n mod 10 + 8 * octal_of (n div 10))"
      by (simp add: IH kpower_eq i) (simp add: algebra_simps)
    finally show ?thesis using False octal_of.simps [of n] by simp
  qed (simp add: octal_loop.simps octal_of.simps)
qed

definition digits_value :: "nat \<Rightarrow> nat list \<Rightarrow> nat" where
  "digits_value b ds = foldl (\<lambda>v d. b * v + d) 0 ds"

lemma digits_value_snoc: "digits_value b (ds @ [d]) = b * digits_value b ds + d"
  by (simp add: digits_value_def)

lemma octal_of_digits: "(\<And>d. d \<in> set ds \<Longrightarrow> d < 10) \<Longrightarrow> octal_of (digits_value 10 ds) = digits_value 8 ds"
proof (induction ds rule: rev_induct)
  case Nil
  then show ?case by (simp add: digits_value_def octal_of.simps)
next
  case (snoc d ds)
  then show ?case by (simp add: digits_value_snoc octal_of_digit)
qed

lemma digits_value_bound: "(\<And>d. d \<in> set ds \<Longrightarrow> d < b) \<Longrightarrow> digits_value b ds < b ^ length ds"
proof (induction ds rule: rev_induct)
  case Nil
  then show ?case by (simp add: digits_value_def)
next
  case (snoc d ds)
  then have "Suc (digits_value b ds) \<le> b ^ length ds" by (simp add: Suc_leI)
  then have "b * Suc (digits_value b ds) \<le> b * b ^ length ds" by (rule mult_le_mono2)
  moreover have "d < b" using snoc.prems by simp
  ultimately show ?case by (simp add: digits_value_snoc)
qed

lemma digits_value_leading_zeros: "digits_value b (dropWhile ((=) 0) ds) = digits_value b ds"
  by (induction ds) (simp_all add: digits_value_def)

lemma atoi_loop_digits:
  "cstr m p (map (\<lambda>d. 0x30 + of_nat d) ds) \<Longrightarrow> (\<And>d. d \<in> set ds \<Longrightarrow> d < 10) \<Longrightarrow>
   atoi_loop p (of_nat v) m = Some (of_nat (foldl (\<lambda>v d. 10 * v + d) v ds))"
proof (induction ds arbitrary: p v)
  case Nil
  then show ?case by (simp add: atoi_loop.simps [of p])
next
  case (Cons d ds)
  have d: "d < 10" using Cons.prems(2) by simp
  then have "scast (0x30 + of_nat d :: u8) = (0x30 + of_nat d :: u32)"
    by (cases d rule: nat.exhaust) (simp_all add: less_Suc_eq numeral_eq_Suc, elim disjE, simp_all)
  moreover have "push_bit 3 (of_nat v :: u32) + push_bit 1 (of_nat v) = of_nat (10 * v)"
    by (simp add: push_bit_eq_mult)
  moreover have "m p \<noteq> 0" "m p = 0x30 + of_nat d" using Cons.prems(1) by auto
  ultimately have "atoi_loop p (of_nat v) m = atoi_loop (p + 1) (of_nat (10 * v + d)) m"
    by (simp add: atoi_loop.simps [of p])
  then show ?case using Cons.IH [of "p + 1" "10 * v + d"] Cons.prems by simp
qed

lemma word_of_nat_u64_inj: "(of_nat i :: u64) = of_nat j \<Longrightarrow> i < 2 ^ 64 \<Longrightarrow> j < 2 ^ 64 \<Longrightarrow> i = j"
  by (simp add: word_of_nat_eq_iff take_bit_nat_eq_self)

subsection \<open>Properties\<close>

definition ex_mem :: cmem where
  "ex_mem = (\<lambda>a. if a = 100 then 0x61 else if a = 101 then 0x62 else if a = 200 then 0x63 else 0)"

text \<open>\<open>kstrcpy\<close> on separate blocks copies the string with its terminator and writes nothing
  outside the destination block.\<close>

lemma kstrcpy_copies:
  assumes "cstr m src xs" and "length xs < 2 ^ 64 - 1"
    and "set (block dest (Suc (length xs))) \<inter> set (block src (Suc (length xs))) = {}"
  shows "\<exists>m'. kstrcpy dest src m = Some m' \<and> cstr m' dest xs \<and> cstr m' src xs \<and>
    (\<forall>a. a \<notin> set (block dest (Suc (length xs))) \<longrightarrow> m' a = m a)"
proof -
  obtain m' where m': "kstrcpy_loop dest src m = Some m'" "cstr m' dest xs"
    "\<And>a. a \<notin> set (block dest (Suc (length xs))) \<Longrightarrow> m' a = m a"
    using kstrcpy_loop_cstr [OF assms] by blast
  moreover have "cstr m' src xs"
  proof -
    have "cstr m' src xs = cstr m src xs"
      by (rule cstr_cong) (use assms(3) m'(3) in blast)
    then show ?thesis using assms(1) by simp
  qed
  ultimately show ?thesis by (auto simp: kstrcpy_def)
qed

lemma kstrcpy_copies_witness: "\<exists>m'. kstrcpy 300 100 ex_mem = Some m' \<and> cstr m' 300 [0x61, 0x62]"
proof -
  have "cstr ex_mem 100 [0x61, 0x62]" by (simp add: ex_mem_def)
  moreover have "set (block 300 (Suc (length [0x61 :: u8, 0x62]))) \<inter> set (block 100 (Suc (length [0x61 :: u8, 0x62]))) = {}"
    by code_simp
  ultimately show ?thesis using kstrcpy_copies [of ex_mem 100 "[0x61, 0x62]" 300] by auto
qed

text \<open>\<open>strcat\<close> leaves the concatenation of the two strings at the destination, when the source
  does not overlap the block the result occupies.\<close>

lemma strcat_appends:
  assumes "cstr m dest xs" and "cstr m src ys" and "length xs + length ys < 2 ^ 64 - 1"
    and "set (block dest (Suc (length xs + length ys))) \<inter> set (block src (Suc (length ys))) = {}"
  shows "\<exists>m'. strcat dest src m = Some m' \<and> cstr m' dest (xs @ ys)"
proof -
  let ?d = "dest + of_nat (length xs)"
  have sub: "set (block ?d (Suc (length ys))) \<subseteq> set (block dest (Suc (length xs + length ys)))"
  proof
    fix a assume "a \<in> set (block ?d (Suc (length ys)))"
    then obtain i where "i < Suc (length ys)" "a = ?d + of_nat i"
      by (auto simp: block_conv simp del: block.simps upt_Suc)
    then have "a = dest + of_nat (length xs + i)" "length xs + i < Suc (length xs + length ys)"
      by (simp_all add: add.assoc)
    then show "a \<in> set (block dest (Suc (length xs + length ys)))"
      unfolding block_conv by (auto simp del: of_nat_add upt_Suc)
  qed
  obtain m' where m': "kstrcpy_loop ?d src m = Some m'" "cstr m' ?d ys"
    "\<And>a. a \<notin> set (block ?d (Suc (length ys))) \<Longrightarrow> m' a = m a"
    using kstrcpy_loop_cstr [OF assms(2), of ?d] assms(3,4) sub by fastforce
  have "m' (dest + of_nat i) = xs ! i \<and> xs ! i \<noteq> 0" if i: "i < length xs" for i
  proof -
    have "dest + of_nat i \<notin> set (block ?d (Suc (length ys)))"
    proof
      assume "dest + of_nat i \<in> set (block ?d (Suc (length ys)))"
      then obtain j where j: "j < Suc (length ys)" "dest + of_nat i = ?d + of_nat j"
        by (auto simp: block_conv simp del: block.simps upt_Suc)
      then have eq: "(of_nat i :: u64) = of_nat (length xs + j)" by (simp add: add.assoc)
      have "length xs + j < 2 ^ 64" "i < 2 ^ 64" using j(1) i assms(3) by simp_all
      then have "i = length xs + j"
        using eq word_of_nat_u64_inj by blast
      with i show False by simp
    qed
    then have "m' (dest + of_nat i) = m (dest + of_nat i)" by (rule m'(3))
    then show ?thesis using assms(1) cstr_append [of m dest xs "[]"] i by simp
  qed
  then have "cstr m' dest (xs @ ys)" using m'(2) by (simp add: cstr_append)
  then show ?thesis using m'(1) by (auto simp: strcat_def strlen_loop_cstr [OF assms(1)])
qed

lemma strcat_appends_witness: "\<exists>m'. strcat 100 200 ex_mem = Some m' \<and> cstr m' 100 [0x61, 0x62, 0x63]"
proof -
  have "cstr ex_mem 100 [0x61, 0x62]" "cstr ex_mem 200 [0x63]" by (simp_all add: ex_mem_def)
  moreover have "set (block 100 (Suc (length [0x61 :: u8, 0x62] + length [0x63 :: u8]))) \<inter>
      set (block 200 (Suc (length [0x63 :: u8]))) = {}"
    by code_simp
  ultimately show ?thesis using strcat_appends [of ex_mem 100 "[0x61, 0x62]" 200 "[0x63]"] by auto
qed

text \<open>\<open>kstrcmp\<close> returns on any two strings; the result is 0 for equal strings and otherwise the
  sign of their lexicographic order on unsigned bytes.\<close>

lemma kstrcmp_compares:
  assumes "cstr m cs xs" and "cstr m ct ys"
  shows "kstrcmp cs ct m =
    Some (if xs = ys then 0 else if (xs, ys) \<in> lexord {(a, b). a < b} then -1 else 1)"
  by (rule kstrcmp_sign [OF assms])

lemma kstrcmp_compares_witness: "kstrcmp 100 200 ex_mem = Some (- 1)"
proof -
  have "cstr ex_mem 100 [0x61, 0x62]" "cstr ex_mem 200 [0x63]" by (simp_all add: ex_mem_def)
  from kstrcmp_compares [OF this] show ?thesis by simp
qed

text \<open>The size field of a tar header.  For a string of octal digits with at most nine
  significant ones, \<open>octal_to_decimal (atoi s)\<close> is the number the digits denote in base 8.\<close>

lemma octal_field_value:
  assumes "cstr m p (map (\<lambda>d. 0x30 + of_nat d) ds)" and "\<forall>d \<in> set ds. d < 8"
    and "length (dropWhile ((=) 0) ds) \<le> 9"
  shows "map_option octal_to_decimal (atoi p m) = Some (of_nat (digits_value 8 ds))"
proof -
  have d: "d < 10" if "d \<in> set ds" for d using assms(2) that by force
  let ?v = "digits_value 10 ds"
  have "digits_value 10 (dropWhile ((=) 0) ds) < 10 ^ length (dropWhile ((=) 0) ds)"
    by (rule digits_value_bound) (auto dest: set_dropWhileD d)
  also have "\<dots> \<le> (10 :: nat) ^ 9" by (rule power_increasing [OF assms(3)]) simp
  finally have v: "?v < 10 ^ 9" by (simp add: digits_value_leading_zeros)
  have "atoi_loop p 0 m = Some (of_nat ?v)"
    using atoi_loop_digits [OF assms(1) d, where v = 0] by (simp add: digits_value_def)
  moreover have "sint (of_nat ?v :: u32) = int ?v"
    using v by (simp add: signed_of_nat signed_take_bit_int_eq_self)
  moreover have "octal_to_decimal (int ?v) = of_nat (octal_of ?v)"
    using octal_loop_octal_of [of 0 ?v 0] v by (simp add: octal_to_decimal_def)
  ultimately show ?thesis
    using octal_of_digits [OF d] by (simp add: atoi_def)
qed

lemma octal_field_value_witness:
  "map_option octal_to_decimal (atoi 0 (\<lambda>a. if a < 3 then 0x31 else 0)) = Some 73"
proof -
  have "map_option octal_to_decimal (atoi 0 (\<lambda>a. if a < 3 then 0x31 else 0)) =
      Some (of_nat (digits_value 8 [1, 1, 1]))"
    by (rule octal_field_value) simp_all
  then show ?thesis by (simp add: digits_value_def)
qed

end
