(* ===== verification/Printf.thy ===== *)
theory Printf
  imports CString
begin

section \<open>Formatted output (\<open>w2/sys/kprintf.c\<close>, \<open>w2/libc/printf.c\<close>)\<close>

text \<open>
  The formatter that the kernel and the C library share (both files have the same text for
  \<open>skip_atoi\<close>, \<open>number\<close> and \<open>vsprintf\<close>).  The output buffer is the list of the bytes written to it;
  it has to be separate from the format and from the strings it prints.  An argument of a variadic
  call is a machine word of 64 bits, of which \<open>va_arg(args, int)\<close> takes the lower half; a string
  argument is an address in the byte memory \<open>m\<close>.  Taking an argument that was not passed has no
  result.  A C \<open>int\<close> that only counts characters is an \<open>int\<close>.
\<close>

subsection \<open>Flags and characters\<close>

definition ZEROPAD :: u32 where "ZEROPAD = 1"
definition SIGN :: u32 where "SIGN = 2"
definition PLUS :: u32 where "PLUS = 4"
definition SPACE :: u32 where "SPACE = 8"
definition LEFT :: u32 where "LEFT = 16"
definition SMALL :: u32 where "SMALL = 32"
definition SPECIAL :: u32 where "SPECIAL = 64"

lemmas flag_defs = ZEROPAD_def SIGN_def PLUS_def SPACE_def LEFT_def SMALL_def SPECIAL_def

abbreviation ch_percent :: u8 where "ch_percent \<equiv> 0x25"
abbreviation ch_space :: u8 where "ch_space \<equiv> 0x20"
abbreviation ch_hash :: u8 where "ch_hash \<equiv> 0x23"
abbreviation ch_star :: u8 where "ch_star \<equiv> 0x2A"
abbreviation ch_plus :: u8 where "ch_plus \<equiv> 0x2B"
abbreviation ch_minus :: u8 where "ch_minus \<equiv> 0x2D"
abbreviation ch_dot :: u8 where "ch_dot \<equiv> 0x2E"
abbreviation ch_0 :: u8 where "ch_0 \<equiv> 0x30"

definition is_digit :: "u8 \<Rightarrow> bool" where
  "is_digit c \<longleftrightarrow> 0x30 \<le> c \<and> c \<le> 0x39"

fun skip_atoi_loop :: "int \<Rightarrow> bytes \<Rightarrow> int \<times> bytes" where
  "skip_atoi_loop i [] = (i, [])"
| "skip_atoi_loop i (c # s) =
     (if is_digit c then skip_atoi_loop (i * 10 + uint c - 0x30) s else (i, c # s))"

definition skip_atoi :: "bytes \<Rightarrow> int \<times> bytes" where
  "skip_atoi s = skip_atoi_loop 0 s"

subsection \<open>Numbers\<close>

definition digits :: "u64 \<Rightarrow> u8" where
  "digits d = (if d < 10 then 0x30 + ucast d else 0x41 + (ucast d - 10))"

text \<open>The characters of \<open>tmp\<close>, the lowest digit first.  A base below 2 never reaches this loop.\<close>

function number_digits :: "u64 \<Rightarrow> u64 \<Rightarrow> u8 \<Rightarrow> bytes" where
  "number_digits num base locase =
     (if num = 0 \<or> base < 2 then []
      else (digits (num mod base) OR locase) # number_digits (num div base) base locase)"
  by pat_completeness auto

lemma div_less_self:
  fixes x b :: u64
  assumes "x \<noteq> 0" and "\<not> b < 2"
  shows "unat (x div b) < unat x"
  using assms by (simp add: unat_div word_less_nat_alt unat_gt_0)

termination number_digits
  by (relation "measure (\<lambda>(num, b, l). unat num)") (use div_less_self in auto)

declare number_digits.simps [simp del]

text \<open>\<open>while (size-- > 0) *str++ = c;\<close>: the characters written and the new \<open>size\<close>.\<close>

definition pad :: "int \<Rightarrow> u8 \<Rightarrow> bytes \<times> int" where
  "pad sz c = (replicate (nat sz) c, if sz > 0 then -1 else sz - 1)"

definition number_sign :: "u64 \<Rightarrow> int \<Rightarrow> u32 \<Rightarrow> bytes \<times> u64 \<times> int" where
  "number_sign num sz type =
     (if type AND SIGN \<noteq> 0
      then if sint num < 0 then ([ch_minus], - num, sz - 1)
           else if type AND PLUS \<noteq> 0 then ([ch_plus], num, sz - 1)
           else if type AND SPACE \<noteq> 0 then ([ch_space], num, sz - 1)
           else ([], num, sz)
      else ([], num, sz))"

definition number_prefix :: "int \<Rightarrow> u32 \<Rightarrow> u8 \<Rightarrow> bytes" where
  "number_prefix base type locase =
     (if type AND SPECIAL \<noteq> 0
      then if base = 8 then [ch_0] else if base = 16 then [ch_0, 0x58 OR locase] else []
      else [])"

definition number_tmp :: "u64 \<Rightarrow> int \<Rightarrow> u8 \<Rightarrow> bytes" where
  "number_tmp num base locase =
     (if num = 0 then [ch_0] else number_digits num (word_of_int base) locase)"

text \<open>Padding, sign, prefix, zeros and digits in the order they are written.\<close>

definition number_layout :: "u32 \<Rightarrow> int \<Rightarrow> int \<Rightarrow> bytes \<Rightarrow> bytes \<Rightarrow> bytes \<Rightarrow> bytes" where
  "number_layout type sz precision sign prefix tmp = (
     let c = (if type AND ZEROPAD \<noteq> 0 then ch_0 else ch_space);
         (out1, sz) = (if type AND (ZEROPAD + LEFT) = 0 then pad sz ch_space else ([], sz));
         (out2, sz) = (if type AND LEFT = 0 then pad sz c else ([], sz));
         zeros = replicate (nat (precision - int (length tmp))) ch_0;
         (out3, sz) = pad sz ch_space
     in out1 @ sign @ prefix @ out2 @ zeros @ rev tmp @ out3)"

definition number :: "bytes \<Rightarrow> u64 \<Rightarrow> int \<Rightarrow> int \<Rightarrow> int \<Rightarrow> u32 \<Rightarrow> bytes option" where
  "number str num base sz precision type = (
     let locase = ucast (type AND SMALL);
         type = (if type AND LEFT \<noteq> 0 then type AND NOT ZEROPAD else type)
     in if base < 2 \<or> base > 16 then None
     else let
         (sign, num, sz) = number_sign num sz type;
         sz = (if type AND SPECIAL \<noteq> 0
               then if base = 16 then sz - 2 else if base = 8 then sz - 1 else sz
               else sz);
         tmp = number_tmp num base locase;
         precision = (if int (length tmp) > precision then int (length tmp) else precision);
         sz = sz - precision
     in Some (str @ number_layout type sz precision sign (number_prefix base type locase) tmp))"

subsection \<open>Directives\<close>

fun parse_flags :: "bytes \<Rightarrow> u32 \<Rightarrow> u32 \<times> bytes" where
  "parse_flags [] flags = (flags, [])"
| "parse_flags (c # f) flags =
     (if c = ch_minus then parse_flags f (flags OR LEFT)
      else if c = ch_plus then parse_flags f (flags OR PLUS)
      else if c = ch_space then parse_flags f (flags OR SPACE)
      else if c = ch_hash then parse_flags f (flags OR SPECIAL)
      else if c = ch_0 then parse_flags f (flags OR ZEROPAD)
      else (flags, c # f))"

fun va_arg :: "u64 list \<Rightarrow> (u64 \<times> u64 list) option" where
  "va_arg [] = None"
| "va_arg (a # args) = Some (a, args)"

definition va_int :: "u64 list \<Rightarrow> (u32 \<times> u64 list) option" where
  "va_int args = do { (a, args) \<leftarrow> va_arg args; Some (ucast a, args) }"

definition parse_width :: "bytes \<Rightarrow> u32 \<Rightarrow> u64 list \<Rightarrow> (int \<times> u32 \<times> bytes \<times> u64 list) option" where
  "parse_width f flags args =
     (case f of
        [] \<Rightarrow> Some (-1, flags, f, args)
      | c # f' \<Rightarrow>
          if is_digit c then (let (w, f) = skip_atoi f in Some (w, flags, f, args))
          else if c = ch_star then do {
            (a, args) \<leftarrow> va_int args;
            Some (if sint a < 0 then (sint (- a), flags OR LEFT, f', args) else (sint a, flags, f', args))
          }
          else Some (-1, flags, f, args))"

definition parse_precision :: "bytes \<Rightarrow> u64 list \<Rightarrow> (int \<times> bytes \<times> u64 list) option" where
  "parse_precision f args =
     (case f of
        c # f \<Rightarrow>
          if c = ch_dot then do {
            (p, f, args) \<leftarrow>
              (case f of
                 d # f' \<Rightarrow>
                   if is_digit d then (let (p, f) = skip_atoi f in Some (p, f, args))
                   else if d = ch_star then do { (a, args) \<leftarrow> va_int args; Some (sint a, f', args) }
                   else Some (-1, f, args)
               | [] \<Rightarrow> Some (-1, f, args));
            Some (if p < 0 then 0 else p, f, args)
          }
          else Some (-1, c # f, args)
      | [] \<Rightarrow> Some (-1, f, args))"

definition parse_qualifier :: "bytes \<Rightarrow> u8 option \<times> bytes" where
  "parse_qualifier f =
     (case f of
        [] \<Rightarrow> (None, f)
      | c # f' \<Rightarrow> if c \<in> {0x68, 0x6C, 0x4C} then (Some c, f') else (None, f))"

text \<open>The stores of the directive \<open>%n\<close>: a value of \<open>n\<close> bytes, the lowest first.\<close>

fun store_le :: "nat \<Rightarrow> u64 \<Rightarrow> u64 \<Rightarrow> cmem \<Rightarrow> cmem" where
  "store_le 0 p v m = m"
| "store_le (Suc n) p v m = store_le n (p + 1) (drop_bit 8 v) (m(p := ucast v))"

definition format_c :: "u32 \<Rightarrow> int \<Rightarrow> u8 \<Rightarrow> bytes" where
  "format_c flags width ch =
     (let blanks = replicate (nat (width - 1)) ch_space
      in if flags AND LEFT = 0 then blanks @ [ch] else ch # blanks)"

definition format_s :: "u32 \<Rightarrow> int \<Rightarrow> bytes \<Rightarrow> bytes" where
  "format_s flags width s =
     (let blanks = replicate (nat (width - int (length s))) ch_space
      in if flags AND LEFT = 0 then blanks @ s else s @ blanks)"

text \<open>The integer argument with its qualifier.\<close>

definition int_arg :: "u8 option \<Rightarrow> u32 \<Rightarrow> u64 list \<Rightarrow> (u64 \<times> u64 list) option" where
  "int_arg qualifier flags args =
     (if qualifier = Some 0x6C then va_arg args
      else if qualifier = Some 0x68 then do {
        (a, args) \<leftarrow> va_int args;
        let num = (ucast a :: u16);
        Some (if flags AND SIGN \<noteq> 0 then scast num else ucast num, args)
      }
      else do {
        (a, args) \<leftarrow> va_int args;
        Some (if flags AND SIGN \<noteq> 0 then scast a else ucast a, args)
      })"

definition format_int ::
  "int \<Rightarrow> u8 option \<Rightarrow> u32 \<Rightarrow> int \<Rightarrow> int \<Rightarrow> bytes \<Rightarrow> u64 list \<Rightarrow> (bytes \<times> u64 list) option" where
  "format_int base qualifier flags width precision str args = do {
     (num, args) \<leftarrow> int_arg qualifier flags args;
     str \<leftarrow> number str num base width precision flags;
     Some (str, args)
   }"

text \<open>A pointer without a field width gets one of \<open>2 * sizeof(void *)\<close> and leading zeros.\<close>

definition format_p :: "u32 \<Rightarrow> int \<Rightarrow> int \<Rightarrow> bytes \<Rightarrow> u64 \<Rightarrow> bytes option" where
  "format_p flags width precision str a =
     (if width = -1 then number str a 16 (2 * 8) precision (flags OR ZEROPAD)
      else number str a 16 width precision flags)"

text \<open>One directive; the format is the text behind the percent sign.\<close>

definition directive ::
  "bytes \<Rightarrow> u64 list \<Rightarrow> cmem \<Rightarrow> bytes \<Rightarrow> (bytes \<times> u64 list \<times> cmem \<times> bytes) option" where
  "directive f args m str = do {
     let (flags, f) = parse_flags f 0;
     (width, flags, f, args) \<leftarrow> parse_width f flags args;
     (precision, f, args) \<leftarrow> parse_precision f args;
     let (qualifier, f) = parse_qualifier f;
     (case f of
        [] \<Rightarrow> Some (str @ [ch_percent], args, m, [])
      | c # f \<Rightarrow>
          if c = 0x63 then do {
            (a, args) \<leftarrow> va_int args;
            Some (str @ format_c flags width (ucast a), args, m, f)
          }
          else if c = 0x73 then do {
            (a, args) \<leftarrow> va_arg args;
            s \<leftarrow> read_cstr m a;
            Some (str @ format_s flags width s, args, m, f)
          }
          else if c = 0x70 then do {
            (a, args) \<leftarrow> va_arg args;
            str \<leftarrow> format_p flags width precision str a;
            Some (str, args, m, f)
          }
          else if c = 0x6E then do {
            (a, args) \<leftarrow> va_arg args;
            let n = (if qualifier = Some 0x6C then 8 else 4);
            Some (str, args, store_le n a (of_nat (length str)) m, f)
          }
          else if c = ch_percent then Some (str @ [ch_percent], args, m, f)
          else if c = 0x6F then do {
            (str, args) \<leftarrow> format_int 8 qualifier flags width precision str args; Some (str, args, m, f) }
          else if c = 0x78 then do {
            (str, args) \<leftarrow> format_int 16 qualifier (flags OR SMALL) width precision str args; Some (str, args, m, f) }
          else if c = 0x58 then do {
            (str, args) \<leftarrow> format_int 16 qualifier flags width precision str args; Some (str, args, m, f) }
          else if c = 0x64 \<or> c = 0x69 then do {
            (str, args) \<leftarrow> format_int 10 qualifier (flags OR SIGN) width precision str args; Some (str, args, m, f) }
          else if c = 0x75 then do {
            (str, args) \<leftarrow> format_int 10 qualifier flags width precision str args; Some (str, args, m, f) }
          else Some (str @ [ch_percent, c], args, m, f))
   }"

text \<open>Every directive consumes part of the format, so that the loop of \<open>kvsprintf\<close> ends.\<close>

lemma skip_atoi_loop_length: "length (snd (skip_atoi_loop i f)) \<le> length f"
  by (induction i f rule: skip_atoi_loop.induct) (auto intro: le_SucI)

lemma skip_atoi_length: "skip_atoi f = (w, f') \<Longrightarrow> length f' \<le> length f"
  using skip_atoi_loop_length [of 0 f] by (simp add: skip_atoi_def)

lemma parse_flags_length: "parse_flags f fl = (fl', f') \<Longrightarrow> length f' \<le> length f"
  by (induction f fl rule: parse_flags.induct) (auto split: if_splits intro: le_SucI)

lemma parse_width_length: "parse_width f fl args = Some (w, fl', f', args') \<Longrightarrow> length f' \<le> length f"
  by (auto simp: parse_width_def split: list.splits if_splits prod.splits bind_splits dest!: skip_atoi_length)

lemma parse_precision_length: "parse_precision f args = Some (p, f', args') \<Longrightarrow> length f' \<le> length f"
  by (auto simp: parse_precision_def split: list.splits if_splits prod.splits bind_splits dest!: skip_atoi_length)

lemma parse_qualifier_length: "parse_qualifier f = (q, f') \<Longrightarrow> length f' \<le> length f"
  by (auto simp: parse_qualifier_def split: list.splits if_splits)

lemma directive_length:
  assumes "directive f args m str = Some (str', args', m', f')"
  shows "length f' \<le> length f"
proof -
  obtain fl f1 where 1: "parse_flags f 0 = (fl, f1)" by fastforce
  obtain w fl2 f2 args2 where 2: "parse_width f1 fl args = Some (w, fl2, f2, args2)"
    using assms 1 by (auto simp: directive_def split: bind_splits)
  obtain pr f3 args3 where 3: "parse_precision f2 args2 = Some (pr, f3, args3)"
    using assms 1 2 by (auto simp: directive_def split: bind_splits)
  obtain q f4 where 4: "parse_qualifier f3 = (q, f4)" by fastforce
  have "length f' \<le> length f4"
    using assms 1 2 3 4 by (auto simp: directive_def split: list.splits if_splits bind_splits)
  also have "\<dots> \<le> length f"
    using parse_flags_length [OF 1] parse_width_length [OF 2] parse_precision_length [OF 3]
      parse_qualifier_length [OF 4] by simp
  finally show ?thesis .
qed

subsection \<open>The formatter and its callers\<close>

function kvsprintf_loop :: "bytes \<Rightarrow> u64 list \<Rightarrow> cmem \<Rightarrow> bytes \<Rightarrow> (bytes \<times> cmem) option" where
  "kvsprintf_loop [] args m str = Some (str, m)"
| "kvsprintf_loop (c # fmt) args m str =
     (if c \<noteq> ch_percent then kvsprintf_loop fmt args m (str @ [c])
      else case directive fmt args m str of
             None \<Rightarrow> None
           | Some (str, args, m, fmt) \<Rightarrow> kvsprintf_loop fmt args m str)"
  by pat_completeness auto
termination
  by (relation "measure (\<lambda>(fmt, _). length fmt)") (auto dest: directive_length)

definition kvsprintf :: "bytes \<Rightarrow> u64 list \<Rightarrow> cmem \<Rightarrow> (bytes \<times> cmem) option" where
  "kvsprintf fmt args m = kvsprintf_loop fmt args m []"

text \<open>The library's copy of the formatter.\<close>

definition vsprintf :: "bytes \<Rightarrow> u64 list \<Rightarrow> cmem \<Rightarrow> (bytes \<times> cmem) option" where
  "vsprintf fmt args m = kvsprintf_loop fmt args m []"

subsection \<open>The length of a number\<close>

lemma pad_length: "length (fst (pad sz c)) = nat sz" "snd (pad sz c) = (if sz > 0 then -1 else sz - 1)"
  by (simp_all add: pad_def)

text \<open>\<open>tmp\<close> has 66 places; in base \<open>b\<close> a value below \<open>b^k\<close> needs at most \<open>k\<close> of them.\<close>

lemma number_digits_length: "unat num < unat base ^ k \<Longrightarrow> length (number_digits num base l) \<le> k"
proof (induction num base l arbitrary: k rule: number_digits.induct)
  case (1 num base l)
  show ?case
  proof (cases "num = 0 \<or> base < 2")
    case True
    then show ?thesis by (subst number_digits.simps) simp
  next
    case False
    then obtain j where k: "k = Suc j"
      using "1.prems" by (cases k) (auto simp: unat_eq_0)
    have "unat base > 0" using False by (auto simp: word_less_nat_alt)
    then have "unat (num div base) < unat base ^ j"
      using "1.prems" k by (simp add: unat_div div_less_iff_less_mult mult.commute)
    then have "length (number_digits (num div base) base l) \<le> j" using "1.IH" False by simp
    then show ?thesis using False k by (subst number_digits.simps) simp
  qed
qed

lemma flag_without_zeropad:
  "(type AND NOT ZEROPAD) AND SIGN = type AND SIGN" "(type AND NOT ZEROPAD) AND PLUS = type AND PLUS"
  "(type AND NOT ZEROPAD) AND SPACE = type AND SPACE" "(type AND NOT ZEROPAD) AND LEFT = type AND LEFT"
  "(type AND NOT ZEROPAD) AND SPECIAL = type AND SPECIAL"
  by (simp_all add: flag_defs and.assoc)

text \<open>The three places where \<open>number\<close> pads share one counter: together they write it out once.\<close>

lemma number_layout_length:
  "int (length tmp) \<le> precision \<Longrightarrow>
   length (number_layout type sz precision sign prefix tmp) =
     nat sz + length sign + length prefix + nat precision"
  by (simp add: number_layout_def pad_def Let_def)

lemma number_prefix_length:
  "length (number_prefix base type locase) = (if type AND SPECIAL \<noteq> 0 then if base = 16 then 2 else if base = 8 then 1 else 0 else 0)"
  by (simp add: number_prefix_def)

lemma number_sign_length:
  "number_sign num sz type = (sign, v, sz') \<Longrightarrow> sz' = sz - int (length sign) \<and> length sign \<le> 1 \<and>
     v = (if type AND SIGN \<noteq> 0 \<and> sint num < 0 then - num else num)"
  by (auto simp: number_sign_def split: if_splits)

lemma unat_word_of_int_small: "2 \<le> b \<Longrightarrow> b \<le> 16 \<Longrightarrow> unat (word_of_int b :: u64) = nat b"
proof -
  assume b: "2 \<le> b" "b \<le> 16"
  then have "word_of_int b = (of_nat (nat b) :: u64)" by simp
  then show "unat (word_of_int b :: u64) = nat b" using b by (simp add: unat_of_nat del: of_nat_nat)
qed

lemma number_tmp_length: "unat num < nat base ^ k \<Longrightarrow> 2 \<le> base \<Longrightarrow> base \<le> 16 \<Longrightarrow> 0 < k \<Longrightarrow> length (number_tmp num base l) \<le> k"
  using number_digits_length [of num "word_of_int base" k l]
  by (simp add: number_tmp_def unat_word_of_int_small)

lemma pad_sum: "0 \<le> p \<Longrightarrow> nat (s - int a - int b - p) + a + b + nat p = nat (max s (int (a + b) + p))"
  by linarith

lemma number_length:
  assumes "8 \<le> base" "base \<le> 16"
  shows "\<exists>out (sign :: bytes) (prefix :: bytes) (tmp :: bytes). number str num base sz precision type = Some (str @ out) \<and>
     length out = nat (max sz (int (length sign + length prefix) + max precision (int (length tmp)))) \<and>
     length sign \<le> 1 \<and> length prefix \<le> 2 \<and> length tmp \<le> 22"
proof -
  define ty where "ty = (if type AND LEFT \<noteq> 0 then type AND NOT ZEROPAD else type)"
  obtain sign v sz' where sg: "number_sign num sz ty = (sign, v, sz')" by (cases "number_sign num sz ty")
  define prefix tmp where "prefix = number_prefix base ty (ucast (type AND SMALL))"
    and "tmp = number_tmp v base (ucast (type AND SMALL))"
  define pr where "pr = (if int (length tmp) > precision then int (length tmp) else precision)"
  define sz2 where "sz2 = (if ty AND SPECIAL \<noteq> 0 then if base = 16 then sz' - 2 else if base = 8 then sz' - 1 else sz' else sz') - pr"
  define out where "out = number_layout ty sz2 pr sign prefix tmp"
  have "number str num base sz precision type = Some (str @ out)"
    using assms unfolding number_def Let_def ty_def [symmetric] sg out_def sz2_def pr_def prefix_def tmp_def by simp
  moreover have "length out = nat (max sz (int (length sign + length prefix) + max precision (int (length tmp))))"
  proof -
    have "sz2 = sz - int (length sign) - int (length prefix) - pr"
      using number_sign_length [OF sg] by (simp add: sz2_def prefix_def number_prefix_length)
    moreover have "length out = nat sz2 + length sign + length prefix + nat pr"
      unfolding out_def by (rule number_layout_length) (simp add: pr_def)
    moreover have "pr = max precision (int (length tmp))" by (simp add: pr_def max_def)
    moreover have "0 \<le> pr" by (simp add: pr_def)
    ultimately show ?thesis by (simp only: pad_sum)
  qed
  moreover have "length tmp \<le> 22" unfolding tmp_def
  proof (rule number_tmp_length)
    have "(8 :: nat) ^ 22 \<le> nat base ^ 22" by (rule power_mono) (use assms in auto)
    then show "unat v < nat base ^ 22" using unat_u64 [of v] by simp
  qed (use assms in auto)
  moreover have "length sign \<le> 1" "length prefix \<le> 2"
    using number_sign_length [OF sg] by (simp_all add: prefix_def number_prefix_length)
  ultimately show ?thesis by blast
qed

lemma number_digits_value:
  "\<exists>ds. rev (number_digits num 10 0) = map (\<lambda>d. 0x30 + of_nat d) ds \<and> (\<forall>d \<in> set ds. d < 10) \<and>
     digits_value 10 ds = unat num"
proof (induction "unat num" arbitrary: num rule: less_induct)
  case less
  show ?case
  proof (cases "num = 0")
    case True
    then show ?thesis by (intro exI [of _ "[]"]) (simp add: number_digits.simps digits_value_def)
  next
    case False
    then obtain ds where ds: "rev (number_digits (num div 10) 10 0) = map (\<lambda>d. 0x30 + of_nat d) ds"
      "\<forall>d \<in> set ds. d < 10" "digits_value 10 ds = unat (num div 10)"
      using less [of "num div 10"] div_less_self [of num 10] by auto
    have d: "unat (num mod 10) < 10" "num mod 10 < 10" by (simp_all add: unat_mod word_less_nat_alt)
    have "digits (num mod 10) OR 0 = 0x30 + of_nat (unat (num mod 10))"
      using d(2) by (simp add: digits_def del: unat_mod)
    then have "rev (number_digits num 10 0) = map (\<lambda>d. 0x30 + of_nat d) (ds @ [unat (num mod 10)])"
      using False ds(1) by (subst number_digits.simps) simp
    moreover have "digits_value 10 (ds @ [unat (num mod 10)]) = unat num"
      by (simp add: digits_value_snoc ds(3) unat_div unat_mod)
    ultimately show ?thesis using ds(2) d(1) by (intro exI [of _ "ds @ [unat (num mod 10)]"]) simp
  qed
qed

text \<open>A number printed in base 10 with leading zeros, of any width and precision.\<close>

lemma number_decimal:
  "\<exists>ds. number str num 10 sz precision ZEROPAD = Some (str @ map (\<lambda>d. 0x30 + of_nat d) ds) \<and>
     (\<forall>d \<in> set ds. d < 10) \<and> digits_value 10 ds = unat num \<and> ds \<noteq> []"
proof -
  obtain ds where ds: "rev (number_tmp num 10 0) = map (\<lambda>d. 0x30 + of_nat d) ds" "\<forall>d \<in> set ds. d < 10"
    "digits_value 10 ds = unat num" "ds \<noteq> []"
  proof (cases "num = 0")
    case True
    then show ?thesis by (intro that [of "[0]"]) (simp_all add: number_tmp_def digits_value_def)
  next
    case False
    obtain ds where ds: "rev (number_digits num 10 0) = map (\<lambda>d. 0x30 + of_nat d) ds" "\<forall>d \<in> set ds. d < 10"
      "digits_value 10 ds = unat num"
      using number_digits_value by blast
    moreover have "ds \<noteq> []" using ds(3) False by (auto simp: digits_value_def unat_eq_0)
    ultimately show ?thesis using False by (intro that [of ds]) (simp_all add: number_tmp_def)
  qed
  have zeros: "digits_value 10 (replicate n 0 @ ds) = digits_value 10 ds" for n
    by (induction n) (simp_all add: digits_value_def)
  let ?len = "int (length (number_tmp num 10 0))"
  let ?pr = "if ?len > precision then ?len else precision"
  have "number str num 10 sz precision ZEROPAD =
      Some (str @ replicate (nat (sz - ?pr) + nat (?pr - ?len)) ch_0 @ rev (number_tmp num 10 0))"
    by (simp add: number_def number_layout_def number_sign_def number_prefix_def pad_def Let_def
      flag_defs replicate_add)
  then obtain n where "number str num 10 sz precision ZEROPAD = Some (str @ replicate n ch_0 @ rev (number_tmp num 10 0))"
    by blast
  then show ?thesis
    using ds zeros by (intro exI [of _ "replicate n 0 @ ds"]) auto
qed

lemma sint_of_nat_small: "n < 2 ^ 31 \<Longrightarrow> sint (of_nat n :: u32) = int n"
  by (simp add: signed_of_nat signed_take_bit_int_eq_self)

subsection \<open>Formatting returns\<close>

text \<open>A directive consumes at most one argument for every character of the format.\<close>

lemma va_arg_returns: "args \<noteq> [] \<Longrightarrow> va_arg args = Some (hd args, tl args)"
  by (cases args) auto

lemma va_int_returns: "args \<noteq> [] \<Longrightarrow> va_int args = Some (ucast (hd args), tl args)"
  by (simp add: va_int_def va_arg_returns)

lemma suffix_Cons_ex: "s = pre @ x \<Longrightarrow> \<exists>pre. c # s = pre @ x"
  by (rule exI [of _ "c # pre"]) simp

lemma skip_atoi_suffix: "\<exists>pre. f = pre @ snd (skip_atoi f)"
proof -
  have "\<exists>pre. f = pre @ snd (skip_atoi_loop i f)" for i
    by (induction i f rule: skip_atoi_loop.induct) (auto intro: suffix_Cons_ex)
  then show ?thesis by (simp add: skip_atoi_def)
qed

definition enough :: "cmem \<Rightarrow> bytes \<Rightarrow> u64 list \<Rightarrow> bool" where
  "enough m f args \<longleftrightarrow> length f \<le> length args \<and> 0x6E \<notin> set f \<and> (\<forall>a \<in> set args. read_cstr m a \<noteq> None)"

lemma enough_suffix: "enough m (pre @ f) args \<Longrightarrow> enough m f args"
  by (auto simp: enough_def)

lemma enough_Cons: "enough m (c # f) args \<Longrightarrow> args \<noteq> [] \<and> enough m f args \<and> enough m f (tl args)"
  by (cases args) (auto simp: enough_def)

lemma enough_skip: "enough m f args \<Longrightarrow> skip_atoi f = (w, f') \<Longrightarrow> enough m f' args"
  using skip_atoi_suffix [of f] enough_suffix by (metis snd_conv)

lemma parse_flags_suffix: "\<exists>pre. f = pre @ snd (parse_flags f fl)"
  by (induction f fl rule: parse_flags.induct) (auto intro: suffix_Cons_ex)

lemma parse_width_returns:
  "enough m f args \<Longrightarrow> \<exists>w fl' f' args'. parse_width f fl args = Some (w, fl', f', args') \<and> enough m f' args'"
  by (cases f)
    (auto simp: parse_width_def va_int_returns split: prod.splits dest: enough_Cons intro: enough_skip)

lemma parse_precision_returns:
  assumes "enough m f args"
  shows "\<exists>p f' args'. parse_precision f args = Some (p, f', args') \<and> enough m f' args'"
proof (cases f)
  case Nil
  then show ?thesis using assms by (simp add: parse_precision_def)
next
  case (Cons c g)
  then have g: "enough m g args" using assms enough_Cons by blast
  show ?thesis
  proof (cases g)
    case Nil
    then show ?thesis using assms g Cons by (simp add: parse_precision_def)
  next
    case (Cons d h)
    then have h: "args \<noteq> []" "enough m h args" "enough m h (tl args)" using g enough_Cons by blast+
    obtain p g' where sk: "skip_atoi g = (p, g')" by fastforce
    then have "enough m g' args" using g enough_skip by blast
    then show ?thesis using assms g h \<open>f = c # g\<close> Cons sk by (simp add: parse_precision_def va_int_returns)
  qed
qed

lemma parse_qualifier_suffix: "\<exists>pre. f = pre @ snd (parse_qualifier f)"
  by (auto simp: parse_qualifier_def split: list.splits)

lemma int_arg_returns:
  "args \<noteq> [] \<Longrightarrow> \<exists>num. int_arg q fl args = Some (num, tl args)"
  by (simp add: int_arg_def va_arg_returns va_int_returns Let_def)

lemma format_int_returns:
  "args \<noteq> [] \<Longrightarrow> 2 \<le> base \<Longrightarrow> base \<le> 16 \<Longrightarrow>
   \<exists>str'. format_int base q fl w p str args = Some (str', tl args)"
  using int_arg_returns [of args q fl]
  by (auto simp: format_int_def number_def Let_def split: prod.splits)

lemma format_p_returns: "\<exists>str'. format_p fl w p str a = Some str'"
  using number_length [of 16 str a 16 p "fl OR ZEROPAD"] number_length [of 16 str a w p fl]
  by (auto simp: format_p_def)

lemma directive_returns:
  assumes "enough m f args"
  shows "\<exists>str' args' f'. directive f args m str = Some (str', args', m, f') \<and> enough m f' args'"
proof -
  obtain fl f1 where 1: "parse_flags f 0 = (fl, f1)" by fastforce
  have "enough m f1 args" using assms parse_flags_suffix [of f 0] 1 by (metis enough_suffix snd_conv)
  then obtain w fl2 f2 args2 where 2: "parse_width f1 fl args = Some (w, fl2, f2, args2)" "enough m f2 args2"
    using parse_width_returns by blast
  obtain pr f3 args3 where 3: "parse_precision f2 args2 = Some (pr, f3, args3)" "enough m f3 args3"
    using parse_precision_returns [OF 2(2)] by blast
  obtain q f4 where 4: "parse_qualifier f3 = (q, f4)" by fastforce
  have f4: "enough m f4 args3" using 3(2) parse_qualifier_suffix [of f3] 4 by (metis enough_suffix snd_conv)
  show ?thesis
  proof (cases f4)
    case Nil
    then show ?thesis using 1 2(1) 3(1) 4 f4 by (simp add: directive_def)
  next
    case (Cons c g)
    have args: "args3 \<noteq> []" "enough m g args3" "enough m g (tl args3)" "c \<noteq> 0x6E"
      using enough_Cons [of m c g args3] f4 Cons by (auto simp: enough_def)
    then have "read_cstr m (hd args3) \<noteq> None" using f4 by (simp add: enough_def)
    then obtain s where s: "read_cstr m (hd args3) = Some s" by blast
    obtain s1 s2 s3 s4 s5 s6 where fi:
      "format_int 8 q fl2 w pr str args3 = Some (s1, tl args3)"
      "format_int 16 q fl2 w pr str args3 = Some (s2, tl args3)"
      "format_int 16 q (fl2 OR SMALL) w pr str args3 = Some (s3, tl args3)"
      "format_int 10 q fl2 w pr str args3 = Some (s4, tl args3)"
      "format_int 10 q (fl2 OR SIGN) w pr str args3 = Some (s5, tl args3)"
      "format_p fl2 w pr str (hd args3) = Some s6"
      using format_int_returns [OF args(1), of 8 q fl2 w pr str] format_int_returns [OF args(1), of 16 q fl2 w pr str]
        format_int_returns [OF args(1), of 16 q "fl2 OR SMALL" w pr str]
        format_int_returns [OF args(1), of 10 q fl2 w pr str]
        format_int_returns [OF args(1), of 10 q "fl2 OR SIGN" w pr str] format_p_returns [of fl2 w pr str "hd args3"]
      by auto
    show ?thesis
      unfolding directive_def
      using 1 2(1) 3(1) 4 args s Cons by (simp add: va_arg_returns va_int_returns fi)
  qed
qed

lemma kvsprintf_loop_returns: "enough m fmt args \<Longrightarrow> \<exists>str'. kvsprintf_loop fmt args m str = Some (str', m)"
proof (induction "length fmt" arbitrary: fmt args str rule: less_induct)
  case less
  show ?case
  proof (cases fmt)
    case (Cons c f)
    then have f: "enough m f args" using less.prems enough_Cons by blast
    obtain str' args' f' where d: "directive f args m str = Some (str', args', m, f')" "enough m f' args'"
      using directive_returns [OF f] by blast
    then show ?thesis
      using less.hyps [of f args] less.hyps [of f' args'] f Cons directive_length [OF d(1)] by auto
  qed simp
qed

subsection \<open>Properties\<close>

text \<open>\<open>number\<close> writes exactly the field width, or less than 26 characters when that is wider
  than the field and no precision asks for more.\<close>

lemma number_width_bounds:
  assumes "8 \<le> base" "base \<le> 16"
  shows "\<exists>out. number str num base sz precision type = Some (str @ out) \<and>
    sz \<le> int (length out) \<and> int (length out) \<le> max sz (3 + max precision 22)"
proof -
  obtain out and sign prefix tmp :: bytes where
    "number str num base sz precision type = Some (str @ out)"
    "length out = nat (max sz (int (length sign + length prefix) + max precision (int (length tmp))))"
    "length sign \<le> 1" "length prefix \<le> 2" "length tmp \<le> 22"
    using number_length [OF assms] by blast
  then show ?thesis by (intro exI [of _ out]) auto
qed

lemma number_width_bounds_witness:
  "\<exists>out. number [] 0xFF 16 (-1) (-1) (SMALL OR SPECIAL) = Some ([] @ out) \<and> length out = 4 \<and> int (length out) \<le> 25"
proof -
  have "number [] 0xFF 16 (-1) (-1) (SMALL OR SPECIAL) = Some (str_bytes ''0xff'')" by code_simp
  moreover have "length (str_bytes ''0xff'') = 4" by (simp add: str_bytes_def)
  moreover obtain out where "number [] 0xFF 16 (-1) (-1) (SMALL OR SPECIAL) = Some ([] @ out)"
    "int (length out) \<le> max (-1) (3 + max (-1) 22)"
    using number_width_bounds [of 16 "[]" "0xFF" "-1" "-1" "SMALL OR SPECIAL"] by auto
  ultimately show ?thesis by (intro exI [of _ out]) simp
qed

text \<open>C32: printing and reading a decimal number are inverse: a non-negative \<open>int\<close> printed by
  \<open>number\<close> with leading zeros, whatever the field width and the precision, is read back by \<open>atoi\<close>
  when the text is a string in memory.\<close>

lemma number_atoi_roundtrip:
  assumes "unat num < 2 ^ 31"
  shows "\<exists>s. number [] num 10 sz precision ZEROPAD = Some s \<and>
    (\<forall>m p. cstr m p s \<longrightarrow> atoi p m = Some (uint num))"
proof -
  obtain ds where ds: "number [] num 10 sz precision ZEROPAD = Some (map (\<lambda>d. 0x30 + of_nat d) ds)"
    "\<forall>d \<in> set ds. d < 10" "digits_value 10 ds = unat num"
    using number_decimal [of "[]" num sz precision] by auto
  have "atoi p m = Some (uint num)" if "cstr m p (map (\<lambda>d. 0x30 + of_nat d) ds)" for m p
  proof -
    have "atoi_loop p (of_nat 0) m = Some (of_nat (foldl (\<lambda>v d. 10 * v + d) 0 ds))"
      using that ds(2) by (intro atoi_loop_digits) auto
    then have "atoi_loop p 0 m = Some (of_nat (unat num))" using ds(3) by (simp add: digits_value_def)
    moreover have "sint (of_nat (unat num) :: u32) = int (unat num)"
      using assms by (intro sint_of_nat_small)
    ultimately show ?thesis by (simp add: atoi_def)
  qed
  with ds(1) show ?thesis by blast
qed

lemma number_atoi_roundtrip_witness:
  "\<exists>s. number [] 2016 10 6 (-1) ZEROPAD = Some s \<and> s = str_bytes ''002016'' \<and>
    (\<forall>m p. cstr m p s \<longrightarrow> atoi p m = Some 2016)"
proof -
  obtain s where s: "number [] 2016 10 6 (-1) ZEROPAD = Some s" "\<forall>m p. cstr m p s \<longrightarrow> atoi p m = Some (uint (2016 :: u64))"
    using number_atoi_roundtrip [of 2016 6 "-1"] by auto
  moreover have "number [] 2016 10 6 (-1) ZEROPAD = Some (str_bytes ''002016'')" by code_simp
  ultimately show ?thesis by simp
qed

text \<open>C34: \<open>kvsprintf\<close> returns for every format without \<open>%n\<close>, the malformed and the truncated ones
  included, when every argument is the address of a terminated string and there are as many of them as
  the format has characters; it leaves the memory alone.\<close>

lemma kvsprintf_returns:
  assumes "length fmt \<le> length args" and "0x6E \<notin> set fmt" and "\<forall>a \<in> set args. read_cstr m a \<noteq> None"
  shows "\<exists>str. kvsprintf fmt args m = Some (str, m)"
  using assms unfolding kvsprintf_def by (intro kvsprintf_loop_returns) (simp add: enough_def)

lemma kvsprintf_returns_witness:
  "\<exists>str. kvsprintf (str_bytes ''%-4s|%'') [100, 200, 100, 200, 100, 200] ex_mem = Some (str, ex_mem) \<and>
     str = str_bytes ''ab  |%''"
proof -
  have "read_cstr ex_mem 100 = Some [0x61, 0x62]" "read_cstr ex_mem 200 = Some [0x63]"
    by (rule read_cstr_cstr, simp add: ex_mem_def)+
  moreover have "length (str_bytes ''%-4s|%'') \<le> length [100, 200, 100, 200, 100, 200 :: u64]"
    "(0x6E :: u8) \<notin> set (str_bytes ''%-4s|%'')" by (simp_all add: str_bytes_def)
  ultimately have "\<exists>str. kvsprintf (str_bytes ''%-4s|%'') [100, 200, 100, 200, 100, 200] ex_mem = Some (str, ex_mem)"
    by (intro kvsprintf_returns) auto
  moreover have "map_option fst (kvsprintf (str_bytes ''%-4s|%'') [100, 200, 100, 200, 100, 200] ex_mem) = Some (str_bytes ''ab  |%'')"
    by code_simp
  ultimately show ?thesis by auto
qed

end
