(* ===== verification/PhyAlloc.thy ===== *)
theory PhyAlloc
  imports Prelude
begin

section \<open>The physical page allocator (\<open>w2/sys/mmu/phy_alloc.c\<close>)\<close>

text \<open>
  The state is the page bitmap \<open>phy_bitmap\<close> (a bit is 1 when the page is used or absent) and
  the reference counts.  Both arrays are read and written by address arithmetic only, with no
  bounds check in the C code, so they are total functions of the index: \<open>phy_bitmap\<close> of the
  group \<open>page / 64\<close>, \<open>refcount\<close> of the flat index of \<open>refcount[page / 64][page % 64]\<close>, which
  is \<open>64 * (page / 64) + page % 64\<close>.  The arrays really have \<open>PHY_GROUPS\<close> words and
  \<open>64 * 64\<close> words; indices beyond those are memory behind the arrays.
\<close>

record phy_state =
  phy_bitmap :: "u64 \<Rightarrow> u64"
  refcount :: "u64 \<Rightarrow> u64"

definition PAGE_MAX :: u64 where
  "PAGE_MAX = 32510"

definition PHY_GROUPS :: nat where
  "PHY_GROUPS = unat (PAGE_MAX div 64 + 1)"

definition REFCOUNT_CELLS :: u64 where
  "REFCOUNT_CELLS = 64 * 64"

definition refcell :: "u64 \<Rightarrow> u64" where
  "refcell page = 64 * (page div 64) + page mod 64"

definition mm_phy_to_page :: "u64 \<Rightarrow> u64" where
  "mm_phy_to_page phy = phy div 4096"

definition mm_page_to_phy :: "u64 \<Rightarrow> u64" where
  "mm_page_to_phy page = page * 4096"

text \<open>
  The C expression \<open>1 << n\<close>: the literal has type \<open>int\<close>, so the shift is the 32-bit one (x86
  takes the count modulo 32; C leaves counts above 30 undefined), and the \<open>int\<close> result is
  sign-extended when it meets a \<open>uint64_t\<close>.
\<close>

definition int_shl1 :: "u64 \<Rightarrow> u64" where
  "int_shl1 n = scast (push_bit (unat (n AND 31)) (1 :: u32))"

subsection \<open>Operations\<close>

definition set_page_free :: "u64 \<Rightarrow> 'z phy_state_scheme \<Rightarrow> 'z phy_state_scheme" where
  "set_page_free page s =
     (if page \<noteq> 0
      then s\<lparr>phy_bitmap := (phy_bitmap s)(page div 64 :=
               phy_bitmap s (page div 64) AND NOT (push_bit (unat (page mod 64)) 1))\<rparr>
      else s)"

definition inc_ref_count :: "u64 \<Rightarrow> 'z phy_state_scheme \<Rightarrow> 'z phy_state_scheme" where
  "inc_ref_count phy s =
     (let page = mm_phy_to_page phy in
      if page \<noteq> 0
      then s\<lparr>refcount := (refcount s)(refcell page := refcount s (refcell page) + 1)\<rparr>
      else s)"

definition set_page_used :: "u64 \<Rightarrow> 'z phy_state_scheme \<Rightarrow> 'z phy_state_scheme" where
  "set_page_used page s =
     (if page \<noteq> 0
      then inc_ref_count (mm_page_to_phy page)
             (s\<lparr>phy_bitmap := (phy_bitmap s)(page div 64 :=
                  phy_bitmap s (page div 64) OR int_shl1 (page mod 64))\<rparr>)
      else s)"

definition dec_ref_count :: "u64 \<Rightarrow> 'z phy_state_scheme \<Rightarrow> 'z phy_state_scheme" where
  "dec_ref_count phy s =
     (let page = mm_phy_to_page phy in
      if page \<noteq> 0
      then (let s' = s\<lparr>refcount := (refcount s)(refcell page := refcount s (refcell page) - 1)\<rparr>
            in if refcount s' (refcell page) = 0 then set_page_free page s' else s')
      else s)"

definition mm_phy_free_page :: "u64 \<Rightarrow> 'z phy_state_scheme \<Rightarrow> 'z phy_state_scheme" where
  "mm_phy_free_page page s =
     (if page = 0 then s
      else (let s' = set_page_free page s
            in s'\<lparr>refcount := (refcount s')(refcell page := 0)\<rparr>))"

definition mm_phy_init :: "'z phy_state_scheme \<Rightarrow> 'z phy_state_scheme" where
  "mm_phy_init s =
     (let b = (\<lambda>g. if unat g < PHY_GROUPS then 0xFFFFFFFFFFFFFFFF else phy_bitmap s g)
      in s\<lparr>phy_bitmap := b(0 := b 0 OR 1)\<rparr>)"

definition mm_phy_map :: "u64 \<Rightarrow> u64 \<Rightarrow> 'z phy_state_scheme \<Rightarrow> 'z phy_state_scheme option" where
  "mm_phy_map base len s =
     page_loop (\<lambda>i s. Some (set_page_free (mm_phy_to_page i) s))
       (ALIGN_DOWN base) (ALIGN_UP (base + len)) s"

definition mark_kernel_pages ::
  "u64 \<Rightarrow> u64 \<Rightarrow> 'z phy_state_scheme \<Rightarrow> 'z phy_state_scheme option" where
  "mark_kernel_pages startaddr endaddr s = do {
     s' \<leftarrow> page_loop (\<lambda>i s. Some (set_page_used (mm_phy_to_page i) s))
             (ALIGN_DOWN startaddr) (ALIGN_UP endaddr) s;
     Some (s'\<lparr>phy_bitmap := (phy_bitmap s')(0 := phy_bitmap s' 0 OR 1)\<rparr>)
   }"

text \<open>
  \<open>mm_phy_alloc_page\<close> scans the groups from the last one down, and in a group with a zero bit
  the offsets from 0 up.  The group counter is unsigned, so the test \<open>g >= 0\<close> never fails: when
  group 0 holds no page either, the counter wraps and the scan leaves the array.  That outcome
  is \<open>None\<close>; the \<open>return 0\<close> behind the loop is unreachable.
\<close>

definition scan_group :: "u64 \<Rightarrow> u64 option" where
  "scan_group w = find (\<lambda>p. w AND int_shl1 p = 0) (map word_of_nat [0..<64])"

fun alloc_scan :: "(u64 \<Rightarrow> u64) \<Rightarrow> nat \<Rightarrow> (u64 \<times> u64) option" where
  "alloc_scan bm 0 = None"
| "alloc_scan bm (Suc g) =
     (let w = bm (word_of_nat g) in
      if w \<noteq> 0xFFFFFFFFFFFFFFFF
      then (case scan_group w of
              Some p \<Rightarrow> Some (word_of_nat g, p)
            | None \<Rightarrow> alloc_scan bm g)
      else alloc_scan bm g)"

definition mm_phy_alloc_page :: "'z phy_state_scheme \<Rightarrow> (u64 \<times> 'z phy_state_scheme) option" where
  "mm_phy_alloc_page s = do {
     (g, p) \<leftarrow> alloc_scan (phy_bitmap s) PHY_GROUPS;
     let s' = s\<lparr>phy_bitmap := (phy_bitmap s)(g := phy_bitmap s g OR int_shl1 p)\<rparr>;
     let page = g * 64 + p;
     Some (page, inc_ref_count (mm_page_to_phy page) s')
   }"

subsection \<open>The masks the allocator uses\<close>

lemma unat_and_31: "unat (n AND 31 :: u64) = unat n mod 32"
proof -
  have "n AND 31 = n mod 32"
    using take_bit_eq_mask [of 5 n] by (simp add: mask_eq_exp_minus_1 take_bit_eq_mod)
  then show ?thesis by (simp add: unat_mod)
qed

lemma bit_int_shl1:
  "bit (int_shl1 n) k \<longleftrightarrow> k < 64 \<and> (if unat n mod 32 = 31 then 31 \<le> k else k = unat n mod 32)"
proof -
  have m: "unat n mod 32 < 32" by simp
  have b: "bit (push_bit m 1 :: u32) j \<longleftrightarrow> j = m" if "m < 32" for m j
    using that by (auto simp: bit_push_bit_iff bit_1_iff simp del: push_bit_of_1)
  show ?thesis
    by (auto simp: int_shl1_def bit_signed_iff unat_and_31 min_def b [OF m] simp del: push_bit_of_1)
qed

lemma and_int_shl1_eq_0:
  "w AND int_shl1 n = 0 \<longleftrightarrow> (\<forall>k < 64. bit (int_shl1 n) k \<longrightarrow> \<not> bit w k)"
  by (auto simp: bit_eq_iff bit_and_iff)

lemma int_shl1_cong: "unat n mod 32 = unat m mod 32 \<Longrightarrow> int_shl1 n = int_shl1 m"
  by (rule bit_word_eqI) (simp add: bit_int_shl1)

lemma bit_int_shl1_self: "unat n < 32 \<Longrightarrow> bit (int_shl1 n) (unat n)"
  by (auto simp: bit_int_shl1)

lemma int_shl1_nonzero: "int_shl1 p \<noteq> 0"
proof
  assume "int_shl1 p = 0"
  moreover have "bit (int_shl1 p) (unat p mod 32)"
    using mod_less_divisor [of 32 "unat p"] by (auto simp: bit_int_shl1)
  ultimately show False by simp
qed

text \<open>The first hit of the inner loop is always at an offset below 32.\<close>

lemma scan_group_Some:
  assumes "scan_group w = Some p"
  shows "unat p < 32" and "w AND int_shl1 p = 0"
proof -
  from assms obtain i where i: "i < 64" "p = word_of_nat i" "w AND int_shl1 p = 0"
    and first: "\<And>j. j < i \<Longrightarrow> w AND int_shl1 (word_of_nat j) \<noteq> 0"
    by (auto simp: scan_group_def find_Some_iff)
  show "w AND int_shl1 p = 0" by (rule i(3))
  have "i < 32"
  proof (rule ccontr)
    assume "\<not> i < 32"
    then have "int_shl1 (word_of_nat (i - 32)) = int_shl1 p"
      using i(1,2) by (intro int_shl1_cong) (simp add: unat_of_nat le_mod_geq del: of_nat_diff)
    with first [of "i - 32"] i(3) \<open>\<not> i < 32\<close> show False by simp
  qed
  with i(2) show "unat p < 32" by (simp add: unat_of_nat)
qed

lemma scan_group_None:
  "scan_group w = None \<longleftrightarrow> (\<forall>p. unat p < 32 \<longrightarrow> w AND int_shl1 p \<noteq> 0)"
proof -
  have "scan_group w = None \<longleftrightarrow> (\<forall>i < 64. w AND int_shl1 (word_of_nat i) \<noteq> 0)"
    by (auto simp: scan_group_def find_None_iff)
  also have "\<dots> \<longleftrightarrow> (\<forall>p. unat p < 32 \<longrightarrow> w AND int_shl1 p \<noteq> 0)"
  proof (intro iffI allI impI)
    fix p :: u64
    assume "\<forall>i < 64. w AND int_shl1 (word_of_nat i) \<noteq> 0" and "unat p < 32"
    then show "w AND int_shl1 p \<noteq> 0"
      by (auto dest!: spec [of _ "unat p"])
  next
    fix i :: nat
    assume *: "\<forall>p. unat p < 32 \<longrightarrow> w AND int_shl1 p \<noteq> 0" and "i < 64"
    then have "int_shl1 (word_of_nat i) = int_shl1 (word_of_nat (i mod 32))"
      by (intro int_shl1_cong) (simp add: unat_of_nat)
    moreover have "unat (word_of_nat (i mod 32) :: u64) < 32"
      by (simp add: unat_of_nat)
    ultimately show "w AND int_shl1 (word_of_nat i) \<noteq> 0"
      using * by metis
  qed
  finally show ?thesis .
qed

lemma alloc_scan_Some:
  "alloc_scan bm n = Some (g, p) \<Longrightarrow> \<exists>k < n. g = word_of_nat k \<and> scan_group (bm g) = Some p"
proof (induction n)
  case (Suc n)
  then show ?case
    by (fastforce simp: Let_def less_Suc_eq split: if_splits option.splits)
qed simp

lemma alloc_scan_None:
  "alloc_scan bm n = None \<longleftrightarrow> (\<forall>k < n. scan_group (bm (word_of_nat k)) = None)"
proof -
  have full: "scan_group 0xFFFFFFFFFFFFFFFF = None"
  proof -
    have "(0xFFFFFFFFFFFFFFFF :: u64) = - 1" by simp
    then show ?thesis
      by (simp only: scan_group_None and.left_neutral) (simp add: int_shl1_nonzero)
  qed
  show ?thesis
    by (induction n) (auto simp: Let_def less_Suc_eq full split: option.splits)
qed

lemma PHY_GROUPS_eq [simp]: "PHY_GROUPS = 508"
  by (simp add: PHY_GROUPS_def PAGE_MAX_def)

lemma refcell_eq [simp]: "refcell page = page"
  using div_mult_mod_eq [of page 64] by (simp add: refcell_def mult.commute)

subsection \<open>What the operations do to the set of free pages\<close>

definition page_free :: "'z phy_state_scheme \<Rightarrow> u64 \<Rightarrow> bool" where
  "page_free s page \<longleftrightarrow> \<not> bit (phy_bitmap s (page div 64)) (unat page mod 64)"

lemma unat_mod_64: "unat (page mod 64 :: u64) = unat page mod 64"
  by (simp add: unat_mod)

lemma page_eqI: "page div 64 = q div 64 \<Longrightarrow> unat page mod 64 = unat q mod 64 \<Longrightarrow> page = (q :: u64)"
  by (metis div_mult_mod_eq unat_mod_64 word_unat_eq_iff)

lemma page_free_more [simp]:
  "page_free (s\<lparr>refcount := r\<rparr>) q = page_free s q"
  by (simp add: page_free_def)

lemma page_free_set_page_free:
  "page_free (set_page_free page s) q \<longleftrightarrow> page_free s q \<or> page \<noteq> 0 \<and> q = page"
proof -
  have "unat page mod 64 = unat q mod 64 \<Longrightarrow> page div 64 = q div 64 \<Longrightarrow> q = page"
    by (metis page_eqI)
  then show ?thesis
    by (auto simp: page_free_def set_page_free_def bit_and_iff bit_not_iff bit_push_bit_iff
        bit_1_iff unat_mod_64 simp del: push_bit_of_1)
qed

lemma page_free_inc [simp]: "page_free (inc_ref_count phy s) q = page_free s q"
  by (simp add: inc_ref_count_def Let_def)

lemma refcount_set_page_free [simp]: "refcount (set_page_free page s) = refcount s"
  by (simp add: set_page_free_def)

text \<open>Setting a mask in a group: exactly the bits of the mask become used.\<close>

lemma page_free_or_mask:
  "page_free (s\<lparr>phy_bitmap := (phy_bitmap s)(g := phy_bitmap s g OR m)\<rparr>) q \<longleftrightarrow>
   page_free s q \<and> \<not> (q div 64 = g \<and> bit m (unat q mod 64))"
  by (auto simp: page_free_def bit_or_iff)

lemma page_to_phy_to_page:
  "unat page < 2 ^ 52 \<Longrightarrow> mm_phy_to_page (mm_page_to_phy page) = page"
  unfolding mm_phy_to_page_def mm_page_to_phy_def
  by (rule word_unat_eq_iff [THEN iffD2]) (simp add: unat_div unat_word_ariths)

lemma page_free_set_page_used:
  "page_free (set_page_used page s) q \<longleftrightarrow>
   page_free s q \<and> \<not> (page \<noteq> 0 \<and> q div 64 = page div 64 \<and>
     bit (int_shl1 (page mod 64)) (unat q mod 64))"
  by (auto simp: set_page_used_def page_free_or_mask)

lemma group_page:
  assumes "k < 508" "unat p < 64"
  shows "unat (word_of_nat k * 64 + p :: u64) = k * 64 + unat p"
    and "(word_of_nat k * 64 + p :: u64) div 64 = word_of_nat k"
    and "unat (word_of_nat k * 64 + p :: u64) mod 64 = unat p"
proof -
  have k: "unat (word_of_nat k :: u64) = k"
    using assms(1) by (simp add: unat_of_nat)
  then show *: "unat (word_of_nat k * 64 + p :: u64) = k * 64 + unat p"
    using assms by (simp add: unat_word_ariths)
  then show "(word_of_nat k * 64 + p :: u64) div 64 = word_of_nat k"
    using assms k by (simp add: word_unat_eq_iff unat_div)
  show "unat (word_of_nat k * 64 + p :: u64) mod 64 = unat p"
    using * assms by simp
qed

lemma inc_ref_count_page:
  assumes "unat page < 2 ^ 52"
  shows "inc_ref_count (mm_page_to_phy page) s =
    (if page = 0 then s else s\<lparr>refcount := (refcount s)(page := refcount s page + 1)\<rparr>)"
  by (simp add: inc_ref_count_def Let_def page_to_phy_to_page [OF assms])

text \<open>The whole effect of a successful allocation, in one lemma.\<close>

lemma alloc_page_effect:
  assumes "mm_phy_alloc_page s = Some (page, s')"
  obtains k p where "k < 508" "unat p < 32" "page = word_of_nat k * 64 + p"
    "phy_bitmap s (word_of_nat k) AND int_shl1 p = 0"
    "s' = inc_ref_count (mm_page_to_phy page)
       (s\<lparr>phy_bitmap := (phy_bitmap s)(word_of_nat k := phy_bitmap s (word_of_nat k) OR int_shl1 p)\<rparr>)"
proof -
  from assms obtain g p where gp: "alloc_scan (phy_bitmap s) PHY_GROUPS = Some (g, p)"
    and page: "page = g * 64 + p"
    and s': "s' = inc_ref_count (mm_page_to_phy page)
       (s\<lparr>phy_bitmap := (phy_bitmap s)(g := phy_bitmap s g OR int_shl1 p)\<rparr>)"
    by (auto simp: mm_phy_alloc_page_def Let_def split: bind_splits)
  from alloc_scan_Some [OF gp] obtain k where k: "k < 508" "g = word_of_nat k"
    "scan_group (phy_bitmap s g) = Some p" by auto
  show thesis
    using that [of k p] k page s' scan_group_Some [OF k(3)] by simp
qed

subsection \<open>The interface the rest of the kernel relies on\<close>

text \<open>
  Clients of the allocator (page tables, the kernel heap, the loader) need three laws: a page
  handed out was free, is used afterwards, and no page becomes free.  The locale states them
  once; what a client derives, such as the pairwise distinctness of all pages of a run of
  allocations, is proved inside it.
\<close>

locale frame_allocator =
  fixes alloc :: "'s \<Rightarrow> (u64 \<times> 's) option"
    and is_free :: "'s \<Rightarrow> u64 \<Rightarrow> bool"
  assumes was_free: "alloc s = Some (p, s') \<Longrightarrow> is_free s p"
    and now_used: "alloc s = Some (p, s') \<Longrightarrow> \<not> is_free s' p"
    and frees_none: "alloc s = Some (p, s') \<Longrightarrow> is_free s' q \<Longrightarrow> is_free s q"

fun alloc_list :: "('s \<Rightarrow> (u64 \<times> 's) option) \<Rightarrow> nat \<Rightarrow> 's \<Rightarrow> (u64 list \<times> 's) option" where
  "alloc_list alloc 0 s = Some ([], s)"
| "alloc_list alloc (Suc n) s = do {
     (p, s') \<leftarrow> alloc s;
     (ps, s'') \<leftarrow> alloc_list alloc n s';
     Some (p # ps, s'')
   }"

lemma alloc_list_all:
  assumes step: "\<And>s p s'. alloc s = Some (p, s') \<Longrightarrow> B p"
  shows "alloc_list alloc n s = Some (ps, s') \<Longrightarrow> p \<in> set ps \<Longrightarrow> B p"
proof (induction n arbitrary: s ps)
  case (Suc n)
  then show ?case using step by (auto split: bind_splits)
qed simp

context frame_allocator
begin

lemma run_frees_none:
  "alloc_list alloc n s = Some (ps, s') \<Longrightarrow> is_free s' q \<Longrightarrow> is_free s q"
proof (induction n arbitrary: s ps)
  case (Suc n)
  then obtain p t qs where "alloc s = Some (p, t)" "alloc_list alloc n t = Some (qs, s')"
    by (auto split: bind_splits)
  then show ?case using Suc.IH Suc.prems(2) frees_none by blast
qed simp

lemma run_pages:
  "alloc_list alloc n s = Some (ps, s') \<Longrightarrow>
   length ps = n \<and> distinct ps \<and> (\<forall>p \<in> set ps. is_free s p \<and> \<not> is_free s' p)"
proof (induction n arbitrary: s ps)
  case (Suc n)
  then obtain p t qs where t: "alloc s = Some (p, t)" "alloc_list alloc n t = Some (qs, s')"
    and ps: "ps = p # qs"
    by (auto split: bind_splits)
  note IH = Suc.IH [OF t(2)]
  have "p \<notin> set qs" using IH now_used [OF t(1)] by auto
  moreover have "\<not> is_free s' p"
    using run_frees_none [OF t(2)] now_used [OF t(1)] by blast
  ultimately show ?case
    using IH ps was_free [OF t(1)] frees_none [OF t(1)] by auto
qed simp

end

lemma alloc_page_free:
  assumes "mm_phy_alloc_page s = Some (page, s')"
  shows "page_free s page" and "\<not> page_free s' page" and "page_free s' q \<Longrightarrow> page_free s q"
proof -
  from assms obtain k p where *: "k < 508" "unat p < 32" "page = word_of_nat k * 64 + p"
    "phy_bitmap s (word_of_nat k) AND int_shl1 p = 0"
    "s' = inc_ref_count (mm_page_to_phy page)
       (s\<lparr>phy_bitmap := (phy_bitmap s)(word_of_nat k := phy_bitmap s (word_of_nat k) OR int_shl1 p)\<rparr>)"
    by (rule alloc_page_effect)
  have p: "bit (int_shl1 p) (unat p)" using *(2) by (rule bit_int_shl1_self)
  note g = group_page [OF *(1), of p]
  show "page_free s page"
    using *(2-4) p g by (auto simp: page_free_def and_int_shl1_eq_0)
  show "\<not> page_free s' page" and "page_free s' q \<Longrightarrow> page_free s q"
    using *(2,3,5) p g by (auto simp: page_free_or_mask)
qed

interpretation phy: frame_allocator mm_phy_alloc_page page_free
  by unfold_locales (auto dest: alloc_page_free)

subsection \<open>Boot: what \<open>start\<close> does to the allocator\<close>

text \<open>
  \<open>start\<close> initialises the bitmap, releases every usable region of the memory map and
  reserves the pages of the kernel image.  A region is a base and a length of type 1.
\<close>

record smap_t =
  smap_base :: u64
  smap_length :: u64
  smap_type :: u32

fun map_regions :: "smap_t list \<Rightarrow> 'z phy_state_scheme \<Rightarrow> 'z phy_state_scheme option" where
  "map_regions [] s = Some s"
| "map_regions (r # rs) s =
     (if smap_type r = 1 \<and> smap_length r \<noteq> 0
      then do { s' \<leftarrow> mm_phy_map (smap_base r) (smap_length r) s; map_regions rs s' }
      else map_regions rs s)"

definition start_memory ::
  "smap_t list \<Rightarrow> u64 \<Rightarrow> u64 \<Rightarrow> 'z phy_state_scheme \<Rightarrow> 'z phy_state_scheme option" where
  "start_memory rs physbase physfree s = do {
     s1 \<leftarrow> map_regions rs (mm_phy_init s);
     mark_kernel_pages physbase physfree s1
   }"

text \<open>The two loops always return, because both bounds are page aligned.\<close>

lemma mm_phy_map_fold:
  "mm_phy_map base len s =
   Some (fold (\<lambda>i. set_page_free (mm_phy_to_page i)) (pages_between (ALIGN_DOWN base) (ALIGN_UP (base + len))) s)"
  by (simp add: mm_phy_map_def page_loop_iter page_iter_pure)

lemma mark_kernel_pages_fold:
  "mark_kernel_pages a b s =
   (let s' = fold (\<lambda>i. set_page_used (mm_phy_to_page i)) (pages_between (ALIGN_DOWN a) (ALIGN_UP b)) s
    in Some (s'\<lparr>phy_bitmap := (phy_bitmap s')(0 := phy_bitmap s' 0 OR 1)\<rparr>))"
  by (simp add: mark_kernel_pages_def page_loop_iter page_iter_pure Let_def)

lemma map_regions_returns: "\<exists>s'. map_regions rs s = Some s'"
  by (induction rs arbitrary: s) (auto simp: mm_phy_map_fold)

lemma start_memory_returns: "\<exists>s'. start_memory rs a b s = Some s'"
  using map_regions_returns [of rs "mm_phy_init s"]
  by (auto simp: start_memory_def mark_kernel_pages_fold Let_def)

subsection \<open>Reachable allocator states\<close>

text \<open>
  After boot, pages are allocated, their counts go up and down, and they are freed outright.
  A count only changes on a page in use (a mapped page).
\<close>

inductive phy_reachable :: "phy_state \<Rightarrow> bool" where
  boot: "(\<forall>q. refcount s q = 0) \<Longrightarrow> start_memory rs a b s = Some s' \<Longrightarrow> phy_reachable s'"
| alloc: "phy_reachable s \<Longrightarrow> mm_phy_alloc_page s = Some (page, s') \<Longrightarrow> phy_reachable s'"
| inc: "phy_reachable s \<Longrightarrow> \<not> page_free s (mm_phy_to_page phy) \<Longrightarrow> phy_reachable (inc_ref_count phy s)"
| dec: "phy_reachable s \<Longrightarrow> \<not> page_free s (mm_phy_to_page phy) \<Longrightarrow> phy_reachable (dec_ref_count phy s)"
| free: "phy_reachable s \<Longrightarrow> phy_reachable (mm_phy_free_page page s)"

text \<open>
  The invariant: page 0 is never free, and a free page at an offset the allocator can hand out
  (below 32 in its group) has count zero.
\<close>

definition low_offset :: "u64 \<Rightarrow> bool" where
  "low_offset page \<longleftrightarrow> unat page mod 64 < 32"

definition phy_inv :: "'z phy_state_scheme \<Rightarrow> bool" where
  "phy_inv s \<longleftrightarrow> \<not> page_free s 0 \<and> (\<forall>q. low_offset q \<and> page_free s q \<longrightarrow> refcount s q = 0)"

lemma refcount_inc:
  "refcount (inc_ref_count phy s) q =
   (if mm_phy_to_page phy \<noteq> 0 \<and> q = mm_phy_to_page phy then refcount s q + 1 else refcount s q)"
  by (simp add: inc_ref_count_def Let_def)

lemma phy_inv_inc: "phy_inv s \<Longrightarrow> \<not> page_free s (mm_phy_to_page phy) \<Longrightarrow> phy_inv (inc_ref_count phy s)"
  by (auto simp: phy_inv_def refcount_inc)

lemma page_free_dec:
  "page_free (dec_ref_count phy s) q \<longleftrightarrow>
   page_free s q \<or> (q = mm_phy_to_page phy \<and> q \<noteq> 0 \<and> refcount s q = 1)"
  by (auto simp: dec_ref_count_def Let_def page_free_set_page_free)

lemma refcount_dec:
  "refcount (dec_ref_count phy s) q =
   (if q = mm_phy_to_page phy \<and> q \<noteq> 0 then refcount s q - 1 else refcount s q)"
  by (auto simp: dec_ref_count_def Let_def)

lemma page_free_free_page:
  "page_free (mm_phy_free_page page s) q \<longleftrightarrow> page_free s q \<or> (q = page \<and> q \<noteq> 0)"
  by (auto simp: mm_phy_free_page_def Let_def page_free_set_page_free)

lemma refcount_free_page:
  "refcount (mm_phy_free_page page s) q = (if q = page \<and> q \<noteq> 0 then 0 else refcount s q)"
  by (auto simp: mm_phy_free_page_def Let_def)

lemma phy_inv_free: "phy_inv s \<Longrightarrow> phy_inv (mm_phy_free_page page s)"
  by (auto simp: phy_inv_def page_free_free_page refcount_free_page)

lemma phy_inv_dec: "phy_inv s \<Longrightarrow> \<not> page_free s (mm_phy_to_page phy) \<Longrightarrow> phy_inv (dec_ref_count phy s)"
  by (auto simp: phy_inv_def page_free_dec refcount_dec)

lemma alloc_page_bounds:
  assumes "mm_phy_alloc_page s = Some (page, s')"
  shows "unat page < 508 * 64" and "low_offset page"
proof -
  from assms obtain k p where *: "k < 508" "unat p < 32" "page = word_of_nat k * 64 + p"
    by (rule alloc_page_effect)
  with group_page [OF *(1), of p] show "unat page < 508 * 64" "low_offset page"
    by (auto simp: low_offset_def)
qed

lemma alloc_page_refcount:
  assumes "mm_phy_alloc_page s = Some (page, s')"
  shows "refcount s' = (if page = 0 then refcount s else (refcount s)(page := refcount s page + 1))"
proof -
  from assms obtain k p where *: "page = word_of_nat k * 64 + p"
    "s' = inc_ref_count (mm_page_to_phy page)
       (s\<lparr>phy_bitmap := (phy_bitmap s)(word_of_nat k := phy_bitmap s (word_of_nat k) OR int_shl1 p)\<rparr>)"
    by (rule alloc_page_effect)
  moreover have "unat page < 2 ^ 52" using alloc_page_bounds [OF assms] by simp
  ultimately show ?thesis by (simp add: inc_ref_count_page)
qed

lemma phy_inv_alloc:
  assumes "phy_inv s" and al: "mm_phy_alloc_page s = Some (page, s')"
  shows "phy_inv s'" and "page \<noteq> 0"
proof -
  show "page \<noteq> 0" using assms alloc_page_free(1) [OF al] by (auto simp: phy_inv_def)
  show "phy_inv s'"
    using assms(1) alloc_page_free [OF al] alloc_page_refcount [OF al]
    by (auto simp: phy_inv_def)
qed

lemma refcount_set_page_used:
  "unat page < 2 ^ 52 \<Longrightarrow> refcount (set_page_used page s) q =
     (if q = page \<and> page \<noteq> 0 then refcount s q + 1 else refcount s q)"
  by (auto simp: set_page_used_def refcount_inc page_to_phy_to_page)

lemma phy_inv_set_page_used:
  assumes "phy_inv s" "unat page < 2 ^ 52"
  shows "phy_inv (set_page_used page s)"
proof -
  have "bit (int_shl1 (page mod 64)) (unat page mod 64)" if "low_offset page"
    using that bit_int_shl1_self [of "page mod 64"] by (simp add: low_offset_def unat_mod_64)
  with assms show ?thesis
    by (auto simp: phy_inv_def page_free_set_page_used refcount_set_page_used)
qed

lemma unat_phy_to_page: "unat (mm_phy_to_page i) < 2 ^ 52"
  using unat_u64 [of i] by (simp add: mm_phy_to_page_def unat_div)

lemma map_regions_invariant:
  assumes step: "\<And>s i. I s \<Longrightarrow> I (set_page_free (mm_phy_to_page i) s)"
  shows "I s \<Longrightarrow> map_regions rs s = Some t \<Longrightarrow> I t"
proof (induction rs arbitrary: s)
  case (Cons r rs)
  have "I (fold (\<lambda>i. set_page_free (mm_phy_to_page i)) ps s)" for ps
    using Cons.prems(1) by (intro fold_invariant [where P = I and Q = "\<lambda>_. True"]) (auto intro: step)
  note fold = this
  show ?case
  proof (cases "smap_type r = 1 \<and> smap_length r \<noteq> 0")
    case True
    with Cons.prems(2) show ?thesis by (simp add: mm_phy_map_fold Cons.IH [OF fold])
  next
    case False
    with Cons.prems Cons.IH show ?thesis by auto
  qed
qed simp

definition boot_state :: "'z phy_state_scheme \<Rightarrow> bool" where
  "boot_state s \<longleftrightarrow> \<not> page_free s 0 \<and> (\<forall>q. refcount s q = 0)"

lemma start_memory_inv:
  assumes "\<forall>q. refcount s q = 0" and "start_memory rs a b s = Some s'"
  shows "phy_inv s'"
proof -
  have "boot_state (mm_phy_init s)"
    using assms(1) by (simp add: boot_state_def mm_phy_init_def page_free_def Let_def bit_or_iff bit_1_iff)
  moreover have "boot_state (set_page_free (mm_phy_to_page i) s)" if "boot_state s"
    for i and s :: "'a phy_state_scheme"
    using that by (auto simp: boot_state_def page_free_set_page_free)
  ultimately obtain t where t: "boot_state t" "mark_kernel_pages a b t = Some s'"
    using assms(2) map_regions_invariant [of boot_state]
    by (auto simp: start_memory_def split: bind_splits)
  then have "phy_inv t" by (simp add: phy_inv_def boot_state_def)
  then have "phy_inv (fold (\<lambda>i. set_page_used (mm_phy_to_page i)) ps t)" for ps
    by (intro fold_invariant [where P = phy_inv and Q = "\<lambda>_. True"])
      (auto intro: phy_inv_set_page_used unat_phy_to_page)
  with t(2) show ?thesis
    by (auto simp: mark_kernel_pages_fold Let_def phy_inv_def page_free_or_mask)
qed

lemma reachable_inv: "phy_reachable s \<Longrightarrow> phy_inv s"
  by (induction rule: phy_reachable.induct)
    (auto intro: start_memory_inv phy_inv_alloc(1) phy_inv_inc phy_inv_dec phy_inv_free)

lemma alloc_page_None:
  "mm_phy_alloc_page s = None \<longleftrightarrow>
   (\<forall>k < 508. \<forall>p. unat p < 32 \<longrightarrow> phy_bitmap s (word_of_nat k) AND int_shl1 p \<noteq> 0)"
proof -
  have "mm_phy_alloc_page s = None \<longleftrightarrow> alloc_scan (phy_bitmap s) 508 = None"
    by (cases "alloc_scan (phy_bitmap s) 508") (auto simp: mm_phy_alloc_page_def Let_def)
  then show ?thesis by (simp add: alloc_scan_None scan_group_None)
qed

lemma mask_hits_iff:
  assumes "unat p < 32"
  shows "w AND int_shl1 p \<noteq> 0 \<longleftrightarrow> (\<exists>j < 64. (if unat p = 31 then 31 \<le> j else j = unat p) \<and> bit w j)"
  using assms by (auto simp: and_int_shl1_eq_0 bit_int_shl1)

lemma kernel_page_used:
  assumes "mark_kernel_pages a b s = Some s'" and "low_offset q" and "unat q < 2 ^ 52"
    and "ALIGN_DOWN a \<le> mm_page_to_phy q" and "mm_page_to_phy q < ALIGN_UP b"
  shows "\<not> page_free s' q"
proof (cases "q = 0")
  case True
  then show ?thesis
    using assms(1) by (auto simp: mark_kernel_pages_fold Let_def page_free_or_mask)
next
  case False
  let ?ps = "pages_between (ALIGN_DOWN a) (ALIGN_UP b)"
  have "mm_page_to_phy q \<in> set ?ps"
    using assms(4,5) by (simp add: mem_pages_between mm_page_to_phy_def page_aligned_numeral_mult)
  moreover have "\<not> page_free (set_page_used (mm_phy_to_page (mm_page_to_phy q)) t) q" for t :: "'a phy_state_scheme"
    using False assms(2,3) bit_int_shl1_self [of "q mod 64"]
    by (simp add: page_to_phy_to_page page_free_set_page_used low_offset_def unat_mod_64)
  ultimately have "\<not> page_free (fold (\<lambda>i. set_page_used (mm_phy_to_page i)) ?ps s) q"
    by (rule fold_establishes [where P = "\<lambda>t. \<not> page_free t q"]) (auto simp: page_free_set_page_used)
  then show ?thesis
    using assms(1) by (auto simp: mark_kernel_pages_fold Let_def page_free_or_mask)
qed

subsection \<open>Properties\<close>

definition ex_phy :: phy_state where
  "ex_phy = \<lparr>phy_bitmap = (\<lambda>g. if g = 507 then 0xFFFFFFFFFFFFFFF0 else 0xFFFFFFFFFFFFFFFF),
     refcount = (\<lambda>_. 0)\<rparr>"

text \<open>C6: the pages a run of allocations hands out are pairwise distinct, each was free before
  the run and is in use after it.\<close>

lemma alloc_run_distinct:
  assumes "alloc_list mm_phy_alloc_page n s = Some (ps, s')"
  shows "length ps = n \<and> distinct ps \<and> (\<forall>p \<in> set ps. page_free s p \<and> \<not> page_free s' p)"
  using assms by (rule phy.run_pages)

lemma alloc_run_distinct_witness:
  "\<exists>s'. alloc_list mm_phy_alloc_page 3 ex_phy = Some ([32448, 32449, 32450], s') \<and>
     distinct [32448, 32449, 32450 :: u64] \<and> page_free ex_phy 32450 \<and> \<not> page_free s' 32450"
proof -
  have "map_option fst (alloc_list mm_phy_alloc_page 3 ex_phy) = Some [32448, 32449, 32450]"
    by code_simp
  then obtain s' where s': "alloc_list mm_phy_alloc_page 3 ex_phy = Some ([32448, 32449, 32450], s')"
    by auto
  show ?thesis using s' alloc_run_distinct [OF s'] by auto
qed


definition ex_boot :: "phy_state" where
  "ex_boot = (case start_memory [\<lparr>smap_base = 0x7EC0000, smap_length = 0x2000, smap_type = 1\<rparr>] 0x7EC0000 0x7EC1000
     \<lparr>phy_bitmap = (\<lambda>_. 0), refcount = (\<lambda>_. 0)\<rparr> of Some s \<Rightarrow> s | None \<Rightarrow> ex_phy)"


text \<open>C4: pages of the kernel image are never handed out.  After \<open>start\<close> has set up the allocator
  (any memory map, kernel at \<open>physbase\<close> to \<open>physfree\<close>), no run of allocations returns a page
  whose address lies in the page-aligned range of the kernel.\<close>

lemma kernel_pages_reserved:
  assumes "start_memory rs physbase physfree s = Some s1"
    and "alloc_list mm_phy_alloc_page n s1 = Some (ps, s2)" and "p \<in> set ps"
  shows "\<not> (ALIGN_DOWN physbase \<le> mm_page_to_phy p \<and> mm_page_to_phy p < ALIGN_UP physfree)"
proof
  assume range: "ALIGN_DOWN physbase \<le> mm_page_to_phy p \<and> mm_page_to_phy p < ALIGN_UP physfree"
  from assms(1) obtain t where t: "mark_kernel_pages physbase physfree t = Some s1"
    by (auto simp: start_memory_def split: bind_splits)
  have "low_offset p \<and> unat p < 508 * 64"
    using alloc_list_all [OF _ assms(2,3), of "\<lambda>p. low_offset p \<and> unat p < 508 * 64"]
    by (meson alloc_page_bounds)
  then have "\<not> page_free s1 p"
    using kernel_page_used [OF t] range by simp
  moreover have "page_free s1 p" using phy.run_pages [OF assms(2)] assms(3) by blast
  ultimately show False by simp
qed

lemma kernel_pages_reserved_witness:
  "\<exists>s1 s2. start_memory [\<lparr>smap_base = 0x7EC0000, smap_length = 0x2000, smap_type = 1\<rparr>] 0x7EC0000 0x7EC1000
      \<lparr>phy_bitmap = (\<lambda>_. 0), refcount = (\<lambda>_. 0)\<rparr> = Some s1 \<and>
    alloc_list mm_phy_alloc_page 1 s1 = Some ([32449], s2) \<and>
    \<not> mm_page_to_phy 32449 < ALIGN_UP 0x7EC1000"
proof -
  let ?rs = "[\<lparr>smap_base = 0x7EC0000, smap_length = 0x2000, smap_type = 1\<rparr>]"
  let ?s = "\<lparr>phy_bitmap = (\<lambda>_. 0), refcount = (\<lambda>_. 0)\<rparr>"
  obtain s1 where s1: "start_memory ?rs 0x7EC0000 0x7EC1000 ?s = Some s1"
    using start_memory_returns by blast
  then have "ex_boot = s1" by (simp add: ex_boot_def)
  moreover have "map_option fst (alloc_list mm_phy_alloc_page 1 ex_boot) = Some [32449]" by code_simp
  ultimately obtain s2 where s2: "alloc_list mm_phy_alloc_page 1 s1 = Some ([32449], s2)" by auto
  have "ALIGN_DOWN 0x7EC0000 \<le> mm_page_to_phy 32449" by code_simp
  then show ?thesis
    using s1 s2 kernel_pages_reserved [OF s1 s2, of 32449] by auto
qed

text \<open>C7: when allocation fails.  The scan finds no page exactly when in every group each of the
  offsets 0 to 30 is used and at least one of the offsets 31 to 63 is: free pages at the offsets
  above 31 do not help, because the mask \<open>1 << p\<close> is the 32-bit one.\<close>

lemma alloc_fails_iff:
  "mm_phy_alloc_page s = None \<longleftrightarrow>
   (\<forall>k < 508. (\<forall>j < 31. bit (phy_bitmap s (word_of_nat k)) j) \<and>
     (\<exists>j < 64. 31 \<le> j \<and> bit (phy_bitmap s (word_of_nat k)) j))"
proof -
  have "(\<forall>p. unat p < 32 \<longrightarrow> w AND int_shl1 p \<noteq> 0) \<longleftrightarrow>
      (\<forall>j < 31. bit w j) \<and> (\<exists>j < 64. 31 \<le> j \<and> bit w j)" (is "?L \<longleftrightarrow> ?R") for w
  proof
    assume ?L
    have "bit w j" if "j < 31" for j
      using \<open>?L\<close> [rule_format, of "word_of_nat j"] that
      by (auto simp: mask_hits_iff unat_of_nat split: if_splits)
    moreover have "\<exists>j < 64. 31 \<le> j \<and> bit w j"
      using \<open>?L\<close> [rule_format, of 31] by (auto simp: mask_hits_iff)
    ultimately show ?R by blast
  next
    assume R: ?R
    show ?L
    proof (intro allI impI)
      fix p :: u64
      assume "unat p < 32"
      with R show "w AND int_shl1 p \<noteq> 0"
        by (cases "unat p = 31") (auto simp: mask_hits_iff)
    qed
  qed
  then show ?thesis by (simp add: alloc_page_None)
qed

text \<open>A machine with every page of the upper halves free, and no page to hand out.\<close>

lemma alloc_fails_iff_witness:
  "mm_phy_alloc_page (\<lparr>phy_bitmap = (\<lambda>_. 0xFFFFFFFF), refcount = (\<lambda>_. 0)\<rparr> :: phy_state) = None \<and>
   page_free (\<lparr>phy_bitmap = (\<lambda>_. 0xFFFFFFFF), refcount = (\<lambda>_. 0)\<rparr> :: phy_state) 32"
proof -
  have m: "(0xFFFFFFFF :: u64) = mask 32" by (simp add: mask_eq_exp_minus_1)
  have "\<forall>j < 31. bit (0xFFFFFFFF :: u64) j" "bit (0xFFFFFFFF :: u64) 31"
    "\<not> bit (0xFFFFFFFF :: u64) 32"
    by (simp_all add: m bit_mask_iff)
  moreover from this(2) have "\<exists>j < 64. 31 \<le> j \<and> bit (0xFFFFFFFF :: u64) j"
    by (intro exI [of _ 31]) simp
  ultimately show ?thesis
    unfolding alloc_fails_iff by (auto simp: page_free_def)
qed

text \<open>Dropping a reference frees the page exactly when the last reference goes, and touches no
  other page.\<close>

lemma dec_ref_count_frees:
  "page_free (dec_ref_count phy s) q \<longleftrightarrow>
   page_free s q \<or> (q = mm_phy_to_page phy \<and> q \<noteq> 0 \<and> refcount s q = 1)"
  by (rule page_free_dec)

lemma lower_half:
  assumes "32 \<le> n mod (64 :: nat)"
  shows "(n - 32) div 64 = n div 64" and "(n - 32) mod 64 = n mod 64 - 32"
proof -
  have "n - 32 = (n mod 64 - 32) + 64 * (n div 64)"
    using assms div_mult_mod_eq [of n 64] by linarith
  moreover have "n mod 64 - 32 < 64" using mod_less_divisor [of 64 n] by simp
  ultimately show "(n - 32) div 64 = n div 64" and "(n - 32) mod 64 = n mod 64 - 32"
    by simp_all
qed

text \<open>C8: reserving a page at an offset from 32 to 62 of its group does not reserve it: the mask
  sets the bit of the page 32 places below.\<close>

lemma set_page_used_upper_half:
  assumes "32 \<le> unat page mod 64" and "unat page mod 64 < 63"
  shows "page_free (set_page_used page s) page = page_free s page \<and>
    \<not> page_free (set_page_used page s) (page - 32)"
proof -
  have m: "unat (page mod 64) mod 32 = unat page mod 64 - 32"
    using assms by (simp add: unat_mod_64 le_mod_geq)
  have "32 \<le> unat page" using assms by (meson le_trans mod_less_eq_dividend)
  then have u: "unat (page - 32) = unat page - 32"
    by (simp add: unat_sub word_le_nat_alt)
  have d: "(page - 32) div 64 = page div 64"
    using lower_half [OF assms(1)] by (simp add: word_unat_eq_iff unat_div u)
  have "unat (page - 32) mod 64 = unat page mod 64 - 32"
    using lower_half [OF assms(1)] by (simp add: u)
  moreover have "page \<noteq> 0" using assms by auto
  ultimately have "\<not> page_free (set_page_used page s) (page - 32)"
    using d assms by (auto simp: page_free_set_page_used bit_int_shl1 m)
  moreover have "page_free (set_page_used page s) page = page_free s page"
    using assms by (auto simp: page_free_set_page_used bit_int_shl1 m)
  ultimately show ?thesis by blast
qed

lemma set_page_used_upper_half_witness:
  "page_free (set_page_used 40 (\<lparr>phy_bitmap = (\<lambda>_. 0), refcount = (\<lambda>_. 0)\<rparr> :: phy_state)) 40"
proof -
  have "(32 :: nat) \<le> unat (40 :: u64) mod 64" "unat (40 :: u64) mod 64 < 63" by simp_all
  from set_page_used_upper_half [OF this, of "\<lparr>phy_bitmap = (\<lambda>_. 0), refcount = (\<lambda>_. 0)\<rparr> :: phy_state"]
  show ?thesis by (simp add: page_free_def)
qed

end
