(* ===== verification/PageTable.thy ===== *)
theory PageTable
  imports PhyAlloc
begin

section \<open>The four-level page tables (\<open>w2/sys/mmu/pt.c\<close>)\<close>

text \<open>
  The state of the MMU layer extends the allocator's: physical memory as 64-bit words at
  8-byte-aligned addresses, the register CR3, the kernel's own top-level table \<open>k_cr3\<close> and
  \<open>virtual_top\<close> of \<open>virtual_mm.c\<close>.  The kernel reaches a table frame at the physical address
  \<open>p\<close> through the virtual address \<open>KADDR p\<close>, which \<open>map_all_phy\<close> maps one to one; the model reads
  and writes physical memory through that map (\<open>kread\<close>, \<open>kwrite\<close>).
  \<open>kprintf\<close> returns at once in this program (\<open>kprintf.c\<close>, line 118), so its calls leave no trace.
\<close>

record mmu_state = phy_state +
  pmem :: "u64 \<Rightarrow> u64"
  cr3 :: u64
  k_cr3 :: u64
  virtual_top :: u64

definition PT_PRESENT_FLAG :: u64 where "PT_PRESENT_FLAG = 1"
definition PT_WRITABLE_FLAG :: u64 where "PT_WRITABLE_FLAG = 2"
definition PT_USER :: u64 where "PT_USER = 4"
definition VIRT_KERNEL_BASE :: u64 where "VIRT_KERNEL_BASE = 0xFFFFFFFF80000000"
definition ONE_ON_ONE_MAPPING :: u64 where "ONE_ON_ONE_MAPPING = 0xFFFFFFFF00000000"

definition isPresent :: "u64 \<Rightarrow> bool" where
  "isPresent x \<longleftrightarrow> x AND PT_PRESENT_FLAG \<noteq> 0"

definition KADDR :: "u64 \<Rightarrow> u64" where
  "KADDR paddr = paddr + ONE_ON_ONE_MAPPING"

definition kread :: "'z mmu_state_scheme \<Rightarrow> u64 \<Rightarrow> u64" where
  "kread s vaddr = pmem s (vaddr - ONE_ON_ONE_MAPPING)"

definition kwrite :: "u64 \<Rightarrow> u64 \<Rightarrow> 'z mmu_state_scheme \<Rightarrow> 'z mmu_state_scheme" where
  "kwrite vaddr v s = s\<lparr>pmem := (pmem s)(vaddr - ONE_ON_ONE_MAPPING := v)\<rparr>"

text \<open>The table index fields of a virtual address, and the address of an entry.\<close>

definition pml4e_offset :: "u64 \<Rightarrow> u64" where
  "pml4e_offset virt = 0x1ff AND drop_bit 39 virt"

definition pdpe_offset :: "u64 \<Rightarrow> u64" where
  "pdpe_offset virt = 0x1ff AND drop_bit 30 virt"

definition pde_offset :: "u64 \<Rightarrow> u64" where
  "pde_offset virt = 0x1ff AND drop_bit 21 virt"

definition pte_offset :: "u64 \<Rightarrow> u64" where
  "pte_offset virt = 0x1ff AND drop_bit 12 virt"

definition slot :: "u64 \<Rightarrow> u64 \<Rightarrow> u64" where
  "slot table off = table + 8 * off"

subsection \<open>Reading translations\<close>

definition virt_to_phy :: "u64 \<Rightarrow> u64 \<Rightarrow> 'z mmu_state_scheme \<Rightarrow> u64" where
  "virt_to_phy virt pml4e s =
     (let kpml4e = KADDR (cr3 s);
          e4 = kread s (slot kpml4e (pml4e_offset virt))
      in if \<not> isPresent e4 then 0
      else let pdpetable = KADDR (ALIGN_DOWN e4);
               e3 = kread s (slot pdpetable (pdpe_offset virt))
      in if \<not> isPresent e3 then 0
      else let pdetable = KADDR (ALIGN_DOWN e3);
               e2 = kread s (slot pdetable (pde_offset virt))
      in if \<not> isPresent e2 then 0
      else let pttable = KADDR (ALIGN_DOWN e2);
               e1 = kread s (slot pttable (pte_offset virt))
      in if \<not> isPresent e1 then 0
      else ALIGN_DOWN e1)"

definition get_pte_entry :: "u64 \<Rightarrow> 'z mmu_state_scheme \<Rightarrow> u64" where
  "get_pte_entry virt s =
     (let kpml4e = KADDR (cr3 s);
          e4 = kread s (slot kpml4e (pml4e_offset virt))
      in if \<not> isPresent e4 then 0
      else let pdpetable = KADDR (ALIGN_DOWN e4);
               e3 = kread s (slot pdpetable (pdpe_offset virt))
      in if \<not> isPresent e3 then 0
      else let pdetable = KADDR (ALIGN_DOWN e3);
               e2 = kread s (slot pdetable (pde_offset virt))
      in if \<not> isPresent e2 then 0
      else let pttable = KADDR (ALIGN_DOWN e2);
               e1 = kread s (slot pttable (pte_offset virt))
      in if \<not> isPresent e1 then 0
      else slot pttable (pte_offset virt))"

definition unmap_phy :: "u64 \<Rightarrow> 'z mmu_state_scheme \<Rightarrow> 'z mmu_state_scheme" where
  "unmap_phy virt s =
     (let kpml4e = KADDR (cr3 s);
          e4 = kread s (slot kpml4e (pml4e_offset virt))
      in if \<not> isPresent e4 then s
      else let pdpetable = KADDR (ALIGN_DOWN e4);
               e3 = kread s (slot pdpetable (pdpe_offset virt))
      in if \<not> isPresent e3 then s
      else let pdetable = KADDR (ALIGN_DOWN e3);
               e2 = kread s (slot pdetable (pde_offset virt))
      in if \<not> isPresent e2 then s
      else let pttable = KADDR (ALIGN_DOWN e2);
               e1 = kread s (slot pttable (pte_offset virt))
      in if isPresent e1
         then let phy = ALIGN_DOWN e1
              in kwrite (slot pttable (pte_offset virt)) 0 (dec_ref_count phy s)
         else s)"

subsection \<open>Creating translations\<close>

text \<open>
  One level of the walk of \<open>map_virt_to_phy\<close>: an absent entry gets a fresh frame; the frame is
  \<^emph>\<open>not\<close> cleared.  With \<open>refresh\<close> a present entry keeps its frame and gets the new flags (the
  levels \<open>pdpe\<close> and \<open>pde\<close>), without it a present entry is left alone (level \<open>pml4e\<close>, and every
  level of \<open>kernmem_mapping\<close>).  The result is the pointer to the next table.
\<close>

definition next_table ::
  "bool \<Rightarrow> u64 \<Rightarrow> u64 \<Rightarrow> 'z mmu_state_scheme \<Rightarrow> (u64 \<times> 'z mmu_state_scheme) option" where
  "next_table refresh flags entry s = do {
     s' \<leftarrow> (if \<not> isPresent (kread s entry)
            then do { (phy_page, s1) \<leftarrow> mm_phy_alloc_page s;
                      Some (kwrite entry (mm_page_to_phy phy_page OR flags) s1) }
            else if refresh
            then Some (kwrite entry (ALIGN_DOWN (kread s entry) OR flags) s)
            else Some s);
     Some (KADDR (ALIGN_DOWN (kread s' entry)), s')
   }"

definition map_virt_to_phy ::
  "u64 \<Rightarrow> u64 \<Rightarrow> u64 \<Rightarrow> 'z mmu_state_scheme \<Rightarrow> 'z mmu_state_scheme option" where
  "map_virt_to_phy virt phy flags s = do {
     let kpml4e = KADDR (cr3 s);
     (pdpetable, s) \<leftarrow> next_table False flags (slot kpml4e (pml4e_offset virt)) s;
     (pdetable, s) \<leftarrow> next_table True flags (slot pdpetable (pdpe_offset virt)) s;
     (pttable, s) \<leftarrow> next_table True flags (slot pdetable (pde_offset virt)) s;
     Some (kwrite (slot pttable (pte_offset virt)) (phy OR flags) s)
   }"

definition kernmem_mapping ::
  "u64 \<Rightarrow> u64 \<Rightarrow> u64 \<Rightarrow> u64 \<Rightarrow> 'z mmu_state_scheme \<Rightarrow> 'z mmu_state_scheme option" where
  "kernmem_mapping virt pbase noofpages pml4e s = do {
     let flags = PT_PRESENT_FLAG OR PT_WRITABLE_FLAG;
     let kpml4e = pml4e + ONE_ON_ONE_MAPPING;
     (pdpetable, s) \<leftarrow> next_table False flags (slot kpml4e (pml4e_offset virt)) s;
     (pdetable, s) \<leftarrow> next_table False flags (slot pdpetable (pdpe_offset virt)) s;
     (pttable, s) \<leftarrow> next_table False flags (slot pdetable (pde_offset virt)) s;
     Some (kwrite (slot pttable (pte_offset virt)) (pbase OR flags) s)
   }"

text \<open>
  The two loops of \<open>setup_paging\<close> and \<open>map_all_phy\<close> advance a virtual and a physical address in
  step, one page at a time.
\<close>

fun map_range ::
  "nat \<Rightarrow> u64 \<Rightarrow> u64 \<Rightarrow> u64 \<Rightarrow> 'z mmu_state_scheme \<Rightarrow> (u64 \<times> 'z mmu_state_scheme) option" where
  "map_range 0 vaddr start pml4e s = Some (vaddr, s)"
| "map_range (Suc n) vaddr start pml4e s = do {
     s' \<leftarrow> kernmem_mapping vaddr start 1 pml4e s;
     map_range n (vaddr + PAGE_SIZE) (start + PAGE_SIZE) pml4e s'
   }"

definition map_all_phy :: "u64 \<Rightarrow> 'z mmu_state_scheme \<Rightarrow> 'z mmu_state_scheme option" where
  "map_all_phy pml4e s =
     (let start = 0;
          end_addr = ALIGN_DOWN 0x40000000;
          no_of_pages = (end_addr - start) div PAGE_SIZE;
          vstart = ALIGN_UP 0xffffffff00000000
      in do { (_, s') \<leftarrow> map_range (unat no_of_pages) vstart start pml4e s; Some s' })"

definition init_virtual_memory :: "u64 \<Rightarrow> 'z mmu_state_scheme \<Rightarrow> 'z mmu_state_scheme" where
  "init_virtual_memory virtual_start_address s = s\<lparr>virtual_top := virtual_start_address\<rparr>"

definition write_cr3 :: "u64 \<Rightarrow> 'z mmu_state_scheme \<Rightarrow> 'z mmu_state_scheme" where
  "write_cr3 v s = s\<lparr>cr3 := v\<rparr>"

definition setup_paging :: "u64 \<Rightarrow> u64 \<Rightarrow> 'z mmu_state_scheme \<Rightarrow> 'z mmu_state_scheme option" where
  "setup_paging phybase physfree s = do {
     (phy_page, s) \<leftarrow> mm_phy_alloc_page s;
     let root = mm_page_to_phy phy_page;
     let s = s\<lparr>k_cr3 := root\<rparr>;
     let vaddr = VIRT_KERNEL_BASE + phybase;
     let start = ALIGN_DOWN phybase;
     let end_addr = ALIGN_UP physfree;
     let size = end_addr - start;
     let noofpages = size div PAGE_SIZE + (if size mod PAGE_SIZE \<noteq> 0 then 1 else 0);
     (vaddr, s) \<leftarrow> map_range (unat noofpages) vaddr start root s;
     s \<leftarrow> kernmem_mapping 0xFFFFFFFF800B8000 0xB8000 1 root s;
     s \<leftarrow> map_all_phy root s;
     let s = init_virtual_memory (vaddr + PAGE_SIZE) s;
     Some (write_cr3 root s)
   }"

subsection \<open>Entry bits\<close>

definition set_writable_bit :: "u64 \<Rightarrow> 'z mmu_state_scheme \<Rightarrow> 'z mmu_state_scheme" where
  "set_writable_bit pte s = kwrite pte (kread s pte OR 0x02) s"

definition reset_writable_bit :: "u64 \<Rightarrow> 'z mmu_state_scheme \<Rightarrow> 'z mmu_state_scheme" where
  "reset_writable_bit pte s = kwrite pte (kread s pte AND 0xFFFFFFFFFFFFFFFD) s"

definition set_cow_bit :: "u64 \<Rightarrow> 'z mmu_state_scheme \<Rightarrow> 'z mmu_state_scheme" where
  "set_cow_bit pte s = kwrite pte (kread s pte OR 0x4000000000000000) s"

definition reset_cow_bit :: "u64 \<Rightarrow> 'z mmu_state_scheme \<Rightarrow> 'z mmu_state_scheme" where
  "reset_cow_bit pte s = kwrite pte (kread s pte AND 0xBFFFFFFFFFFFFFFF) s"

definition is_cow_set :: "u64 \<Rightarrow> 'z mmu_state_scheme \<Rightarrow> u64" where
  "is_cow_set pte s = kread s pte AND 0x4000000000000000"

definition is_writable_page :: "u64 \<Rightarrow> 'z mmu_state_scheme \<Rightarrow> u64" where
  "is_writable_page pte s = kread s pte AND 0x02"

end
