(* ===== verification/PageWalk.thy ===== *)
theory PageWalk
  imports PageTable
begin

section \<open>Correctness of the page tables\<close>

text \<open>
  The four copies of the walk in \<open>pt.c\<close> are one recursion over the list of the four table
  indices.  A table of the tree is named by its path from the root (up to three indices).  The
  invariant \<open>pt_wf\<close> says that different paths lead to different frames; then a write to one
  entry changes only the walks that pass through it, and \<open>map_virt_to_phy\<close> refines the update
  of a partial function from virtual pages to frames.
\<close>

fun walk :: "(u64 \<Rightarrow> u64) \<Rightarrow> u64 \<Rightarrow> u64 list \<Rightarrow> u64 option" where
  "walk m b [] = Some b"
| "walk m b (x # xs) =
     (let e = m (slot b x) in if isPresent e then walk m (ALIGN_DOWN e) xs else None)"

definition path :: "u64 \<Rightarrow> u64 list" where
  "path virt = [pml4e_offset virt, pdpe_offset virt, pde_offset virt, pte_offset virt]"

definition valid_path :: "u64 list \<Rightarrow> bool" where
  "valid_path xs \<longleftrightarrow> (\<forall>x \<in> set xs. x < 512)"

lemma kread_slot_KADDR [simp]: "kread s (slot (KADDR p) x) = pmem s (slot p x)"
  by (simp add: kread_def KADDR_def slot_def algebra_simps)

lemma kwrite_slot_KADDR [simp]:
  "kwrite (slot (KADDR p) x) v s = s\<lparr>pmem := (pmem s)(slot p x := v)\<rparr>"
  by (simp add: kwrite_def KADDR_def slot_def algebra_simps)

lemma virt_to_phy_walk:
  "virt_to_phy virt p s =
     (case walk (pmem s) (cr3 s) (path virt) of Some f \<Rightarrow> f | None \<Rightarrow> 0)"
  by (simp add: virt_to_phy_def path_def Let_def)

lemma walk_append: "walk m b (xs @ ys) = Option.bind (walk m b xs) (\<lambda>f. walk m f ys)"
  by (induction xs arbitrary: b) (simp_all add: Let_def)

lemma walk_snoc:
  "walk m b (xs @ [x]) =
   (case walk m b xs of None \<Rightarrow> None
    | Some f \<Rightarrow> if isPresent (m (slot f x)) then Some (ALIGN_DOWN (m (slot f x))) else None)"
  by (simp add: walk_append Let_def split: option.splits)

lemma walk_aligned: "page_aligned b \<Longrightarrow> walk m b xs = Some f \<Longrightarrow> page_aligned f"
proof (induction xs arbitrary: b)
  case (Cons x xs)
  then show ?case
    using Cons.IH [of "ALIGN_DOWN (m (slot b x))"] by (simp add: Let_def split: if_splits)
qed simp

subsection \<open>Entries of different tables never overlap\<close>

lemma offset_bounds [simp]:
  "pml4e_offset v < 512" "pdpe_offset v < 512" "pde_offset v < 512" "pte_offset v < 512"
proof -
  have "0x1ff AND w < (512 :: u64)" for w
    using word_and_le2 [of "0x1ff" w] by (simp add: word_le_nat_alt word_less_nat_alt)
  then show "pml4e_offset v < 512" "pdpe_offset v < 512" "pde_offset v < 512" "pte_offset v < 512"
    by (simp_all add: pml4e_offset_def pdpe_offset_def pde_offset_def pte_offset_def)
qed

lemma valid_path_path [simp]: "valid_path (path v)"
  by (simp add: valid_path_def path_def)

lemma unat_slot:
  assumes "page_aligned b" and "x < 512"
  shows "unat (slot b x) = unat b + 8 * unat x"
proof -
  from assms(1) obtain k where k: "unat b = 4096 * k" by (auto simp: page_aligned_iff_dvd)
  have x: "unat x < 512" using assms(2) by (simp add: word_less_nat_alt)
  have "4096 * k < 4096 * 4503599627370496"
    using unat_u64 [of b] k by simp
  then have "Suc k \<le> 4503599627370496" by (simp only: nat_mult_less_cancel1 Suc_le_eq)
  then have "4096 * Suc k \<le> 4096 * 4503599627370496" by (rule mult_le_mono2)
  with x k have lt: "unat b + 8 * unat x < 18446744073709551616" by simp
  have "8 * unat x < 2 ^ LENGTH(64)" using x by simp
  then have "unat (8 :: u64) * unat x < 2 ^ LENGTH(64)" by simp
  then have "unat (8 * x) = unat (8 :: u64) * unat x"
    by (rule unat_mult_lem [THEN iffD1])
  then have "unat (8 * x) = 8 * unat x" by simp
  with lt have "unat b + unat (8 * x) < 2 ^ LENGTH(64)" by simp
  then have "unat (b + 8 * x) = unat b + unat (8 * x)"
    by (rule unat_add_lem [THEN iffD1])
  then show ?thesis by (simp add: slot_def \<open>unat (8 * x) = 8 * unat x\<close>)
qed

lemma slot_eq_iff:
  assumes "page_aligned b" "page_aligned c" "x < 512" "y < 512"
  shows "slot b x = slot c y \<longleftrightarrow> b = c \<and> x = y"
proof
  assume "slot b x = slot c y"
  then have eq: "unat b + 8 * unat x = unat c + 8 * unat y"
    using assms by (metis unat_slot)
  obtain k where k: "unat b = 4096 * k" using assms(1) by (auto simp: page_aligned_iff_dvd)
  obtain l where l: "unat c = 4096 * l" using assms(2) by (auto simp: page_aligned_iff_dvd)
  have "unat x < 512" "unat y < 512" using assms by (simp_all add: word_less_nat_alt)
  then have "(4096 * k + 8 * unat x) div 4096 = k" "(4096 * l + 8 * unat y) div 4096 = l"
    by simp_all
  with eq k l have "k = l" by metis
  with eq k l have "unat x = unat y" by simp
  with k l \<open>k = l\<close> show "b = c \<and> x = y" by (simp add: word_unat_eq_iff)
qed simp

subsection \<open>The tree invariant\<close>

definition pt_wf :: "(u64 \<Rightarrow> u64) \<Rightarrow> u64 \<Rightarrow> bool" where
  "pt_wf m b \<longleftrightarrow> page_aligned b \<and>
     (\<forall>p q f. valid_path p \<and> valid_path q \<and> length p \<le> 3 \<and> length q \<le> 3 \<and>
        walk m b p = Some f \<and> walk m b q = Some f \<longrightarrow> p = q)"

lemma pt_wfD:
  "pt_wf m b \<Longrightarrow> walk m b p = Some f \<Longrightarrow> walk m b q = Some f \<Longrightarrow>
   valid_path p \<Longrightarrow> valid_path q \<Longrightarrow> length p \<le> 3 \<Longrightarrow> length q \<le> 3 \<Longrightarrow> p = q"
  by (auto simp: pt_wf_def)

lemma valid_path_Cons [simp]: "valid_path (x # xs) \<longleftrightarrow> x < 512 \<and> valid_path xs"
  by (simp add: valid_path_def)

lemma valid_path_Nil [simp]: "valid_path []"
  by (simp add: valid_path_def)

lemma valid_path_append [simp]: "valid_path (xs @ ys) \<longleftrightarrow> valid_path xs \<and> valid_path ys"
  by (auto simp: valid_path_def)

text \<open>A walk that does not pass through the written entry is unchanged.\<close>

lemma walk_upd_other:
  assumes wf: "pt_wf m b" and t: "walk m b p = Some f" "valid_path p" "length p \<le> 3" and x: "x < 512"
  shows "valid_path q \<Longrightarrow> length q \<le> 4 \<Longrightarrow> \<not> (\<exists>r. q = (p @ [x]) @ r) \<Longrightarrow>
     walk (m(slot f x := e)) b q = walk m b q"
proof (induction q rule: rev_induct)
  case (snoc y q)
  have IH: "walk (m(slot f x := e)) b q = walk m b q"
    by (rule snoc.IH) (use snoc.prems in auto)
  show ?case
  proof (cases "walk m b q")
    case (Some g)
    have b: "page_aligned b" using wf by (simp add: pt_wf_def)
    have "slot g y \<noteq> slot f x"
    proof
      assume "slot g y = slot f x"
      moreover have "y < 512" using snoc.prems(1) by (simp add: valid_path_def)
      ultimately have "g = f \<and> y = x"
        using slot_eq_iff [OF walk_aligned [OF b Some] walk_aligned [OF b t(1)]] x by blast
      then have "g = f" and "y = x" by auto
      then have "q = p" using pt_wfD [OF wf Some] t snoc.prems by simp
      with \<open>y = x\<close> snoc.prems(3) show False by auto
    qed
    then show ?thesis by (simp add: walk_snoc IH Some del: fun_upd_apply) simp
  next
    case None
    then show ?thesis by (simp add: walk_snoc IH del: fun_upd_apply)
  qed
qed simp

text \<open>Rewriting an entry with the same frame (new flags only) changes no walk at all.\<close>

lemma walk_upd_same_frame:
  assumes wf: "pt_wf m b" and t: "walk m b p = Some f" "valid_path p" "length p \<le> 3" and x: "x < 512"
    and e: "isPresent e" "isPresent (m (slot f x))" "ALIGN_DOWN e = ALIGN_DOWN (m (slot f x))"
  shows "walk (m(slot f x := e)) b q = walk m b q"
proof (induction q rule: rev_induct)
  case (snoc y q)
  then show ?case
    using e by (cases "walk m b q") (auto simp: walk_snoc)
qed simp

lemma pt_wf_same_walks: "pt_wf m b \<Longrightarrow> (\<And>q. walk m' b q = walk m b q) \<Longrightarrow> pt_wf m' b"
  by (simp add: pt_wf_def)

subsection \<open>Linking a fresh table\<close>

text \<open>The frames of the tables of the tree with the given root.\<close>

definition is_table :: "(u64 \<Rightarrow> u64) \<Rightarrow> u64 \<Rightarrow> u64 \<Rightarrow> bool" where
  "is_table m b f \<longleftrightarrow> (\<exists>p. valid_path p \<and> length p \<le> 3 \<and> walk m b p = Some f)"

definition zero_frame :: "(u64 \<Rightarrow> u64) \<Rightarrow> u64 \<Rightarrow> bool" where
  "zero_frame m f \<longleftrightarrow> (\<forall>x < 512. m (slot f x) = 0)"

lemma walk_zero_frame: "zero_frame m f \<Longrightarrow> valid_path (x # xs) \<Longrightarrow> walk m f (x # xs) = None"
  by (simp add: zero_frame_def valid_path_def isPresent_def)

lemma zero_frame_upd:
  assumes "zero_frame m g" "page_aligned f" "page_aligned g" "f \<noteq> g" "x < 512"
  shows "zero_frame (m(slot f x := e)) g"
  using assms slot_eq_iff [of g f _ x] by (auto simp: zero_frame_def)

lemma walk_link:
  assumes wf: "pt_wf m b" and t: "walk m b p = Some f" "valid_path p" "length p \<le> 2" and x: "x < 512"
    and absent: "\<not> isPresent (m (slot f x))"
    and new: "page_aligned g" "zero_frame m g" "\<not> is_table m b g"
    and e: "isPresent e" "ALIGN_DOWN e = g"
    and q: "valid_path q" "length q \<le> 4"
  shows "walk (m(slot f x := e)) b q = (if q = p @ [x] then Some g else walk m b q)"
proof (cases "\<exists>r. q = (p @ [x]) @ r")
  case False
  then show ?thesis using walk_upd_other [OF wf t(1,2) _ x q] t(3) by auto
next
  case True
  then obtain r where r: "q = (p @ [x]) @ r" by blast
  have "page_aligned f" using walk_aligned [of b m p f] t(1) wf by (simp add: pt_wf_def)
  moreover have "f \<noteq> g" using new(3) t by (auto simp: is_table_def)
  ultimately have zero: "zero_frame (m(slot f x := e)) g"
    using zero_frame_upd [OF new(2) _ new(1)] x by simp
  have "walk (m(slot f x := e)) b p = Some f"
    using walk_upd_other [OF wf t(1,2) _ x t(2)] t by simp
  then have new_walk: "walk (m(slot f x := e)) b (p @ [x]) = Some g"
    using e by (simp add: walk_snoc)
  have old_walk: "walk m b (p @ [x]) = None"
    using t(1) absent by (simp add: walk_snoc)
  show ?thesis
  proof (cases r)
    case Nil
    then show ?thesis using r new_walk by simp
  next
    case (Cons y ys)
    have "walk (m(slot f x := e)) g (y # ys) = None"
      by (rule walk_zero_frame [OF zero]) (use q(1) r Cons in \<open>simp add: valid_path_def\<close>)
    then have "walk (m(slot f x := e)) b q = None"
      using new_walk r Cons by (simp add: walk_append [of _ _ "p @ [x]"] del: append_assoc)
    moreover have "walk m b q = None"
      using old_walk r by (simp add: walk_append [of _ _ "p @ [x]"] del: append_assoc)
    ultimately show ?thesis using r Cons by simp
  qed
qed

lemma pt_wf_link:
  assumes wf: "pt_wf m b" and t: "walk m b p = Some f" "valid_path p" "length p \<le> 2" and x: "x < 512"
    and absent: "\<not> isPresent (m (slot f x))"
    and new: "page_aligned g" "zero_frame m g" "\<not> is_table m b g"
    and e: "isPresent e" "ALIGN_DOWN e = g"
  shows "pt_wf (m(slot f x := e)) b"
proof -
  note link = walk_link [OF assms]
  show ?thesis
    unfolding pt_wf_def
  proof (intro conjI allI impI)
    show "page_aligned b" using wf by (simp add: pt_wf_def)
    fix q q' h
    assume *: "valid_path q \<and> valid_path q' \<and> length q \<le> 3 \<and> length q' \<le> 3 \<and>
      walk (m(slot f x := e)) b q = Some h \<and> walk (m(slot f x := e)) b q' = Some h"
    have g: "walk m b r \<noteq> Some g" if "valid_path r" "length r \<le> 3" for r
      using new(3) that by (auto simp: is_table_def)
    show "q = q'"
      using * link [of q] link [of q'] g [of q] g [of q'] pt_wfD [OF wf, of q h q']
      by (auto split: if_splits)
  qed
qed

lemma is_table_link:
  assumes wf: "pt_wf m b" and t: "walk m b p = Some f" "valid_path p" "length p \<le> 2" and x: "x < 512"
    and absent: "\<not> isPresent (m (slot f x))"
    and new: "page_aligned g" "zero_frame m g" "\<not> is_table m b g"
    and e: "isPresent e" "ALIGN_DOWN e = g"
  shows "is_table (m(slot f x := e)) b h \<longleftrightarrow> is_table m b h \<or> h = g"
proof -
  have link: "walk (m(slot f x := e)) b q = (if q = p @ [x] then Some g else walk m b q)"
    if "valid_path q" "length q \<le> 3" for q
    using walk_link [OF assms that(1)] that(2) by simp
  have new_path: "valid_path (p @ [x])" "length (p @ [x]) \<le> 3"
    using t x by simp_all
  have none: "walk m b (p @ [x]) = None" using t(1) absent by (simp add: walk_snoc)
  show ?thesis
  proof
    assume "is_table (m(slot f x := e)) b h"
    then obtain q where q: "valid_path q" "length q \<le> 3" "walk (m(slot f x := e)) b q = Some h"
      by (auto simp: is_table_def)
    then show "is_table m b h \<or> h = g"
      using link [OF q(1,2)] by (auto simp: is_table_def split: if_splits)
  next
    assume "is_table m b h \<or> h = g"
    then show "is_table (m(slot f x := e)) b h"
    proof
      assume "is_table m b h"
      then obtain q where q: "valid_path q" "length q \<le> 3" "walk m b q = Some h"
        by (auto simp: is_table_def)
      moreover have "q \<noteq> p @ [x]" using none q(3) by auto
      ultimately show ?thesis using link [OF q(1,2)] unfolding is_table_def by metis
    next
      assume "h = g"
      then show ?thesis using link [OF new_path] new_path unfolding is_table_def by metis
    qed
  qed
qed

subsection \<open>The invariant of the memory manager\<close>

text \<open>
  The tree below \<open>root\<close> is a tree, and every frame the allocator may hand out is clear and not
  one of its tables.  The code never clears a frame it links as a table, so it depends on the
  frames of the pool being clear; they are when the machine starts with cleared memory and no
  frame has been written before.
\<close>

definition mm_ok :: "u64 \<Rightarrow> 'z mmu_state_scheme \<Rightarrow> bool" where
  "mm_ok root s \<longleftrightarrow> pt_wf (pmem s) root \<and>
     (\<forall>pg. page_free s pg \<and> unat pg < 508 * 64 \<longrightarrow>
        zero_frame (pmem s) (mm_page_to_phy pg) \<and> \<not> is_table (pmem s) root (mm_page_to_phy pg))"

definition valid_flags :: "u64 \<Rightarrow> bool" where
  "valid_flags f \<longleftrightarrow> isPresent f \<and> f < 4096"

lemma isPresent_bit: "isPresent x \<longleftrightarrow> bit x 0"
  by (simp add: isPresent_def PT_PRESENT_FLAG_def and_one_eq bit_0 odd_iff_mod_2_eq_one)

lemma small_bits:
  assumes "f < (4096 :: u64)" "bit f n"
  shows "n < 12"
proof -
  have "f = take_bit 12 f"
    using assms(1) by (simp add: word_less_nat_alt word_unat_eq_iff unsigned_take_bit_eq take_bit_nat_eq_self)
  with assms(2) show ?thesis by (metis bit_take_bit_iff)
qed

lemma entry_OR [page_simps]:
  assumes "page_aligned g" "valid_flags f"
  shows "ALIGN_DOWN (g OR f) = g" "isPresent (g OR f)"
proof -
  show "ALIGN_DOWN (g OR f) = g"
    using assms small_bits [of f]
    by (intro bit_word_eqI) (auto simp: page_aligned_iff_bit valid_flags_def bit_simps not_less
        dest: leD)
  show "isPresent (g OR f)"
    using assms by (simp add: isPresent_bit valid_flags_def bit_or_iff)
qed

lemma page_aligned_page_to_phy [simp, page_simps]: "page_aligned (mm_page_to_phy pg)"
  by (simp add: mm_page_to_phy_def page_aligned_numeral_mult)

lemma page_free_pmem [simp, frame_simps]: "page_free (s\<lparr>pmem := m\<rparr>) pg = page_free s pg"
  by (simp add: page_free_def)

lemma mmu_fields_inc [simp, frame_simps]:
  "pmem (inc_ref_count phy s) = pmem s" "cr3 (inc_ref_count phy s) = cr3 s"
  "k_cr3 (inc_ref_count phy s) = k_cr3 s" "virtual_top (inc_ref_count phy s) = virtual_top s"
  by (simp_all add: inc_ref_count_def Let_def)

lemma alloc_mmu_fields:
  assumes "mm_phy_alloc_page s = Some (pg, s')"
  shows "pmem s' = pmem s \<and> cr3 s' = cr3 s \<and> k_cr3 s' = k_cr3 s \<and> virtual_top s' = virtual_top s"
  by (rule alloc_page_effect [OF assms]) simp

lemma mm_ok_table:
  "mm_ok root s \<Longrightarrow> is_table (pmem s) root f \<Longrightarrow> page_free s pg \<Longrightarrow> unat pg < 508 * 64 \<Longrightarrow>
   f \<noteq> mm_page_to_phy pg"
  by (auto simp: mm_ok_def)

lemma page_to_phy_inj:
  assumes "unat p < 508 * 64" "unat q < 508 * 64" "mm_page_to_phy p = mm_page_to_phy q"
  shows "p = q"
proof -
  have "unat p < 2 ^ 52" "unat q < 2 ^ 52" using assms(1,2) by simp_all
  then show ?thesis using assms(3) page_to_phy_to_page by metis
qed

text \<open>Writing an entry of a table keeps the frames of the pool clear.\<close>

lemma pool_zero_upd:
  assumes ok: "mm_ok root s" and f: "is_table (pmem s) root f" and x: "x < 512"
    and pg: "page_free s pg" "unat pg < 508 * 64"
  shows "zero_frame ((pmem s)(slot f x := e)) (mm_page_to_phy pg)"
proof (rule zero_frame_upd)
  show "zero_frame (pmem s) (mm_page_to_phy pg)" using ok pg by (simp add: mm_ok_def)
  show "f \<noteq> mm_page_to_phy pg" using mm_ok_table [OF ok f pg] .
  have "page_aligned root" using ok by (simp add: mm_ok_def pt_wf_def)
  then show "page_aligned f" using f walk_aligned by (auto simp: is_table_def)
qed (use x in simp_all)

lemma mm_ok_same_walks:
  assumes ok: "mm_ok root s" and f: "is_table (pmem s) root f" and x: "x < 512"
    and same: "\<And>q. valid_path q \<Longrightarrow> length q \<le> 3 \<Longrightarrow>
      walk ((pmem s)(slot f x := e)) root q = walk (pmem s) root q"
  shows "mm_ok root (s\<lparr>pmem := (pmem s)(slot f x := e)\<rparr>)"
proof -
  have "is_table ((pmem s)(slot f x := e)) root h = is_table (pmem s) root h" for h
    using same by (auto simp: is_table_def)
  moreover have "pt_wf ((pmem s)(slot f x := e)) root"
    using ok same by (auto simp: mm_ok_def pt_wf_def)
  ultimately show ?thesis
    using ok pool_zero_upd [OF ok f x] by (auto simp: mm_ok_def)
qed

text \<open>
  What a walk along \<open>r\<close> may do to memory: it writes into tables on the way only, the tables it adds are on
  the way, too, and were free frames, and it frees nothing.  For a fixed way this is a preorder.
\<close>

definition tables_on :: "u64 list \<Rightarrow> u64 \<Rightarrow> 'z mmu_state_scheme \<Rightarrow> 'z mmu_state_scheme \<Rightarrow> bool" where
  "tables_on r root s s' \<longleftrightarrow>
     (\<forall>a. pmem s' a \<noteq> pmem s a \<longrightarrow> (\<exists>k \<le> 3. walk (pmem s') root (take k r) = Some (ALIGN_DOWN a))) \<and>
     (\<forall>p f. valid_path p \<and> length p \<le> 3 \<and> walk (pmem s) root p = Some f \<longrightarrow> walk (pmem s') root p = Some f) \<and>
     (\<forall>p f. valid_path p \<and> length p \<le> 3 \<and> walk (pmem s') root p = Some f \<longrightarrow> walk (pmem s) root p = Some f \<or>
        (\<exists>k \<le> 3. p = take k r) \<and> (\<exists>pg. page_free s pg \<and> unat pg < 508 * 64 \<and> f = mm_page_to_phy pg)) \<and>
     (\<forall>pg. page_free s' pg \<longrightarrow> page_free s pg)"

lemma valid_path_take: "valid_path r \<Longrightarrow> valid_path (take k r)"
  by (auto simp: valid_path_def dest: in_set_takeD)

lemma tables_on_trans:
  assumes r: "valid_path r" and st: "tables_on r root s t" and tu: "tables_on r root t u"
  shows "tables_on r root s u"
  unfolding tables_on_def
proof (intro conjI allI impI)
  fix a assume "pmem u a \<noteq> pmem s a"
  then consider "pmem u a \<noteq> pmem t a" | "pmem t a \<noteq> pmem s a" by metis
  then show "\<exists>k \<le> 3. walk (pmem u) root (take k r) = Some (ALIGN_DOWN a)"
  proof cases
    case 1
    then show ?thesis using tu unfolding tables_on_def by blast
  next
    case 2
    then obtain k where k: "k \<le> 3" "walk (pmem t) root (take k r) = Some (ALIGN_DOWN a)"
      using st unfolding tables_on_def by blast
    moreover have "length (take k r) \<le> 3" using k(1) by simp
    ultimately have "walk (pmem u) root (take k r) = Some (ALIGN_DOWN a)"
      using tu valid_path_take [OF r] unfolding tables_on_def by blast
    with k(1) show ?thesis by blast
  qed
next
  fix p f assume *: "valid_path p \<and> length p \<le> 3 \<and> walk (pmem s) root p = Some f"
  then have "walk (pmem t) root p = Some f" using st unfolding tables_on_def by blast
  with * show "walk (pmem u) root p = Some f" using tu unfolding tables_on_def by blast
next
  fix p f assume *: "valid_path p \<and> length p \<le> 3 \<and> walk (pmem u) root p = Some f"
  then consider "walk (pmem t) root p = Some f" |
    "\<exists>k \<le> 3. p = take k r" "\<exists>pg. page_free t pg \<and> unat pg < 508 * 64 \<and> f = mm_page_to_phy pg"
    using tu unfolding tables_on_def by blast
  then show "walk (pmem s) root p = Some f \<or>
      (\<exists>k \<le> 3. p = take k r) \<and> (\<exists>pg. page_free s pg \<and> unat pg < 508 * 64 \<and> f = mm_page_to_phy pg)"
  proof cases
    case 1
    then show ?thesis using * st unfolding tables_on_def by blast
  next
    case 2
    then show ?thesis using st unfolding tables_on_def by blast
  qed
next
  fix pg assume "page_free u pg"
  then show "page_free s pg" using st tu unfolding tables_on_def by blast
qed

lemma ALIGN_DOWN_slot:
  assumes "page_aligned g" and "y < 512"
  shows "ALIGN_DOWN (slot g y) = g"
proof -
  have "unat y < 512" using assms(2) by (simp add: word_less_nat_alt)
  moreover obtain k where "unat g = 4096 * k" using assms(1) by (auto simp: page_aligned_iff_dvd)
  ultimately have "unat (ALIGN_DOWN (slot g y)) = unat g"
    by (simp add: unat_ALIGN_DOWN unat_slot [OF assms])
  then show ?thesis by (simp add: word_unat_eq_iff)
qed

lemma tables_on_entry:
  assumes p: "walk (pmem s) root p = Some f" "p = take (length p) r" "length p \<le> 3" and "page_aligned root" and x: "x < 512"
    and same: "\<And>q. valid_path q \<Longrightarrow> length q \<le> 3 \<Longrightarrow> walk ((pmem s)(slot f x := e)) root q = walk (pmem s) root q"
    and "valid_path p"
  shows "tables_on r root s (s\<lparr>pmem := (pmem s)(slot f x := e)\<rparr>)"
proof -
  have "page_aligned f" by (rule walk_aligned [OF assms(4) p(1)])
  then have "ALIGN_DOWN (slot f x) = f" by (rule ALIGN_DOWN_slot [OF _ x])
  moreover have "walk ((pmem s)(slot f x := e)) root (take (length p) r) = Some f"
    using same [OF assms(7) p(3)] p(1,2) by simp
  ultimately show ?thesis using p(3) same unfolding tables_on_def by (auto simp del: fun_upd_apply) (auto split: if_splits)
qed

lemma mm_ok_link:
  assumes ok: "mm_ok root s" and t: "walk (pmem s) root p = Some f" "valid_path p" "length p \<le> 2"
    and x: "x < 512" and absent: "\<not> isPresent (pmem s (slot f x))"
    and al: "mm_phy_alloc_page s = Some (pg, s')" and fl: "valid_flags flags"
  defines "u \<equiv> s'\<lparr>pmem := (pmem s)(slot f x := mm_page_to_phy pg OR flags)\<rparr>"
  shows "mm_ok root u"
    and "valid_path q \<Longrightarrow> length q \<le> 4 \<Longrightarrow>
      walk (pmem u) root q = (if q = p @ [x] then Some (mm_page_to_phy pg) else walk (pmem s) root q)"
    and "r = p @ x # r' \<Longrightarrow> tables_on r root s u"
proof -
  note free = alloc_page_free [OF al] and bound = alloc_page_bounds(1) [OF al]
  have wf: "pt_wf (pmem s) root" using ok by (simp add: mm_ok_def)
  have new: "zero_frame (pmem s) (mm_page_to_phy pg)" "\<not> is_table (pmem s) root (mm_page_to_phy pg)"
    using ok free(1) bound by (auto simp: mm_ok_def)
  note e = entry_OR [OF page_aligned_page_to_phy fl]
  note hyps = wf t x absent page_aligned_page_to_phy new e(2) e(1)
  have f: "is_table (pmem s) root f" unfolding is_table_def using t by (intro exI [of _ p]) simp
  show "mm_ok root u"
    unfolding mm_ok_def
  proof (intro conjI allI impI)
    show "pt_wf (pmem u) root" using pt_wf_link [OF hyps] by (simp add: u_def)
    fix q assume q: "page_free u q \<and> unat q < 508 * 64"
    then have old: "page_free s q" "\<not> page_free s' pg" "page_free s' q"
      using free by (auto simp: u_def)
    show "zero_frame (pmem u) (mm_page_to_phy q)"
      using pool_zero_upd [OF ok f x old(1)] q by (simp add: u_def)
    have "mm_page_to_phy q \<noteq> mm_page_to_phy pg"
      using old page_to_phy_inj [OF _ bound, of q] q by auto
    then show "\<not> is_table (pmem u) root (mm_page_to_phy q)"
      using is_table_link [OF hyps, of "mm_page_to_phy q"] ok old(1) q by (simp add: u_def mm_ok_def)
  qed
  show "valid_path q \<Longrightarrow> length q \<le> 4 \<Longrightarrow>
      walk (pmem u) root q = (if q = p @ [x] then Some (mm_page_to_phy pg) else walk (pmem s) root q)"
    using walk_link [OF hyps] by (simp add: u_def)
  have "page_aligned f" using f wf walk_aligned by (auto simp: is_table_def pt_wf_def)
  then have slot: "ALIGN_DOWN (slot f x) = f" by (rule ALIGN_DOWN_slot [OF _ x])
  have none: "walk (pmem s) root (p @ [x]) = None" using t(1) absent by (simp add: walk_snoc)
  have link: "walk (pmem u) root q = (if q = p @ [x] then Some (mm_page_to_phy pg) else walk (pmem s) root q)"
    if "valid_path q" "length q \<le> 3" for q
    using walk_link [OF hyps that(1)] that(2) by (simp add: u_def)
  show "tables_on r root s u" if r: "r = p @ x # r'"
    unfolding tables_on_def
  proof (intro conjI allI impI)
    fix a assume "pmem u a \<noteq> pmem s a"
    then have "a = slot f x" by (auto simp: u_def split: if_splits)
    then have "walk (pmem u) root (take (length p) r) = Some (ALIGN_DOWN a)"
      using link [OF t(2)] t(1,3) slot by (simp add: r)
    then show "\<exists>k \<le> 3. walk (pmem u) root (take k r) = Some (ALIGN_DOWN a)" using t(3) by (intro exI [of _ "length p"]) simp
  next
    fix q h assume "valid_path q \<and> length q \<le> 3 \<and> walk (pmem s) root q = Some h"
    then show "walk (pmem u) root q = Some h" using link [of q] none by auto
  next
    fix q h assume q: "valid_path q \<and> length q \<le> 3 \<and> walk (pmem u) root q = Some h"
    show "walk (pmem s) root q = Some h \<or>
        (\<exists>k \<le> 3. q = take k r) \<and> (\<exists>pg. page_free s pg \<and> unat pg < 508 * 64 \<and> h = mm_page_to_phy pg)"
    proof (cases "q = p @ [x]")
      case True
      then have "q = take (Suc (length p)) r" by (simp add: r)
      moreover have "Suc (length p) \<le> 3" using t(3) by simp
      moreover have "h = mm_page_to_phy pg" using True link [of q] q by simp
      ultimately show ?thesis using free(1) bound by blast
    next
      case False
      then show ?thesis using link [of q] q by auto
    qed
  next
    fix q assume "page_free u q"
    then show "page_free s q" using free(3) by (simp add: u_def)
  qed
qed

subsection \<open>One level of the mapping walk\<close>

lemma next_table_spec:
  assumes nt: "next_table refresh flags (slot (KADDR f) x) s = Some (tab, s')"
    and ok: "mm_ok root s" and p: "walk (pmem s) root p = Some f" "valid_path p" "length p \<le> 2"
    and x: "x < 512" and fl: "valid_flags flags"
  obtains g where "tab = KADDR g" "walk (pmem s') root (p @ [x]) = Some g" "mm_ok root s'"
    "cr3 s' = cr3 s" "k_cr3 s' = k_cr3 s"
    "\<And>q. valid_path q \<Longrightarrow> length q = 4 \<Longrightarrow> walk (pmem s') root q = walk (pmem s) root q"
    "\<And>q. is_table (pmem s) root q \<Longrightarrow> is_table (pmem s') root q"
    "\<And>r r'. r = p @ x # r' \<Longrightarrow> tables_on r root s s'"
proof (cases "isPresent (pmem s (slot f x))")
  case False
  with nt obtain pg s1 where al: "mm_phy_alloc_page s = Some (pg, s1)"
    and s': "s' = s1\<lparr>pmem := (pmem s)(slot f x := mm_page_to_phy pg OR flags)\<rparr>"
    and tab: "tab = KADDR (mm_page_to_phy pg)"
    by (auto simp: next_table_def alloc_mmu_fields entry_OR fl split: bind_splits)
  note link = mm_ok_link [OF ok p x False al fl, folded s']
  have none: "walk (pmem s) root (p @ [x]) = None" using p False by (simp add: walk_snoc)
  have path: "valid_path (p @ [x])" "length (p @ [x]) \<le> 3" using p x by (simp_all add: valid_path_append)
  show thesis
  proof (rule that [OF tab _ link(1)])
    show "walk (pmem s') root (p @ [x]) = Some (mm_page_to_phy pg)" using link(2) [OF path(1)] path(2) by simp
    show "cr3 s' = cr3 s" "k_cr3 s' = k_cr3 s" using alloc_mmu_fields [OF al] by (simp_all add: s')
    show "walk (pmem s') root q = walk (pmem s) root q" if "valid_path q" "length q = 4" for q
      using link(2) [OF that(1)] that(2) p by auto
    show "is_table (pmem s') root q" if tq: "is_table (pmem s) root q" for q
    proof -
      obtain r where r: "valid_path r" "length r \<le> 3" "walk (pmem s) root r = Some q"
        using tq by (auto simp: is_table_def)
      then have "walk (pmem s') root r = Some q" using link(2) [OF r(1)] none by auto
      then show ?thesis using r by (auto simp: is_table_def)
    qed
    show "tables_on r root s s'" if "r = p @ x # r'" for r r'
      using mm_ok_link(3) [OF ok p x False al fl that] unfolding s' .
  qed
next
  case True
  define e where "e = (if refresh then ALIGN_DOWN (pmem s (slot f x)) OR flags else pmem s (slot f x))"
  have e: "isPresent e" "ALIGN_DOWN e = ALIGN_DOWN (pmem s (slot f x))"
    using True fl by (simp_all add: e_def entry_OR)
  have s': "s' = s\<lparr>pmem := (pmem s)(slot f x := e)\<rparr>" and tab: "tab = KADDR (ALIGN_DOWN e)"
    using nt True e by (auto simp: next_table_def e_def fun_upd_idem split: if_splits)
  have wf: "pt_wf (pmem s) root" using ok by (simp add: mm_ok_def)
  have len: "length p \<le> 3" using p by simp
  note same = walk_upd_same_frame [OF wf p(1,2) len x e(1) True e(2)]
  have f: "is_table (pmem s) root f" using p unfolding is_table_def by (intro exI [of _ p]) simp
  show thesis
  proof (rule that [OF tab])
    show "mm_ok root s'" unfolding s' by (rule mm_ok_same_walks [OF ok f x same])
    show "walk (pmem s') root (p @ [x]) = Some (ALIGN_DOWN e)"
      using p e by (simp add: s' same) (simp add: walk_snoc True)
    show "tables_on r root s s'" if "r = p @ x # r'" for r r'
      unfolding s' by (rule tables_on_entry [OF p(1) _ len _ x]) (use wf same p that in \<open>simp_all add: pt_wf_def\<close>)
  qed (simp_all add: s' same is_table_def)
qed

subsection \<open>The address space a tree of tables implements\<close>

text \<open>
  The abstract state of the page tables is the partial function from virtual addresses to frames.
  \<open>same_page\<close> says that two addresses share all four table indices.
\<close>

definition frame_of :: "u64 \<Rightarrow> 'z mmu_state_scheme \<Rightarrow> u64 \<Rightarrow> u64 option" where
  "frame_of root s virt = walk (pmem s) root (path virt)"

definition same_page :: "u64 \<Rightarrow> u64 \<Rightarrow> bool" where
  "same_page v w \<longleftrightarrow> path v = path w"

lemma length_path [simp]: "length (path v) = 4"
  by (simp add: path_def)

lemma virt_to_phy_frame_of:
  "virt_to_phy virt p s = (case frame_of (cr3 s) s virt of Some f \<Rightarrow> f | None \<Rightarrow> 0)"
  by (simp add: virt_to_phy_walk frame_of_def)

lemma leaf_write:
  fixes e :: u64
  assumes ok: "mm_ok root s" and p: "walk (pmem s) root p = Some f" "valid_path p" "length p = 3"
    and x: "x < 512"
  defines "s' \<equiv> s\<lparr>pmem := (pmem s)(slot f x := e)\<rparr>"
  shows "mm_ok root s'"
    and "valid_path q \<Longrightarrow> length q = 4 \<Longrightarrow> walk (pmem s') root q =
      (if q = p @ [x] then (if isPresent e then Some (ALIGN_DOWN e) else None) else walk (pmem s) root q)"
    and "is_table (pmem s') root t = is_table (pmem s) root t"
    and "valid_path q \<Longrightarrow> length q \<le> 3 \<Longrightarrow> walk (pmem s') root q = walk (pmem s) root q"
proof -
  have wf: "pt_wf (pmem s) root" using ok by (simp add: mm_ok_def)
  note other = walk_upd_other [OF wf p(1,2) _ x, where e = e]
  have same: "walk (pmem s') root q = walk (pmem s) root q" if "valid_path q" "length q \<le> 3" for q
  proof -
    have "length q \<noteq> length ((p @ [x]) @ r)" for r using that p by simp
    then have "\<not> (\<exists>r. q = (p @ [x]) @ r)" by metis
    then show ?thesis unfolding s'_def using other [OF _ that(1)] that p by simp
  qed
  have f: "is_table (pmem s) root f" unfolding is_table_def using p by (intro exI [of _ p]) simp
  show "mm_ok root s'"
    unfolding s'_def
    by (rule mm_ok_same_walks [OF ok f x]) (use same in \<open>simp add: s'_def\<close>)
  show "is_table (pmem s') root t = is_table (pmem s) root t"
    using same by (auto simp: is_table_def)
  show "valid_path q \<Longrightarrow> length q \<le> 3 \<Longrightarrow> walk (pmem s') root q = walk (pmem s) root q" by (rule same)
  assume q: "valid_path q" "length q = 4"
  show "walk (pmem s') root q =
      (if q = p @ [x] then (if isPresent e then Some (ALIGN_DOWN e) else None) else walk (pmem s) root q)"
  proof (cases "q = p @ [x]")
    case True
    have "walk (pmem s') root p = Some f" using same [of p] p by simp
    with True show ?thesis by (simp add: walk_snoc s'_def)
  next
    case False
    then have "\<not> (\<exists>r. q = (p @ [x]) @ r)" using q p by auto
    then show ?thesis using other [OF _ q(1)] q p False by (simp add: s'_def)
  qed
qed

text \<open>The walk shared by \<open>map_virt_to_phy\<close> and \<open>kernmem_mapping\<close>.\<close>

definition map_page ::
  "bool \<Rightarrow> u64 \<Rightarrow> u64 \<Rightarrow> u64 \<Rightarrow> u64 \<Rightarrow> 'z mmu_state_scheme \<Rightarrow> 'z mmu_state_scheme option" where
  "map_page refresh root virt phy flags s = do {
     (t3, s) \<leftarrow> next_table False flags (slot (KADDR root) (pml4e_offset virt)) s;
     (t2, s) \<leftarrow> next_table refresh flags (slot t3 (pdpe_offset virt)) s;
     (t1, s) \<leftarrow> next_table refresh flags (slot t2 (pde_offset virt)) s;
     Some (kwrite (slot t1 (pte_offset virt)) (phy OR flags) s)
   }"

lemma map_virt_to_phy_map_page: "map_virt_to_phy virt phy flags s = map_page True (cr3 s) virt phy flags s"
  by (simp add: map_virt_to_phy_def map_page_def)

lemma kernmem_mapping_map_page:
  "kernmem_mapping virt phy n root s = map_page False root virt phy (PT_PRESENT_FLAG OR PT_WRITABLE_FLAG) s"
  by (simp add: kernmem_mapping_def map_page_def KADDR_def Let_def or.assoc)

lemma map_page_refines:
  assumes mp: "map_page refresh root virt phy flags s = Some s'"
    and ok: "mm_ok root s" and fl: "valid_flags flags" and phy: "page_aligned phy"
  shows "mm_ok root s' \<and> cr3 s' = cr3 s \<and> k_cr3 s' = k_cr3 s \<and>
    frame_of root s' = (\<lambda>v. if same_page v virt then Some phy else frame_of root s v) \<and> tables_on (path virt) root s s'"
proof -
  from mp obtain t3 s3 t2 s2 t1 s1 where
    1: "next_table False flags (slot (KADDR root) (pml4e_offset virt)) s = Some (t3, s3)" and
    2: "next_table refresh flags (slot t3 (pdpe_offset virt)) s3 = Some (t2, s2)" and
    3: "next_table refresh flags (slot t2 (pde_offset virt)) s2 = Some (t1, s1)" and
    s': "s' = kwrite (slot t1 (pte_offset virt)) (phy OR flags) s1"
    unfolding map_page_def by (auto split: bind_splits)
  obtain g3 where g3: "t3 = KADDR g3" "walk (pmem s3) root ([] @ [pml4e_offset virt]) = Some g3"
    "mm_ok root s3" "cr3 s3 = cr3 s" "k_cr3 s3 = k_cr3 s" "\<And>r r'. r = [] @ pml4e_offset virt # r' \<Longrightarrow> tables_on r root s s3"
    "\<And>q. valid_path q \<Longrightarrow> length q = 4 \<Longrightarrow> walk (pmem s3) root q = walk (pmem s) root q"
    by (rule next_table_spec [OF 1 ok, of "[]"]) (simp_all add: fl)
  obtain g2 where g2: "t2 = KADDR g2"
    "walk (pmem s2) root (([] @ [pml4e_offset virt]) @ [pdpe_offset virt]) = Some g2"
    "mm_ok root s2" "cr3 s2 = cr3 s" "k_cr3 s2 = k_cr3 s" "\<And>r r'. r = ([] @ [pml4e_offset virt]) @ pdpe_offset virt # r' \<Longrightarrow> tables_on r root s3 s2"
    "\<And>q. valid_path q \<Longrightarrow> length q = 4 \<Longrightarrow> walk (pmem s2) root q = walk (pmem s) root q"
    by (rule next_table_spec [OF 2 [unfolded g3(1)] g3(3,2)]) (use g3 fl in simp_all)
  obtain g1 where g1: "t1 = KADDR g1"
    "walk (pmem s1) root ((([] @ [pml4e_offset virt]) @ [pdpe_offset virt]) @ [pde_offset virt]) = Some g1"
    "mm_ok root s1" "cr3 s1 = cr3 s" "k_cr3 s1 = k_cr3 s" "\<And>r r'. r = (([] @ [pml4e_offset virt]) @ [pdpe_offset virt]) @ pde_offset virt # r' \<Longrightarrow> tables_on r root s2 s1"
    "\<And>q. valid_path q \<Longrightarrow> length q = 4 \<Longrightarrow> walk (pmem s1) root q = walk (pmem s) root q"
    by (rule next_table_spec [OF 3 [unfolded g2(1)] g2(3,2)]) (use g2 fl in simp_all)
  have s'': "s' = s1\<lparr>pmem := (pmem s1)(slot g1 (pte_offset virt) := phy OR flags)\<rparr>"
    by (simp add: s' g1(1))
  note leaf = leaf_write [OF g1(3,2), where x = "pte_offset virt" and e = "phy OR flags", folded s'']
  have "mm_ok root s'" by (rule leaf(1)) simp_all
  moreover have "frame_of root s' v = (if same_page v virt then Some phy else frame_of root s v)" for v
  proof -
    have "walk (pmem s') root (path v) = (if path v = path virt then Some phy else walk (pmem s1) root (path v))"
      using leaf(2) [of "path v"] entry_OR [OF phy fl] by (simp add: path_def)
    then show ?thesis using g1(7) [of "path v"] by (simp add: frame_of_def same_page_def)
  qed
  moreover have "cr3 s' = cr3 s" "k_cr3 s' = k_cr3 s" using g1 by (simp_all add: s'')
  moreover have "tables_on (path virt) root s s'"
  proof -
    have "page_aligned root" using g1(3) by (simp add: mm_ok_def pt_wf_def)
    then have "tables_on (path virt) root s1 s'"
      unfolding s'' by (intro tables_on_entry [OF g1(2)]) (use leaf(4) in \<open>simp_all add: s'' path_def\<close>)
    moreover have "tables_on (path virt) root s s3" "tables_on (path virt) root s3 s2" "tables_on (path virt) root s2 s1"
      by (rule g3(6) g2(6) g1(6), simp add: path_def)+
    ultimately show ?thesis using tables_on_trans [OF valid_path_path] by blast
  qed
  ultimately show ?thesis by (intro conjI ext)
qed

subsection \<open>Page numbers\<close>

text \<open>Two addresses share their page exactly when the bits 12 to 47 agree.\<close>

definition vpn :: "u64 \<Rightarrow> u64" where
  "vpn v = take_bit 36 (drop_bit 12 v)"

lemma mask9: "(0x1ff :: u64) = mask 9"
  by (simp add: mask_eq_exp_minus_1)

lemma shift_range:
  "(\<forall>n < (m :: nat). P (k + n)) \<longleftrightarrow> (\<forall>n. k \<le> n \<and> n < k + m \<longrightarrow> P n)"
proof
  assume *: "\<forall>n < m. P (k + n)"
  show "\<forall>n. k \<le> n \<and> n < k + m \<longrightarrow> P n"
  proof (intro allI impI)
    fix n assume n: "k \<le> n \<and> n < k + m"
    then have "n - k < m" by linarith
    with * have "P (k + (n - k))" by blast
    with n show "P n" by simp
  qed
qed simp

lemma field_eq_iff:
  assumes "k + 9 \<le> 64"
  shows "0x1ff AND drop_bit k v = 0x1ff AND drop_bit k (w :: u64) \<longleftrightarrow>
    (\<forall>n. k \<le> n \<and> n < k + 9 \<longrightarrow> bit v n = bit w n)" (is "?L \<longleftrightarrow> _")
proof -
  have field: "bit (0x1ff AND drop_bit k x) n \<longleftrightarrow> n < 9 \<and> bit x (k + n)" for x :: u64 and n
    by (auto simp: mask9 bit_and_iff bit_mask_iff bit_drop_bit_eq)
  have "?L \<longleftrightarrow> (\<forall>n < 9. bit v (k + n) = bit w (k + n))"
  proof
    assume ?L
    then show "\<forall>n < 9. bit v (k + n) = bit w (k + n)" by (metis field)
  next
    assume "\<forall>n < 9. bit v (k + n) = bit w (k + n)"
    then show ?L by (intro bit_word_eqI) (metis field)
  qed
  then show ?thesis by (simp only: shift_range [of 9 "\<lambda>n. bit v n = bit w n" k])
qed

lemma same_page_bits: "same_page v w \<longleftrightarrow> (\<forall>n. 12 \<le> n \<and> n < 48 \<longrightarrow> bit v n = bit w n)"
proof -
  have split: "same_page v w \<longleftrightarrow>
      (\<forall>n. 39 \<le> n \<and> n < 48 \<longrightarrow> bit v n = bit w n) \<and> (\<forall>n. 30 \<le> n \<and> n < 39 \<longrightarrow> bit v n = bit w n) \<and>
      (\<forall>n. 21 \<le> n \<and> n < 30 \<longrightarrow> bit v n = bit w n) \<and> (\<forall>n. 12 \<le> n \<and> n < 21 \<longrightarrow> bit v n = bit w n)"
    by (simp add: same_page_def path_def pml4e_offset_def pdpe_offset_def pde_offset_def
        pte_offset_def field_eq_iff)
  show ?thesis
  proof
    assume *: "same_page v w"
    show "\<forall>n. 12 \<le> n \<and> n < 48 \<longrightarrow> bit v n = bit w n"
    proof (intro allI impI)
      fix n :: nat assume n: "12 \<le> n \<and> n < 48"
      consider "n < 21" | "21 \<le> n" "n < 30" | "30 \<le> n" "n < 39" | "39 \<le> n" by linarith
      then show "bit v n = bit w n" by cases (use * [unfolded split] n in simp_all)
    qed
  qed (simp add: split)
qed

lemma same_page_vpn: "same_page v w \<longleftrightarrow> vpn v = vpn w"
proof -
  have field: "bit (vpn x) n \<longleftrightarrow> n < 36 \<and> bit x (12 + n)" for x n
    by (auto simp: vpn_def bit_simps)
  have "vpn v = vpn w \<longleftrightarrow> (\<forall>n < 36. bit v (12 + n) = bit w (12 + n))"
  proof
    assume "vpn v = vpn w"
    then show "\<forall>n < 36. bit v (12 + n) = bit w (12 + n)" by (metis field)
  next
    assume "\<forall>n < 36. bit v (12 + n) = bit w (12 + n)"
    then show "vpn v = vpn w" by (intro bit_word_eqI) (metis field)
  qed
  also have "\<dots> \<longleftrightarrow> (\<forall>n. 12 \<le> n \<and> n < 12 + 36 \<longrightarrow> bit v n = bit w n)"
    by (rule shift_range)
  finally show ?thesis by (simp add: same_page_bits)
qed

lemma unat_vpn: "unat (vpn v) = unat v div 4096 mod 2 ^ 36"
  by (simp add: vpn_def unsigned_take_bit_eq take_bit_nat_def drop_bit_eq_div unat_div)

text \<open>The \<open>k\<close>-th page above an address.\<close>

abbreviation page_at :: "u64 \<Rightarrow> nat \<Rightarrow> u64" where
  "page_at v k \<equiv> v + of_nat k * PAGE_SIZE"

lemma vpn_page_at: "unat (vpn (page_at v k)) = (unat v div 4096 + k) mod 2 ^ 36"
proof -
  have "unat (page_at v k) = (unat v + k * 4096) mod 2 ^ 64"
    by (simp add: unat_word_ariths unat_of_nat mod_simps)
  moreover have "(n :: nat) mod 2 ^ 64 div 4096 mod 2 ^ 36 = n div 4096 mod 2 ^ 36" for n
  proof -
    have "take_bit 36 (drop_bit 12 (take_bit 64 n)) = take_bit 36 (drop_bit 12 n)"
      by (rule bit_eqI) (auto simp: bit_simps)
    then show ?thesis by (simp add: take_bit_nat_def drop_bit_eq_div)
  qed
  moreover have "(unat v + k * 4096) div 4096 = unat v div 4096 + k" by simp
  ultimately show ?thesis by (simp add: unat_vpn add.commute)
qed

lemma page_at_distinct:
  assumes "k < 2 ^ 36" "0 < k"
  shows "\<not> same_page v (page_at v k)"
proof
  assume "same_page v (page_at v k)"
  then have "(unat v div 4096 + 0) mod 2 ^ 36 = (unat v div 4096 + k) mod 2 ^ 36"
    using vpn_page_at [of v 0] vpn_page_at [of v k] by (simp add: same_page_vpn)
  then have "(2 :: nat) ^ 36 dvd k"
    by (metis add_diff_cancel_left' le_add1 mod_eq_dvd_iff_nat add_0_right)
  with assms show False by (metis nat_dvd_not_less)
qed

subsection \<open>Mapping a range\<close>

lemma valid_kernel_flags [simp]: "valid_flags (PT_PRESENT_FLAG OR PT_WRITABLE_FLAG)"
  by (simp add: valid_flags_def isPresent_def PT_PRESENT_FLAG_def PT_WRITABLE_FLAG_def)

lemma kernmem_mapping_refines:
  assumes "kernmem_mapping virt phy n root s = Some s'" "mm_ok root s" "page_aligned phy"
  shows "mm_ok root s'" and "cr3 s' = cr3 s" and "k_cr3 s' = k_cr3 s"
    and "frame_of root s' v = (if same_page v virt then Some phy else frame_of root s v)"
  using map_page_refines [OF assms(1) [unfolded kernmem_mapping_map_page] assms(2) _ assms(3)] by simp_all

lemma map_range_spec:
  assumes "map_range n va pa root s = Some (va', s')" and "mm_ok root s" and "page_aligned pa"
    and "n \<le> 2 ^ 36"
  shows "va' = page_at va n \<and> mm_ok root s' \<and> cr3 s' = cr3 s \<and> k_cr3 s' = k_cr3 s \<and>
    (\<forall>k < n. frame_of root s' (page_at va k) = Some (page_at pa k)) \<and>
    (\<forall>v. (\<forall>k < n. \<not> same_page v (page_at va k)) \<longrightarrow> frame_of root s' v = frame_of root s v)"
  using assms
proof (induction n arbitrary: va pa s)
  case (Suc n)
  then obtain t where t: "kernmem_mapping va pa 1 root s = Some t"
    and rest: "map_range n (va + PAGE_SIZE) (pa + PAGE_SIZE) root t = Some (va', s')"
    by (auto split: bind_splits)
  note km = kernmem_mapping_refines [OF t Suc.prems(2,3)]
  have n: "n < 2 ^ 36" using Suc.prems(4) by simp
  have IH: "va' = page_at (va + PAGE_SIZE) n" "mm_ok root s'" "cr3 s' = cr3 t" "k_cr3 s' = k_cr3 t"
    and inside: "\<And>k. k < n \<Longrightarrow> frame_of root s' (page_at (va + PAGE_SIZE) k) = Some (page_at (pa + PAGE_SIZE) k)"
    and outside: "\<And>v. (\<And>k. k < n \<Longrightarrow> \<not> same_page v (page_at (va + PAGE_SIZE) k)) \<Longrightarrow>
      frame_of root s' v = frame_of root t v"
    using Suc.IH [OF rest km(1)] Suc.prems(3) n by (simp_all add: page_aligned_add)
  have shift: "page_at (x + PAGE_SIZE) k = page_at x (Suc k)" for x k
    by (simp add: algebra_simps)
  have "frame_of root s' (page_at va k) = Some (page_at pa k)" if "k < Suc n" for k
  proof (cases k)
    case 0
    have "\<not> same_page va (page_at (va + PAGE_SIZE) j)" if "j < n" for j
      unfolding shift by (rule page_at_distinct) (use that n in simp_all)
    then have "frame_of root s' va = frame_of root t va" by (rule outside)
    with 0 km(4) [of va] show ?thesis by (simp add: same_page_def)
  next
    case (Suc j)
    then show ?thesis using inside [of j] that unfolding shift by simp
  qed
  moreover have "frame_of root s' v = frame_of root s v"
    if far: "\<And>k. k < Suc n \<Longrightarrow> \<not> same_page v (page_at va k)" for v
  proof -
    have "frame_of root s' v = frame_of root t v"
      by (rule outside) (use far [of "Suc _"] in \<open>simp add: shift\<close>)
    then show ?thesis using km(4) [of v] far [of 0] by simp
  qed
  ultimately show ?case using IH km(2,3) by (simp add: shift)
qed simp

subsection \<open>Enough frames: the mapping returns\<close>

definition can_alloc :: "nat \<Rightarrow> 'z mmu_state_scheme \<Rightarrow> bool" where
  "can_alloc n s \<longleftrightarrow> alloc_list mm_phy_alloc_page n s \<noteq> None"

lemma alloc_pmem:
  "mm_phy_alloc_page (s\<lparr>pmem := m\<rparr>) =
   map_option (\<lambda>(p, t). (p, t\<lparr>pmem := m\<rparr>)) (mm_phy_alloc_page s)"
  by (cases "alloc_scan (phy_bitmap s) PHY_GROUPS")
    (auto simp: mm_phy_alloc_page_def inc_ref_count_def Let_def)

lemma alloc_list_pmem:
  "alloc_list mm_phy_alloc_page n (s\<lparr>pmem := m\<rparr>) =
   map_option (\<lambda>(ps, t). (ps, t\<lparr>pmem := m\<rparr>)) (alloc_list mm_phy_alloc_page n s)"
proof (induction n arbitrary: s)
  case (Suc n)
  show ?case
    by (cases "mm_phy_alloc_page s")
      (auto simp: alloc_pmem Suc.IH option.map_comp comp_def split: bind_splits prod.splits)
qed simp

lemma can_alloc_pmem [simp]: "can_alloc n (s\<lparr>pmem := m\<rparr>) = can_alloc n s"
  by (simp add: can_alloc_def alloc_list_pmem)

lemma can_alloc_step:
  "can_alloc (Suc n) s \<Longrightarrow> \<exists>p s'. mm_phy_alloc_page s = Some (p, s') \<and> can_alloc n s'"
  by (cases "mm_phy_alloc_page s") (auto simp: can_alloc_def split: bind_splits)

lemma can_alloc_Suc: "can_alloc (Suc n) s \<Longrightarrow> can_alloc n s"
proof (induction n arbitrary: s)
  case (Suc n)
  then obtain p s' where *: "mm_phy_alloc_page s = Some (p, s')" "can_alloc (Suc n) s'"
    using can_alloc_step by blast
  then have "can_alloc n s'" using Suc.IH by blast
  with * show ?case by (auto simp: can_alloc_def split: bind_splits)
qed (simp add: can_alloc_def)

lemma next_table_returns:
  assumes "can_alloc (Suc n) s"
  shows "\<exists>t s'. next_table refresh flags (slot (KADDR f) x) s = Some (t, s') \<and> can_alloc n s'"
proof -
  obtain p s1 where al: "mm_phy_alloc_page s = Some (p, s1)" "can_alloc n s1"
    using can_alloc_step [OF assms] by blast
  have "can_alloc n s" by (rule can_alloc_Suc [OF assms])
  then show ?thesis by (auto simp: next_table_def al)
qed

lemma next_table_KADDR:
  "next_table refresh flags e s = Some (t, s') \<Longrightarrow> \<exists>g. t = KADDR g"
  by (auto simp: next_table_def split: bind_splits if_splits)

lemma map_page_returns:
  assumes "can_alloc (Suc (Suc (Suc n))) s"
  shows "\<exists>s'. map_page refresh root virt phy flags s = Some s' \<and> can_alloc n s'"
proof -
  from next_table_returns [OF assms, of False flags root "pml4e_offset virt"]
  obtain t3 s3 where 1: "next_table False flags (slot (KADDR root) (pml4e_offset virt)) s = Some (t3, s3)"
    "can_alloc (Suc (Suc n)) s3" by auto
  then obtain g3 where "t3 = KADDR g3" using next_table_KADDR by blast
  with next_table_returns [OF 1(2), of refresh flags g3 "pdpe_offset virt"]
  obtain t2 s2 where 2: "next_table refresh flags (slot t3 (pdpe_offset virt)) s3 = Some (t2, s2)"
    "can_alloc (Suc n) s2" by auto
  then obtain g2 where "t2 = KADDR g2" using next_table_KADDR by blast
  with next_table_returns [OF 2(2), of refresh flags g2 "pde_offset virt"]
  obtain t1 s1 where 3: "next_table refresh flags (slot t2 (pde_offset virt)) s2 = Some (t1, s1)"
    "can_alloc n s1" by auto
  then obtain g1 where "t1 = KADDR g1" using next_table_KADDR by blast
  then show ?thesis using 1(1) 2(1) 3 by (auto simp: map_page_def)
qed

subsection \<open>Removing a mapping\<close>

lemma pmem_dec_ref_count [simp, frame_simps]:
  "pmem (dec_ref_count phy s) = pmem s" "cr3 (dec_ref_count phy s) = cr3 s"
  by (simp_all add: dec_ref_count_def set_page_free_def Let_def)

lemma walk4:
  "walk m root (path virt) = Some f \<longleftrightarrow>
   (\<exists>g. walk m root [pml4e_offset virt, pdpe_offset virt, pde_offset virt] = Some g \<and>
      isPresent (m (slot g (pte_offset virt))) \<and> f = ALIGN_DOWN (m (slot g (pte_offset virt))))"
  by (auto simp: path_def Let_def split: if_splits)

lemma unmap_phy_walk:
  "unmap_phy virt s =
    (case walk (pmem s) (cr3 s) [pml4e_offset virt, pdpe_offset virt, pde_offset virt] of
       None \<Rightarrow> s
     | Some g \<Rightarrow> if isPresent (pmem s (slot g (pte_offset virt)))
         then (dec_ref_count (ALIGN_DOWN (pmem s (slot g (pte_offset virt)))) s)
           \<lparr>pmem := (pmem s)(slot g (pte_offset virt) := 0)\<rparr>
         else s)"
  by (simp add: unmap_phy_def Let_def)

subsection \<open>Properties\<close>

definition ex_mmu :: mmu_state where
  "ex_mmu = \<lparr>phy_bitmap = (\<lambda>g. if g = 507 then 0xFFFFFFFFFFFFFFF0 else 0xFFFFFFFFFFFFFFFF),
     refcount = (\<lambda>_. 0), pmem = (\<lambda>_. 0), cr3 = 0x1000, k_cr3 = 0x1000, virtual_top = 0\<rparr>"

lemma walk_zero: "walk (\<lambda>_. 0) b p = Some f \<longleftrightarrow> p = [] \<and> f = b"
  by (cases p) (auto simp: isPresent_def)

lemma ex_mmu_ok: "mm_ok 0x1000 ex_mmu"
proof -
  have ones: "bit (0xFFFFFFFFFFFFFFFF :: u64) 1" by simp
  have "\<not> page_free ex_mmu 1"
    using ones by (simp add: page_free_def ex_mmu_def)
  moreover have "mm_page_to_phy pg = 0x1000 \<Longrightarrow> unat pg < 508 * 64 \<Longrightarrow> pg = 1" for pg
    using page_to_phy_inj [of pg 1] by (simp add: mm_page_to_phy_def)
  ultimately have "page_free ex_mmu pg \<Longrightarrow> unat pg < 508 * 64 \<Longrightarrow> mm_page_to_phy pg \<noteq> 0x1000" for pg
    by metis
  moreover have "pmem ex_mmu = (\<lambda>_. 0)" by (simp add: ex_mmu_def)
  ultimately show ?thesis
    by (auto simp: mm_ok_def pt_wf_def walk_zero zero_frame_def is_table_def)
qed

lemma ex_mmu_can_alloc: "can_alloc 3 ex_mmu"
  unfolding can_alloc_def by code_simp

text \<open>C1: \<open>map_virt_to_phy\<close> refines the update of the address space.  With three frames to hand
  out and the invariant of the memory manager, mapping a page returns, the invariant still holds,
  the page now translates to the frame and every other page translates as before.\<close>

lemma map_virt_to_phy_refines:
  assumes "mm_ok (cr3 s) s" and "can_alloc 3 s" and "valid_flags flags" and "page_aligned phy"
  shows "\<exists>s'. map_virt_to_phy virt phy flags s = Some s' \<and> cr3 s' = cr3 s \<and> mm_ok (cr3 s') s' \<and>
    (\<forall>v p. virt_to_phy v p s' = (if same_page v virt then phy else virt_to_phy v p s))"
proof -
  obtain s' where s': "map_page True (cr3 s) virt phy flags s = Some s'"
    using map_page_returns [of 0 s] assms(2) unfolding numeral_3_eq_3 by blast
  from map_page_refines [OF s' assms(1,3,4)] show ?thesis
    using s' by (auto simp: map_virt_to_phy_map_page virt_to_phy_frame_of)
qed

lemma map_virt_to_phy_refines_witness:
  "\<exists>s'. map_virt_to_phy 0x400000 0x5000 7 ex_mmu = Some s' \<and> virt_to_phy 0x400ABC 0 s' = 0x5000 \<and>
     virt_to_phy 0x401000 0 s' = 0"
proof -
  have "valid_flags 7" "page_aligned 0x5000" "same_page 0x400ABC 0x400000" "\<not> same_page 0x401000 0x400000"
    "virt_to_phy 0x401000 0 ex_mmu = 0"
    by code_simp+
  moreover have "cr3 ex_mmu = 0x1000" by (simp add: ex_mmu_def)
  ultimately show ?thesis
    using map_virt_to_phy_refines [of ex_mmu, where flags = 7 and phy = "0x5000" and virt = "0x400000"]
      ex_mmu_ok ex_mmu_can_alloc by auto
qed

text \<open>C3: mapping a range.  When the loop of \<open>setup_paging\<close> and \<open>map_all_phy\<close> ends, the \<open>k\<close>-th page
  of the virtual range translates to the \<open>k\<close>-th page of the physical range, for every \<open>k\<close> below
  the number of pages, and no page outside the range has changed.\<close>

lemma map_range_maps_range:
  assumes "map_range n va pa root s = Some (va', s')" and "mm_ok root s" and "page_aligned pa"
    and "n \<le> 2 ^ 36"
  shows "va' = page_at va n \<and> mm_ok root s' \<and>
    (\<forall>k < n. frame_of root s' (page_at va k) = Some (page_at pa k)) \<and>
    (\<forall>v. (\<forall>k < n. \<not> same_page v (page_at va k)) \<longrightarrow> frame_of root s' v = frame_of root s v)"
  using map_range_spec [OF assms] by blast

lemma map_range_maps_range_witness:
  "\<exists>s'. map_range 2 0xFFFFFFFF80200000 0x200000 0x1000 ex_mmu = Some (0xFFFFFFFF80202000, s') \<and>
     frame_of 0x1000 s' 0xFFFFFFFF80201000 = Some 0x201000"
proof -
  have "map_option fst (map_range 2 0xFFFFFFFF80200000 0x200000 0x1000 ex_mmu) = Some 0xFFFFFFFF80202000"
    by code_simp
  then obtain va s' where s': "map_range 2 0xFFFFFFFF80200000 0x200000 0x1000 ex_mmu = Some (va, s')"
    by auto
  have "page_aligned 0x200000" by code_simp
  note * = map_range_maps_range [OF s' ex_mmu_ok this]
  have "(2 :: nat) \<le> 2 ^ 36" by simp
  from * [OF this] have "va = 0xFFFFFFFF80202000"
    and frames: "\<forall>k < 2. frame_of 0x1000 s' (page_at 0xFFFFFFFF80200000 k) = Some (page_at 0x200000 k)"
    by simp_all
  with s' frames [rule_format, of 1] show ?thesis by simp
qed

text \<open>C2: \<open>unmap_phy\<close> removes exactly one page from the address space and drops exactly one
  reference of its frame; on an address that is not mapped it does nothing.\<close>

lemma unmap_phy_removes:
  assumes "pt_wf (pmem s) (cr3 s)"
  shows "(\<forall>v. frame_of (cr3 s) (unmap_phy virt s) v =
        (if same_page v virt then None else frame_of (cr3 s) s v)) \<and>
    (case frame_of (cr3 s) s virt of
       None \<Rightarrow> unmap_phy virt s = s
     | Some f \<Rightarrow> refcount (unmap_phy virt s) = refcount (dec_ref_count f s) \<and>
         phy_bitmap (unmap_phy virt s) = phy_bitmap (dec_ref_count f s))"
proof (cases "frame_of (cr3 s) s virt")
  case None
  then have "unmap_phy virt s = s"
    by (auto simp: unmap_phy_walk frame_of_def path_def Let_def split: option.splits if_splits)
  with None show ?thesis by (auto simp: same_page_def frame_of_def)
next
  case (Some f)
  let ?p = "[pml4e_offset virt, pdpe_offset virt, pde_offset virt]"
  obtain g where g: "walk (pmem s) (cr3 s) ?p = Some g"
    "isPresent (pmem s (slot g (pte_offset virt)))" "f = ALIGN_DOWN (pmem s (slot g (pte_offset virt)))"
    using Some by (auto simp: frame_of_def walk4)
  let ?m = "(pmem s)(slot g (pte_offset virt) := 0)"
  have un: "unmap_phy virt s = (dec_ref_count f s)\<lparr>pmem := ?m\<rparr>"
    by (simp only: unmap_phy_walk g option.case if_True)
  have other: "\<not> (\<exists>r. q = (?p @ [pte_offset virt]) @ r) \<Longrightarrow> valid_path q \<Longrightarrow> length q \<le> 4 \<Longrightarrow>
      walk ?m (cr3 s) q = walk (pmem s) (cr3 s) q" for q
    by (rule walk_upd_other [OF assms g(1)]) simp_all
  have "frame_of (cr3 s) (unmap_phy virt s) v = (if same_page v virt then None else frame_of (cr3 s) s v)" for v
  proof (cases "same_page v virt")
    case True
    have "length ?p \<noteq> length ((?p @ [pte_offset virt]) @ r)" for r by simp
    then have "walk ?m (cr3 s) ?p = Some g" using other [of ?p] g(1) by fastforce
    then have "walk ?m (cr3 s) (?p @ [pte_offset virt]) = None"
      by (simp only: walk_snoc option.case) (simp add: isPresent_def)
    with True show ?thesis by (simp add: frame_of_def un same_page_def path_def)
  next
    case False
    have "\<not> (\<exists>r. path v = (?p @ [pte_offset virt]) @ r)"
      using False by (simp add: same_page_def path_def)
    with False show ?thesis
      using other [of "path v"] by (simp add: frame_of_def un)
  qed
  with Some show ?thesis by (simp add: un)
qed

lemma unmap_phy_removes_witness:
  "\<exists>s'. map_virt_to_phy 0x400000 0x5000 7 ex_mmu = Some s' \<and>
     frame_of (cr3 s') (unmap_phy 0x400000 s') 0x400000 = None"
proof -
  obtain s' where s': "map_virt_to_phy 0x400000 0x5000 7 ex_mmu = Some s'"
    using map_page_returns [of 0 ex_mmu True "cr3 ex_mmu" "0x400000" "0x5000" 7] ex_mmu_can_alloc
    by (auto simp: map_virt_to_phy_map_page numeral_3_eq_3)
  have "valid_flags 7" "page_aligned 0x5000" by code_simp+
  then have "mm_ok (cr3 s') s'"
    using map_page_refines [OF s' [unfolded map_virt_to_phy_map_page]] ex_mmu_ok
    by (simp add: ex_mmu_def)
  then have "pt_wf (pmem s') (cr3 s')" by (simp add: mm_ok_def)
  from unmap_phy_removes [OF this, of "0x400000"] s' show ?thesis by (auto simp: same_page_def)
qed

text \<open>C9: a frame linked as a table is not cleared.  When the table of the last level is missing for an address,
  \<open>map_virt_to_phy\<close> links the frame it is given as it stands: the mapped page translates to its frame, and
  every other page of the same 2 MB, none of which was mapped before, translates from now on to whatever the
  old word of that frame at its index says.\<close>

lemma fresh_table_not_cleared:
  assumes wf: "pt_wf (pmem s) (cr3 s)" and w: "walk (pmem s) (cr3 s) [pml4e_offset va, pdpe_offset va] = Some g"
    and absent: "\<not> isPresent (pmem s (slot g (pde_offset va)))"
    and al: "mm_phy_alloc_page s = Some (pg, t)" and new: "\<not> is_table (pmem s) (cr3 s) (mm_page_to_phy pg)"
    and fl: "valid_flags flags" and pa: "page_aligned pa"
  shows "\<exists>s'. map_virt_to_phy va pa flags s = Some s' \<and>
    (\<forall>v. pml4e_offset v = pml4e_offset va \<and> pdpe_offset v = pdpe_offset va \<and> pde_offset v = pde_offset va \<longrightarrow>
       virt_to_phy v p s = 0 \<and>
       virt_to_phy v p s' =
         (if pte_offset v = pte_offset va then pa
          else let old = pmem s (slot (mm_page_to_phy pg) (pte_offset v)) in if isPresent old then ALIGN_DOWN old else 0))"
proof -
  let ?m = "pmem s" and ?r = "cr3 s" and ?F = "mm_page_to_phy pg"
  let ?a = "pml4e_offset va" and ?b = "pdpe_offset va" and ?c = "pde_offset va" and ?d = "pte_offset va"
  define h where "h = ALIGN_DOWN (?m (slot ?r ?a))"
  have p: "isPresent (?m (slot ?r ?a))" "isPresent (?m (slot h ?b))" "g = ALIGN_DOWN (?m (slot h ?b))"
    using w by (simp_all add: h_def Let_def split: if_splits)
  then have ws: "walk ?m ?r [] = Some ?r" "walk ?m ?r [?a] = Some h" "walk ?m ?r [?a, ?b] = Some g"
    using w by (simp_all add: h_def)
  have al_r: "page_aligned ?r" "page_aligned h" "page_aligned g" using wf by (simp_all add: pt_wf_def h_def p(3))
  have ne: "?r \<noteq> h" "?r \<noteq> g" "h \<noteq> g"
    using pt_wfD [OF wf ws(1), of "[?a]"] pt_wfD [OF wf ws(1), of "[?a, ?b]"] pt_wfD [OF wf ws(2), of "[?a, ?b]"] ws by auto
  have "is_table ?m ?r ?r" "is_table ?m ?r h" "is_table ?m ?r g"
    unfolding is_table_def using ws
    by (intro exI [of _ "[]"], simp, intro exI [of _ "[?a]"], simp, intro exI [of _ "[?a, ?b]"], simp)
  with new have nF: "?F \<noteq> ?r" "?F \<noteq> h" "?F \<noteq> g" by auto
  let ?m1 = "?m(slot h ?b := g OR flags)"
  let ?m2 = "?m1(slot g ?c := ?F OR flags)"
  let ?m3 = "?m2(slot ?F ?d := pa OR flags)"
  note eq = slot_eq_iff [OF al_r(2) al_r(3)] slot_eq_iff [OF al_r(1) al_r(2)] slot_eq_iff [OF al_r(1) al_r(3)]
    slot_eq_iff [OF al_r(3) al_r(2)] slot_eq_iff [OF al_r(2) page_aligned_page_to_phy] slot_eq_iff [OF al_r(3) page_aligned_page_to_phy]
    slot_eq_iff [OF al_r(1) page_aligned_page_to_phy] slot_eq_iff [OF page_aligned_page_to_phy al_r(2)]
    slot_eq_iff [OF page_aligned_page_to_phy al_r(3)] slot_eq_iff [OF page_aligned_page_to_phy page_aligned_page_to_phy]
  have al1: "mm_phy_alloc_page (s\<lparr>pmem := ?m1\<rparr>) = Some (pg, t\<lparr>pmem := ?m1\<rparr>)"
    using al by (simp add: alloc_pmem)
  have 1: "next_table False flags (slot (KADDR ?r) ?a) s = Some (KADDR h, s)"
    using p(1) by (simp add: next_table_def h_def)
  have 2: "next_table True flags (slot (KADDR h) ?b) s = Some (KADDR g, s\<lparr>pmem := ?m1\<rparr>)"
    using p(2,3) entry_OR [OF al_r(3) fl] by (simp add: next_table_def)
  have 3: "next_table True flags (slot (KADDR g) ?c) (s\<lparr>pmem := ?m1\<rparr>) = Some (KADDR ?F, t\<lparr>pmem := ?m2\<rparr>)"
    using absent ne(3) al1 entry_OR [OF page_aligned_page_to_phy fl] by (simp add: next_table_def eq)
  have "map_virt_to_phy va pa flags s = Some (t\<lparr>pmem := ?m3\<rparr>)"
    using 1 2 3 by (simp add: map_virt_to_phy_def)
  moreover have "cr3 t = ?r" using alloc_mmu_fields [OF al] by simp
  moreover have "walk ?m ?r [?a, ?b, ?c, x] = None" for x
    using p absent by (simp add: h_def Let_def)
  moreover have "walk ?m3 ?r [?a, ?b, ?c, x] =
      (if x = ?d then Some pa else let old = ?m (slot ?F x) in if isPresent old then Some (ALIGN_DOWN old) else None)"
    if "x < 512" for x
    using p(1) ne nF that entry_OR [OF al_r(3) fl] entry_OR [OF page_aligned_page_to_phy fl] entry_OR [OF pa fl]
    by (simp add: eq Let_def flip: h_def)
  ultimately show ?thesis
    by (intro exI [of _ "t\<lparr>pmem := ?m3\<rparr>"]) (simp add: virt_to_phy_walk path_def Let_def del: walk.simps fun_upd_apply)
qed

text \<open>The frame the pool gives for the table of the last level holds an old word at index 1.\<close>

definition ex_dirty :: mmu_state where
  "ex_dirty = ex_mmu\<lparr>pmem := (\<lambda>a. if a = 32448 * 4096 + 8 then 0xABC007 else 0)(0x1000 := 0x2007, 0x2000 := 0x3007)\<rparr>"

lemma fresh_table_not_cleared_witness:
  "\<exists>s'. map_virt_to_phy 0x400000 0x5000 7 ex_dirty = Some s' \<and> virt_to_phy 0x401000 0 ex_dirty = 0 \<and>
     virt_to_phy 0x401000 0 s' = 0xABC000 \<and> virt_to_phy 0x402000 0 s' = 0"
proof -
  let ?m = "pmem ex_dirty" and ?F = "mm_page_to_phy 32448"
  have c: "cr3 ex_dirty = 0x1000" by (simp add: ex_dirty_def ex_mmu_def)
  have pres: "isPresent (?m (slot b x)) \<longleftrightarrow> x = 0 \<and> b \<in> {0x1000, 0x2000}"
    if "page_aligned b" "b \<noteq> ?F" "x < 512" for b x
  proof -
    have "slot b x = 0x1000 \<longleftrightarrow> b = 0x1000 \<and> x = 0" "slot b x = 0x2000 \<longleftrightarrow> b = 0x2000 \<and> x = 0"
      using slot_eq_iff [OF that(1) _ that(3), of "0x1000" 0] slot_eq_iff [OF that(1) _ that(3), of "0x2000" 0]
      by (simp_all add: slot_def page_aligned_def)
    moreover have "slot b x \<noteq> 32448 * 4096 + 8"
      using slot_eq_iff [OF that(1) page_aligned_page_to_phy that(3), of 1 32448] that(2) by (simp add: slot_def mm_page_to_phy_def)
    ultimately show ?thesis by (auto simp: ex_dirty_def isPresent_def PT_PRESENT_FLAG_def)
  qed
  have tables: "(q, f) \<in> {([], 0x1000), ([0], 0x2000), ([0, 0], 0x3000)}"
    if "walk ?m 0x1000 q = Some f" "valid_path q" for q f
  proof -
    have e: "ALIGN_DOWN (?m (slot 0x1000 0)) = 0x2000" "ALIGN_DOWN (?m (slot 0x2000 0)) = 0x3000" by code_simp+
    have F: "page_aligned (0x1000 :: u64)" "page_aligned (0x2000 :: u64)" "page_aligned (0x3000 :: u64)"
      "0x1000 \<noteq> ?F" "0x2000 \<noteq> ?F" "0x3000 \<noteq> ?F" by code_simp+
    show ?thesis
      using that F by (cases q; cases "tl q"; cases "tl (tl q)") (auto simp: Let_def pres e split: if_splits)
  qed
  have "pt_wf ?m 0x1000"
    unfolding pt_wf_def
  proof (intro conjI allI impI)
    fix q r f
    assume "valid_path q \<and> valid_path r \<and> length q \<le> 3 \<and> length r \<le> 3 \<and> walk ?m 0x1000 q = Some f \<and> walk ?m 0x1000 r = Some f"
    then show "q = r" using tables [of q f] tables [of r f] by auto
  qed code_simp
  moreover have "walk ?m 0x1000 [pml4e_offset 0x400000, pdpe_offset 0x400000] = Some 0x3000" by code_simp
  moreover have "\<not> isPresent (?m (slot 0x3000 (pde_offset 0x400000)))" by code_simp
  moreover obtain t where "mm_phy_alloc_page ex_dirty = Some (32448, t)"
  proof -
    have "map_option fst (mm_phy_alloc_page ex_dirty) = Some 32448" by code_simp
    then show ?thesis using that by auto
  qed
  moreover have "\<not> is_table ?m 0x1000 ?F"
  proof
    assume "is_table ?m 0x1000 ?F"
    then obtain q where "valid_path q" "walk ?m 0x1000 q = Some ?F" by (auto simp: is_table_def)
    then have "?F \<in> {0x1000, 0x2000, 0x3000}" using tables by blast
    then show False by (simp add: mm_page_to_phy_def)
  qed
  moreover have "valid_flags 7" "page_aligned 0x5000" by code_simp+
  ultimately obtain s' where s': "map_virt_to_phy 0x400000 0x5000 7 ex_dirty = Some s'"
    "pml4e_offset v = pml4e_offset 0x400000 \<and> pdpe_offset v = pdpe_offset 0x400000 \<and> pde_offset v = pde_offset 0x400000 \<Longrightarrow>
       virt_to_phy v 0 ex_dirty = 0 \<and> virt_to_phy v 0 s' =
         (if pte_offset v = pte_offset 0x400000 then 0x5000
          else let old = ?m (slot ?F (pte_offset v)) in if isPresent old then ALIGN_DOWN old else 0)" for v
    using fresh_table_not_cleared [of ex_dirty "0x400000" "0x3000" 32448 _ 7 "0x5000" 0] unfolding c by blast
  have "?m (slot ?F (pte_offset 0x401000)) = 0xABC007" "\<not> isPresent (?m (slot ?F (pte_offset 0x402000)))"
    "pte_offset 0x401000 \<noteq> pte_offset 0x400000" "pte_offset 0x402000 \<noteq> pte_offset 0x400000" "isPresent 0xABC007"
    "ALIGN_DOWN 0xABC007 = 0xABC000" by code_simp+
  moreover have "pml4e_offset 0x401000 = pml4e_offset 0x400000 \<and> pdpe_offset 0x401000 = pdpe_offset 0x400000 \<and> pde_offset 0x401000 = pde_offset 0x400000"
    "pml4e_offset 0x402000 = pml4e_offset 0x400000 \<and> pdpe_offset 0x402000 = pdpe_offset 0x400000 \<and> pde_offset 0x402000 = pde_offset 0x400000"
    by code_simp+
  ultimately show ?thesis using s'(1) s'(2) [of "0x401000"] s'(2) [of "0x402000"] by simp
qed

end
