(* ===== verification/VirtMem.thy ===== *)
theory VirtMem
  imports PageWalk
begin

section \<open>Virtual memory and the kernel heap (\<open>virtual_mm.c\<close>, \<open>kmalloc.c\<close>)\<close>

text \<open>
  Access to memory through a virtual address: the address is translated by the tables that CR3
  points to.  An access to an unmapped address is a page fault, the outcome \<open>None\<close>.  A word
  access at an address that is a multiple of 8 touches one word of the frame; any other word
  access is made of its eight bytes, lowest address first.
\<close>

definition vtrans :: "u64 \<Rightarrow> 'z mmu_state_scheme \<Rightarrow> u64 option" where
  "vtrans va s = map_option (\<lambda>f. f + (va AND 0xFFF)) (frame_of (cr3 s) s va)"

definition phys_byte :: "(u64 \<Rightarrow> u64) \<Rightarrow> u64 \<Rightarrow> u8" where
  "phys_byte m a = ucast (drop_bit (8 * unat (a AND 7)) (m (a AND NOT 7)))"

definition set_phys_byte :: "u64 \<Rightarrow> u8 \<Rightarrow> (u64 \<Rightarrow> u64) \<Rightarrow> u64 \<Rightarrow> u64" where
  "set_phys_byte a b m =
     (let k = 8 * unat (a AND 7); w = m (a AND NOT 7)
      in m(a AND NOT 7 := (w AND NOT (push_bit k 0xFF)) OR push_bit k (ucast b)))"

definition vload8 :: "u64 \<Rightarrow> 'z mmu_state_scheme \<Rightarrow> u8 option" where
  "vload8 va s = do { a \<leftarrow> vtrans va s; Some (phys_byte (pmem s) a) }"

definition vstore8 :: "u64 \<Rightarrow> u8 \<Rightarrow> 'z mmu_state_scheme \<Rightarrow> 'z mmu_state_scheme option" where
  "vstore8 va b s = do { a \<leftarrow> vtrans va s; Some (s\<lparr>pmem := set_phys_byte a b (pmem s)\<rparr>) }"

fun vload_bytes :: "nat \<Rightarrow> u64 \<Rightarrow> 'z mmu_state_scheme \<Rightarrow> bytes option" where
  "vload_bytes 0 va s = Some []"
| "vload_bytes (Suc n) va s = do { b \<leftarrow> vload8 va s; bs \<leftarrow> vload_bytes n (va + 1) s; Some (b # bs) }"

fun vstore_bytes :: "bytes \<Rightarrow> u64 \<Rightarrow> 'z mmu_state_scheme \<Rightarrow> 'z mmu_state_scheme option" where
  "vstore_bytes [] va s = Some s"
| "vstore_bytes (b # bs) va s = do { s \<leftarrow> vstore8 va b s; vstore_bytes bs (va + 1) s }"

definition word_of_bytes :: "bytes \<Rightarrow> u64" where
  "word_of_bytes bs = foldr (\<lambda>b w. push_bit 8 w OR ucast b) bs 0"

definition bytes_of_word :: "u64 \<Rightarrow> bytes" where
  "bytes_of_word w = map (\<lambda>i. ucast (drop_bit (8 * i) w)) [0..<8]"

definition vload64 :: "u64 \<Rightarrow> 'z mmu_state_scheme \<Rightarrow> u64 option" where
  "vload64 va s =
     (if va AND 7 = 0 then do { a \<leftarrow> vtrans va s; Some (pmem s a) }
      else do { bs \<leftarrow> vload_bytes 8 va s; Some (word_of_bytes bs) })"

definition vstore64 :: "u64 \<Rightarrow> u64 \<Rightarrow> 'z mmu_state_scheme \<Rightarrow> 'z mmu_state_scheme option" where
  "vstore64 va w s =
     (if va AND 7 = 0 then do { a \<leftarrow> vtrans va s; Some (s\<lparr>pmem := (pmem s)(a := w)\<rparr>) }
      else vstore_bytes (bytes_of_word w) va s)"

text \<open>\<open>memset\<close> and \<open>memcpy\<close> of \<open>kstring.c\<close> on virtual addresses: one byte per step.\<close>

fun vmemset :: "nat \<Rightarrow> u64 \<Rightarrow> u8 \<Rightarrow> 'z mmu_state_scheme \<Rightarrow> 'z mmu_state_scheme option" where
  "vmemset 0 va b s = Some s"
| "vmemset (Suc n) va b s = do { s \<leftarrow> vstore8 va b s; vmemset n (va + 1) b s }"

fun vmemcpy :: "nat \<Rightarrow> u64 \<Rightarrow> u64 \<Rightarrow> 'z mmu_state_scheme \<Rightarrow> 'z mmu_state_scheme option" where
  "vmemcpy 0 dst src s = Some s"
| "vmemcpy (Suc n) dst src s = do {
     b \<leftarrow> vload8 src s;
     s \<leftarrow> vstore8 dst b s;
     vmemcpy n (dst + 1) (src + 1) s
   }"

subsection \<open>Allocating pages of virtual memory\<close>

definition get_current_vm_top :: "'z mmu_state_scheme \<Rightarrow> u64" where
  "get_current_vm_top s = virtual_top s"

definition set_current_vm_top :: "u64 \<Rightarrow> 'z mmu_state_scheme \<Rightarrow> 'z mmu_state_scheme" where
  "set_current_vm_top new_top s = s\<lparr>virtual_top := new_top\<rparr>"

text \<open>One round of the loop of \<open>alloc_pages\<close>; it also yields the page it took.\<close>

definition alloc_pages_step :: "u64 \<Rightarrow> 'z mmu_state_scheme \<Rightarrow> (u64 \<times> 'z mmu_state_scheme) option" where
  "alloc_pages_step flags s = do {
     (phy_page, s) \<leftarrow> mm_phy_alloc_page s;
     let phy_addr = mm_page_to_phy phy_page;
     s \<leftarrow> map_virt_to_phy (virtual_top s) phy_addr flags s;
     Some (phy_page, s\<lparr>virtual_top := virtual_top s + PAGE_SIZE\<rparr>)
   }"

fun alloc_pages_loop :: "nat \<Rightarrow> u64 \<Rightarrow> 'z mmu_state_scheme \<Rightarrow> 'z mmu_state_scheme option" where
  "alloc_pages_loop 0 flags s = Some s"
| "alloc_pages_loop (Suc n) flags s = do {
     (_, s) \<leftarrow> alloc_pages_step flags s;
     alloc_pages_loop n flags s
   }"

definition alloc_pages :: "u64 \<Rightarrow> u64 \<Rightarrow> 'z mmu_state_scheme \<Rightarrow> (u64 \<times> 'z mmu_state_scheme) option" where
  "alloc_pages no_of_pages flags s = do {
     let retaddr = virtual_top s;
     s \<leftarrow> alloc_pages_loop (unat no_of_pages) flags s;
     Some (retaddr, s)
   }"

definition pages_of_size :: "u64 \<Rightarrow> u64" where
  "pages_of_size sz = sz div PAGE_SIZE + (if sz mod PAGE_SIZE \<noteq> 0 then 1 else 0)"

fun alloc_at_loop :: "nat \<Rightarrow> u64 \<Rightarrow> u64 \<Rightarrow> 'z mmu_state_scheme \<Rightarrow> 'z mmu_state_scheme option" where
  "alloc_at_loop 0 virt flags s = Some s"
| "alloc_at_loop (Suc n) virt flags s = do {
     (phy_page, s) \<leftarrow> mm_phy_alloc_page s;
     let phy_addr = mm_page_to_phy phy_page;
     s \<leftarrow> map_virt_to_phy virt phy_addr flags s;
     alloc_at_loop n (virt + PAGE_SIZE) flags s
   }"

definition alloc_pages_at_virt ::
  "u64 \<Rightarrow> u64 \<Rightarrow> u64 \<Rightarrow> 'z mmu_state_scheme \<Rightarrow> (u64 \<times> 'z mmu_state_scheme) option" where
  "alloc_pages_at_virt virt sz flags s = do {
     let addr = virt;
     s \<leftarrow> alloc_at_loop (unat (pages_of_size sz)) virt flags s;
     Some (addr, s)
   }"

subsection \<open>The kernel heap\<close>

definition kmalloc :: "u64 \<Rightarrow> 'z mmu_state_scheme \<Rightarrow> (u64 \<times> 'z mmu_state_scheme) option" where
  "kmalloc sz s = alloc_pages (pages_of_size sz) (PT_PRESENT_FLAG OR PT_WRITABLE_FLAG) s"

fun kfree_loop :: "nat \<Rightarrow> u64 \<Rightarrow> 'z mmu_state_scheme \<Rightarrow> 'z mmu_state_scheme" where
  "kfree_loop 0 vaddr s = s"
| "kfree_loop (Suc n) vaddr s =
     (let phyaddr = virt_to_phy vaddr 0 s;
          s = (if phyaddr \<noteq> 0 then mm_phy_free_page (mm_phy_to_page phyaddr) s else s)
      in kfree_loop n (vaddr + PAGE_SIZE) s)"

definition kfree :: "u64 \<Rightarrow> u64 \<Rightarrow> 'z mmu_state_scheme \<Rightarrow> 'z mmu_state_scheme" where
  "kfree vaddr sz s = kfree_loop (unat (pages_of_size sz)) vaddr s"

subsection \<open>Whole page tables\<close>

text \<open>
  \<open>get_phy_page_table\<close> with a null argument takes a frame; the frame is cleared through the
  direct map.  (The allocator never returns page 0 to the caller, it leaves its array first, so
  the branch that skips the clearing is the one of \<open>cr3 = 0\<close> and page 0.)
\<close>

definition clear_frame :: "u64 \<Rightarrow> 'z mmu_state_scheme \<Rightarrow> 'z mmu_state_scheme" where
  "clear_frame f s = fold (\<lambda>i. kwrite (slot (KADDR f) (word_of_nat i)) 0) [0..<512] s"

definition get_phy_page_table :: "u64 \<Rightarrow> 'z mmu_state_scheme \<Rightarrow> (u64 \<times> 'z mmu_state_scheme) option" where
  "get_phy_page_table cr3p s = do {
     (ret, s) \<leftarrow> (if cr3p = 0
                  then do { (phy_page, s) \<leftarrow> mm_phy_alloc_page s; Some (mm_page_to_phy phy_page, s) }
                  else Some (cr3p, s));
     Some (ret, if ret \<noteq> 0 then clear_frame ret s else s)
   }"

text \<open>
  \<open>free_page_tables\<close>: each of the four levels visits the indices 0 to 510.  The top-level table
  is reached through the pointer that is passed, the lower levels through the direct map.
\<close>

definition free_pte :: "u64 \<Rightarrow> 'z mmu_state_scheme \<Rightarrow> 'z mmu_state_scheme" where
  "free_pte pte s =
     fold (\<lambda>n s. if isPresent (kread s (slot pte (word_of_nat n)))
                 then kwrite (slot pte (word_of_nat n)) 0 s else s) [0..<511] s"

definition free_entry :: "u64 \<Rightarrow> 'z mmu_state_scheme \<Rightarrow> 'z mmu_state_scheme" where
  "free_entry e s =
     kwrite e 0 (mm_phy_free_page (mm_phy_to_page (ALIGN_DOWN (kread s e))) s)"

definition free_pde :: "u64 \<Rightarrow> 'z mmu_state_scheme \<Rightarrow> 'z mmu_state_scheme" where
  "free_pde pde s =
     fold (\<lambda>k s. let e = slot pde (word_of_nat k) in
       free_entry e (if isPresent (kread s e) then free_pte (KADDR (ALIGN_DOWN (kread s e))) s else s))
     [0..<511] s"

definition free_pdpe :: "u64 \<Rightarrow> 'z mmu_state_scheme \<Rightarrow> 'z mmu_state_scheme" where
  "free_pdpe pdpe s =
     fold (\<lambda>j s. let e = slot pdpe (word_of_nat j) in
       free_entry e (if isPresent (kread s e) then free_pde (KADDR (ALIGN_DOWN (kread s e))) s else s))
     [0..<511] s"

fun free_pml4e :: "nat list \<Rightarrow> u64 \<Rightarrow> 'z mmu_state_scheme \<Rightarrow> 'z mmu_state_scheme option" where
  "free_pml4e [] t s = Some s"
| "free_pml4e (i # is) t s = do {
     e \<leftarrow> vload64 (slot t (word_of_nat i)) s;
     let s = (if isPresent e then free_pdpe (KADDR (ALIGN_DOWN e)) s else s);
     e \<leftarrow> vload64 (slot t (word_of_nat i)) s;
     let s = mm_phy_free_page (mm_phy_to_page (ALIGN_DOWN e)) s;
     s \<leftarrow> vstore64 (slot t (word_of_nat i)) 0 s;
     free_pml4e is t s
   }"

definition free_page_tables :: "u64 \<Rightarrow> 'z mmu_state_scheme \<Rightarrow> 'z mmu_state_scheme option" where
  "free_page_tables pml4e s = free_pml4e [0..<511] pml4e s"

definition reset_page_tables :: "u64 \<Rightarrow> 'z mmu_state_scheme \<Rightarrow> 'z mmu_state_scheme option" where
  "reset_page_tables pml4e s = free_page_tables pml4e s"

text \<open>A new address space: a page that gets the 512 entries of the kernel's top-level table.\<close>

fun copy_pml4e :: "nat list \<Rightarrow> u64 \<Rightarrow> u64 \<Rightarrow> 'z mmu_state_scheme \<Rightarrow> 'z mmu_state_scheme option" where
  "copy_pml4e [] ptr kpml4e s = Some s"
| "copy_pml4e (i # is) ptr kpml4e s = do {
     s \<leftarrow> vstore64 (slot ptr (word_of_nat i)) (kread s (slot kpml4e (word_of_nat i))) s;
     copy_pml4e is ptr kpml4e s
   }"

definition env_setup_vm :: "'z mmu_state_scheme \<Rightarrow> (u64 \<times> 'z mmu_state_scheme) option" where
  "env_setup_vm s = do {
     (pml4e, s) \<leftarrow> alloc_pages 1 (PT_PRESENT_FLAG OR PT_WRITABLE_FLAG OR PT_USER) s;
     s \<leftarrow> copy_pml4e [0..<512] pml4e (KADDR (k_cr3 s)) s;
     Some (pml4e, s)
   }"

subsection \<open>Mapping never releases a frame\<close>

lemma kwrite_fields [simp, frame_simps]:
  "page_free (kwrite a v s) q = page_free s q" "virtual_top (kwrite a v s) = virtual_top s"
  "cr3 (kwrite a v s) = cr3 s"
  by (simp_all add: kwrite_def)

lemma next_table_frees:
  "next_table refresh flags e s = Some (t, s') \<Longrightarrow>
   (\<forall>q. page_free s' q \<longrightarrow> page_free s q) \<and> virtual_top s' = virtual_top s"
  by (auto simp: next_table_def dest: alloc_page_free(3) alloc_mmu_fields split: bind_splits if_splits)

lemma map_page_frees:
  "map_page refresh root virt phy flags s = Some s' \<Longrightarrow>
   (\<forall>q. page_free s' q \<longrightarrow> page_free s q) \<and> virtual_top s' = virtual_top s"
  by (auto simp: map_page_def dest!: next_table_frees split: bind_splits)

lemma alloc_pages_step_effect:
  assumes "alloc_pages_step flags s = Some (p, s')"
  obtains s1 s2 where "mm_phy_alloc_page s = Some (p, s1)"
    "map_page True (cr3 s) (virtual_top s) (mm_page_to_phy p) flags s1 = Some s2"
    "s' = s2\<lparr>virtual_top := virtual_top s + PAGE_SIZE\<rparr>"
  using assms
  by (auto simp: alloc_pages_step_def Let_def map_virt_to_phy_map_page map_page_frees alloc_mmu_fields
      split: bind_splits)

lemma page_free_top [simp, frame_simps]: "page_free (s\<lparr>virtual_top := a\<rparr>) q = page_free s q"
  by (simp add: page_free_def)

lemma alloc_pages_step_free:
  assumes "alloc_pages_step flags s = Some (p, s')"
  shows "page_free s p" "\<not> page_free s' p" "page_free s' q \<Longrightarrow> page_free s q"
proof -
  obtain s1 s2 where al: "mm_phy_alloc_page s = Some (p, s1)"
    and mp: "map_page True (cr3 s) (virtual_top s) (mm_page_to_phy p) flags s1 = Some s2"
    and s': "s' = s2\<lparr>virtual_top := virtual_top s + PAGE_SIZE\<rparr>"
    by (rule alloc_pages_step_effect [OF assms])
  have sub: "page_free s' q \<Longrightarrow> page_free s1 q" for q
    using map_page_frees [OF mp] by (auto simp: s')
  show "page_free s p" "\<not> page_free s' p" "page_free s' q \<Longrightarrow> page_free s q"
    using alloc_page_free [OF al] sub by blast+
qed

interpretation vm: frame_allocator "alloc_pages_step flags" page_free
  by unfold_locales (auto dest: alloc_pages_step_free)

lemma alloc_pages_loop_list:
  "alloc_pages_loop n flags s = map_option snd (alloc_list (alloc_pages_step flags) n s)"
proof (induction n arbitrary: s)
  case (Suc n)
  then show ?case
    by (cases "alloc_pages_step flags s") (auto simp: option.map_comp comp_def split: prod.splits bind_splits)
qed simp

subsection \<open>What a run of \<open>alloc_pages\<close> does to the address space\<close>

lemma mm_ok_alloc:
  assumes "mm_ok root s" "mm_phy_alloc_page s = Some (p, s')"
  shows "mm_ok root s'"
  using assms alloc_page_free(3) [OF assms(2)] alloc_mmu_fields [OF assms(2)]
  by (auto simp: mm_ok_def)

lemma mm_ok_top [simp]: "mm_ok root (s\<lparr>virtual_top := a\<rparr>) = mm_ok root s"
  by (simp add: mm_ok_def)

lemma frame_of_top [simp]: "frame_of root (s\<lparr>virtual_top := a\<rparr>) v = frame_of root s v"
  by (simp add: frame_of_def)

lemma alloc_pages_step_spec:
  assumes step: "alloc_pages_step flags s = Some (p, s')" and ok: "mm_ok (cr3 s) s" and fl: "valid_flags flags"
  shows "mm_ok (cr3 s) s'" and "cr3 s' = cr3 s" and "k_cr3 s' = k_cr3 s"
    and "virtual_top s' = virtual_top s + PAGE_SIZE"
    and "frame_of (cr3 s) s' v =
      (if same_page v (virtual_top s) then Some (mm_page_to_phy p) else frame_of (cr3 s) s v)"
proof -
  obtain s1 s2 where al: "mm_phy_alloc_page s = Some (p, s1)"
    and mp: "map_page True (cr3 s) (virtual_top s) (mm_page_to_phy p) flags s1 = Some s2"
    and s': "s' = s2\<lparr>virtual_top := virtual_top s + PAGE_SIZE\<rparr>"
    by (rule alloc_pages_step_effect [OF step])
  note same = alloc_mmu_fields [OF al]
  have ok1: "mm_ok (cr3 s) s1" by (rule mm_ok_alloc [OF ok al])
  note mp = map_page_refines [OF mp ok1 fl page_aligned_page_to_phy]
  show "mm_ok (cr3 s) s'" "cr3 s' = cr3 s" "k_cr3 s' = k_cr3 s" "virtual_top s' = virtual_top s + PAGE_SIZE"
    using mp same by (simp_all add: s')
  show "frame_of (cr3 s) s' v =
      (if same_page v (virtual_top s) then Some (mm_page_to_phy p) else frame_of (cr3 s) s v)"
    using mp same by (simp add: s') (simp add: frame_of_def)
qed

text \<open>Whether frames can be allocated depends on the bitmap alone.\<close>

lemma alloc_bitmap_cong:
  assumes "phy_bitmap s = phy_bitmap t" and "mm_phy_alloc_page s = Some (p, s')"
  shows "\<exists>t'. mm_phy_alloc_page t = Some (p, t') \<and> phy_bitmap s' = phy_bitmap t'"
  using assms
  by (cases "alloc_scan (phy_bitmap t) PHY_GROUPS")
    (auto simp: mm_phy_alloc_page_def inc_ref_count_def Let_def)

lemma can_alloc_cong: "phy_bitmap s = phy_bitmap t \<Longrightarrow> can_alloc n s \<Longrightarrow> can_alloc n t"
proof (induction n arbitrary: s t)
  case (Suc n)
  obtain p s' where s': "mm_phy_alloc_page s = Some (p, s')" "can_alloc n s'"
    using can_alloc_step [OF Suc.prems(2)] by blast
  obtain t' where t': "mm_phy_alloc_page t = Some (p, t')" "phy_bitmap s' = phy_bitmap t'"
    using alloc_bitmap_cong [OF Suc.prems(1) s'(1)] by blast
  have "can_alloc n t'" by (rule Suc.IH [OF t'(2) s'(2)])
  with t'(1) show ?case by (auto simp: can_alloc_def)
qed (simp add: can_alloc_def)

lemma alloc_pages_step_returns:
  assumes "can_alloc (4 + n) s"
  shows "\<exists>p s'. alloc_pages_step flags s = Some (p, s') \<and> can_alloc n s'"
proof -
  have "can_alloc (Suc (Suc (Suc (Suc n)))) s" using assms by (simp add: eval_nat_numeral)
  then obtain p s1 where al: "mm_phy_alloc_page s = Some (p, s1)" "can_alloc (Suc (Suc (Suc n))) s1"
    using can_alloc_step by blast
  from map_page_returns [OF al(2), of True "cr3 s1" "virtual_top s1" "mm_page_to_phy p" flags]
  obtain s2 where s2: "map_page True (cr3 s1) (virtual_top s1) (mm_page_to_phy p) flags s1 = Some s2"
    "can_alloc n s2" by blast
  have "can_alloc n (s2\<lparr>virtual_top := a\<rparr>)" for a by (rule can_alloc_cong [OF _ s2(2)]) simp
  then show ?thesis
    using al(1) s2(1) by (simp add: alloc_pages_step_def map_virt_to_phy_map_page)
qed

lemma alloc_pages_loop_returns:
  "can_alloc (4 * j + k) s \<Longrightarrow> \<exists>s'. alloc_pages_loop j flags s = Some s' \<and> can_alloc k s'"
proof (induction j arbitrary: s)
  case (Suc j)
  then have "can_alloc (4 + (4 * j + k)) s" by (simp add: algebra_simps)
  then obtain p t where t: "alloc_pages_step flags s = Some (p, t)" "can_alloc (4 * j + k) t"
    using alloc_pages_step_returns by blast
  with Suc.IH [OF t(2)] show ?case by auto
qed simp

lemma alloc_pages_returns:
  "can_alloc (4 * unat n + k) s \<Longrightarrow> \<exists>a s'. alloc_pages n flags s = Some (a, s') \<and> can_alloc k s'"
  using alloc_pages_loop_returns [of "unat n" k s flags] by (auto simp: alloc_pages_def)

lemma alloc_pages_run:
  assumes "alloc_list (alloc_pages_step flags) n s = Some (ps, s')"
    and "mm_ok (cr3 s) s" and "valid_flags flags" and "n \<le> 2 ^ 36"
  shows "mm_ok (cr3 s) s' \<and> cr3 s' = cr3 s \<and> k_cr3 s' = k_cr3 s \<and>
    virtual_top s' = page_at (virtual_top s) n \<and>
    (\<forall>k < n. frame_of (cr3 s) s' (page_at (virtual_top s) k) = Some (mm_page_to_phy (ps ! k))) \<and>
    (\<forall>v. (\<forall>k < n. \<not> same_page v (page_at (virtual_top s) k)) \<longrightarrow> frame_of (cr3 s) s' v = frame_of (cr3 s) s v)"
  using assms
proof (induction n arbitrary: ps s)
  case (Suc n)
  then obtain p t qs where t: "alloc_pages_step flags s = Some (p, t)"
    and rest: "alloc_list (alloc_pages_step flags) n t = Some (qs, s')" and ps: "ps = p # qs"
    by (auto split: bind_splits)
  note st = alloc_pages_step_spec [OF t Suc.prems(2,3)]
  have n: "n < 2 ^ 36" using Suc.prems(4) by simp
  have shift: "page_at (x + PAGE_SIZE) k = page_at x (Suc k)" for x k by (simp add: algebra_simps)
  have IH: "mm_ok (cr3 s) s'" "cr3 s' = cr3 s" "k_cr3 s' = k_cr3 s"
      "virtual_top s' = page_at (virtual_top s) (Suc n)"
    and inside: "\<And>k. k < n \<Longrightarrow> frame_of (cr3 s) s' (page_at (virtual_top s) (Suc k)) = Some (mm_page_to_phy (qs ! k))"
    and outside: "\<And>v. (\<And>k. k < n \<Longrightarrow> \<not> same_page v (page_at (virtual_top s) (Suc k))) \<Longrightarrow>
      frame_of (cr3 s) s' v = frame_of (cr3 s) t v"
    using Suc.IH [OF rest] st(1-4) Suc.prems(3) n by (simp_all add: shift)
  have "frame_of (cr3 s) s' (page_at (virtual_top s) k) = Some (mm_page_to_phy (ps ! k))" if "k < Suc n" for k
  proof (cases k)
    case 0
    have "\<not> same_page (virtual_top s) (page_at (virtual_top s) (Suc j))" if "j < n" for j
      by (rule page_at_distinct) (use that n in simp_all)
    then have "frame_of (cr3 s) s' (virtual_top s) = frame_of (cr3 s) t (virtual_top s)" by (rule outside)
    with 0 st(5) [of "virtual_top s"] show ?thesis by (simp add: same_page_def ps)
  next
    case (Suc j)
    then show ?thesis using inside [of j] that by (simp add: ps)
  qed
  moreover have "frame_of (cr3 s) s' v = frame_of (cr3 s) s v"
    if far: "\<And>k. k < Suc n \<Longrightarrow> \<not> same_page v (page_at (virtual_top s) k)" for v
  proof -
    have "frame_of (cr3 s) s' v = frame_of (cr3 s) t v"
      by (rule outside) (use far [of "Suc _"] in simp)
    then show ?thesis using st(5) [of v] far [of 0] by simp
  qed
  ultimately show ?case using IH by simp
qed simp

lemma alloc_pages_run_returns:
  assumes "can_alloc (4 * n) s"
  shows "\<exists>ps s'. alloc_list (alloc_pages_step flags) n s = Some (ps, s')"
  using assms
proof (induction n arbitrary: s)
  case (Suc n)
  then have "can_alloc (4 + 4 * n) s" by (simp add: algebra_simps)
  then obtain p t where t: "alloc_pages_step flags s = Some (p, t)" "can_alloc (4 * n) t"
    using alloc_pages_step_returns by blast
  with Suc.IH [OF t(2)] show ?case by auto
qed simp

subsection \<open>Releasing memory\<close>

lemma free_page_fields [simp, frame_simps]:
  "pmem (mm_phy_free_page pg s) = pmem s" "cr3 (mm_phy_free_page pg s) = cr3 s"
  by (simp_all add: mm_phy_free_page_def set_page_free_def)

lemma kfree_loop_fields: "pmem (kfree_loop n a s) = pmem s \<and> cr3 (kfree_loop n a s) = cr3 s"
  by (induction n arbitrary: a s) (simp_all add: Let_def)

lemma virt_to_phy_cong:
  "pmem s' = pmem s \<Longrightarrow> cr3 s' = cr3 s \<Longrightarrow> virt_to_phy v p s' = virt_to_phy v p s"
  by (simp add: virt_to_phy_walk)

lemma kfree_loop_mono: "page_free s q \<Longrightarrow> page_free (kfree_loop n a s) q"
  by (induction n arbitrary: a s) (simp_all add: Let_def page_free_free_page)

lemma kfree_loop_frees:
  assumes "k < n" and "f = virt_to_phy (page_at a k) 0 s" and "f \<noteq> 0" and "mm_phy_to_page f \<noteq> 0"
  shows "page_free (kfree_loop n a s) (mm_phy_to_page f)"
  using assms
proof (induction n arbitrary: a s k)
  case (Suc n)
  let ?t = "if virt_to_phy a 0 s \<noteq> 0 then mm_phy_free_page (mm_phy_to_page (virt_to_phy a 0 s)) s else s"
  have rest: "kfree_loop (Suc n) a s = kfree_loop n (a + PAGE_SIZE) ?t" by (simp add: Let_def)
  show ?case
  proof (cases k)
    case 0
    then have "page_free ?t (mm_phy_to_page f)" using Suc.prems by (simp add: page_free_free_page)
    then show ?thesis unfolding rest by (rule kfree_loop_mono)
  next
    case (Suc j)
    have same: "pmem ?t = pmem s" "cr3 ?t = cr3 s" by simp_all
    have "page_at (a + PAGE_SIZE) j = page_at a k" unfolding Suc by (simp add: algebra_simps)
    then have "f = virt_to_phy (page_at (a + PAGE_SIZE) j) 0 ?t"
      using Suc.prems(2) virt_to_phy_cong [OF same] by metis
    moreover have "j < n" using Suc.prems(1) Suc by simp
    ultimately show ?thesis unfolding rest using Suc.prems(3,4) by (intro Suc.IH)
  qed
qed simp

text \<open>What a memory operation may change, as a record update: this gives the fields of every extension
  of the state, too.\<close>

lemma vstore8_pmem: "vstore8 va b s = Some s' \<Longrightarrow> \<exists>m. s' = s\<lparr>pmem := m\<rparr>"
  by (auto simp: vstore8_def split: bind_splits)

lemma vmemset_pmem: "vmemset n va b s = Some s' \<Longrightarrow> \<exists>m. s' = s\<lparr>pmem := m\<rparr>"
proof (induction n arbitrary: va s)
  case 0
  then have "s' = s\<lparr>pmem := pmem s\<rparr>" by simp
  then show ?case by blast
next
  case (Suc n)
  then obtain t where t: "vstore8 va b s = Some t" "vmemset n (va + 1) b t = Some s'"
    by (auto split: bind_splits)
  from vstore8_pmem [OF t(1)] Suc.IH [OF t(2)] show ?case by auto
qed

lemma free_page_update: "\<exists>bm r. mm_phy_free_page pg s = s\<lparr>phy_bitmap := bm, refcount := r\<rparr>"
proof (cases "pg = 0")
  case True
  then have "mm_phy_free_page pg s = s\<lparr>phy_bitmap := phy_bitmap s, refcount := refcount s\<rparr>"
    by (simp add: mm_phy_free_page_def)
  then show ?thesis by blast
next
  case False
  then show ?thesis by (auto simp: mm_phy_free_page_def set_page_free_def)
qed

lemma kfree_update: "\<exists>bm r. kfree a sz s = s\<lparr>phy_bitmap := bm, refcount := r\<rparr>"
proof -
  have "\<exists>bm r. kfree_loop n a s = s\<lparr>phy_bitmap := bm, refcount := r\<rparr>" for n
  proof (induction n arbitrary: a s)
    case 0
    have "kfree_loop 0 a s = s\<lparr>phy_bitmap := phy_bitmap s, refcount := refcount s\<rparr>" by simp
    then show ?case by blast
  next
    case (Suc n)
    let ?t = "if virt_to_phy a 0 s \<noteq> 0 then mm_phy_free_page (mm_phy_to_page (virt_to_phy a 0 s)) s else s"
    have "\<exists>bm r. ?t = s\<lparr>phy_bitmap := bm, refcount := r\<rparr>"
    proof (cases "virt_to_phy a 0 s \<noteq> 0")
      case True
      then show ?thesis using free_page_update by simp
    next
      case False
      then have "?t = s\<lparr>phy_bitmap := phy_bitmap s, refcount := refcount s\<rparr>" by simp
      then show ?thesis by blast
    qed
    then obtain bm r where t: "?t = s\<lparr>phy_bitmap := bm, refcount := r\<rparr>" by blast
    have "kfree_loop (Suc n) a s = kfree_loop n (a + PAGE_SIZE) ?t" by (simp add: Let_def)
    then show ?case using Suc.IH [of "a + PAGE_SIZE" ?t] t by auto
  qed
  then show ?thesis by (simp add: kfree_def)
qed

definition heap_update :: "'z mmu_state_scheme \<Rightarrow> 'z mmu_state_scheme \<Rightarrow> bool" where
  "heap_update s s' \<longleftrightarrow> (\<exists>bm r m vt. s' = s\<lparr>phy_bitmap := bm, refcount := r, pmem := m, virtual_top := vt\<rparr>)"

lemma heap_update_refl [simp]: "heap_update s s"
proof -
  have "s = s\<lparr>phy_bitmap := phy_bitmap s, refcount := refcount s, pmem := pmem s, virtual_top := virtual_top s\<rparr>"
    by simp
  then show ?thesis unfolding heap_update_def by blast
qed

lemma heap_update_trans: "heap_update s t \<Longrightarrow> heap_update t u \<Longrightarrow> heap_update s u"
  unfolding heap_update_def by (elim exE) (simp, blast)

lemma heap_update_pmem [simp]: "heap_update s (s\<lparr>pmem := m\<rparr>)"
proof -
  have "s\<lparr>pmem := m\<rparr> = s\<lparr>phy_bitmap := phy_bitmap s, refcount := refcount s, pmem := m, virtual_top := virtual_top s\<rparr>"
    by simp
  then show ?thesis unfolding heap_update_def by blast
qed

lemma heap_update_top [simp]: "heap_update s (s\<lparr>virtual_top := v\<rparr>)"
proof -
  have "s\<lparr>virtual_top := v\<rparr> = s\<lparr>phy_bitmap := phy_bitmap s, refcount := refcount s, pmem := pmem s, virtual_top := v\<rparr>"
    by simp
  then show ?thesis unfolding heap_update_def by blast
qed

lemma heap_update_alloc:
  assumes "mm_phy_alloc_page s = Some (pg, s')"
  shows "heap_update s s'"
proof -
  have "\<exists>bm r. s' = s\<lparr>phy_bitmap := bm, refcount := r\<rparr>"
  proof (rule alloc_page_effect [OF assms])
    fix k p
    assume *: "s' = inc_ref_count (mm_page_to_phy pg)
       (s\<lparr>phy_bitmap := (phy_bitmap s)(word_of_nat k := phy_bitmap s (word_of_nat k) OR int_shl1 p)\<rparr>)"
    show ?thesis
    proof (cases "mm_phy_to_page (mm_page_to_phy pg) = 0")
      case True
      then have "s' = s\<lparr>phy_bitmap := (phy_bitmap s)(word_of_nat k := phy_bitmap s (word_of_nat k) OR int_shl1 p),
          refcount := refcount s\<rparr>"
        using * by (simp add: inc_ref_count_def)
      then show ?thesis by blast
    next
      case False
      then show ?thesis using * by (auto simp: inc_ref_count_def Let_def)
    qed
  qed
  then obtain bm r where "s' = s\<lparr>phy_bitmap := bm, refcount := r\<rparr>" by blast
  then have "s' = s\<lparr>phy_bitmap := bm, refcount := r, pmem := pmem s, virtual_top := virtual_top s\<rparr>" by simp
  then show ?thesis unfolding heap_update_def by blast
qed

lemma heap_update_kwrite [simp]: "heap_update s (kwrite a v s)"
  by (simp add: kwrite_def)

lemma heap_update_next_table: "next_table r fl e s = Some (t, s') \<Longrightarrow> heap_update s s'"
  by (auto simp: next_table_def split: bind_splits if_splits
      dest!: heap_update_alloc intro: heap_update_trans)

lemma heap_update_map_page: "map_page r root v p fl s = Some s' \<Longrightarrow> heap_update s s'"
  unfolding map_page_def
  by (auto split: bind_splits dest!: heap_update_next_table) (meson heap_update_trans heap_update_kwrite)

lemma heap_update_alloc_step:
  assumes "alloc_pages_step flags s = Some (p, s')"
  shows "heap_update s s' \<and> virtual_top s' = virtual_top s + PAGE_SIZE"
proof -
  obtain s1 s2 where *: "mm_phy_alloc_page s = Some (p, s1)"
    "map_page True (cr3 s) (virtual_top s) (mm_page_to_phy p) flags s1 = Some s2"
    "s' = s2\<lparr>virtual_top := virtual_top s + PAGE_SIZE\<rparr>"
    by (rule alloc_pages_step_effect [OF assms])
  from heap_update_trans [OF heap_update_trans [OF heap_update_alloc [OF *(1)] heap_update_map_page [OF *(2)]]
      heap_update_top, of "virtual_top s + PAGE_SIZE"] show ?thesis by (simp add: *(3))
qed

lemma alloc_pages_update:
  assumes "alloc_pages n flags s = Some (a, s')"
  shows "a = virtual_top s \<and> heap_update s s' \<and> virtual_top s' = page_at (virtual_top s) (unat n)"
proof -
  have "heap_update s s' \<and> virtual_top s' = page_at (virtual_top s) k"
    if "alloc_pages_loop k flags s = Some s'" for k
    using that
  proof (induction k arbitrary: s)
    case (Suc k)
    then obtain p t where t: "alloc_pages_step flags s = Some (p, t)" "alloc_pages_loop k flags t = Some s'"
      by (auto split: bind_splits)
    from heap_update_alloc_step [OF t(1)] Suc.IH [OF t(2)] show ?case
      by (auto intro: heap_update_trans simp: algebra_simps)
  qed simp
  with assms show ?thesis by (auto simp: alloc_pages_def split: bind_splits)
qed

lemma kmalloc_update:
  "kmalloc sz s = Some (a, s') \<Longrightarrow>
   a = virtual_top s \<and> heap_update s s' \<and> virtual_top s' = page_at (virtual_top s) (unat (pages_of_size sz))"
  unfolding kmalloc_def by (rule alloc_pages_update)

subsection \<open>Properties\<close>

text \<open>C10: \<open>alloc_pages\<close> and with it \<open>kmalloc\<close>.  With four frames available for each page, it returns
  the old top of the kernel's virtual memory and moves the top past the pages; the pages translate
  to pairwise distinct frames that were free before and are in use afterwards, every other page
  translates as before, and the invariant is kept.\<close>

lemma alloc_pages_fresh:
  assumes "mm_ok (cr3 s) s" and "valid_flags flags" and "unat n \<le> 2 ^ 36" and "can_alloc (4 * unat n) s"
  shows "\<exists>ps s'. alloc_pages n flags s = Some (virtual_top s, s') \<and>
    virtual_top s' = page_at (virtual_top s) (unat n) \<and> mm_ok (cr3 s') s' \<and> cr3 s' = cr3 s \<and>
    length ps = unat n \<and> distinct ps \<and> (\<forall>p \<in> set ps. page_free s p \<and> \<not> page_free s' p) \<and>
    (\<forall>k < unat n. frame_of (cr3 s) s' (page_at (virtual_top s) k) = Some (mm_page_to_phy (ps ! k))) \<and>
    (\<forall>v. (\<forall>k < unat n. \<not> same_page v (page_at (virtual_top s) k)) \<longrightarrow>
      frame_of (cr3 s) s' v = frame_of (cr3 s) s v)"
proof -
  obtain ps s' where run: "alloc_list (alloc_pages_step flags) (unat n) s = Some (ps, s')"
    using alloc_pages_run_returns [OF assms(4)] by blast
  have "alloc_pages n flags s = Some (virtual_top s, s')"
    by (simp add: alloc_pages_def Let_def alloc_pages_loop_list run)
  then show ?thesis
    using alloc_pages_run [OF run assms(1-3)] vm.run_pages [OF run] by auto
qed

definition ex_heap :: mmu_state where
  "ex_heap = ex_mmu\<lparr>phy_bitmap := (\<lambda>g. if g = 507 then 0xFFFFFFFFFFFF0000 else 0xFFFFFFFFFFFFFFFF),
     virtual_top := 0xFFFFFFFF80400000\<rparr>"

lemma ex_heap_ok: "mm_ok (cr3 ex_heap) ex_heap"
proof -
  have "bit (0xFFFFFFFFFFFFFFFF :: u64) 1" by simp
  then have "\<not> page_free ex_heap 1" by (simp add: page_free_def ex_heap_def)
  moreover have "mm_page_to_phy pg = 0x1000 \<Longrightarrow> unat pg < 508 * 64 \<Longrightarrow> pg = 1" for pg
    using page_to_phy_inj [of pg 1] by (simp add: mm_page_to_phy_def)
  ultimately have "page_free ex_heap pg \<Longrightarrow> unat pg < 508 * 64 \<Longrightarrow> mm_page_to_phy pg \<noteq> 0x1000" for pg
    by metis
  moreover have "pmem ex_heap = (\<lambda>_. 0)" "cr3 ex_heap = 0x1000" by (simp_all add: ex_heap_def ex_mmu_def)
  ultimately show ?thesis by (auto simp: mm_ok_def pt_wf_def walk_zero zero_frame_def is_table_def)
qed

lemma alloc_pages_fresh_witness:
  "\<exists>(ps :: u64 list) s'. alloc_pages 2 3 ex_heap = Some (0xFFFFFFFF80400000, s') \<and> virtual_top s' = 0xFFFFFFFF80402000 \<and>
     distinct ps \<and> length ps = 2"
proof -
  have fl: "valid_flags 3" and pool: "can_alloc (4 * unat (2 :: u64)) ex_heap"
    unfolding can_alloc_def by code_simp+
  have "unat (2 :: u64) \<le> 2 ^ 36" by simp
  from alloc_pages_fresh [OF ex_heap_ok fl this pool]
  obtain ps :: "u64 list" and s' where "alloc_pages 2 3 ex_heap = Some (virtual_top ex_heap, s')"
    "virtual_top s' = page_at (virtual_top ex_heap) (unat (2 :: u64))" "distinct ps" "length ps = unat (2 :: u64)"
    by (elim exE conjE) (rule that)
  moreover have "virtual_top ex_heap = 0xFFFFFFFF80400000" by (simp add: ex_heap_def)
  ultimately show ?thesis by (intro exI [of _ ps] exI [of _ s']) simp
qed

text \<open>C11: \<open>kfree\<close> returns the frames of the pages it is given and leaves the page tables alone: every
  translation, also of the freed pages, is what it was, so the freed memory stays reachable.\<close>

lemma kfree_keeps_mappings:
  assumes "k < unat (pages_of_size sz)" and "f = virt_to_phy (page_at vaddr k) 0 s"
    and "f \<noteq> 0" and "mm_phy_to_page f \<noteq> 0"
  shows "page_free (kfree vaddr sz s) (mm_phy_to_page f) \<and>
    (\<forall>v p. virt_to_phy v p (kfree vaddr sz s) = virt_to_phy v p s)"
  using kfree_loop_frees [OF assms] kfree_loop_fields
  by (auto simp: kfree_def intro: virt_to_phy_cong)

lemma kfree_keeps_mappings_witness:
  "\<exists>s'. map_virt_to_phy 0x400000 0x5000 7 ex_mmu = Some s' \<and> page_free (kfree 0x400000 10 s') 5 \<and>
     virt_to_phy 0x400000 0 (kfree 0x400000 10 s') = 0x5000"
proof -
  have "map_option (virt_to_phy 0x400000 0) (map_virt_to_phy 0x400000 0x5000 7 ex_mmu) = Some 0x5000"
    by code_simp
  then obtain s' where s': "map_virt_to_phy 0x400000 0x5000 7 ex_mmu = Some s'" "0x5000 = virt_to_phy 0x400000 0 s'"
    by auto
  have "0 < unat (pages_of_size 10)" "mm_phy_to_page 0x5000 = 5" by code_simp+
  then show ?thesis
    using kfree_keeps_mappings [of 0 10 "0x5000" "0x400000" s'] s' by simp
qed

end
