(* ===== verification/LinkedList.thy ===== *)
theory LinkedList
  imports Prelude
begin

section \<open>Linked lists of kernel objects\<close>

text \<open>
  The kernel keeps tasks, memory areas and open files in singly linked lists that end in a null
  pointer.  An object of one C type lives in a typed heap, a partial map from addresses; the null
  pointer is never an object.  The loops over lists are the same in every file: walk to the last
  node, look for a node, visit every node.  They do not end on a cyclic list, and dereferencing a
  null or dangling pointer has no result; both outcomes are \<open>None\<close>.
\<close>

type_synonym 'a heap = "u64 \<Rightarrow> 'a option"

definition deref :: "'a heap \<Rightarrow> u64 \<Rightarrow> 'a option" where
  "deref h p = (if p = 0 then None else h p)"

definition hupd :: "u64 \<Rightarrow> ('a \<Rightarrow> 'a) \<Rightarrow> 'a heap \<Rightarrow> 'a heap option" where
  "hupd p f h = do { x \<leftarrow> deref h p; Some (h(p \<mapsto> f x)) }"

partial_function (option) list_last :: "('a \<Rightarrow> u64) \<Rightarrow> 'a heap \<Rightarrow> u64 \<Rightarrow> u64 option" where
  "list_last nxt h p = do {
     x \<leftarrow> deref h p;
     if nxt x = 0 then Some p else list_last nxt h (nxt x)
   }"

partial_function (option) list_find ::
  "('a \<Rightarrow> u64) \<Rightarrow> 'a heap \<Rightarrow> (u64 \<Rightarrow> 'a \<Rightarrow> bool) \<Rightarrow> u64 \<Rightarrow> u64 option" where
  "list_find nxt h P p =
     (if p = 0 then Some 0
      else do { x \<leftarrow> deref h p; if P p x then Some p else list_find nxt h P (nxt x) })"

partial_function (option) list_each ::
  "('a \<Rightarrow> u64) \<Rightarrow> ('a \<Rightarrow> 'a) \<Rightarrow> u64 \<Rightarrow> 'a heap \<Rightarrow> 'a heap option" where
  "list_each nxt f p h =
     (if p = 0 then Some h
      else do { x \<leftarrow> deref h p; list_each nxt f (nxt (f x)) (h(p \<mapsto> f x)) })"

declare list_last.simps [code] list_find.simps [code] list_each.simps [code]

definition append_node ::
  "('a \<Rightarrow> u64) \<Rightarrow> (u64 \<Rightarrow> 'a \<Rightarrow> 'a) \<Rightarrow> 'a heap \<Rightarrow> u64 \<Rightarrow> u64 \<Rightarrow> ('a heap \<times> u64) option" where
  "append_node nxt set_nxt h head a =
     (if head = 0 then do { h \<leftarrow> hupd a (set_nxt 0) h; Some (h, a) }
      else do {
        l \<leftarrow> list_last nxt h head;
        h \<leftarrow> hupd l (set_nxt a) h;
        h \<leftarrow> hupd a (set_nxt 0) h;
        Some (h, head)
      })"

subsection \<open>Lists in a heap\<close>

fun llist :: "('a \<Rightarrow> u64) \<Rightarrow> 'a heap \<Rightarrow> u64 \<Rightarrow> u64 list \<Rightarrow> bool" where
  "llist nxt h p [] \<longleftrightarrow> p = 0"
| "llist nxt h p (a # as) \<longleftrightarrow> p = a \<and> (\<exists>x. deref h a = Some x \<and> llist nxt h (nxt x) as)"

lemma llist_nonzero: "llist nxt h p as \<Longrightarrow> a \<in> set as \<Longrightarrow> a \<noteq> 0 \<and> h a \<noteq> None"
  by (induction as arbitrary: p) (auto simp: deref_def split: if_splits)

lemma llist_unique: "llist nxt h p as \<Longrightarrow> llist nxt h p bs \<Longrightarrow> as = bs"
proof (induction as arbitrary: p bs)
  case Nil
  then show ?case by (cases bs) (auto simp: deref_def)
next
  case (Cons a as)
  then show ?case by (cases bs) (auto simp: deref_def split: if_splits)
qed

lemma llist_head: "llist nxt h p as \<Longrightarrow> p = (if as = [] then 0 else hd as)"
  by (cases as) auto

lemma llist_suffix: "llist nxt h p (as @ bs) \<Longrightarrow> \<exists>q. llist nxt h q bs"
  by (induction as arbitrary: p) auto

lemma llist_distinct: "llist nxt h p as \<Longrightarrow> distinct as"
proof (induction as arbitrary: p)
  case (Cons a as)
  then obtain x where x: "deref h a = Some x" "llist nxt h (nxt x) as" by auto
  have "a \<notin> set as"
  proof
    assume "a \<in> set as"
    then obtain bs cs where as: "as = bs @ a # cs" by (meson split_list)
    with llist_suffix x(2) have "llist nxt h a (a # cs)"
      by (metis llist.simps(2))
    moreover have "llist nxt h a (a # as)" using x by simp
    ultimately have "cs = as" using llist_unique by blast
    with as show False by (metis append_Cons append_is_Nil_conv append_self_conv2 list.distinct(1) self_append_conv2 length_append length_Cons less_add_Suc2 less_irrefl_nat add_Suc_right)
  qed
  then show ?case using Cons.IH x(2) by simp
qed simp

lemma llist_cong:
  "(\<And>a. a \<in> set as \<Longrightarrow> map_option nxt (h a) = map_option nxt (h' a)) \<Longrightarrow> llist nxt h p as = llist nxt h' p as"
proof (induction as arbitrary: p)
  case (Cons a as)
  have IH: "llist nxt h q as = llist nxt h' q as" for q by (rule Cons.IH) (use Cons.prems in simp)
  have "map_option nxt (h a) = map_option nxt (h' a)" using Cons.prems by simp
  then show ?case by (auto simp: IH deref_def map_option_eq_Some split: if_splits)
      (metis option.map_sel option.sel option.distinct(1) option.simps(9) map_option_eq_Some)+
qed simp

lemma list_last_llist: "llist nxt h p as \<Longrightarrow> as \<noteq> [] \<Longrightarrow> list_last nxt h p = Some (last as)"
proof (induction as arbitrary: p)
  case (Cons a as)
  then obtain x where x: "p = a" "deref h a = Some x" "llist nxt h (nxt x) as" by auto
  show ?case
  proof (cases as)
    case Nil
    with x show ?thesis by (subst list_last.simps) simp
  next
    case (Cons b bs)
    with x have "nxt x = b" "b \<noteq> 0" by (auto simp: deref_def split: if_splits)
    with x Cons.IH [OF x(3)] Cons show ?thesis by (subst list_last.simps) simp
  qed
qed simp

definition node_at :: "'a heap \<Rightarrow> u64 \<Rightarrow> 'a" where
  "node_at h a = the (h a)"

lemma llist_deref: "llist nxt h p as \<Longrightarrow> a \<in> set as \<Longrightarrow> deref h a = Some (node_at h a)"
  using llist_nonzero [of nxt h p as a] by (auto simp: deref_def node_at_def)

lemma list_find_llist:
  "llist nxt h p as \<Longrightarrow>
   list_find nxt h P p = Some (case find (\<lambda>a. P a (node_at h a)) as of Some a \<Rightarrow> a | None \<Rightarrow> 0)"
proof (induction as arbitrary: p)
  case Nil
  then show ?case by (subst list_find.simps) simp
next
  case (Cons a as)
  then obtain x where x: "p = a" "deref h a = Some x" "llist nxt h (nxt x) as" by auto
  then have "a \<noteq> 0" "node_at h a = x" by (auto simp: deref_def node_at_def split: if_splits)
  then show ?case using x Cons.IH [OF x(3)] by (subst list_find.simps) simp
qed

lemma list_each_llist:
  assumes "llist nxt h p as" and "\<And>x. nxt (f x) = nxt x"
  shows "list_each nxt f p h = Some (\<lambda>a. if a \<in> set as then map_option f (h a) else h a)"
  using assms(1)
proof (induction as arbitrary: p h)
  case Nil
  then show ?case by (subst list_each.simps) simp
next
  case (Cons a as)
  then obtain x where x: "p = a" "deref h a = Some x" "llist nxt h (nxt x) as" by auto
  then have a: "a \<noteq> 0" "h a = Some x" by (auto simp: deref_def split: if_splits)
  have nin: "a \<notin> set as" using llist_distinct [OF Cons.prems] by simp
  have "llist nxt (h(a \<mapsto> f x)) (nxt x) as"
    using x(3) nin by (subst llist_cong [of _ nxt _ h]) auto
  then have "list_each nxt f (nxt x) (h(a \<mapsto> f x)) =
      Some (\<lambda>b. if b \<in> set as then map_option f ((h(a \<mapsto> f x)) b) else (h(a \<mapsto> f x)) b)"
    by (rule Cons.IH)
  also have "(\<lambda>b. if b \<in> set as then map_option f ((h(a \<mapsto> f x)) b) else (h(a \<mapsto> f x)) b) =
      (\<lambda>b. if b \<in> set (a # as) then map_option f (h b) else h b)"
    using a nin by (auto simp: fun_eq_iff)
  finally show ?case using x a by (subst list_each.simps) (simp add: assms(2) del: fun_upd_apply)
qed

subsection \<open>Appending at the tail\<close>

text \<open>
  What the list code relies on is that \<open>next\<close> is a field: reading it gives what was last written,
  and writing it changes nothing else.
\<close>

locale list_node =
  fixes nxt :: "'a \<Rightarrow> u64" and set_nxt :: "u64 \<Rightarrow> 'a \<Rightarrow> 'a"
  assumes nxt_set [simp]: "nxt (set_nxt n x) = n"
    and set_set [simp]: "set_nxt m (set_nxt n x) = set_nxt m x"
begin

lemma append_llist:
  assumes l: "llist nxt h p as" and a: "a \<noteq> 0" "h a = Some x" "a \<notin> set as"
  shows "\<exists>h'. append_node nxt set_nxt h p a = Some (h', hd (as @ [a])) \<and>
    llist nxt h' (hd (as @ [a])) (as @ [a]) \<and>
    (\<forall>b. map_option (set_nxt 0) (h' b) = map_option (set_nxt 0) (h b)) \<and>
    (\<forall>b. b \<noteq> a \<longrightarrow> b \<notin> set as \<longrightarrow> h' b = h b)"
proof (cases as)
  case Nil
  then have "p = 0" using l by simp
  with Nil a show ?thesis by (auto simp: append_node_def hupd_def deref_def)
next
  case (Cons c cs)
  then have p: "p = c" "p \<noteq> 0" "as \<noteq> []" using l by (auto simp: deref_def split: if_splits)
  obtain y where y: "last as \<noteq> 0" "h (last as) = Some y"
    using llist_nonzero [OF l last_in_set [OF p(3)]] by auto
  have ne: "last as \<noteq> a" using a(3) last_in_set [OF p(3)] by metis
  let ?h = "h(last as \<mapsto> set_nxt a y, a \<mapsto> set_nxt 0 x)"
  have ap: "append_node nxt set_nxt h p a = Some (?h, c)"
    using p y a ne list_last_llist [OF l p(3)] by (simp add: append_node_def hupd_def deref_def)
  have "llist nxt ?h q (bs @ [a])"
    if "llist nxt h q bs" "bs \<noteq> []" "last bs = last as" "a \<notin> set bs" for q bs
    using that
  proof (induction bs arbitrary: q)
    case (Cons b bs)
    then obtain z where z: "q = b" "deref h b = Some z" "llist nxt h (nxt z) bs" by auto
    then have b: "b \<noteq> 0" "h b = Some z" by (auto simp: deref_def split: if_splits)
    show ?case
    proof (cases bs)
      case Nil
      then have "b = last as" using Cons.prems(3) by simp
      then show ?thesis using Nil z b a ne by (simp add: deref_def)
    next
      case (Cons d ds)
      have "b \<noteq> last as"
        using llist_distinct [OF Cons.prems(1)] Cons.prems(3) Cons by (metis distinct.simps(2) last.simps last_in_set list.distinct(1))
      moreover have "llist nxt ?h (nxt z) (bs @ [a])"
        by (rule Cons.IH [OF z(3)]) (use Cons Cons.prems in auto)
      moreover have "deref ?h b = Some z"
        using \<open>b \<noteq> last as\<close> b Cons.prems(4) by (auto simp: deref_def)
      ultimately show ?thesis using z by (simp del: fun_upd_apply)
    qed
  qed simp
  from this [OF l p(3) refl a(3)] have "llist nxt ?h c (as @ [a])" using p by simp
  then show ?thesis using ap Cons y a(2) ne p by (auto simp: last_in_set)
qed

end

end
