(* ===== verification/Process.thy ===== *)
theory Process
  imports VirtMem LinkedList
begin

section \<open>Processes and their memory areas (\<open>w2/sys/process/process.c\<close>)\<close>

text \<open>
  Tasks, memory descriptors and memory areas live in typed heaps.  \<open>kmalloc\<close> decides their
  addresses; it does not clear them, so the contents of a new object are whatever the memory
  held: the fields \<open>raw_task\<close>, \<open>raw_vma\<close> and \<open>raw_mm\<close> of the state give them and nothing is
  assumed about them.  The 16 bytes of \<open>name\<close> are written by an unchecked \<open>kstrcpy\<close>; the model
  keeps the whole string (the bytes past the array land in fields that the caller sets afterwards,
  for names of up to 63 characters).
\<close>

datatype task_states =
  TASK_RUNNING | TASK_IDLE | TASK_INTERRUPTIBLE | TASK_UNINTERRUPTIBLE | TASK_ZOMBIE
| TASK_STOPPED | TASK_SWAPPING | TASK_RUNNABLE | TASK_SLEEP | TASK_WAITING

datatype vma_type = VMA_HEAP | VMA_STACK | VMA_NORMAL

definition KSTACK_SIZE :: nat where "KSTACK_SIZE = 512"
definition USER_STACK_SIZE :: u64 where "USER_STACK_SIZE = 16 * 4096"
definition USER_STACK :: u64 where "USER_STACK = 0xF000000000"
definition USER_HEAP :: u64 where "USER_HEAP = 0xF000030000"
definition VM_RW :: u64 where "VM_RW = 6"

record regs =
  r_gs :: u64
  r_fs :: u64
  r_es :: u64
  r_ds :: u64
  r_r15 :: u64
  r_r14 :: u64
  r_r13 :: u64
  r_r12 :: u64
  r_r11 :: u64
  r_r10 :: u64
  r_r9 :: u64
  r_r8 :: u64
  r_rsi :: u64
  r_rbp :: u64
  r_rdx :: u64
  r_rcx :: u64
  r_rbx :: u64
  r_rax :: u64
  r_rdi :: u64
  r_int_no :: u64
  r_err_code :: u64
  r_rip :: u64
  r_cs :: u64
  r_rflag :: u64
  r_rsp :: u64
  r_ss :: u64

record task_struct =
  t_pid :: u32
  t_ppid :: u32
  t_name :: bytes
  t_state :: task_states
  t_next :: u64
  t_e_entry :: u64
  t_rip :: u64
  t_rsp :: u64
  t_pml4e :: u64
  t_sleep_time :: u64
  t_kstack :: "u64 list"
  t_r :: regs
  t_fd :: "u64 list"
  t_parent :: u64
  t_child_count :: u64
  t_wait_for_child_pid :: u64
  t_mm :: u64
  t_pipe :: u64
  t_write_redirection_fd :: u64
  t_read_redirection_fd :: u64

record mm_struct =
  m_vma_list :: u64
  m_start_brk :: u64
  m_end_brk :: u64
  m_start_stack :: u64
  m_arg_start :: u64
  m_arg_end :: u64
  m_env_start :: u64
  m_env_end :: u64
  m_total_vm_size :: u64
  m_stack_vm :: u64
  m_brk_start :: u64
  m_brk_end :: u64

record vm_area_struct =
  v_vm_mm :: u64
  v_vm_start :: u64
  v_vm_end :: u64
  v_vm_flags :: u64
  v_vm_file_descp :: u64
  v_vma_type :: vma_type
  v_next :: u64

definition SIZEOF_TASK :: u64 where "SIZEOF_TASK = 4520"
definition SIZEOF_VMA :: u64 where "SIZEOF_VMA = 56"
definition SIZEOF_MM :: u64 where "SIZEOF_MM = 96"

record proc_state = mmu_state +
  tasks :: "task_struct heap"
  vmas :: "vm_area_struct heap"
  mms :: "mm_struct heap"
  task_list :: u64
  free_task_list :: u64
  free_vm_list :: u64
  next_pid :: u64
  current_task :: u64
  idle_task :: u64
  tss_rsp0 :: u64
  raw_task :: "u64 \<Rightarrow> task_struct"
  raw_vma :: "u64 \<Rightarrow> vm_area_struct"
  raw_mm :: "u64 \<Rightarrow> mm_struct"

abbreviation set_t_next :: "u64 \<Rightarrow> task_struct \<Rightarrow> task_struct" where
  "set_t_next n t \<equiv> t\<lparr>t_next := n\<rparr>"

abbreviation set_v_next :: "u64 \<Rightarrow> vm_area_struct \<Rightarrow> vm_area_struct" where
  "set_v_next n v \<equiv> v\<lparr>v_next := n\<rparr>"

interpretation task_node: list_node t_next set_t_next
  by unfold_locales simp_all

interpretation vma_node: list_node v_next set_v_next
  by unfold_locales simp_all

definition upd_task :: "u64 \<Rightarrow> (task_struct \<Rightarrow> task_struct) \<Rightarrow> 'z proc_state_scheme \<Rightarrow> 'z proc_state_scheme option" where
  "upd_task p f s = do { h \<leftarrow> hupd p f (tasks s); Some (s\<lparr>tasks := h\<rparr>) }"

definition upd_vma :: "u64 \<Rightarrow> (vm_area_struct \<Rightarrow> vm_area_struct) \<Rightarrow> 'z proc_state_scheme \<Rightarrow> 'z proc_state_scheme option" where
  "upd_vma p f s = do { h \<leftarrow> hupd p f (vmas s); Some (s\<lparr>vmas := h\<rparr>) }"

definition upd_mm :: "u64 \<Rightarrow> (mm_struct \<Rightarrow> mm_struct) \<Rightarrow> 'z proc_state_scheme \<Rightarrow> 'z proc_state_scheme option" where
  "upd_mm p f s = do { h \<leftarrow> hupd p f (mms s); Some (s\<lparr>mms := h\<rparr>) }"

subsection \<open>Memory areas\<close>

definition get_free_vma :: "'z proc_state_scheme \<Rightarrow> (u64 \<times> 'z proc_state_scheme) option" where
  "get_free_vma s =
     (if free_vm_list s \<noteq> 0
      then do {
        let vma = free_vm_list s;
        v \<leftarrow> deref (vmas s) vma;
        Some (vma, s\<lparr>free_vm_list := v_next v\<rparr>)
      }
      else do {
        (vma, s) \<leftarrow> kmalloc SIZEOF_VMA s;
        Some (vma, s\<lparr>vmas := (vmas s)(vma \<mapsto> raw_vma s vma)\<rparr>)
      })"

definition create_vma ::
  "u64 \<Rightarrow> u64 \<Rightarrow> u64 \<Rightarrow> vma_type \<Rightarrow> u64 \<Rightarrow> u64 \<Rightarrow> 'z proc_state_scheme \<Rightarrow> (u64 \<times> 'z proc_state_scheme) option" where
  "create_vma vm_mm start end_addr ty flags fd s = do {
     (vma, s) \<leftarrow> get_free_vma s;
     s \<leftarrow> upd_vma vma (\<lambda>v. v\<lparr>v_vm_mm := vm_mm, v_vm_start := start, v_vm_end := end_addr,
            v_vma_type := ty, v_vm_flags := flags, v_vm_file_descp := fd, v_next := 0\<rparr>) s;
     Some (vma, s)
   }"

definition add_to_free_vm_list :: "u64 \<Rightarrow> 'z proc_state_scheme \<Rightarrow> 'z proc_state_scheme option" where
  "add_to_free_vm_list vma s = do {
     (h, l) \<leftarrow> append_node v_next set_v_next (vmas s) (free_vm_list s) vma;
     Some (s\<lparr>vmas := h, free_vm_list := l\<rparr>)
   }"

text \<open>\<open>add_to_vma_list\<close> links the area at the tail and leaves the area's own \<open>next\<close> as it is.\<close>

definition add_to_vma_list :: "u64 \<Rightarrow> u64 \<Rightarrow> 'z proc_state_scheme \<Rightarrow> 'z proc_state_scheme option" where
  "add_to_vma_list mm vma s = do {
     m \<leftarrow> deref (mms s) mm;
     if m_vma_list m = 0 then upd_mm mm (\<lambda>m. m\<lparr>m_vma_list := vma\<rparr>) s
     else do {
       temp_vma \<leftarrow> list_last v_next (vmas s) (m_vma_list m);
       upd_vma temp_vma (set_v_next vma) s
     }
   }"

definition create_new_mmstruct :: "'z proc_state_scheme \<Rightarrow> (u64 \<times> 'z proc_state_scheme) option" where
  "create_new_mmstruct s = do {
     (mm, s) \<leftarrow> kmalloc SIZEOF_MM s;
     let s = s\<lparr>mms := (mms s)(mm \<mapsto> raw_mm s mm)\<rparr>;
     s \<leftarrow> upd_mm mm (\<lambda>m. m\<lparr>m_vma_list := 0, m_start_brk := 0, m_end_brk := 0, m_start_stack := 0,
            m_arg_start := 0, m_arg_end := 0, m_env_start := 0, m_env_end := 0,
            m_total_vm_size := 0, m_stack_vm := 0\<rparr>) s;
     Some (mm, s)
   }"

subsection \<open>The task lists\<close>

definition add_to_task_list :: "u64 \<Rightarrow> 'z proc_state_scheme \<Rightarrow> 'z proc_state_scheme option" where
  "add_to_task_list task s = do {
     (h, l) \<leftarrow> append_node t_next set_t_next (tasks s) (task_list s) task;
     Some (s\<lparr>tasks := h, task_list := l\<rparr>)
   }"

definition add_to_free_task_list :: "u64 \<Rightarrow> 'z proc_state_scheme \<Rightarrow> 'z proc_state_scheme option" where
  "add_to_free_task_list task s = do {
     (h, l) \<leftarrow> append_node t_next set_t_next (tasks s) (free_task_list s) task;
     Some (s\<lparr>tasks := h, free_task_list := l\<rparr>)
   }"

definition get_free_task :: "'z proc_state_scheme \<Rightarrow> (u64 \<times> 'z proc_state_scheme) option" where
  "get_free_task s =
     (if free_task_list s \<noteq> 0
      then do {
        let task = free_task_list s;
        t \<leftarrow> deref (tasks s) task;
        Some (task, s\<lparr>free_task_list := t_next t\<rparr>)
      }
      else do {
        (task, s) \<leftarrow> kmalloc SIZEOF_TASK s;
        let s = s\<lparr>tasks := (tasks s)(task \<mapsto> raw_task s task)\<rparr>;
        (mm, s) \<leftarrow> create_new_mmstruct s;
        s \<leftarrow> upd_task task (\<lambda>t. t\<lparr>t_mm := mm\<rparr>) s;
        Some (task, s)
      })"

text \<open>The loop of \<open>remove_from_task_list\<close> with its two pointers.\<close>

partial_function (option) unlink_loop :: "u64 \<Rightarrow> u64 \<Rightarrow> u64 \<Rightarrow> 'z proc_state_scheme \<Rightarrow> 'z proc_state_scheme option" where
  "unlink_loop task p c s =
     (if c = 0 then Some s
      else do {
        ct \<leftarrow> deref (tasks s) c;
        if c = task then upd_task p (set_t_next (t_next ct)) s
        else unlink_loop task c (t_next ct) s
      })"

declare unlink_loop.simps [code]

definition remove_from_task_list :: "u64 \<Rightarrow> 'z proc_state_scheme \<Rightarrow> 'z proc_state_scheme option" where
  "remove_from_task_list task s = do {
     s \<leftarrow> upd_task task (\<lambda>t. t\<lparr>t_state := TASK_STOPPED\<rparr>) s;
     if task_list s = 0 then Some s
     else do {
       let p = task_list s;
       pt \<leftarrow> deref (tasks s) p;
       let c = t_next pt;
       if p = task then Some (s\<lparr>task_list := t_next pt\<rparr>)
       else unlink_loop task p c s
     }
   }"

definition runnable :: "u64 \<Rightarrow> u64 \<Rightarrow> task_struct \<Rightarrow> bool" where
  "runnable cur p t \<longleftrightarrow> p \<noteq> cur \<and> t_state t = TASK_RUNNABLE"

definition get_next_task :: "u64 \<Rightarrow> 'z proc_state_scheme \<Rightarrow> u64 option" where
  "get_next_task cur s =
     (if cur = 0 then Some (task_list s)
      else do {
        c \<leftarrow> deref (tasks s) cur;
        task \<leftarrow> list_find t_next (tasks s) (runnable cur) (t_next c);
        if task \<noteq> 0 then Some task
        else list_find t_next (tasks s) (runnable cur) (task_list s)
      })"

definition get_task :: "u64 \<Rightarrow> 'z proc_state_scheme \<Rightarrow> u64 option" where
  "get_task pid s = list_find t_next (tasks s) (\<lambda>_ t. ucast (t_pid t) = pid) (task_list s)"

definition age_task :: "task_struct \<Rightarrow> task_struct" where
  "age_task t =
     (if t_state t = TASK_SLEEP
      then if t_sleep_time t = 0 then t\<lparr>t_state := TASK_RUNNABLE\<rparr>
           else t\<lparr>t_sleep_time := t_sleep_time t - 1\<rparr>
      else t)"

definition update_time_slices :: "'z proc_state_scheme \<Rightarrow> 'z proc_state_scheme option" where
  "update_time_slices s = do { h \<leftarrow> list_each t_next age_task (task_list s) (tasks s); Some (s\<lparr>tasks := h\<rparr>) }"

definition remove_from_parent :: "u64 \<Rightarrow> 'z proc_state_scheme \<Rightarrow> 'z proc_state_scheme option" where
  "remove_from_parent child s = do {
     c \<leftarrow> deref (tasks s) child;
     let parent = t_parent c;
     s \<leftarrow> upd_task parent (\<lambda>p. p\<lparr>t_child_count := t_child_count p - 1\<rparr>) s;
     p \<leftarrow> deref (tasks s) parent;
     c \<leftarrow> deref (tasks s) child;
     if t_state p = TASK_WAITING \<and> t_wait_for_child_pid p = ucast (t_pid c)
     then upd_task parent (\<lambda>p. p\<lparr>t_state := TASK_RUNNABLE\<rparr>) s
     else Some s
   }"

subsection \<open>Creating and releasing a task\<close>

definition create_new_task :: "bytes \<Rightarrow> 'z proc_state_scheme \<Rightarrow> (u64 \<times> 'z proc_state_scheme) option" where
  "create_new_task taskname s = do {
     (task, s) \<leftarrow> get_free_task s;
     s \<leftarrow> (if taskname \<noteq> str_bytes ''idle'' then add_to_task_list task s else Some s);
     let pid = next_pid s;
     let s = s\<lparr>next_pid := pid + 1\<rparr>;
     s \<leftarrow> upd_task task (\<lambda>t. t\<lparr>t_pid := ucast pid, t_ppid := 0, t_sleep_time := 0, t_parent := 0,
            t_pipe := 0, t_child_count := 0, t_write_redirection_fd := 0, t_read_redirection_fd := 0,
            t_wait_for_child_pid := 0, t_name := taskname, t_state := TASK_RUNNABLE\<rparr>) s;
     (pml4e, s) \<leftarrow> env_setup_vm s;
     s \<leftarrow> upd_task task (\<lambda>t. t\<lparr>t_pml4e := pml4e,
            t_kstack := replicate (KSTACK_SIZE div 8) 0 @ drop (KSTACK_SIZE div 8) (t_kstack t),
            t_next := 0,
            t_r := (t_r t)\<lparr>r_ds := 0x23, r_fs := 0x23, r_es := 0x23, r_gs := 0x23\<rparr>\<rparr>) s;
     Some (task, s)
   }"

text \<open>
  The loop over the areas of a task.  Areas of a task without a parent are cleared and their
  frames returned; the stack area is given with its bounds exchanged, so its size is negative.
\<close>

definition release_area :: "task_struct \<Rightarrow> vm_area_struct \<Rightarrow> 'z proc_state_scheme \<Rightarrow> 'z proc_state_scheme option" where
  "release_area t v s = do {
     s \<leftarrow> (if t_parent t = 0 \<and> v_vma_type v \<noteq> VMA_STACK
          then do {
            s \<leftarrow> vmemset (unat (v_vm_end v - v_vm_start v)) (v_vm_start v) 0 s;
            Some (kfree (v_vm_start v) (v_vm_end v - v_vm_start v) s)
          }
          else Some s);
     (if v_vma_type v = VMA_STACK
      then do {
        s \<leftarrow> vmemset (unat (v_vm_end v - v_vm_start v)) (v_vm_start v) 0 s;
        Some (kfree (v_vm_end v) (v_vm_start v - v_vm_end v) s)
      }
      else Some s)
   }"

partial_function (option) free_areas_loop ::
  "u64 \<Rightarrow> u64 \<Rightarrow> 'z proc_state_scheme \<Rightarrow> 'z proc_state_scheme option" where
  "free_areas_loop task vma s =
     (if vma = 0 then Some s
      else do {
        t \<leftarrow> deref (tasks s) task;
        v \<leftarrow> deref (vmas s) vma;
        s \<leftarrow> release_area t v s;
        s \<leftarrow> upd_vma vma (\<lambda>v. v\<lparr>v_vm_mm := 0, v_vm_start := 0, v_vm_end := 0, v_vm_flags := 0,
               v_vm_file_descp := 0\<rparr>) s;
        s \<leftarrow> add_to_free_vm_list vma s;
        v \<leftarrow> deref (vmas s) vma;
        free_areas_loop task (v_next v) s
      })"

declare free_areas_loop.simps [code]

definition free_task_mm_struct :: "u64 \<Rightarrow> u64 \<Rightarrow> 'z proc_state_scheme \<Rightarrow> 'z proc_state_scheme option" where
  "free_task_mm_struct mm task s = do {
     m \<leftarrow> deref (mms s) mm;
     let vma = m_vma_list m;
     s \<leftarrow> upd_mm mm (\<lambda>m. m\<lparr>m_total_vm_size := 0, m_stack_vm := 0\<rparr>) s;
     s \<leftarrow> free_areas_loop task vma s;
     upd_mm mm (\<lambda>m. m\<lparr>m_vma_list := 0, m_start_brk := 0, m_end_brk := 0, m_start_stack := 0,
       m_arg_start := 0, m_arg_end := 0, m_env_start := 0, m_env_end := 0,
       m_total_vm_size := 0, m_stack_vm := 0\<rparr>) s
   }"

definition free_task_struct :: "u64 \<Rightarrow> 'z proc_state_scheme \<Rightarrow> 'z proc_state_scheme option" where
  "free_task_struct task s = do {
     t \<leftarrow> deref (tasks s) task;
     let s = write_cr3 (virt_to_phy (t_pml4e t) 0 s) s;
     s \<leftarrow> remove_from_task_list task s;
     t \<leftarrow> deref (tasks s) task;
     s \<leftarrow> free_task_mm_struct (t_mm t) task s;
     s \<leftarrow> upd_task task (\<lambda>t. t\<lparr>t_state := TASK_STOPPED, t_next := 0, t_e_entry := 0, t_ppid := 0,
            t_write_redirection_fd := 0, t_read_redirection_fd := 0, t_pipe := 0, t_parent := 0,
            t_child_count := 0, t_wait_for_child_pid := 0, t_sleep_time := 0\<rparr>) s;
     let s = write_cr3 (k_cr3 s) s;
     s \<leftarrow> upd_task task (\<lambda>t. t\<lparr>t_pml4e := 0\<rparr>) s;
     add_to_free_task_list task s
   }"

subsection \<open>The lists as sequences\<close>

abbreviation task_seq :: "'z proc_state_scheme \<Rightarrow> u64 \<Rightarrow> u64 list \<Rightarrow> bool" where
  "task_seq s \<equiv> llist t_next (tasks s)"

abbreviation vma_seq :: "'z proc_state_scheme \<Rightarrow> u64 \<Rightarrow> u64 list \<Rightarrow> bool" where
  "vma_seq s \<equiv> llist v_next (vmas s)"

lemma add_to_task_list_seq:
  assumes "task_seq s (task_list s) as" and "a \<noteq> 0" "tasks s a = Some t" "a \<notin> set as"
  shows "\<exists>s'. add_to_task_list a s = Some s' \<and> task_seq s' (task_list s') (as @ [a]) \<and>
    (\<forall>b. map_option (set_t_next 0) (tasks s' b) = map_option (set_t_next 0) (tasks s b))"
  using task_node.append_llist [OF assms] by (auto simp: add_to_task_list_def)

lemma add_to_free_vm_list_seq:
  assumes "vma_seq s (free_vm_list s) as" and "a \<noteq> 0" "vmas s a = Some v" "a \<notin> set as"
  shows "\<exists>s' v'. add_to_free_vm_list a s = Some s' \<and> vma_seq s' (free_vm_list s') (as @ [a]) \<and>
    vmas s' a = Some v' \<and> v_next v' = 0"
proof -
  obtain h' where h': "append_node v_next set_v_next (vmas s) (free_vm_list s) a = Some (h', hd (as @ [a]))"
    "llist v_next h' (hd (as @ [a])) (as @ [a])"
    using vma_node.append_llist [OF assms] by blast
  obtain q where "llist v_next h' q [a]" using llist_suffix [OF h'(2)] by blast
  then show ?thesis using h' by (auto simp: add_to_free_vm_list_def deref_def split: if_splits)
qed

lemma unlink_loop_seq:
  "task_seq s p (p # as) \<Longrightarrow> task \<in> set as \<Longrightarrow> task \<noteq> p \<Longrightarrow>
   \<exists>s'. unlink_loop task p (hd as) s = Some s' \<and> task_seq s' p (p # remove1 task as) \<and>
     task_list s' = task_list s \<and> (\<forall>b. b \<notin> set (p # as) \<longrightarrow> tasks s' b = tasks s b)"
proof (induction as arbitrary: p)
  case (Cons c as)
  from Cons.prems(1) obtain x y where x: "deref (tasks s) p = Some x" "t_next x = c"
    and y: "deref (tasks s) c = Some y" "task_seq s (t_next y) as" by auto
  have c: "c \<noteq> 0" "p \<noteq> 0" using x y by (auto simp: deref_def split: if_splits)
  have dist: "p \<noteq> c" "p \<notin> set as" using llist_distinct [OF Cons.prems(1)] by auto
  show ?case
  proof (cases "c = task")
    case True
    let ?s = "s\<lparr>tasks := (tasks s)(p \<mapsto> set_t_next (t_next y) x)\<rparr>"
    have "unlink_loop task p c s = Some ?s"
      using True c x y by (subst unlink_loop.simps) (simp add: upd_task_def hupd_def)
    moreover have "task_seq ?s (t_next y) as"
      using y(2) dist(2) by (subst llist_cong [of _ t_next _ "tasks s"]) auto
    ultimately show ?thesis using True c by (auto simp: deref_def)
  next
    case False
    then have task: "task \<in> set as" using Cons.prems(2) by simp
    have seq: "task_seq s c (c # as)" using y by simp
    have hd: "t_next y = hd as" using y(2) task by (cases as) auto
    from Cons.IH [OF seq task] False obtain s' where s': "unlink_loop task c (hd as) s = Some s'"
      "task_seq s' c (c # remove1 task as)" "task_list s' = task_list s"
      "\<forall>b. b \<notin> set (c # as) \<longrightarrow> tasks s' b = tasks s b" by auto
    have "unlink_loop task p c s = Some s'"
      using False c y(1) s'(1) hd by (subst unlink_loop.simps) simp
    moreover have "deref (tasks s') p = Some x" using s'(4) dist x(1) by (simp add: deref_def split: if_splits)
    ultimately show ?thesis using s' x(2) False by auto
  qed
qed simp

lemma remove_from_task_list_seq:
  assumes "task_seq s (task_list s) as" and "task \<in> set as"
  shows "\<exists>s'. remove_from_task_list task s = Some s' \<and> task_seq s' (task_list s') (remove1 task as)"
proof -
  have t: "task \<noteq> 0" "tasks s task \<noteq> None" using llist_nonzero [OF assms] by auto
  then obtain x where x: "tasks s task = Some x" by auto
  let ?s = "s\<lparr>tasks := (tasks s)(task \<mapsto> x\<lparr>t_state := TASK_STOPPED\<rparr>)\<rparr>"
  have up: "upd_task task (\<lambda>t. t\<lparr>t_state := TASK_STOPPED\<rparr>) s = Some ?s"
    using t x by (simp add: upd_task_def hupd_def deref_def)
  have seq: "task_seq ?s (task_list s) as"
    using assms(1) x by (subst llist_cong [of _ t_next _ "tasks s"]) auto
  from assms(2) obtain p ps where as: "as = p # ps" by (cases as) auto
  then have p: "task_list s = p" "p \<noteq> 0" using seq by (auto simp: deref_def split: if_splits)
  obtain pt where pt: "deref (tasks ?s) p = Some pt" "task_seq ?s (t_next pt) ps"
    using seq as by auto
  show ?thesis
  proof (cases "p = task")
    case True
    then show ?thesis using up p pt as by (simp add: remove_from_task_list_def Let_def)
  next
    case False
    then have "task \<in> set ps" using assms(2) as by simp
    moreover from this have "t_next pt = hd ps" using pt(2) by (cases ps) auto
    moreover have "task_seq ?s p (p # ps)" using seq as p by simp
    ultimately obtain s' where "unlink_loop task p (t_next pt) ?s = Some s'"
      "task_seq s' p (p # remove1 task ps)" "task_list s' = p"
      using unlink_loop_seq [of ?s p ps task] False p by auto
    then show ?thesis using False up p pt as by (simp add: remove_from_task_list_def Let_def)
  qed
qed

subsection \<open>Choosing the next task\<close>

lemma find_append: "find P (xs @ ys) = (case find P xs of None \<Rightarrow> find P ys | Some x \<Rightarrow> Some x)"
  by (induction xs) auto

lemma find_mem: "find P xs = Some x \<Longrightarrow> x \<in> set xs \<and> P x"
  by (induction xs) (auto split: if_splits)

lemma llist_split:
  "llist nxt h p (bs @ cur # cs) \<Longrightarrow> \<exists>x. deref h cur = Some x \<and> llist nxt h (nxt x) cs"
  using llist_suffix [of nxt h p bs "cur # cs"] by auto

lemma get_next_task_rotation:
  assumes seq: "task_seq s (task_list s) (bs @ cur # cs)"
  shows "get_next_task cur s =
    Some (case find (\<lambda>a. t_state (node_at (tasks s) a) = TASK_RUNNABLE) (cs @ bs) of Some a \<Rightarrow> a | None \<Rightarrow> 0)"
proof -
  let ?R = "\<lambda>a. t_state (node_at (tasks s) a) = TASK_RUNNABLE"
  let ?P = "\<lambda>a. runnable cur a (node_at (tasks s) a)"
  obtain x where x: "deref (tasks s) cur = Some x" "task_seq s (t_next x) cs"
    using llist_split [OF seq] by blast
  have cur: "cur \<noteq> 0" using x(1) by (auto simp: deref_def split: if_splits)
  have dist: "cur \<notin> set bs" "cur \<notin> set cs" using llist_distinct [OF seq] by auto
  have same: "cur \<notin> set ds \<Longrightarrow> find ?P ds = find ?R ds" for ds
    by (induction ds) (auto simp: runnable_def)
  have first: "list_find t_next (tasks s) (runnable cur) (t_next x) =
      Some (case find ?R cs of Some a \<Rightarrow> a | None \<Rightarrow> 0)"
    using list_find_llist [OF x(2), of "runnable cur"] same [OF dist(2)] by simp
  have snd: "list_find t_next (tasks s) (runnable cur) (task_list s) =
      Some (case find ?P (bs @ cur # cs) of Some a \<Rightarrow> a | None \<Rightarrow> 0)"
    by (rule list_find_llist [OF seq])
  have nz: "find ?R ds = Some a \<Longrightarrow> set ds \<subseteq> set (bs @ cur # cs) \<Longrightarrow> a \<noteq> 0" for ds a
    using find_mem [of ?R ds a] llist_nonzero [OF seq, of a] by blast
  show ?thesis
  proof (cases "find ?R cs")
    case None
    have "find ?P (bs @ cur # cs) = find ?R bs"
      using None same [OF dist(1)] same [OF dist(2)]
      by (simp add: find_append runnable_def split: option.splits)
    then show ?thesis using None cur x(1) first snd by (simp add: get_next_task_def find_append)
  next
    case (Some a)
    then have "a \<noteq> 0" using nz [of cs a] by auto
    then show ?thesis using Some cur x(1) first by (simp add: get_next_task_def find_append)
  qed
qed

subsection \<open>What the release of an area leaves alone\<close>

lemma release_area_fields:
  assumes "release_area t v s = Some s'"
  shows "vmas s' = vmas s" and "free_vm_list s' = free_vm_list s" and "tasks s' = tasks s"
proof -
  have clear: "vmas u = vmas s \<and> free_vm_list u = free_vm_list s \<and> tasks u = tasks s"
    if "vmemset n a b s = Some u" for n a b u and s :: "'a proc_state_scheme"
    using vmemset_pmem [OF that] by auto
  have free: "vmas (kfree a sz s) = vmas s \<and> free_vm_list (kfree a sz s) = free_vm_list s \<and>
      tasks (kfree a sz s) = tasks s" for a sz and s :: "'a proc_state_scheme"
  proof -
    obtain bm r where "kfree a sz s = s\<lparr>phy_bitmap := bm, refcount := r\<rparr>" using kfree_update by blast
    then show ?thesis by simp
  qed
  show "vmas s' = vmas s" "free_vm_list s' = free_vm_list s" "tasks s' = tasks s"
    using assms by (auto simp: release_area_def free dest!: clear split: bind_splits if_splits)
qed

subsection \<open>Properties\<close>

text \<open>A state with three tasks in the task list and two memory areas, used by the witnesses.\<close>

definition zero_regs :: regs where
  "zero_regs = \<lparr>r_gs = 0, r_fs = 0, r_es = 0, r_ds = 0, r_r15 = 0, r_r14 = 0, r_r13 = 0, r_r12 = 0,
     r_r11 = 0, r_r10 = 0, r_r9 = 0, r_r8 = 0, r_rsi = 0, r_rbp = 0, r_rdx = 0, r_rcx = 0, r_rbx = 0,
     r_rax = 0, r_rdi = 0, r_int_no = 0, r_err_code = 0, r_rip = 0, r_cs = 0, r_rflag = 0, r_rsp = 0, r_ss = 0\<rparr>"

definition mk_task :: "u32 \<Rightarrow> task_states \<Rightarrow> u64 \<Rightarrow> u64 \<Rightarrow> task_struct" where
  "mk_task pid st nx mm = \<lparr>t_pid = pid, t_ppid = 0, t_name = [], t_state = st, t_next = nx, t_e_entry = 0,
     t_rip = 0, t_rsp = 0, t_pml4e = 0, t_sleep_time = 0, t_kstack = replicate KSTACK_SIZE 0,
     t_r = zero_regs, t_fd = replicate 10 0, t_parent = 0, t_child_count = 0, t_wait_for_child_pid = 0,
     t_mm = mm, t_pipe = 0, t_write_redirection_fd = 0, t_read_redirection_fd = 0\<rparr>"

definition mk_mm :: "u64 \<Rightarrow> mm_struct" where
  "mk_mm l = \<lparr>m_vma_list = l, m_start_brk = 0, m_end_brk = 0, m_start_stack = 0, m_arg_start = 0,
     m_arg_end = 0, m_env_start = 0, m_env_end = 0, m_total_vm_size = 0, m_stack_vm = 0,
     m_brk_start = 0, m_brk_end = 0\<rparr>"

definition mk_vma :: "u64 \<Rightarrow> u64 \<Rightarrow> vma_type \<Rightarrow> u64 \<Rightarrow> vm_area_struct" where
  "mk_vma st en ty nx = \<lparr>v_vm_mm = 0, v_vm_start = st, v_vm_end = en, v_vm_flags = 0, v_vm_file_descp = 0,
     v_vma_type = ty, v_next = nx\<rparr>"

definition ex_proc :: proc_state where
  "ex_proc = mmu_state.extend ex_heap \<lparr>
     tasks = [16 \<mapsto> mk_task 1 TASK_RUNNABLE 32 80, 32 \<mapsto> mk_task 2 TASK_RUNNING 48 80,
              48 \<mapsto> mk_task 3 TASK_SLEEP 0 80, 64 \<mapsto> mk_task 4 TASK_RUNNABLE 0 80],
     vmas = [8 \<mapsto> mk_vma 0 0 VMA_NORMAL 24, 24 \<mapsto> mk_vma 0 0 VMA_HEAP 0],
     mms = [80 \<mapsto> mk_mm 8],
     task_list = 16, free_task_list = 0, free_vm_list = 0, next_pid = 5, current_task = 32,
     idle_task = 0, tss_rsp0 = 0,
     raw_task = (\<lambda>_. mk_task 0 TASK_STOPPED 0 0), raw_vma = (\<lambda>_. mk_vma 0 0 VMA_HEAP 0),
     raw_mm = (\<lambda>_. mk_mm 0)\<rparr>"

lemma ex_proc_seq: "task_seq ex_proc (task_list ex_proc) [16, 32, 48]"
  by (simp add: ex_proc_def mmu_state.defs deref_def mk_task_def)

text \<open>The task list is a queue: \<open>add_to_task_list\<close> puts a task that is not in the list at its
  end, and changes nothing of any task but its link.\<close>

lemma add_to_task_list_enqueues:
  assumes "task_seq s (task_list s) as" and "a \<noteq> 0" and "tasks s a = Some t" and "a \<notin> set as"
  shows "\<exists>s'. add_to_task_list a s = Some s' \<and> task_seq s' (task_list s') (as @ [a]) \<and>
    (\<forall>b. map_option (set_t_next 0) (tasks s' b) = map_option (set_t_next 0) (tasks s b))"
  by (rule add_to_task_list_seq [OF assms])

lemma add_to_task_list_enqueues_witness:
  "\<exists>s'. add_to_task_list 64 ex_proc = Some s' \<and> task_seq s' (task_list s') [16, 32, 48, 64]"
proof -
  have "tasks ex_proc 64 = Some (mk_task 4 TASK_RUNNABLE 0 80)"
    by (simp add: ex_proc_def mmu_state.defs)
  from add_to_task_list_enqueues [OF ex_proc_seq _ this] show ?thesis by auto
qed

text \<open>\<open>remove_from_task_list\<close> takes exactly the given task out of the list.\<close>

lemma remove_from_task_list_removes:
  assumes "task_seq s (task_list s) as" and "task \<in> set as"
  shows "\<exists>s'. remove_from_task_list task s = Some s' \<and> task_seq s' (task_list s') (remove1 task as)"
  by (rule remove_from_task_list_seq [OF assms])

lemma remove_from_task_list_removes_witness:
  "\<exists>s'. remove_from_task_list 32 ex_proc = Some s' \<and> task_seq s' (task_list s') [16, 48]"
  using remove_from_task_list_removes [OF ex_proc_seq, of 32] by simp

text \<open>C37: the choice of the next task is round robin: the first runnable task behind the current one
  in the list, then from the front of the list up to the current one; null exactly when there is
  no other runnable task.\<close>

lemma get_next_task_round_robin:
  assumes "task_seq s (task_list s) (bs @ cur # cs)"
  shows "get_next_task cur s =
    Some (case find (\<lambda>a. t_state (node_at (tasks s) a) = TASK_RUNNABLE) (cs @ bs) of
            Some a \<Rightarrow> a | None \<Rightarrow> 0)"
  by (rule get_next_task_rotation [OF assms])

lemma get_next_task_round_robin_witness: "get_next_task 32 ex_proc = Some 16"
  using get_next_task_round_robin [of ex_proc "[16]" 32 "[48]"] ex_proc_seq
  by (simp add: node_at_def ex_proc_def mmu_state.defs mk_task_def)

text \<open>One call of \<open>update_time_slices\<close> ages every task of the list exactly once: a sleeping task
  with no time left becomes runnable, one with time left loses one unit, all others are unchanged.\<close>

lemma update_time_slices_ages:
  assumes "task_seq s (task_list s) as"
  shows "update_time_slices s =
    Some (s\<lparr>tasks := (\<lambda>a. if a \<in> set as then map_option age_task (tasks s a) else tasks s a)\<rparr>)"
proof -
  have "t_next (age_task x) = t_next x" for x by (simp add: age_task_def)
  from list_each_llist [of t_next _ _ _ age_task, OF assms this] show ?thesis
    by (simp add: update_time_slices_def)
qed

lemma update_time_slices_ages_witness:
  "\<exists>s'. update_time_slices ex_proc = Some s' \<and> map_option t_state (tasks s' 48) = Some TASK_RUNNABLE"
  unfolding update_time_slices_ages [OF ex_proc_seq]
  by (simp add: ex_proc_def mmu_state.defs mk_task_def age_task_def)

text \<open>C38: releasing the memory areas of a task stops after the first one.  Whatever areas follow,
  the loop puts just the first area on the free list, because putting it there clears its link.\<close>

lemma free_areas_only_first:
  assumes "vma_seq s (free_vm_list s) fs" and "vma \<notin> set fs" and "vma \<noteq> 0"
    and "vmas s vma = Some v" and "tasks s task = Some t" and "task \<noteq> 0" and "release_area t v s = Some s1"
  shows "\<exists>s'. free_areas_loop task vma s = Some s' \<and> vma_seq s' (free_vm_list s') (fs @ [vma])"
proof -
  let ?f = "\<lambda>v. v\<lparr>v_vm_mm := 0, v_vm_start := 0, v_vm_end := 0, v_vm_flags := 0, v_vm_file_descp := 0\<rparr>"
  let ?s = "s1\<lparr>vmas := (vmas s1)(vma \<mapsto> ?f v)\<rparr>"
  note fields = release_area_fields [OF assms(7)]
  have up: "upd_vma vma ?f s1 = Some ?s"
    using assms fields by (simp add: upd_vma_def hupd_def deref_def)
  have "vma_seq ?s (free_vm_list ?s) fs"
    using assms fields by (subst llist_cong [of _ v_next _ "vmas s"]) auto
  from add_to_free_vm_list_seq [OF this assms(3) _ assms(2), of "?f v"]
  obtain s' v' where s': "add_to_free_vm_list vma ?s = Some s'" "vma_seq s' (free_vm_list s') (fs @ [vma])"
    "vmas s' vma = Some v'" "v_next v' = 0" by auto
  have stop: "free_areas_loop task 0 s' = Some s'" by (subst free_areas_loop.simps) simp
  show ?thesis
    using assms(3-7) up s' stop by (subst free_areas_loop.simps) (simp add: deref_def)
qed

lemma free_areas_only_first_witness:
  "\<exists>s'. free_areas_loop 64 8 ex_proc = Some s' \<and> vma_seq s' (free_vm_list s') [8]"
proof -
  let ?t = "mk_task 4 TASK_RUNNABLE 0 80" and ?v = "mk_vma 0 0 VMA_NORMAL 24"
  have "release_area ?t ?v ex_proc = Some ex_proc"
    by (simp add: release_area_def mk_task_def mk_vma_def kfree_def pages_of_size_def)
  moreover have "vma_seq ex_proc (free_vm_list ex_proc) []" "vmas ex_proc 8 = Some ?v" "tasks ex_proc 64 = Some ?t"
    by (simp_all add: ex_proc_def mmu_state.defs)
  ultimately show ?thesis
    using free_areas_only_first [of ex_proc "[]" 8 ?v 64 ?t ex_proc] by simp
qed

end
