(* ===== verification/Sched.thy ===== *)
theory Sched
  imports Process
begin

section \<open>Scheduling (\<open>process_manager.c\<close>) and the timer (\<open>timer.c\<close>)\<close>

text \<open>
  Interrupt handlers get the saved registers of the interrupted program by reference; a handler of
  the model takes them and returns the registers with which the program that runs next is resumed.
  \<open>start_process\<close> does not jump: it loads the address space, prepares the saved registers of the
  task and sets the kernel stack pointer; the jump is the return from the interrupt.  Writes to
  I/O ports are appended to a log, and so are the times of day put on the screen.
\<close>

record time =
  time_hh :: u32
  time_mm :: u32
  time_ss :: u32

record time_state = proc_state +
  timer_ticks :: u32
  prev_secs :: u32
  curr_time :: time
  clock_shown :: "time list"
  ports :: "(u16 \<times> u8) list"

definition outportb :: "u16 \<Rightarrow> u8 \<Rightarrow> 'z time_state_scheme \<Rightarrow> 'z time_state_scheme" where
  "outportb p v s = s\<lparr>ports := ports s @ [(p, v)]\<rparr>"

text \<open>The offset of \<open>kstack\<close> in a task structure is 80.\<close>

definition kstack_top :: "u64 \<Rightarrow> u64" where
  "kstack_top task = task + 80 + 8 * (of_nat KSTACK_SIZE - 1)"

definition set_tss_rsp0 :: "u64 \<Rightarrow> 'z proc_state_scheme \<Rightarrow> 'z proc_state_scheme" where
  "set_tss_rsp0 rsp s = s\<lparr>tss_rsp0 := rsp\<rparr>"

definition enter_regs :: "regs \<Rightarrow> regs" where
  "enter_regs r = r\<lparr>r_ss := 0x23, r_cs := 0x1b, r_rflag := 0x200\<rparr>"

definition start_process :: "u64 \<Rightarrow> u64 \<Rightarrow> u64 \<Rightarrow> 'z proc_state_scheme \<Rightarrow> 'z proc_state_scheme option" where
  "start_process task ustack binary_entry s = do {
     t \<leftarrow> deref (tasks s) task;
     let s = write_cr3 (virt_to_phy (t_pml4e t) 0 s) s;
     s \<leftarrow> upd_task task (\<lambda>t. t\<lparr>t_r := enter_regs (t_r t)\<rparr>) s;
     Some (set_tss_rsp0 (kstack_top task) s)
   }"

definition load_process :: "u64 \<Rightarrow> u64 \<Rightarrow> u64 \<Rightarrow> 'z proc_state_scheme \<Rightarrow> 'z proc_state_scheme option" where
  "load_process task binary_entry ustack s = do {
     let s = s\<lparr>current_task := task\<rparr>;
     s \<leftarrow> upd_task task (\<lambda>t. t\<lparr>t_state := TASK_RUNNING\<rparr>) s;
     start_process task ustack binary_entry s
   }"

definition get_current_task :: "'z proc_state_scheme \<Rightarrow> u64" where
  "get_current_task s = current_task s"

definition set_current_task :: "u64 \<Rightarrow> 'z proc_state_scheme \<Rightarrow> 'z proc_state_scheme" where
  "set_current_task task s = s\<lparr>current_task := task\<rparr>"

text \<open>The part both branches of \<open>schedule_process\<close> share: the chosen task becomes the current one.\<close>

definition dispatch :: "u64 \<Rightarrow> 'z proc_state_scheme \<Rightarrow> 'z proc_state_scheme option" where
  "dispatch task s = do {
     let s = s\<lparr>current_task := task\<rparr>;
     s \<leftarrow> upd_task task (\<lambda>t. t\<lparr>t_state := TASK_RUNNING\<rparr>) s;
     t \<leftarrow> deref (tasks s) task;
     m \<leftarrow> deref (mms s) (t_mm t);
     start_process task (m_stack_vm m) (t_e_entry t) s
   }"

definition schedule_process :: "'z proc_state_scheme \<Rightarrow> 'z proc_state_scheme option" where
  "schedule_process s =
     (if current_task s = 0
      then do {
        task \<leftarrow> get_next_task (current_task s) s;
        if task = 0 then Some s else dispatch task s
      }
      else do {
        task \<leftarrow> get_next_task (current_task s) s;
        if task = 0 then Some s
        else do {
          s \<leftarrow> upd_task (current_task s) (\<lambda>t. t\<lparr>t_state := TASK_RUNNABLE\<rparr>) s;
          dispatch task s
        }
      })"

definition init_idle_process :: "u64 \<Rightarrow> 'z proc_state_scheme \<Rightarrow> 'z proc_state_scheme option" where
  "init_idle_process idle_entry s = do {
     (task, s) \<leftarrow> create_new_task (str_bytes ''idle'') s;
     let s = s\<lparr>idle_task := task\<rparr>;
     s \<leftarrow> upd_task task (\<lambda>t. t\<lparr>t_state := TASK_IDLE, t_e_entry := idle_entry\<rparr>) s;
     schedule_process s
   }"

subsection \<open>The timer interrupt\<close>

text \<open>Division of a C \<open>int\<close> rounds towards zero.\<close>

definition cdiv :: "int \<Rightarrow> int \<Rightarrow> int" where
  "cdiv a b = sgn a * sgn b * (\<bar>a\<bar> div \<bar>b\<bar>)"

definition timer_phase :: "u32 \<Rightarrow> 'z time_state_scheme \<Rightarrow> 'z time_state_scheme" where
  "timer_phase hz s =
     (let divisor = (word_of_int (cdiv 1193180 (sint hz)) :: u16)
      in outportb 0x40 (ucast (drop_bit 8 divisor))
           (outportb 0x40 (ucast (divisor AND 0xFF)) (outportb 0x43 0x36 s)))"

text \<open>The carry from seconds to minutes and hours.\<close>

definition advance_clock :: "u32 \<Rightarrow> time \<Rightarrow> time" where
  "advance_clock secs c =
     (let c = c\<lparr>time_ss := secs mod 60\<rparr>
      in if secs mod 60 = 0
         then let c = c\<lparr>time_mm := time_mm c + 1\<rparr>
              in if time_mm c mod 60 = 0
                 then let h = time_hh c + 1
                      in c\<lparr>time_hh := (if h > 24 then 0 else h), time_mm := 0\<rparr>
                 else c
         else c)"

text \<open>
  The second-change block.  In the C code \<open>update_time_slices\<close> runs between the update of the
  seconds and the carry; it touches only tasks, the carry only the clock.
\<close>

definition second_elapsed :: "u32 \<Rightarrow> 'z time_state_scheme \<Rightarrow> 'z time_state_scheme option" where
  "second_elapsed secs s = do {
     s \<leftarrow> update_time_slices s;
     let c = advance_clock secs (curr_time s);
     Some (s\<lparr>curr_time := c, clock_shown := clock_shown s @ [c], prev_secs := secs\<rparr>)
   }"

text \<open>The handler up to the acknowledgement of the interrupt, and the whole handler.\<close>

definition timer_entry :: "regs \<Rightarrow> 'z time_state_scheme \<Rightarrow> 'z time_state_scheme option" where
  "timer_entry r s = do {
     let task = get_current_task s;
     s \<leftarrow> (if task \<noteq> 0 then upd_task task (\<lambda>t. t\<lparr>t_r := r\<rparr>) s else Some s);
     let s = s\<lparr>timer_ticks := timer_ticks s + 1\<rparr>;
     s \<leftarrow> (if sint (timer_ticks s) mod 18 = 0
          then let secs = word_of_int (cdiv (sint (timer_ticks s)) 100)
               in if prev_secs s \<noteq> secs then second_elapsed secs s else Some s
          else Some s);
     Some (outportb 0x20 0x20 s)
   }"

definition timer_handler :: "regs \<Rightarrow> 'z time_state_scheme \<Rightarrow> (regs \<times> 'z time_state_scheme) option" where
  "timer_handler r s = do {
     s \<leftarrow> timer_entry r s;
     s \<leftarrow> schedule_process s;
     let task = get_current_task s;
     if task \<noteq> 0
     then do { t \<leftarrow> deref (tasks s) task; Some (t_r t, s) }
     else Some (r, s)
   }"

subsection \<open>What a dispatch does\<close>

lemma start_process_effect:
  assumes "start_process task u e s = Some s'"
  obtains t where "deref (tasks s) task = Some t"
    "tasks s' = (tasks s)(task \<mapsto> t\<lparr>t_r := enter_regs (t_r t)\<rparr>)"
    "current_task s' = current_task s" "task_list s' = task_list s"
    "cr3 s' = virt_to_phy (t_pml4e t) 0 s" "tss_rsp0 s' = kstack_top task"
  using assms
  by (auto simp: start_process_def upd_task_def hupd_def write_cr3_def set_tss_rsp0_def Let_def split: bind_splits)

lemma dispatch_effect:
  assumes "dispatch task s = Some s'"
  obtains t where "deref (tasks s) task = Some t"
    "tasks s' = (tasks s)(task \<mapsto> t\<lparr>t_state := TASK_RUNNING, t_r := enter_regs (t_r t)\<rparr>)"
    "current_task s' = task" "task_list s' = task_list s" "tss_rsp0 s' = kstack_top task"
proof -
  from assms obtain t and m :: mm_struct where t: "deref (tasks s) task = Some t"
    and st: "start_process task (m_stack_vm m) (t_e_entry t)
      (s\<lparr>current_task := task, tasks := (tasks s)(task \<mapsto> t\<lparr>t_state := TASK_RUNNING\<rparr>)\<rparr>) = Some s'"
    by (auto simp: dispatch_def upd_task_def hupd_def deref_def Let_def split: bind_splits if_splits)
  show thesis
    by (rule start_process_effect [OF st], rule that [OF t]) (use t in \<open>auto simp: deref_def split: if_splits\<close>)
qed

text \<open>Writing a task without touching its link keeps the list.\<close>

lemma llist_upd_same_next:
  "deref h a = Some t \<Longrightarrow> t_next t' = t_next t \<Longrightarrow> llist t_next (h(a \<mapsto> t')) p as = llist t_next h p as"
  by (rule llist_cong) (auto simp: deref_def split: if_splits)

subsection \<open>At most one running task\<close>

definition one_running :: "'z proc_state_scheme \<Rightarrow> bool" where
  "one_running s \<longleftrightarrow> (\<forall>p t. deref (tasks s) p = Some t \<and> t_state t = TASK_RUNNING \<longrightarrow> p = current_task s)"

lemma schedule_process_cases:
  assumes "schedule_process s = Some s'"
  obtains (idle) "get_next_task (current_task s) s = Some 0" "s' = s"
  | (first) task where "current_task s = 0" "get_next_task 0 s = Some task" "task \<noteq> 0" "dispatch task s = Some s'"
  | (switch) task c where "current_task s \<noteq> 0" "get_next_task (current_task s) s = Some task" "task \<noteq> 0"
      "deref (tasks s) (current_task s) = Some c"
      "dispatch task (s\<lparr>tasks := (tasks s)(current_task s \<mapsto> c\<lparr>t_state := TASK_RUNNABLE\<rparr>)\<rparr>) = Some s'"
  using assms
  by (auto simp: schedule_process_def upd_task_def hupd_def deref_def split: bind_splits if_splits)

lemma dispatch_seq:
  assumes "dispatch task s = Some s'"
  shows "llist t_next (tasks s') p as = llist t_next (tasks s) p as" and "task_list s' = task_list s"
proof -
  obtain t where t: "deref (tasks s) task = Some t"
    "tasks s' = (tasks s)(task \<mapsto> t\<lparr>t_state := TASK_RUNNING, t_r := enter_regs (t_r t)\<rparr>)"
    "task_list s' = task_list s"
    using dispatch_effect [OF assms] by metis
  show "llist t_next (tasks s') p as = llist t_next (tasks s) p as"
    unfolding t(2) by (rule llist_upd_same_next [OF t(1)]) simp
  show "task_list s' = task_list s" by (rule t(3))
qed

lemma schedule_process_seq:
  assumes "schedule_process s = Some s'"
  shows "llist t_next (tasks s') p as = llist t_next (tasks s) p as" and "task_list s' = task_list s"
proof -
  have "llist t_next (tasks s') p as = llist t_next (tasks s) p as \<and> task_list s' = task_list s"
    using assms
  proof (cases rule: schedule_process_cases)
    case (first task)
    then show ?thesis using dispatch_seq [OF first(4)] by simp
  next
    case (switch task c)
    have "llist t_next ((tasks s)(current_task s \<mapsto> c\<lparr>t_state := TASK_RUNNABLE\<rparr>)) p as =
        llist t_next (tasks s) p as"
      by (rule llist_upd_same_next [OF switch(4)]) simp
    then show ?thesis using dispatch_seq [OF switch(5)] by (simp del: fun_upd_apply)
  qed simp
  then show "llist t_next (tasks s') p as = llist t_next (tasks s) p as" "task_list s' = task_list s"
    by simp_all
qed

lemma dispatch_one_running:
  assumes "dispatch task s = Some s'" and "\<And>p t. deref (tasks s) p = Some t \<Longrightarrow> t_state t \<noteq> TASK_RUNNING"
  shows "one_running s'"
proof -
  obtain t where t: "tasks s' = (tasks s)(task \<mapsto> t)" "current_task s' = task"
    using dispatch_effect [OF assms(1)] by metis
  have "deref (tasks s') p = Some u \<Longrightarrow> p \<noteq> task \<Longrightarrow> deref (tasks s) p = Some u" for p u
    by (simp add: t deref_def split: if_splits)
  with t(2) assms(2) show ?thesis by (auto simp: one_running_def)
qed

lemma schedule_process_one_running:
  assumes "schedule_process s = Some s'" and ok: "one_running s"
  shows "one_running s'"
  using assms(1)
proof (cases rule: schedule_process_cases)
  case idle
  then show ?thesis using ok by simp
next
  case (first task)
  have "t_state t \<noteq> TASK_RUNNING" if "deref (tasks s) p = Some t" for p t
  proof -
    have "p \<noteq> 0" using that by (auto simp: deref_def)
    then show ?thesis using ok that first(1) by (auto simp: one_running_def)
  qed
  then show ?thesis by (rule dispatch_one_running [OF first(4)])
next
  case (switch task c)
  show ?thesis
    by (rule dispatch_one_running [OF switch(5)])
      (use ok in \<open>auto simp: one_running_def deref_def split: if_splits\<close>)
qed

subsection \<open>What happens before the switch\<close>

lemma age_task_simps [simp]:
  "t_next (age_task t) = t_next t" "t_r (age_task t) = t_r t"
  "t_state (age_task t) = TASK_RUNNING \<longleftrightarrow> t_state t = TASK_RUNNING"
  by (simp_all add: age_task_def)

lemma update_time_slices_seq:
  assumes "task_seq s (task_list s) as"
  shows "update_time_slices s =
    Some (s\<lparr>tasks := (\<lambda>a. if a \<in> set as then map_option age_task (tasks s a) else tasks s a)\<rparr>)"
  using list_each_llist [of t_next _ _ _ age_task, OF assms] by (simp add: update_time_slices_def)

text \<open>The tasks after the first part of the handler: the registers of the current task are saved,
  and every task of the list may have been aged by one unit.\<close>

lemma timer_entry_effect:
  assumes seq: "task_seq s (task_list s) as" and te: "timer_entry r s = Some s'"
  obtains f where "f = age_task \<or> f = (\<lambda>t. t)"
    "tasks s' = (\<lambda>a. (if a \<in> set as then map_option f else (\<lambda>x. x))
       (if a = current_task s \<and> a \<noteq> 0 then map_option (\<lambda>t. t\<lparr>t_r := r\<rparr>) (tasks s a) else tasks s a))"
    "current_task s' = current_task s" "task_list s' = task_list s" "mms s' = mms s"
proof -
  define h where "h = (\<lambda>a. if a = current_task s \<and> a \<noteq> 0 then map_option (\<lambda>t. t\<lparr>t_r := r\<rparr>) (tasks s a) else tasks s a)"
  define u where "u = s\<lparr>tasks := h, timer_ticks := timer_ticks s + 1\<rparr>"
  have "llist t_next h (task_list s) as"
    using seq by (subst llist_cong [of _ t_next _ "tasks s"]) (auto simp: h_def option.map_comp comp_def)
  then have useq: "task_seq u (task_list u) as" by (simp add: u_def)
  have save: "(if current_task s \<noteq> 0 then upd_task (current_task s) (\<lambda>t. t\<lparr>t_r := r\<rparr>) s else Some s) =
      (if current_task s = 0 \<or> tasks s (current_task s) \<noteq> None then Some (s\<lparr>tasks := h\<rparr>) else None)"
    by (auto simp: upd_task_def hupd_def deref_def h_def fun_eq_iff)
  from te have te': "(if sint (timer_ticks u) mod 18 = 0
      then let secs = word_of_int (cdiv (sint (timer_ticks u)) 100)
           in if prev_secs u \<noteq> secs then second_elapsed secs u else Some u
      else Some u) = Some (s'\<lparr>ports := ports s\<rparr>)"
    unfolding timer_entry_def get_current_task_def Let_def save
    by (auto simp: u_def outportb_def Let_def second_elapsed_def update_time_slices_def split: bind_splits if_splits)
  have "s'\<lparr>ports := ports s\<rparr> = u \<or>
      (\<exists>secs. second_elapsed secs u = Some (s'\<lparr>ports := ports s\<rparr>))"
    using te' by (auto simp: Let_def split: if_splits)
  then show thesis
  proof (elim disjE exE)
    assume *: "s'\<lparr>ports := ports s\<rparr> = u"
    from * [THEN arg_cong, of tasks] * [THEN arg_cong, of current_task] * [THEN arg_cong, of task_list]
      * [THEN arg_cong, of mms]
    show thesis by (intro that [of "\<lambda>t. t"]) (simp_all add: u_def h_def option.map_ident fun_eq_iff)
  next
    fix secs assume "second_elapsed secs u = Some (s'\<lparr>ports := ports s\<rparr>)"
    then have *: "s'\<lparr>ports := ports s\<rparr> = u\<lparr>tasks := (\<lambda>a. if a \<in> set as then map_option age_task (tasks u a) else tasks u a),
        curr_time := advance_clock secs (curr_time u),
        clock_shown := clock_shown u @ [advance_clock secs (curr_time u)], prev_secs := secs\<rparr>"
      by (simp add: second_elapsed_def update_time_slices_seq [OF useq] Let_def)
    from * [THEN arg_cong, of tasks] * [THEN arg_cong, of current_task] * [THEN arg_cong, of task_list]
      * [THEN arg_cong, of mms]
    show thesis by (intro that [of age_task]) (simp_all add: u_def h_def fun_eq_iff)
  qed
qed

lemma timer_entry_deref:
  assumes "task_seq s (task_list s) as" and "timer_entry r s = Some s'"
    and "deref (tasks s') p = Some t'"
  obtains t where "deref (tasks s) p = Some t" "t_r t' = (if p = current_task s then r else t_r t)"
    "t_next t' = t_next t" "t_state t' = TASK_RUNNING \<longleftrightarrow> t_state t = TASK_RUNNING"
proof -
  obtain f where f: "f = age_task \<or> f = (\<lambda>t. t)"
    "tasks s' = (\<lambda>a. (if a \<in> set as then map_option f else (\<lambda>x. x))
       (if a = current_task s \<and> a \<noteq> 0 then map_option (\<lambda>t. t\<lparr>t_r := r\<rparr>) (tasks s a) else tasks s a))"
    by (rule timer_entry_effect [OF assms(1,2)])
  show thesis
    using assms(3) that f(1) by (auto simp: f(2) deref_def split: if_splits)
qed

lemma timer_handler_cases:
  assumes "timer_handler r s = Some (r', s')"
  obtains s1 where "timer_entry r s = Some s1" "schedule_process s1 = Some s'"
    "r' = (if current_task s' \<noteq> 0 then t_r (node_at (tasks s') (current_task s')) else r)"
    "current_task s' \<noteq> 0 \<longrightarrow> deref (tasks s') (current_task s') \<noteq> None"
  using assms
  by (auto simp: timer_handler_def get_current_task_def node_at_def deref_def Let_def
      split: bind_splits if_splits)

lemma timer_entry_seq:
  assumes "task_seq s (task_list s) as" and "timer_entry r s = Some s1"
  shows "task_seq s1 (task_list s1) as" and "current_task s1 = current_task s"
proof -
  obtain f where f: "f = age_task \<or> f = (\<lambda>t. t)"
    "tasks s1 = (\<lambda>a. (if a \<in> set as then map_option f else (\<lambda>x. x))
       (if a = current_task s \<and> a \<noteq> 0 then map_option (\<lambda>t. t\<lparr>t_r := r\<rparr>) (tasks s a) else tasks s a))"
    "current_task s1 = current_task s" "task_list s1 = task_list s"
    by (rule timer_entry_effect [OF assms])
  have "map_option t_next (tasks s1 a) = map_option t_next (tasks s a)" for a
    using f(1) by (auto simp: f(2) option.map_comp comp_def)
  then have "llist t_next (tasks s1) (task_list s) as = llist t_next (tasks s) (task_list s) as"
    by (intro llist_cong)
  with assms(1) f(4) show "task_seq s1 (task_list s1) as" by simp
  show "current_task s1 = current_task s" by (rule f(3))
qed

subsection \<open>Properties\<close>

text \<open>C18: at most one task is in the state RUNNING, and it is the current one: a timer interrupt keeps
  this, and keeps the task list.\<close>

lemma timer_keeps_one_running:
  assumes "task_seq s (task_list s) as" and "one_running s" and "timer_handler r s = Some (r', s')"
  shows "one_running s' \<and> task_seq s' (task_list s') as"
proof -
  obtain s1 where s1: "timer_entry r s = Some s1" "schedule_process s1 = Some s'"
    by (rule timer_handler_cases [OF assms(3)])
  note seq = timer_entry_seq [OF assms(1) s1(1)]
  have "one_running s1"
    unfolding one_running_def
  proof (intro allI impI)
    fix p t assume "deref (tasks s1) p = Some t \<and> t_state t = TASK_RUNNING"
    then show "p = current_task s1"
      using timer_entry_deref [OF assms(1) s1(1)] assms(2) seq(2) unfolding one_running_def by metis
  qed
  then show ?thesis
    using schedule_process_one_running [OF s1(2)] schedule_process_seq [OF s1(2)] seq(1) by simp
qed

definition ex_time :: time_state where
  "ex_time = proc_state.extend ex_proc \<lparr>timer_ticks = 0, prev_secs = 0,
     curr_time = \<lparr>time_hh = 0, time_mm = 0, time_ss = 0\<rparr>, clock_shown = [], ports = []\<rparr>"

lemma ex_time_seq: "task_seq ex_time (task_list ex_time) ([16] @ 32 # [48])"
  using ex_proc_seq by (simp add: ex_time_def proc_state.defs)

lemma ex_time_running: "one_running ex_time"
  by (auto simp: one_running_def ex_time_def ex_proc_def proc_state.defs mmu_state.defs deref_def mk_task_def
      split: if_splits)

lemma ex_time_tick: "map_option fst (timer_handler (zero_regs\<lparr>r_rax := 7\<rparr>) ex_time) = Some (enter_regs zero_regs)"
  by code_simp

lemma timer_keeps_one_running_witness:
  "\<exists>r' s'. timer_handler (zero_regs\<lparr>r_rax := 7\<rparr>) ex_time = Some (r', s') \<and> one_running s'"
proof -
  obtain r' s' where "timer_handler (zero_regs\<lparr>r_rax := 7\<rparr>) ex_time = Some (r', s')"
    using ex_time_tick by auto
  with timer_keeps_one_running [OF ex_time_seq ex_time_running this] show ?thesis by blast
qed

text \<open>C16: the timer interrupt as a context switch.  Either the interrupted task goes on with the
  registers it had, or another task of the list becomes the current one: then the registers of the
  interrupted task are saved, no other task's saved registers change, and the program resumes with
  the saved registers of the new task, in which the stack segment, the code segment and the
  \<^emph>\<open>flags\<close> have been overwritten.\<close>

lemma timer_context_switch:
  assumes "task_seq s (task_list s) (bs @ cur # cs)" and "current_task s = cur"
    and "timer_handler r s = Some (r', s')"
  shows "(current_task s' = cur \<and> r' = r) \<or>
    (\<exists>a \<in> set bs \<union> set cs. current_task s' = a \<and>
       r' = (t_r (node_at (tasks s) a))\<lparr>r_ss := 0x23, r_cs := 0x1b, r_rflag := 0x200\<rparr> \<and>
       t_r (node_at (tasks s') cur) = r \<and>
       (\<forall>b \<in> set bs \<union> set cs. b \<noteq> a \<longrightarrow> t_r (node_at (tasks s') b) = t_r (node_at (tasks s) b)))"
proof -
  obtain s1 where s1: "timer_entry r s = Some s1" "schedule_process s1 = Some s'"
    and r': "r' = (if current_task s' \<noteq> 0 then t_r (node_at (tasks s') (current_task s')) else r)"
    by (rule timer_handler_cases [OF assms(3)])
  note seq = timer_entry_seq [OF assms(1) s1(1)]
  have cur: "current_task s1 = cur" "cur \<noteq> 0"
    using seq(2) assms(2) llist_nonzero [OF assms(1), of cur] by auto
  have dist: "cur \<notin> set bs" "cur \<notin> set cs" using llist_distinct [OF assms(1)] by auto
  have mem: "\<exists>t'. deref (tasks s1) b = Some t' \<and> t_r t' = (if b = cur then r else t_r (node_at (tasks s) b))"
    if b: "b \<in> set (bs @ cur # cs)" for b
  proof -
    obtain t' where t': "deref (tasks s1) b = Some t'"
      using llist_nonzero [OF seq(1) b] by (auto simp: deref_def)
    then show ?thesis
      using timer_entry_deref [OF assms(1) s1(1) t'] assms(2)
      by (metis (no_types, lifting) deref_def node_at_def option.distinct(1) option.sel)
  qed
  show ?thesis
    using s1(2)
  proof (cases rule: schedule_process_cases)
    case idle
    then show ?thesis using mem [of cur] r' cur by (auto simp: node_at_def deref_def split: if_splits)
  next
    case (first task)
    then show ?thesis using cur by simp
  next
    case (switch a c)
    have "get_next_task cur s1 = Some (case find (\<lambda>a. t_state (node_at (tasks s1) a) = TASK_RUNNABLE) (cs @ bs)
        of Some a \<Rightarrow> a | None \<Rightarrow> 0)"
      by (rule get_next_task_rotation [OF seq(1)])
    then have a: "a \<in> set bs \<union> set cs"
      using switch(2,3) cur find_mem by (fastforce split: option.splits)
    obtain t where t: "deref ((tasks s1)(cur \<mapsto> c\<lparr>t_state := TASK_RUNNABLE\<rparr>)) a = Some t"
      "tasks s' = (tasks s1)(cur \<mapsto> c\<lparr>t_state := TASK_RUNNABLE\<rparr>, a \<mapsto> t\<lparr>t_state := TASK_RUNNING, t_r := enter_regs (t_r t)\<rparr>)"
      "current_task s' = a"
      using dispatch_effect [OF switch(5)] cur by auto
    have ne: "a \<noteq> cur" using a dist by auto
    have "t_r c = r" using mem [of cur] switch(4) cur by auto
    moreover have "t_r t = t_r (node_at (tasks s) a)" using mem [of a] a t(1) ne by (auto simp: deref_def split: if_splits)
    moreover have "t_r (node_at (tasks s') b) = t_r (node_at (tasks s) b)" if "b \<in> set bs \<union> set cs" "b \<noteq> a" for b
      using mem [of b] that dist t(2) by (auto simp: node_at_def deref_def split: if_splits)
    ultimately show ?thesis
      using a ne t switch(3) r' by (intro disjI2 bexI [of _ a]) (auto simp: node_at_def enter_regs_def)
  qed
qed

lemma timer_context_switch_witness:
  "\<exists>r' s'. timer_handler (zero_regs\<lparr>r_rax := 7\<rparr>) ex_time = Some (r', s') \<and> current_task s' = 16 \<and>
     r_rax (t_r (node_at (tasks s') 32)) = 7"
proof -
  have "map_option (\<lambda>(r, s). current_task s) (timer_handler (zero_regs\<lparr>r_rax := 7\<rparr>) ex_time) = Some 16"
    by code_simp
  then obtain r' s' where t: "timer_handler (zero_regs\<lparr>r_rax := 7\<rparr>) ex_time = Some (r', s')" "current_task s' = 16"
    by auto
  have "current_task ex_time = 32" by (simp add: ex_time_def ex_proc_def proc_state.defs mmu_state.defs)
  from timer_context_switch [OF ex_time_seq this t(1)] t show ?thesis by auto
qed

text \<open>The hour counter runs from 0 to 24: an hour after 23:59:59 the clock shows 24, and only an
  hour later 0.\<close>

lemma clock_shows_hour_24:
  "advance_clock 3600 \<lparr>time_hh = 23, time_mm = 59, time_ss = 59\<rparr> = \<lparr>time_hh = 24, time_mm = 0, time_ss = 0\<rparr> \<and>
   advance_clock 7200 \<lparr>time_hh = 24, time_mm = 59, time_ss = 59\<rparr> = \<lparr>time_hh = 0, time_mm = 0, time_ss = 0\<rparr>"
  by code_simp

end
