(* ===== verification/Tarfs.thy ===== *)
theory Tarfs
  imports CString Sched
begin

section \<open>The tar file system (\<open>w2/sys/fs/tarfs.c\<close>)\<close>

text \<open>
  The archive is part of the kernel image: \<open>kmem\<close> is the byte memory of the image and
  \<open>tarfs_start\<close> the address of the archive in it.  Open files are a linked list of \<open>struct file\<close>
  objects; names are fields of these objects and are lists of bytes.  Reading and writing a file
  copies between the image and a caller's buffer; the model returns or takes the bytes of the
  buffer.
\<close>

record fs_file =
  fl_name :: bytes
  fl_fd :: u64
  fl_addr :: u64
  fl_type :: u64
  fl_size :: u64
  fl_offset :: u64
  fl_next :: u64

abbreviation set_fl_next :: "u64 \<Rightarrow> fs_file \<Rightarrow> fs_file" where
  "set_fl_next n f \<equiv> f\<lparr>fl_next := n\<rparr>"

interpretation file_node: list_node fl_next set_fl_next
  by unfold_locales simp_all

record fs_state = time_state +
  files :: "fs_file heap"
  filelist :: u64
  fd_count :: u32
  kmem :: cmem
  tarfs_start :: u64
  cwd :: bytes
  fname :: bytes
  raw_file :: "u64 \<Rightarrow> fs_file"
  raw_strlen :: "u64 \<Rightarrow> u64"

definition TYPE_FILE :: u64 where "TYPE_FILE = 0"
definition TYPE_DIRECTORY :: u64 where "TYPE_DIRECTORY = 5"
definition SIZEOF_FILE :: u64 where "SIZEOF_FILE = 1072"

definition slash :: u8 where "slash = 0x2F"

definition upd_file :: "u64 \<Rightarrow> (fs_file \<Rightarrow> fs_file) \<Rightarrow> 'z fs_state_scheme \<Rightarrow> 'z fs_state_scheme option" where
  "upd_file p f s = do { h \<leftarrow> hupd p f (files s); Some (s\<lparr>files := h\<rparr>) }"

subsection \<open>Headers of the archive\<close>

text \<open>Offsets of \<open>struct posix_header_ustar\<close>: the name is at 0, the size at 124, the type flag at 156.\<close>

definition header_name :: "cmem \<Rightarrow> u64 \<Rightarrow> bytes option" where
  "header_name m p = read_cstr m p"

definition header_size :: "cmem \<Rightarrow> u64 \<Rightarrow> u64 option" where
  "header_size m p = map_option octal_to_decimal (atoi (p + 124) m)"

definition header_type :: "cmem \<Rightarrow> u64 \<Rightarrow> u64 option" where
  "header_type m p = map_option word_of_int (atoi (p + 156) m)"

definition align512 :: "u64 \<Rightarrow> u64" where
  "align512 sz =
     (if sz \<noteq> 0 then (if sz mod 512 = 0 then sz else sz + (512 - sz mod 512)) else 0)"

text \<open>\<open>change_name\<close> drops everything up to the first slash; without one it runs past the string.\<close>

definition change_name :: "bytes \<Rightarrow> 'z fs_state_scheme \<Rightarrow> 'z fs_state_scheme option" where
  "change_name nm s =
     (case dropWhile (\<lambda>c. c \<noteq> slash) nm of
        [] \<Rightarrow> None
      | _ # rest \<Rightarrow> Some (s\<lparr>fname := rest\<rparr>))"

partial_function (option) find_offset_loop :: "cmem \<Rightarrow> bytes \<Rightarrow> u64 \<Rightarrow> u64 \<Rightarrow> u64 option" where
  "find_offset_loop m fn start offset = do {
     nm \<leftarrow> header_name m (start + offset);
     if nm = [] then Some 0
     else do {
       sz \<leftarrow> header_size m (start + offset);
       if nm = fn then Some (offset + 512)
       else find_offset_loop m fn start (offset + 512 + align512 sz)
     }
   }"

declare find_offset_loop.simps [code]

definition find_offset_for_file :: "bytes \<Rightarrow> 'z fs_state_scheme \<Rightarrow> (u64 \<times> 'z fs_state_scheme) option" where
  "find_offset_for_file nm s = do {
     s \<leftarrow> change_name nm s;
     off \<leftarrow> find_offset_loop (kmem s) (fname s) (tarfs_start s) 0;
     Some (off, s)
   }"

subsection \<open>Building the file list\<close>

definition add_to_filelist :: "u64 \<Rightarrow> 'z fs_state_scheme \<Rightarrow> 'z fs_state_scheme option" where
  "add_to_filelist f s = do {
     (h, l) \<leftarrow> append_node fl_next set_fl_next (files s) (filelist s) f;
     Some (s\<lparr>files := h, filelist := l\<rparr>)
   }"

definition new_file :: "'z fs_state_scheme \<Rightarrow> (u64 \<times> 'z fs_state_scheme) option" where
  "new_file s = do {
     (f, s) \<leftarrow> kmalloc SIZEOF_FILE s;
     Some (f, s\<lparr>files := (files s)(f \<mapsto> raw_file s f)\<rparr>)
   }"

text \<open>The scratch buffer \<open>buf\<close> holds the path \<open>rootfs/name\<close> while an entry is added, and is cleared
  at the end of each round; its first byte is then 0, so the final \<open>kfree\<close> gets the size 0.\<close>

partial_function (option) tarfs_loop :: "u64 \<Rightarrow> 'z fs_state_scheme \<Rightarrow> 'z fs_state_scheme option" where
  "tarfs_loop offset s = do {
     let ustart = tarfs_start s + offset;
     nm \<leftarrow> header_name (kmem s) ustart;
     if nm = [] then Some s
     else do {
       (f, s) \<leftarrow> new_file s;
       let path = str_bytes ''rootfs/'' @ nm;
       ty \<leftarrow> header_type (kmem s) ustart;
       sz \<leftarrow> header_size (kmem s) ustart;
       s \<leftarrow> upd_file f (\<lambda>x. x\<lparr>fl_name := path, fl_addr := ustart, fl_fd := scast (fd_count s),
              fl_type := ty, fl_size := sz, fl_offset := 0, fl_next := 0\<rparr>) s;
       let s = s\<lparr>fd_count := fd_count s + 1\<rparr>;
       s \<leftarrow> add_to_filelist f s;
       tarfs_loop (offset + 512 + align512 sz) s
     }
   }"

declare tarfs_loop.simps [code]

definition initialize_tarfs :: "'z fs_state_scheme \<Rightarrow> 'z fs_state_scheme option" where
  "initialize_tarfs s = do {
     let s = s\<lparr>cwd := str_bytes ''rootfs/''\<rparr>;
     (f, s) \<leftarrow> new_file s;
     s \<leftarrow> upd_file f (\<lambda>x. x\<lparr>fl_fd := scast (fd_count s), fl_type := TYPE_DIRECTORY\<rparr>) s;
     let s = s\<lparr>fd_count := fd_count s + 1\<rparr>;
     s \<leftarrow> upd_file f (\<lambda>x. x\<lparr>fl_name := str_bytes ''rootfs/''\<rparr>) s;
     s \<leftarrow> add_to_filelist f s;
     (buf, s) \<leftarrow> kmalloc 1024 s;
     nm \<leftarrow> header_name (kmem s) (tarfs_start s);
     s \<leftarrow> tarfs_loop 0 s;
     Some (kfree buf (if nm = [] then raw_strlen s buf else 0) s)
   }"

subsection \<open>Operations on open files\<close>

text \<open>
  Every operation looks for its file with \<open>while (t->next != NULL)\<close>: the node without a successor
  is not examined, and an empty list is a null dereference.
\<close>

partial_function (option) scan_files :: "fs_file heap \<Rightarrow> (fs_file \<Rightarrow> bool) \<Rightarrow> u64 \<Rightarrow> u64 option" where
  "scan_files h P t = do {
     x \<leftarrow> deref h t;
     if fl_next x = 0 then Some 0
     else if P x then Some t
     else scan_files h P (fl_next x)
   }"

declare scan_files.simps [code]

definition fopen :: "bytes \<Rightarrow> 'z fs_state_scheme \<Rightarrow> u32 option" where
  "fopen nm s = do {
     t \<leftarrow> scan_files (files s) (\<lambda>x. fl_name x = nm) (filelist s);
     if t = 0 then Some (- 1) else do { x \<leftarrow> deref (files s) t; Some (ucast (fl_fd x)) }
   }"

definition kmem_bytes :: "cmem \<Rightarrow> u64 \<Rightarrow> nat \<Rightarrow> bytes" where
  "kmem_bytes m p n = map (\<lambda>i. m (p + of_nat i)) [0..<n]"

text \<open>The number of bytes \<open>fread\<close> copies: \<open>size\<close> is an \<open>int\<close>, the subtraction is unsigned.\<close>

definition fread_count :: "u64 \<Rightarrow> u64 \<Rightarrow> u64 \<Rightarrow> u64" where
  "fread_count sz offset nbytes =
     (let size32 = (ucast sz :: u32)
      in if scast size32 - offset < nbytes then scast size32 - offset else nbytes)"

definition fread :: "u64 \<Rightarrow> u64 \<Rightarrow> 'z fs_state_scheme \<Rightarrow> (u32 \<times> bytes \<times> 'z fs_state_scheme) option" where
  "fread fd nbytes s = do {
     t \<leftarrow> scan_files (files s) (\<lambda>x. fl_fd x = fd) (filelist s);
     if t = 0 then Some (- 1, [], s)
     else do {
       x \<leftarrow> deref (files s) t;
       (off, s) \<leftarrow> find_offset_for_file (fl_name x) s;
       let start = tarfs_start s + off;
       let nbytes = fread_count (fl_size x) (fl_offset x) nbytes;
       let bs = kmem_bytes (kmem s) (start + fl_offset x) (unat nbytes);
       s \<leftarrow> upd_file t (\<lambda>x. x\<lparr>fl_offset := fl_offset x + nbytes\<rparr>) s;
       Some (ucast nbytes, bs, s)
     }
   }"

fun store_bytes :: "bytes \<Rightarrow> u64 \<Rightarrow> cmem \<Rightarrow> cmem" where
  "store_bytes [] p m = m"
| "store_bytes (b # bs) p m = store_bytes bs (p + 1) (m(p := b))"

definition fwrite :: "u64 \<Rightarrow> bytes \<Rightarrow> 'z fs_state_scheme \<Rightarrow> (u64 \<times> 'z fs_state_scheme) option" where
  "fwrite fd buf s = do {
     t \<leftarrow> scan_files (files s) (\<lambda>x. fl_fd x = fd) (filelist s);
     if t = 0 then Some (- 1, s)
     else do {
       x \<leftarrow> deref (files s) t;
       let addr = fl_addr x + fl_offset x;
       let s = s\<lparr>kmem := store_bytes buf addr (kmem s)\<rparr>;
       s \<leftarrow> upd_file t (\<lambda>x. x\<lparr>fl_offset := fl_offset x + of_nat (length buf)\<rparr>) s;
       Some (0, s)
     }
   }"

definition fclose :: "u64 \<Rightarrow> 'z fs_state_scheme \<Rightarrow> 'z fs_state_scheme option" where
  "fclose fd s = do {
     t \<leftarrow> scan_files (files s) (\<lambda>x. fl_fd x = fd) (filelist s);
     if t = 0 then Some s else upd_file t (\<lambda>x. x\<lparr>fl_offset := 0\<rparr>) s
   }"

definition fseek :: "u64 \<Rightarrow> u64 \<Rightarrow> u64 \<Rightarrow> 'z fs_state_scheme \<Rightarrow> (u64 \<times> 'z fs_state_scheme) option" where
  "fseek fd offset whence s = do {
     t \<leftarrow> scan_files (files s) (\<lambda>x. fl_fd x = fd) (filelist s);
     if t = 0 then Some (- 1, s)
     else do {
       x \<leftarrow> deref (files s) t;
       let new = (if whence = 0 then offset
                  else if whence = 1 then fl_offset x + offset
                  else if whence = 2 then fl_size x + offset
                  else - 1);
       s \<leftarrow> upd_file t (\<lambda>x. x\<lparr>fl_offset := new\<rparr>) s;
       Some (new, s)
     }
   }"

subsection \<open>Directories\<close>

definition dopen :: "u64 \<Rightarrow> 'z fs_state_scheme \<Rightarrow> u64 option" where
  "dopen fd s = do {
     t \<leftarrow> scan_files (files s) (\<lambda>x. fl_fd x = fd \<and> fl_type x = TYPE_DIRECTORY) (filelist s);
     if t = 0 then Some 0
     else do {
       x \<leftarrow> deref (files s) t;
       nx \<leftarrow> deref (files s) (fl_next x);
       Some (if strn_eq (length (fl_name x)) (fl_name nx) (fl_name x) then fl_next x else 0)
     }
   }"

text \<open>The index of the last slash before the last character of a path.\<close>

definition parent_end :: "bytes \<Rightarrow> nat option" where
  "parent_end nm = find (\<lambda>i. nm ! i = slash) (rev [0..<length nm - 1])"

partial_function (option) dread_loop :: "fs_file heap \<Rightarrow> bytes \<Rightarrow> bytes \<Rightarrow> u64 \<Rightarrow> u64 option" where
  "dread_loop h dir nm t = do {
     x \<leftarrow> deref h t;
     if fl_next x = 0 then Some 0
     else do {
       nx \<leftarrow> deref h (fl_next x);
       if strn_eq (length dir) (fl_name nx) dir
       then if \<not> strn_eq (length nm) (fl_name nx) nm then Some (fl_next x)
            else dread_loop h dir nm (fl_next x)
       else Some 0
     }
   }"

declare dread_loop.simps [code]

definition dread :: "u64 \<Rightarrow> 'z fs_state_scheme \<Rightarrow> u64 option" where
  "dread f s = do {
     ff \<leftarrow> deref (files s) f;
     t \<leftarrow> scan_files (files s) (\<lambda>x. fl_fd x = fl_fd ff) (filelist s);
     if t = 0 then Some 0
     else do {
       i \<leftarrow> parent_end (fl_name ff);
       dread_loop (files s) (take (i + 1) (fl_name ff)) (fl_name ff) t
     }
   }"

subsection \<open>Working directory and descriptor counter\<close>

definition set_cwd :: "bytes \<Rightarrow> 'z fs_state_scheme \<Rightarrow> 'z fs_state_scheme" where
  "set_cwd dpath s = s\<lparr>cwd := dpath\<rparr>"

definition get_cwd :: "'z fs_state_scheme \<Rightarrow> bytes" where
  "get_cwd s = cwd s"

definition get_fdcount :: "'z fs_state_scheme \<Rightarrow> u64" where
  "get_fdcount s = scast (fd_count s)"

definition set_fdcount :: "u64 \<Rightarrow> 'z fs_state_scheme \<Rightarrow> 'z fs_state_scheme" where
  "set_fdcount c s = s\<lparr>fd_count := ucast c\<rparr>"

subsection \<open>Archives\<close>

text \<open>\<open>archive m p es\<close>: at \<open>p\<close> is an archive with the entries \<open>es\<close>, each a name and a size.\<close>

fun archive :: "cmem \<Rightarrow> u64 \<Rightarrow> (bytes \<times> u64) list \<Rightarrow> bool" where
  "archive m p [] \<longleftrightarrow> m p = 0"
| "archive m p ((nm, sz) # es) \<longleftrightarrow> nm \<noteq> [] \<and> cstr m p nm \<and> header_size m p = Some sz \<and>
     header_type m p \<noteq> None \<and> archive m (p + (512 + align512 sz)) es"

text \<open>The place of an entry's header, from the sizes of the entries before it.\<close>

definition entry_pos :: "(bytes \<times> u64) list \<Rightarrow> u64" where
  "entry_pos es = sum_list (map (\<lambda>(nm, sz). 512 + align512 sz) es)"

lemma entry_pos_Cons: "entry_pos ((nm, sz) # es) = 512 + align512 sz + entry_pos es"
  by (simp add: entry_pos_def)

lemma header_name_Nil: "m p = 0 \<Longrightarrow> header_name m p = Some []"
  by (simp add: header_name_def read_cstr_cstr)

lemma header_name_cstr: "cstr m p nm \<Longrightarrow> header_name m p = Some nm"
  by (simp add: header_name_def read_cstr_cstr)

lemma header_name_archive: "archive m p es \<Longrightarrow> header_name m p = Some (if es = [] then [] else fst (hd es))"
  by (cases es) (auto intro: header_name_cstr header_name_Nil)

lemma find_offset_loop_found:
  "archive m (start + off) (pre @ (fn, sz) # post) \<Longrightarrow> fn \<notin> fst ` set pre \<Longrightarrow>
   find_offset_loop m fn start off = Some (off + entry_pos pre + 512)"
proof (induction pre arbitrary: off)
  case Nil
  then have "header_name m (start + off) = Some fn" "header_size m (start + off) = Some sz" "fn \<noteq> []"
    by (auto intro: header_name_cstr)
  then show ?case by (subst find_offset_loop.simps) (simp add: entry_pos_def)
next
  case (Cons e pre)
  obtain nm z where e: "e = (nm, z)" by (cases e)
  have "archive m (start + (off + 512 + align512 z)) (pre @ (fn, sz) # post)"
    using Cons.prems(1) e by (simp add: add.assoc)
  note IH = Cons.IH [OF this]
  have "header_name m (start + off) = Some nm" "header_size m (start + off) = Some z" "nm \<noteq> []" "nm \<noteq> fn"
    using Cons.prems e by (auto intro: header_name_cstr)
  with IH Cons.prems e show ?case
    by (subst find_offset_loop.simps) (simp add: entry_pos_Cons algebra_simps)
qed

lemma find_offset_loop_missing:
  "archive m (start + off) es \<Longrightarrow> fn \<notin> fst ` set es \<Longrightarrow> find_offset_loop m fn start off = Some 0"
proof (induction es arbitrary: off)
  case Nil
  then show ?case by (subst find_offset_loop.simps) (simp add: header_name_Nil)
next
  case (Cons e es)
  obtain nm z where e: "e = (nm, z)" by (cases e)
  have "archive m (start + (off + 512 + align512 z)) es"
    using Cons.prems(1) e by (simp add: add.assoc)
  note IH = Cons.IH [OF this]
  have "header_name m (start + off) = Some nm" "header_size m (start + off) = Some z" "nm \<noteq> []" "nm \<noteq> fn"
    using Cons.prems e by (auto intro: header_name_cstr)
  with IH Cons.prems e show ?case by (subst find_offset_loop.simps) simp
qed

subsection \<open>The loop over open files\<close>

abbreviation file_seq :: "'z fs_state_scheme \<Rightarrow> u64 list \<Rightarrow> bool" where
  "file_seq s as \<equiv> llist fl_next (files s) (filelist s) as"

text \<open>All nodes but the last one are examined.\<close>

lemma scan_files_llist:
  "llist fl_next h p as \<Longrightarrow> as \<noteq> [] \<Longrightarrow>
   scan_files h P p = Some (case find (\<lambda>a. P (node_at h a)) (butlast as) of Some a \<Rightarrow> a | None \<Rightarrow> 0)"
proof (induction as arbitrary: p)
  case (Cons a as)
  then obtain x where x: "p = a" "deref h a = Some x" "llist fl_next h (fl_next x) as" by auto
  then have a: "node_at h a = x" by (auto simp: node_at_def deref_def split: if_splits)
  show ?case
  proof (cases as)
    case Nil
    then show ?thesis using x by (subst scan_files.simps) simp
  next
    case (Cons b bs)
    then have "fl_next x \<noteq> 0" using x(3) by (auto simp: deref_def split: if_splits)
    then show ?thesis using x a Cons.IH [OF x(3)] Cons by (subst scan_files.simps) simp
  qed
qed simp

lemma file_seq_deref: "file_seq s as \<Longrightarrow> a \<in> set as \<Longrightarrow> deref (files s) a = Some (node_at (files s) a)"
  using llist_nonzero [of fl_next "files s" "filelist s" as a] by (auto simp: deref_def node_at_def)

lemma find_butlast_nonzero:
  "file_seq s as \<Longrightarrow> find P (butlast as) = Some a \<Longrightarrow> a \<noteq> 0 \<and> a \<in> set as"
  using find_mem [of P "butlast as" a] llist_nonzero [of fl_next "files s" "filelist s" as a]
  by (auto dest: in_set_butlastD)

lemma scan_files_hit:
  assumes "file_seq s as" and "find (\<lambda>a. P (node_at (files s) a)) (butlast as) = Some a"
  shows "scan_files (files s) P (filelist s) = Some a \<and> a \<noteq> 0 \<and> deref (files s) a = Some (node_at (files s) a)"
  using assms find_butlast_nonzero [OF assms] file_seq_deref [OF assms(1), of a]
  by (cases as) (auto simp: scan_files_llist simp del: llist.simps butlast.simps)

subsection \<open>Initialisation\<close>

lemma new_file_returns:
  assumes "can_alloc (4 + n) s"
  shows "\<exists>f s'. new_file s = Some (f, s') \<and> can_alloc n s'"
proof -
  have "unat (pages_of_size SIZEOF_FILE) = 1" by (simp add: pages_of_size_def SIZEOF_FILE_def)
  then have "can_alloc (4 * unat (pages_of_size SIZEOF_FILE) + n) s" using assms by simp
  then obtain f t where t: "kmalloc SIZEOF_FILE s = Some (f, t)" "can_alloc n t"
    unfolding kmalloc_def using alloc_pages_returns by blast
  have "can_alloc n (t\<lparr>files := (files t)(f \<mapsto> raw_file t f)\<rparr>)"
    by (rule can_alloc_cong [OF _ t(2)]) simp
  with t(1) show ?thesis by (simp add: new_file_def)
qed

text \<open>File objects live below the top of the kernel's virtual memory.\<close>

definition files_below :: "'z fs_state_scheme \<Rightarrow> bool" where
  "files_below s \<longleftrightarrow> (\<forall>a. files s a \<noteq> None \<longrightarrow> a < virtual_top s) \<and> virtual_top s \<noteq> 0"

lemma heap_update_fs:
  assumes "heap_update s s'"
  shows "files s' = files s \<and> filelist s' = filelist s \<and> kmem s' = kmem s \<and>
    tarfs_start s' = tarfs_start s \<and> fd_count s' = fd_count s \<and> raw_file s' = raw_file s \<and> cwd s' = cwd s"
  using assms by (auto simp: heap_update_def)

lemma new_file_effect:
  assumes "new_file s = Some (f, s')" and "files_below s" and "unat (virtual_top s) + 4096 < 2 ^ 64"
  shows "f = virtual_top s" and "files s f = None" and "files s' = (files s)(f \<mapsto> raw_file s f)"
    and "filelist s' = filelist s" and "kmem s' = kmem s" and "tarfs_start s' = tarfs_start s"
    and "fd_count s' = fd_count s" and "files_below s'"
    and "unat (virtual_top s') = unat (virtual_top s) + 4096"
proof -
  from assms(1) obtain t where t: "kmalloc SIZEOF_FILE s = Some (f, t)"
    and s': "s' = t\<lparr>files := (files t)(f \<mapsto> raw_file t f)\<rparr>"
    by (auto simp: new_file_def split: bind_splits)
  have one: "unat (pages_of_size SIZEOF_FILE) = 1" by (simp add: pages_of_size_def SIZEOF_FILE_def)
  note u = kmalloc_update [OF t] and fs = heap_update_fs
  have top: "unat (virtual_top s + 4096) = unat (virtual_top s) + 4096"
    using assms(3) by (simp add: unat_word_ariths)
  have f: "f = virtual_top s" "virtual_top t = virtual_top s + 4096" using u one by simp_all
  have same: "files t = files s" "filelist t = filelist s" "kmem t = kmem s" "tarfs_start t = tarfs_start s"
    "fd_count t = fd_count s" "raw_file t = raw_file s"
    using u fs [of s t] by simp_all
  show "f = virtual_top s" by (rule f(1))
  show "files s f = None" using assms(2) f by (auto simp: files_below_def)
  show "files s' = (files s)(f \<mapsto> raw_file s f)" "filelist s' = filelist s" "kmem s' = kmem s"
    "tarfs_start s' = tarfs_start s" "fd_count s' = fd_count s"
    using same by (simp_all add: s')
  have lt: "virtual_top s < virtual_top s + 4096" using top by (simp add: word_less_nat_alt)
  then have "a < virtual_top s + 4096" if "files s a \<noteq> None" for a
  proof -
    have "a < virtual_top s" using assms(2) that unfolding files_below_def by blast
    then show ?thesis using lt by (rule less_trans)
  qed
  moreover have "virtual_top s + 4096 \<noteq> 0" using top by (metis add_is_0 unat_0 zero_neq_numeral)
  ultimately show "files_below s'" using lt f by (auto simp: files_below_def s' same)
  show "unat (virtual_top s') = unat (virtual_top s) + 4096" using f top by (simp add: s')
qed

definition file_view :: "fs_file \<Rightarrow> bytes \<times> u64 \<times> u64 \<times> u64 \<times> u64" where
  "file_view x = (fl_name x, fl_size x, fl_fd x, fl_addr x, fl_offset x)"

text \<open>What the list must say of the entries of an archive at \<open>pos\<close>: path, size, descriptor, address
  of the header and read position of each.\<close>

fun listed :: "u64 \<Rightarrow> u32 \<Rightarrow> (bytes \<times> u64) list \<Rightarrow> (bytes \<times> u64 \<times> u64 \<times> u64 \<times> u64) list" where
  "listed pos fd [] = []"
| "listed pos fd ((nm, sz) # es) =
     (str_bytes ''rootfs/'' @ nm, sz, scast fd, pos, 0) # listed (pos + (512 + align512 sz)) (fd + 1) es"

abbreviation views :: "'z fs_state_scheme \<Rightarrow> u64 list \<Rightarrow> (bytes \<times> u64 \<times> u64 \<times> u64 \<times> u64) list" where
  "views s as \<equiv> map (\<lambda>a. file_view (node_at (files s) a)) as"

lemma add_to_filelist_effect:
  assumes "file_seq s as" and "f \<noteq> 0" "files s f = Some x" "f \<notin> set as"
  obtains s' where "add_to_filelist f s = Some s'" "file_seq s' (as @ [f])"
    "views s' (as @ [f]) = views s (as @ [f])" "kmem s' = kmem s" "tarfs_start s' = tarfs_start s"
    "fd_count s' = fd_count s" "virtual_top s' = virtual_top s" "\<And>a. files s' a = None \<longleftrightarrow> files s a = None"
    "phy_bitmap s' = phy_bitmap s"
proof -
  obtain h' where h': "append_node fl_next set_fl_next (files s) (filelist s) f = Some (h', hd (as @ [f]))"
    "llist fl_next h' (hd (as @ [f])) (as @ [f])"
    "\<And>b. map_option (set_fl_next 0) (h' b) = map_option (set_fl_next 0) (files s b)"
    using file_node.append_llist [OF assms] by metis
  have dom: "h' a = None \<longleftrightarrow> files s a = None" for a
    using h'(3) [of a] by (metis option.map_disc_iff)
  have view: "file_view (node_at h' a) = file_view (node_at (files s) a)" for a
  proof (cases "files s a")
    case None
    then show ?thesis using dom [of a] by (simp add: node_at_def)
  next
    case (Some y)
    then obtain z where "h' a = Some z" "set_fl_next 0 z = set_fl_next 0 y"
      using h'(3) [of a] by auto
    moreover have "file_view x = file_view (set_fl_next 0 x)" for x by (simp add: file_view_def)
    ultimately show ?thesis using Some by (metis node_at_def option.sel)
  qed
  show thesis
    by (rule that [of "s\<lparr>files := h', filelist := hd (as @ [f])\<rparr>"])
      (use h' view dom in \<open>simp_all add: add_to_filelist_def\<close>)
qed

lemma tarfs_loop_lists:
  assumes "archive (kmem s) (tarfs_start s + off) es" and "can_alloc (4 * length es) s" and "file_seq s as"
    and "files_below s" and "unat (virtual_top s) + 4096 * length es < 2 ^ 64"
  shows "\<exists>s' bs. tarfs_loop off s = Some s' \<and> file_seq s' (as @ bs) \<and> views s' as = views s as \<and>
    views s' bs = listed (tarfs_start s + off) (fd_count s) es"
  using assms
proof (induction es arbitrary: off s as)
  case Nil
  then have "header_name (kmem s) (tarfs_start s + off) = Some []" by (simp add: header_name_Nil)
  then have "tarfs_loop off s = Some s" by (subst tarfs_loop.simps) simp
  with Nil.prems(3) show ?case by (intro exI [of _ s] exI [of _ "[]"]) simp
next
  case (Cons e es)
  obtain nm sz where e: "e = (nm, sz)" by (cases e)
  let ?p = "tarfs_start s + off"
  have hd: "header_name (kmem s) ?p = Some nm" "nm \<noteq> []" "header_size (kmem s) ?p = Some sz"
    using Cons.prems(1) e by (auto intro: header_name_cstr)
  obtain ty where ty: "header_type (kmem s) ?p = Some ty" using Cons.prems(1) e by auto
  let ?upd = "\<lambda>fd x. x\<lparr>fl_name := str_bytes ''rootfs/'' @ nm, fl_addr := ?p, fl_fd := fd,
              fl_type := ty, fl_size := sz, fl_offset := 0, fl_next := 0\<rparr>"
  have "can_alloc (4 + 4 * length es) s" using Cons.prems(2) by (simp add: algebra_simps)
  then obtain f t where f: "new_file s = Some (f, t)" and pool: "can_alloc (4 * length es) t"
    using new_file_returns by blast
  have room: "unat (virtual_top s) + 4096 < 2 ^ 64" using Cons.prems(5) by simp
  note new = new_file_effect [OF f Cons.prems(4) room]
  have f0: "f \<noteq> 0" using Cons.prems(4) new(1) by (simp add: files_below_def)
  let ?x = "?upd (scast (fd_count s)) (raw_file s f)"
  let ?u = "t\<lparr>files := (files t)(f \<mapsto> ?x), fd_count := fd_count s + 1\<rparr>"
  have fnot: "f \<notin> set as" using new(2) llist_nonzero [OF Cons.prems(3), of f] by auto
  have seq: "file_seq ?u as"
    using Cons.prems(3) fnot new(3,4) by (subst llist_cong [of _ fl_next _ "files s"]) auto
  obtain v where v: "add_to_filelist f ?u = Some v" "file_seq v (as @ [f])" "views v (as @ [f]) = views ?u (as @ [f])"
    "kmem v = kmem s" "tarfs_start v = tarfs_start s" "fd_count v = fd_count s + 1"
    "virtual_top v = virtual_top t" "\<And>a. files v a = None \<longleftrightarrow> files ?u a = None" "phy_bitmap v = phy_bitmap t"
    by (rule add_to_filelist_effect [OF seq f0 _ fnot, of ?x]) (use new in auto)
  have go: "tarfs_loop off s = tarfs_loop (off + 512 + align512 sz) v"
    using hd ty f new(3,5,6,7) f0 v(1)
    by (subst tarfs_loop.simps) (simp add: Let_def upd_file_def hupd_def deref_def)
  have pool: "can_alloc (4 * length es) v" by (rule can_alloc_cong [OF _ pool]) (simp add: v(9))
  have below: "files_below v"
    using new(8,3) v(7,8) by (auto simp: files_below_def split: if_splits)
  have arch: "archive (kmem v) (tarfs_start v + (off + 512 + align512 sz)) es"
    using Cons.prems(1) e v(4,5) by (simp add: add.assoc)
  have "unat (virtual_top v) + 4096 * length es < 2 ^ 64"
    using Cons.prems(5) new(9) v(7) by simp
  from Cons.IH [OF arch pool v(2) below this] obtain s' bs where
    loop: "tarfs_loop (off + 512 + align512 sz) v = Some s'" and bs:
    "file_seq s' ((as @ [f]) @ bs)" "views s' (as @ [f]) = views v (as @ [f])"
    "views s' bs = listed (tarfs_start v + (off + 512 + align512 sz)) (fd_count v) es" by blast
  have "file_view (node_at (files ?u) a) = file_view (node_at (files s) a)" if "a \<in> set as" for a
    using that fnot new(3) by (auto simp: node_at_def)
  then have "views ?u as = views s as" by simp
  moreover have "file_view (node_at (files ?u) f) = (str_bytes ''rootfs/'' @ nm, sz, scast (fd_count s), ?p, 0)"
    by (simp add: node_at_def file_view_def)
  ultimately show ?case
    using bs v(3,5,6) e go loop by (intro exI [of _ s'] exI [of _ "f # bs"]) (simp add: add.assoc)
qed

lemma kfree_files:
  "files (kfree a sz s) = files s" "filelist (kfree a sz s) = filelist s"
proof -
  obtain bm r where "kfree a sz s = s\<lparr>phy_bitmap := bm, refcount := r\<rparr>" using kfree_update by blast
  then show "files (kfree a sz s) = files s" "filelist (kfree a sz s) = filelist s" by simp_all
qed

lemma store_bytes_other: "a \<notin> set (block p (length bs)) \<Longrightarrow> store_bytes bs p m a = m a"
  by (induction bs arbitrary: p m) auto

lemma store_bytes_first: "length bs < 2 ^ 64 \<Longrightarrow> store_bytes (b # bs) p m p = b"
  by (simp add: store_bytes_other [OF block_head])

lemma store_bytes_nth: "i < length bs \<Longrightarrow> length bs < 2 ^ 64 \<Longrightarrow> store_bytes bs p m (p + of_nat i) = bs ! i"
proof (induction bs arbitrary: i p m)
  case (Cons b bs)
  then show ?case
  proof (cases i)
    case 0
    then show ?thesis using Cons.prems store_bytes_first [of bs b p m] by simp
  next
    case (Suc j)
    then show ?thesis using Cons.IH [of j "p + 1" "m(p := b)"] Cons.prems by (simp add: add.assoc del: fun_upd_apply)
  qed
qed simp

text \<open>Bytes without a NUL stored over a part of a string replace that part.\<close>

lemma cstr_store_bytes:
  assumes c: "cstr m p (xs @ ys @ zs)" and bs: "length bs = length ys" "0 \<notin> set bs" and len: "length (xs @ ys @ zs) < 2 ^ 63"
  shows "cstr (store_bytes bs (p + of_nat (length xs)) m) p (xs @ bs @ zs)"
proof -
  let ?m = "store_bytes bs (p + of_nat (length xs)) m"
  have out: "?m (p + of_nat i) = m (p + of_nat i)"
    if i: "i < length xs \<or> length xs + length ys \<le> i" "i \<le> length (xs @ ys @ zs)" for i
  proof (rule store_bytes_other)
    show "p + of_nat i \<notin> set (block (p + of_nat (length xs)) (length bs))"
    proof
      assume "p + of_nat i \<in> set (block (p + of_nat (length xs)) (length bs))"
      then obtain j where j: "j < length ys" "(of_nat i :: u64) = of_nat (length xs + j)" unfolding in_block using bs(1) by (auto simp: add.assoc)
      have "i = length xs + j" by (rule word_of_nat_u64_inj [OF j(2)]) (use i j(1) len in simp_all)
      then show False using i j(1) by auto
    qed
  qed
  have old: "\<forall>i < length xs. m (p + of_nat i) = xs ! i \<and> xs ! i \<noteq> 0" "cstr m (p + of_nat (length xs + length ys)) zs"
    using c by (simp_all add: cstr_append add.assoc)
  have "cstr ?m (p + of_nat (length xs + length ys)) zs"
  proof (subst cstr_cong [where m' = m])
    fix a assume "a \<in> set (block (p + of_nat (length xs + length ys)) (Suc (length zs)))"
    then obtain j where "j < Suc (length zs)" "a = p + of_nat (length xs + length ys + j)" unfolding in_block by (auto simp: add.assoc)
    then show "?m a = m a" using out [of "length xs + length ys + j"] by simp
  qed (rule old(2))
  moreover have "?m (p + of_nat (length xs) + of_nat i) = bs ! i \<and> bs ! i \<noteq> 0" if "i < length bs" for i
    using store_bytes_nth [OF that, of "p + of_nat (length xs)" m] bs len that by (auto simp: in_set_conv_nth)
  ultimately show ?thesis using old(1) out bs(1) by (simp add: cstr_append add.assoc)
qed

text \<open>The header of an entry is at its place.\<close>

lemma archive_header: "archive m p (pre @ (fn, sz) # post) \<Longrightarrow> cstr m (p + entry_pos pre) fn"
proof (induction pre arbitrary: p)
  case (Cons e pre)
  then show ?case using Cons.IH [of "p + (512 + align512 (snd e))"] by (cases e) (simp add: entry_pos_Cons add.assoc)
qed (simp add: entry_pos_def)

subsection \<open>Properties\<close>

text \<open>The state of the witnesses: an archive at \<open>0x1000\<close> with the file \<open>a\<close> of three bytes and the empty
  file \<open>b\<close>, on the machine of the previous examples.\<close>

definition ex_tar :: cmem where
  "ex_tar = (\<lambda>a. case map_of [(0x1000, 0x61), (0x107C, 0x33), (0x1200, 0x78), (0x1201, 0x79), (0x1202, 0x7A),
     (0x1400, 0x62)] a of Some b \<Rightarrow> b | None \<Rightarrow> 0)"

definition ex_fs :: fs_state where
  "ex_fs = time_state.extend ex_time \<lparr>files = Map.empty, filelist = 0, fd_count = 2, kmem = ex_tar,
     tarfs_start = 0x1000, cwd = [], fname = [],
     raw_file = (\<lambda>_. \<lparr>fl_name = [], fl_fd = 0, fl_addr = 0, fl_type = 0, fl_size = 0, fl_offset = 0, fl_next = 0\<rparr>),
     raw_strlen = (\<lambda>_. 0)\<rparr>"

lemma ex_archive: "archive ex_tar 0x1000 [([0x61], 3), ([0x62], 0)]"
proof -
  have "header_size ex_tar 0x1000 = Some 3" "header_size ex_tar 0x1400 = Some 0"
    "header_type ex_tar 0x1000 = Some 0" "header_type ex_tar 0x1400 = Some 0"
    "512 + align512 3 = 0x400" "512 + align512 0 = 0x200"
    by code_simp+
  moreover have "ex_tar 0x1000 = 0x61" "ex_tar 0x1001 = 0" "ex_tar 0x1400 = 0x62" "ex_tar 0x1401 = 0" "ex_tar 0x1600 = 0"
    by (simp_all add: ex_tar_def)
  ultimately show ?thesis by simp
qed

text \<open>C28: \<open>initialize_tarfs\<close> builds the file list of an archive: first the root directory, then one
  object for each entry in order, with its path, size, a fresh descriptor, the address of its
  \<^emph>\<open>header\<close> and the read position 0.\<close>

lemma initialize_tarfs_lists_archive:
  assumes "archive (kmem s) (tarfs_start s) es" and "can_alloc (4 * (length es + 2)) s" and "filelist s = 0"
    and "files_below s" and "unat (virtual_top s) + 4096 * (length es + 2) < 2 ^ 64"
  shows "\<exists>s' r bs. initialize_tarfs s = Some s' \<and> file_seq s' (r # bs) \<and>
    fl_name (node_at (files s') r) = str_bytes ''rootfs/'' \<and>
    views s' bs = listed (tarfs_start s) (fd_count s + 1) es"
proof -
  let ?s0 = "s\<lparr>cwd := str_bytes ''rootfs/''\<rparr>"
  have "4 * (length es + 2) = 4 + (4 + 4 * length es)" by simp
  with assms(2) have "can_alloc (4 + (4 + 4 * length es)) s" by simp
  then have "can_alloc (4 + (4 + 4 * length es)) ?s0" by (rule can_alloc_cong [rotated]) simp
  then obtain f t where f: "new_file ?s0 = Some (f, t)" and tpool: "can_alloc (4 + 4 * length es) t"
    using new_file_returns by blast
  have "files_below ?s0" "unat (virtual_top ?s0) + 4096 < 2 ^ 64"
    using assms(4,5) by (simp_all add: files_below_def)
  note new = new_file_effect [OF f this]
  have f0: "f \<noteq> 0" using new(1) assms(4) by (simp add: files_below_def)
  let ?x = "(raw_file ?s0 f)\<lparr>fl_fd := scast (fd_count s), fl_type := TYPE_DIRECTORY, fl_name := str_bytes ''rootfs/''\<rparr>"
  let ?u = "t\<lparr>fd_count := fd_count s + 1, files := (files t)(f \<mapsto> ?x)\<rparr>"
  have "file_seq ?u []" using new(4) assms(3) by simp
  then obtain v where v: "add_to_filelist f ?u = Some v" "file_seq v ([] @ [f])" "views v ([] @ [f]) = views ?u ([] @ [f])"
    "kmem v = kmem ?u" "tarfs_start v = tarfs_start ?u" "fd_count v = fd_count ?u" "virtual_top v = virtual_top ?u"
    "\<And>a. files v a = None \<longleftrightarrow> files ?u a = None" "phy_bitmap v = phy_bitmap ?u"
    by (rule add_to_filelist_effect [of _ _ f ?x]) (use f0 in auto)
  have one: "unat (pages_of_size 1024) = 1" by (simp add: pages_of_size_def)
  have "can_alloc (4 + 4 * length es) v" by (rule can_alloc_cong [OF _ tpool]) (simp add: v(9))
  then have "can_alloc (4 * unat (pages_of_size 1024) + 4 * length es) v" by (simp add: one)
  then obtain buf w where w: "kmalloc 1024 v = Some (buf, w)" and wpool: "can_alloc (4 * length es) w"
    unfolding kmalloc_def using alloc_pages_returns by blast
  note up = kmalloc_update [OF w]
  note same = heap_update_fs [OF conjunct1 [OF conjunct2 [OF up]]]
  have top: "unat (virtual_top v) = unat (virtual_top s) + 4096" using v(7) new(9) by simp
  have "unat (virtual_top w) = unat (virtual_top v) + 4096"
    using up one top assms(5) by (simp add: unat_word_ariths)
  then have wtop: "unat (virtual_top w) = unat (virtual_top s) + 8192" using top by simp
  have "a < virtual_top w" if "files w a \<noteq> None" for a
  proof -
    have "files t a \<noteq> None" using that same v(8) [of a] new(3) by (auto split: if_splits)
    then have "a < virtual_top t" using new(8) unfolding files_below_def by blast
    also have "\<dots> \<le> virtual_top w" using wtop new(9) by (simp add: word_le_nat_alt)
    finally show ?thesis .
  qed
  moreover have "virtual_top w \<noteq> 0" using wtop by (metis add_is_0 unat_0 zero_neq_numeral)
  ultimately have below: "files_below w" by (simp add: files_below_def)
  have arch: "archive (kmem w) (tarfs_start w + 0) es" using assms(1) same v(4,5) new(5,6) by simp
  have wseq: "file_seq w [f]" using v(2) same by simp
  have "unat (virtual_top w) + 4096 * length es < 2 ^ 64" using wtop assms(5) by simp
  from tarfs_loop_lists [OF arch wpool wseq below this]
  obtain w' bs where bs: "tarfs_loop 0 w = Some w'" "file_seq w' ([f] @ bs)" "views w' [f] = views w [f]"
    "views w' bs = listed (tarfs_start w + 0) (fd_count w) es"
    by blast
  have "\<exists>nm. header_name (kmem w) (tarfs_start w) = Some nm"
    using header_name_archive [OF arch] by simp
  then obtain nm where nm: "header_name (kmem w) (tarfs_start w) = Some nm" by blast
  have init: "initialize_tarfs s = Some (kfree buf (if nm = [] then raw_strlen w' buf else 0) w')"
    using f new(3,7) f0 v(1) w bs(1) nm
    by (simp add: initialize_tarfs_def upd_file_def hupd_def deref_def Let_def)
  have "views w [f] = views ?u [f]" using v(3) same by simp
  then have "fl_name (node_at (files w') f) = str_bytes ''rootfs/''"
    using bs(3) by (simp add: file_view_def node_at_def)
  moreover have "tarfs_start w = tarfs_start s" "fd_count w = fd_count s + 1" using same v(5,6) new(6) by simp_all
  ultimately have "initialize_tarfs s = Some (kfree buf (if nm = [] then raw_strlen w' buf else 0) w') \<and>
    file_seq (kfree buf (if nm = [] then raw_strlen w' buf else 0) w') (f # bs) \<and>
    fl_name (node_at (files (kfree buf (if nm = [] then raw_strlen w' buf else 0) w')) f) = str_bytes ''rootfs/'' \<and>
    views (kfree buf (if nm = [] then raw_strlen w' buf else 0) w') bs = listed (tarfs_start s) (fd_count s + 1) es"
    using bs(2,4) init by (simp add: kfree_files del: llist.simps)
  then show ?thesis by blast
qed

lemma initialize_tarfs_lists_archive_witness:
  "\<exists>s' r bs. initialize_tarfs ex_fs = Some s' \<and> file_seq s' (r # bs) \<and>
     views s' bs = [(str_bytes ''rootfs/a'', 3, 3, 0x1000, 0), (str_bytes ''rootfs/b'', 0, 4, 0x1400, 0)]"
proof -
  have fields: "kmem ex_fs = ex_tar" "tarfs_start ex_fs = 0x1000" "filelist ex_fs = 0" "fd_count ex_fs = 2"
    "files ex_fs = Map.empty" "virtual_top ex_fs = 0xFFFFFFFF80400000"
    by (simp_all add: ex_fs_def ex_time_def ex_proc_def ex_heap_def time_state.defs proc_state.defs mmu_state.defs)
  then have "files_below ex_fs" by (simp add: files_below_def)
  moreover have "can_alloc (4 * (length [([0x61 :: u8], 3 :: u64), ([0x62], 0)] + 2)) ex_fs"
    unfolding can_alloc_def by code_simp
  moreover have "archive (kmem ex_fs) (tarfs_start ex_fs) [([0x61], 3), ([0x62], 0)]"
    using ex_archive by (simp only: fields)
  moreover have "unat (virtual_top ex_fs) + 4096 * (length [([0x61 :: u8], 3 :: u64), ([0x62], 0)] + 2) < 2 ^ 64"
    by (simp add: fields)
  ultimately have "\<exists>s' r bs. initialize_tarfs ex_fs = Some s' \<and> file_seq s' (r # bs) \<and>
    fl_name (node_at (files s') r) = str_bytes ''rootfs/'' \<and>
    views s' bs = listed (tarfs_start ex_fs) (fd_count ex_fs + 1) [([0x61], 3), ([0x62], 0)]"
    using fields(3) by (intro initialize_tarfs_lists_archive)
  then obtain s' r bs where "initialize_tarfs ex_fs = Some s'" "file_seq s' (r # bs)"
    "views s' bs = listed (tarfs_start ex_fs) (fd_count ex_fs + 1) [([0x61], 3), ([0x62], 0)]"
    by blast
  moreover have "listed (tarfs_start ex_fs) (fd_count ex_fs + 1) [([0x61], 3), ([0x62], 0)] =
      [(str_bytes ''rootfs/a'', 3, 3, 0x1000, 0), (str_bytes ''rootfs/b'', 0, 4, 0x1400, 0)]"
    unfolding fields by code_simp
  ultimately have "initialize_tarfs ex_fs = Some s' \<and> file_seq s' (r # bs) \<and>
    views s' bs = [(str_bytes ''rootfs/a'', 3, 3, 0x1000, 0), (str_bytes ''rootfs/b'', 0, 4, 0x1400, 0)]"
    by (simp only: simp_thms)
  then show ?thesis by (intro exI)
qed

text \<open>\<open>find_offset_for_file\<close> returns the place of the contents of the first entry with the name
  behind the path's first slash: the space of the entries before it and its own header.\<close>

lemma find_offset_finds_entry:
  assumes "archive (kmem s) (tarfs_start s) (pre @ (fn, sz) # post)" and "fn \<notin> fst ` set pre"
    and "slash \<notin> set dir"
  shows "find_offset_for_file (dir @ slash # fn) s = Some (entry_pos pre + 512, s\<lparr>fname := fn\<rparr>)"
proof -
  have "dropWhile (\<lambda>c. c \<noteq> slash) (dir @ slash # fn) = slash # fn"
    using assms(3) by (induction dir) auto
  moreover have "find_offset_loop (kmem s) fn (tarfs_start s) 0 = Some (0 + entry_pos pre + 512)"
    by (rule find_offset_loop_found) (use assms in simp_all)
  ultimately show ?thesis by (simp add: find_offset_for_file_def change_name_def)
qed

lemma find_offset_finds_entry_witness:
  "find_offset_for_file (str_bytes ''rootfs/b'') ex_fs = Some (0x600, ex_fs\<lparr>fname := [0x62]\<rparr>)"
proof -
  have "archive (kmem ex_fs) (tarfs_start ex_fs) ([([0x61], 3)] @ ([0x62], 0) # [])"
    using ex_archive by (simp add: ex_fs_def time_state.defs)
  moreover have "slash \<notin> set (str_bytes ''rootfs'')" by code_simp
  ultimately have "find_offset_for_file (str_bytes ''rootfs'' @ slash # [0x62]) ex_fs =
      Some (entry_pos [([0x61], 3)] + 512, ex_fs\<lparr>fname := [0x62]\<rparr>)"
    using find_offset_finds_entry [of ex_fs "[([0x61], 3)]" "[0x62]" 0 "[]"] by simp
  moreover have "str_bytes ''rootfs'' @ slash # [0x62] = str_bytes ''rootfs/b''"
    "entry_pos [([0x61], 3)] + 512 = 0x600"
    by code_simp+
  ultimately show ?thesis by simp
qed

text \<open>\<open>fopen\<close> returns the descriptor of the first file with the path among all files but the
  last of the list; the last file cannot be opened.\<close>

lemma fopen_skips_last:
  assumes "file_seq s as" and "as \<noteq> []"
  shows "fopen nm s = Some (case find (\<lambda>a. fl_name (node_at (files s) a) = nm) (butlast as) of
     Some a \<Rightarrow> ucast (fl_fd (node_at (files s) a)) | None \<Rightarrow> - 1)"
proof (cases "find (\<lambda>a. fl_name (node_at (files s) a) = nm) (butlast as)")
  case None
  then show ?thesis by (simp add: fopen_def scan_files_llist [OF assms])
next
  case (Some a)
  then show ?thesis
    using find_butlast_nonzero [OF assms(1) Some] file_seq_deref [OF assms(1), of a]
    by (simp add: fopen_def scan_files_llist [OF assms])
qed

definition ex_files :: fs_state where
  "ex_files = ex_fs\<lparr>filelist := 16, files :=
     [16 \<mapsto> \<lparr>fl_name = str_bytes ''rootfs/a'', fl_fd = 3, fl_addr = 0x1000, fl_type = 0, fl_size = 3, fl_offset = 1, fl_next = 32\<rparr>,
      32 \<mapsto> \<lparr>fl_name = str_bytes ''rootfs/b'', fl_fd = 4, fl_addr = 0x1400, fl_type = 0, fl_size = 0, fl_offset = 0, fl_next = 0\<rparr>]\<rparr>"

lemma ex_files_seq: "file_seq ex_files [16, 32]"
  by (simp add: ex_files_def deref_def)

lemma fopen_skips_last_witness:
  "fopen (str_bytes ''rootfs/b'') ex_files = Some (- 1)"
proof -
  have "fl_name (node_at (files ex_files) 16) \<noteq> str_bytes ''rootfs/b''"
    by (simp add: ex_files_def node_at_def str_bytes_def)
  then show ?thesis by (simp add: fopen_skips_last [OF ex_files_seq])
qed

text \<open>A value below \<open>2^31\<close> survives the conversion to \<open>int\<close> and back.\<close>

lemma int_of_u64_small:
  fixes v :: u64
  assumes "v < 2 ^ 31"
  shows "scast (ucast v :: u32) = v"
proof -
  have "unat v < 2 ^ 31" using assms by (simp add: word_less_nat_alt)
  then have "take_bit 31 v = v"
    by (simp add: word_unat_eq_iff unsigned_take_bit_eq take_bit_nat_eq_self)
  then have "\<not> bit v i" if "31 \<le> i" for i
    using that by (metis bit_take_bit_iff linorder_not_less)
  moreover have "bit (scast (ucast v :: u32) :: u64) i \<longleftrightarrow> (if i < 31 then bit v i else i < 64 \<and> bit v 31)" for i
    by (auto simp: bit_simps min_def)
  ultimately show ?thesis by (intro bit_word_eqI) (simp add: not_less)
qed

lemma unat_sub_wrap:
  fixes a b :: u64
  assumes "unat a < unat b"
  shows "unat (a - b) = 2 ^ 64 - (unat b - unat a)"
  using assms unat_u64 [of b] by (simp add: unat_sub_if')

text \<open>A read within the file: the bytes, and the state with the moved position.\<close>

lemma fread_within:
  fixes s :: "'z fs_state_scheme" and n :: u64
  assumes seq: "file_seq s as" and a: "find (\<lambda>a. fl_fd (node_at (files s) a) = fd) (butlast as) = Some a"
    and x: "node_at (files s) a = x" and nm: "fl_name x = dir @ slash # fn" "slash \<notin> set dir"
    and ar: "archive (kmem s) (tarfs_start s) (pre @ (fn, fl_size x) # post)" "fn \<notin> fst ` set pre"
    and sz: "fl_size x < 2 ^ 31" "fl_offset x \<le> fl_size x"
  defines "k \<equiv> min n (fl_size x - fl_offset x)"
  shows "fread fd n s = Some (ucast k, kmem_bytes (kmem s) (tarfs_start s + (entry_pos pre + 512) + fl_offset x) (unat k),
       s\<lparr>fname := fn, files := (files s)(a \<mapsto> x\<lparr>fl_offset := fl_offset x + k\<rparr>)\<rparr>) \<and>
    unat (fl_offset x + k) = unat (fl_offset x) + unat k \<and> fl_offset x + k \<le> fl_size x"
proof -
  have ne: "as \<noteq> []" using a by auto
  have d: "deref (files s) a = Some x" "a \<noteq> 0"
    using find_butlast_nonzero [OF seq a] file_seq_deref [OF seq, of a] x by auto
  note off = find_offset_finds_entry [OF ar nm(2)]
  have "scast (ucast (fl_size x) :: u32) = fl_size x" by (rule int_of_u64_small [OF sz(1)])
  then have c: "fread_count (fl_size x) (fl_offset x) n = k"
    by (auto simp: fread_count_def k_def min_def Let_def intro: antisym)
  have "k \<le> fl_size x - fl_offset x" by (simp add: k_def)
  then have "unat k \<le> unat (fl_size x) - unat (fl_offset x)"
    using sz(2) by (simp add: word_le_nat_alt unat_sub)
  then have "unat (fl_offset x + k) = unat (fl_offset x) + unat k" "fl_offset x + k \<le> fl_size x"
    using sz(2) unat_u64 [of "fl_size x"] by (simp_all add: word_le_nat_alt unat_word_ariths)
  then show ?thesis
    using d off nm(1) c
    by (simp add: fread_def scan_files_llist [OF seq ne] a upd_file_def hupd_def deref_def Let_def)
qed

text \<open>C29: reading an open file.  While the read position is within the file, \<open>fread\<close> delivers the
  bytes of the file's contents from that position, as many as were asked for or as are left, and
  moves the position behind them, still within the file.\<close>

lemma fread_delivers_contents:
  assumes seq: "file_seq s as" and a: "find (\<lambda>a. fl_fd (node_at (files s) a) = fd) (butlast as) = Some a"
    and x: "node_at (files s) a = x" and nm: "fl_name x = dir @ slash # fn" "slash \<notin> set dir"
    and ar: "archive (kmem s) (tarfs_start s) (pre @ (fn, fl_size x) # post)" "fn \<notin> fst ` set pre"
    and sz: "fl_size x < 2 ^ 31" "fl_offset x \<le> fl_size x"
  shows "\<exists>s' k. fread fd n s = Some (ucast k, kmem_bytes (kmem s)
       (tarfs_start s + (entry_pos pre + 512) + fl_offset x) (unat k), s') \<and>
     k = min n (fl_size x - fl_offset x) \<and> kmem s' = kmem s \<and>
     files s' = (files s)(a \<mapsto> x\<lparr>fl_offset := fl_offset x + k\<rparr>) \<and> fl_offset x + k \<le> fl_size x"
  by (rule exI [of _ "s\<lparr>fname := fn, files := (files s)(a \<mapsto> x\<lparr>fl_offset := fl_offset x + min n (fl_size x - fl_offset x)\<rparr>)\<rparr>"],
    rule exI [of _ "min n (fl_size x - fl_offset x)"]) (simp add: fread_within [OF assms])

lemma fread_delivers_contents_witness:
  "\<exists>s' k. fread 3 10 ex_files = Some (ucast k, [0x79, 0x7A], s') \<and> k = (2 :: u64) \<and>
     fl_offset (node_at (files s') 16) = 3"
proof -
  let ?x = "\<lparr>fl_name = str_bytes ''rootfs/a'', fl_fd = 3, fl_addr = 0x1000, fl_type = 0, fl_size = 3, fl_offset = 1, fl_next = 32\<rparr>"
  have x: "node_at (files ex_files) 16 = ?x" by (simp add: ex_files_def node_at_def)
  have k: "kmem ex_files = ex_tar" "tarfs_start ex_files = 0x1000" by (simp_all add: ex_files_def ex_fs_def time_state.defs)
  have nm: "fl_name ?x = str_bytes ''rootfs'' @ slash # [0x61]" "slash \<notin> set (str_bytes ''rootfs'')" by code_simp+
  have "find (\<lambda>a. fl_fd (node_at (files ex_files) a) = 3) (butlast [16, 32]) = Some 16" using x by simp
  moreover have "archive (kmem ex_files) (tarfs_start ex_files) ([] @ ([0x61], fl_size ?x) # [([0x62], 0)])"
    using ex_archive unfolding k by simp
  moreover have "fl_size ?x < 2 ^ 31" "fl_offset ?x \<le> fl_size ?x" "[0x61] \<notin> fst ` set []" by simp_all
  ultimately have "\<exists>s' k. fread 3 10 ex_files = Some (ucast k, kmem_bytes (kmem ex_files)
       (tarfs_start ex_files + (entry_pos [] + 512) + fl_offset ?x) (unat k), s') \<and>
     k = min 10 (fl_size ?x - fl_offset ?x) \<and> kmem s' = kmem ex_files \<and>
     files s' = (files ex_files)(16 \<mapsto> ?x\<lparr>fl_offset := fl_offset ?x + k\<rparr>) \<and> fl_offset ?x + k \<le> fl_size ?x"
    using ex_files_seq x nm by (intro fread_delivers_contents) assumption+
  then obtain s' k where r: "fread 3 10 ex_files = Some (ucast k, kmem_bytes (kmem ex_files)
       (tarfs_start ex_files + (entry_pos [] + 512) + fl_offset ?x) (unat k), s')"
    "k = min 10 (fl_size ?x - fl_offset ?x)"
    "files s' = (files ex_files)(16 \<mapsto> ?x\<lparr>fl_offset := fl_offset ?x + k\<rparr>)"
    by blast
  have k2: "k = 2" using r(2) by (simp add: min_def)
  have "kmem_bytes ex_tar (0x1000 + (entry_pos [] + 512) + 1) 2 = [0x79, 0x7A]" by code_simp
  then have "fread 3 10 ex_files = Some (ucast k, [0x79, 0x7A], s')" using r(1) unfolding k k2 by simp
  then show ?thesis using k2 r(3) by (simp add: node_at_def)
qed

text \<open>C39: the bound of \<open>fread\<close> fails behind the end of a file: \<open>fseek\<close> accepts any position, and from
  a position beyond the size a read of few bytes copies all of them from memory behind the contents
  (the subtraction of the bound wraps), where it should deliver nothing.\<close>

lemma fread_past_end_unbounded:
  assumes seq: "file_seq s as" and a: "find (\<lambda>a. fl_fd (node_at (files s) a) = fd) (butlast as) = Some a"
    and x: "node_at (files s) a = x" and nm: "fl_name x = dir @ slash # fn" "slash \<notin> set dir"
    and ar: "archive (kmem s) (tarfs_start s) (pre @ (fn, fl_size x) # post)" "fn \<notin> fst ` set pre"
    and sz: "fl_size x < 2 ^ 31" "fl_size x < offset" "offset < 2 ^ 31" "n < 2 ^ 31"
  shows "\<exists>s1 s2. fseek fd offset 0 s = Some (offset, s1) \<and>
    fread fd n s1 = Some (ucast n, kmem_bytes (kmem s) (tarfs_start s + (entry_pos pre + 512) + offset) (unat n), s2)"
proof -
  have ne: "as \<noteq> []" using a by auto
  have az: "a \<noteq> 0" "a \<in> set as" using find_butlast_nonzero [OF seq a] by auto
  have d: "deref (files s) a = Some x" using file_seq_deref [OF seq az(2)] x by simp
  let ?y = "x\<lparr>fl_offset := offset\<rparr>"
  let ?s1 = "s\<lparr>files := (files s)(a \<mapsto> ?y)\<rparr>"
  have seek: "fseek fd offset 0 s = Some (offset, ?s1)"
    using d az(1) by (simp add: fseek_def scan_files_llist [OF seq ne] a upd_file_def hupd_def deref_def)
  have "map_option fl_next (files s b) = map_option fl_next (files ?s1 b)" for b
    using d by (simp add: deref_def split: if_splits)
  then have seq1: "file_seq ?s1 as" using seq llist_cong [of as fl_next "files s" "files ?s1"] by simp
  have "fl_fd (node_at (files ?s1) b) = fl_fd (node_at (files s) b)" for b
    using x by (simp add: node_at_def)
  then have a1: "find (\<lambda>a. fl_fd (node_at (files ?s1) a) = fd) (butlast as) = Some a" using a by simp
  have d1: "deref (files ?s1) a = Some ?y" using az(1) by (simp add: deref_def)
  have scan: "scan_files ((files s)(a \<mapsto> ?y)) (\<lambda>x. fl_fd x = fd) (filelist s) = Some a"
    using scan_files_llist [OF seq1 ne, of "\<lambda>x. fl_fd x = fd"] a1 by (simp del: fun_upd_apply)
  have "archive (kmem ?s1) (tarfs_start ?s1) (pre @ (fn, fl_size x) # post)" using ar(1) by simp
  note off = find_offset_finds_entry [OF this ar(2) nm(2)]
  have "fread_count (fl_size x) offset n = n"
  proof -
    have "scast (ucast (fl_size x) :: u32) = fl_size x" by (rule int_of_u64_small [OF sz(1)])
    moreover have "n \<le> fl_size x - offset"
    proof -
      have "unat (fl_size x - offset) = 2 ^ 64 - (unat offset - unat (fl_size x))"
        using sz(2) unat_sub_wrap [of "fl_size x" offset] by (simp add: word_less_nat_alt)
      then show ?thesis using sz(3,4) by (simp add: word_le_nat_alt word_less_nat_alt)
    qed
    ultimately show ?thesis by (auto simp: fread_count_def Let_def intro: antisym)
  qed
  then have "\<exists>s2. fread fd n ?s1 = Some (ucast n, kmem_bytes (kmem s) (tarfs_start s + (entry_pos pre + 512) + offset) (unat n), s2)"
    using d1 off nm(1) az(1) by (simp add: fread_def scan upd_file_def hupd_def deref_def Let_def)
  with seek show ?thesis by blast
qed

lemma fread_past_end_unbounded_witness:
  "\<exists>s1 s2. fseek 3 4 0 ex_files = Some (4, s1) \<and> fread 3 2 s1 = Some (2, [0, 0], s2)"
proof -
  let ?x = "\<lparr>fl_name = str_bytes ''rootfs/a'', fl_fd = 3, fl_addr = 0x1000, fl_type = 0, fl_size = 3, fl_offset = 1, fl_next = 32\<rparr>"
  have x: "node_at (files ex_files) 16 = ?x" by (simp add: ex_files_def node_at_def)
  have k: "kmem ex_files = ex_tar" "tarfs_start ex_files = 0x1000" by (simp_all add: ex_files_def ex_fs_def time_state.defs)
  have nm: "fl_name ?x = str_bytes ''rootfs'' @ slash # [0x61]" "slash \<notin> set (str_bytes ''rootfs'')" by code_simp+
  have "find (\<lambda>a. fl_fd (node_at (files ex_files) a) = 3) (butlast [16, 32]) = Some 16" using x by simp
  moreover have "archive (kmem ex_files) (tarfs_start ex_files) ([] @ ([0x61], fl_size ?x) # [([0x62], 0)])"
    using ex_archive unfolding k by simp
  moreover have "fl_size ?x < 2 ^ 31" "fl_size ?x < 4" "(4 :: u64) < 2 ^ 31" "(2 :: u64) < 2 ^ 31" "[0x61] \<notin> fst ` set []"
    by simp_all
  ultimately have "\<exists>s1 s2. fseek 3 4 0 ex_files = Some (4, s1) \<and>
    fread 3 2 s1 = Some (ucast (2 :: u64), kmem_bytes (kmem ex_files) (tarfs_start ex_files + (entry_pos [] + 512) + 4) (unat (2 :: u64)), s2)"
    using ex_files_seq x nm by (intro fread_past_end_unbounded) assumption+
  moreover have "kmem_bytes ex_tar (0x1000 + (entry_pos [] + 512) + 4) (unat (2 :: u64)) = [0, 0]" by code_simp
  ultimately show ?thesis unfolding k by simp
qed

text \<open>C40: \<open>fwrite\<close> stores at the address recorded for the file plus its offset, and that address is the file's
  \<^emph>\<open>header\<close> in the archive: for any file, the bytes written go to the header and to no other place, and as far as
  they fall on the name they replace that part of it, so that the file can no longer be found under its
  old name.  The offset moves on and \<open>fwrite\<close> returns 0.\<close>

lemma fwrite_overwrites_header:
  assumes seq: "file_seq s as" and a: "find (\<lambda>a. fl_fd (node_at (files s) a) = fd) (butlast as) = Some a" and x: "node_at (files s) a = x"
    and ar: "archive (kmem s) (tarfs_start s) (pre @ (fn, sz) # post)" and hd: "fl_addr x = tarfs_start s + entry_pos pre"
    and len: "length fn < 2 ^ 63" "length buf < 2 ^ 64"
  shows "\<exists>s'. fwrite fd buf s = Some (0, s') \<and>
    (\<forall>i < length buf. kmem s' (tarfs_start s + entry_pos pre + fl_offset x + of_nat i) = buf ! i) \<and>
    (\<forall>c. c \<notin> set (block (tarfs_start s + entry_pos pre + fl_offset x) (length buf)) \<longrightarrow> kmem s' c = kmem s c) \<and>
    (unat (fl_offset x) + length buf \<le> length fn \<and> 0 \<notin> set buf \<longrightarrow>
       header_name (kmem s) (tarfs_start s + entry_pos pre) = Some fn \<and>
       header_name (kmem s') (tarfs_start s + entry_pos pre) =
         Some (take (unat (fl_offset x)) fn @ buf @ drop (unat (fl_offset x) + length buf) fn)) \<and>
    files s' = (files s)(a \<mapsto> x\<lparr>fl_offset := fl_offset x + of_nat (length buf)\<rparr>)"
proof -
  let ?h = "tarfs_start s + entry_pos pre" and ?o = "unat (fl_offset x)"
  let ?m = "store_bytes buf (?h + fl_offset x) (kmem s)"
  let ?s = "s\<lparr>kmem := ?m, files := (files s)(a \<mapsto> x\<lparr>fl_offset := fl_offset x + of_nat (length buf)\<rparr>)\<rparr>"
  have hit: "scan_files (files s) (\<lambda>x. fl_fd x = fd) (filelist s) = Some a" "a \<noteq> 0" "deref (files s) a = Some x"
    using scan_files_hit [OF seq, of "\<lambda>x. fl_fd x = fd"] a x by auto
  then have "files s a = Some x" by (simp add: deref_def)
  then have "fwrite fd buf s = Some (0, ?s)"
    using hit hd by (simp add: fwrite_def upd_file_def hupd_def Let_def)
  moreover have fn: "cstr (kmem s) ?h fn" by (rule archive_header [OF ar])
  moreover have "header_name ?m ?h = Some (take ?o fn @ buf @ drop (?o + length buf) fn)"
    if "?o + length buf \<le> length fn" "0 \<notin> set buf"
  proof -
    let ?ys = "take (length buf) (drop ?o fn)"
    have f: "fn = take ?o fn @ ?ys @ drop (?o + length buf) fn" using that(1) by (metis append_take_drop_id drop_drop add.commute)
    have "cstr (store_bytes buf (?h + of_nat (length (take ?o fn))) (kmem s)) ?h (take ?o fn @ buf @ drop (?o + length buf) fn)"
      by (rule cstr_store_bytes [where ys = ?ys]) (use fn f len(1) that in \<open>simp_all flip: f\<close>)
    then show ?thesis using that(1) by (intro header_name_cstr) simp
  qed
  ultimately show ?thesis
    using store_bytes_nth [OF _ len(2), of _ "?h + fl_offset x" "kmem s"] store_bytes_other [of _ "?h + fl_offset x" buf "kmem s"]
    by (intro exI [of _ ?s]) (simp add: header_name_cstr [OF fn])
qed

text \<open>The second of two files, from its second byte on: the name \<open>bcd\<close> becomes \<open>bXd\<close>.\<close>

definition ex_two :: fs_state where
  "ex_two = ex_fs\<lparr>kmem := ex_tar(0x1401 := 0x63, 0x1402 := 0x64), filelist := 16, files :=
     [16 \<mapsto> \<lparr>fl_name = str_bytes ''rootfs/a'', fl_fd = 3, fl_addr = 0x1000, fl_type = 0, fl_size = 3, fl_offset = 0, fl_next = 32\<rparr>,
      32 \<mapsto> \<lparr>fl_name = str_bytes ''rootfs/bcd'', fl_fd = 4, fl_addr = 0x1400, fl_type = 0, fl_size = 0, fl_offset = 1, fl_next = 48\<rparr>,
      48 \<mapsto> \<lparr>fl_name = [], fl_fd = 5, fl_addr = 0x1600, fl_type = 0, fl_size = 0, fl_offset = 0, fl_next = 0\<rparr>]\<rparr>"

lemma fwrite_overwrites_header_witness:
  "\<exists>s'. fwrite 4 [0x58] ex_two = Some (0, s') \<and> header_name (kmem s') 0x1400 = Some [0x62, 0x58, 0x64] \<and>
     fl_offset (node_at (files s') 32) = 2 \<and> kmem s' 0x1000 = 0x61"
proof -
  let ?x = "\<lparr>fl_name = str_bytes ''rootfs/bcd'', fl_fd = 4, fl_addr = 0x1400, fl_type = 0, fl_size = 0, fl_offset = 1, fl_next = 48\<rparr>"
  have k: "kmem ex_two = ex_tar(0x1401 := 0x63, 0x1402 := 0x64)" "tarfs_start ex_two = 0x1000"
    by (simp_all add: ex_two_def ex_fs_def time_state.defs)
  have x: "node_at (files ex_two) 32 = ?x" by (simp add: ex_two_def node_at_def)
  have p: "0x1000 + entry_pos [([0x61], 3)] = 0x1400" by code_simp
  have "archive (kmem ex_two) (tarfs_start ex_two) ([([0x61], 3)] @ ([0x62, 0x63, 0x64], 0) # [])"
    unfolding k by code_simp
  moreover have "file_seq ex_two [16, 32, 48]" by (simp add: ex_two_def deref_def)
  moreover have "find (\<lambda>a. fl_fd (node_at (files ex_two) a) = 4) (butlast [16, 32, 48]) = Some 32"
    by (simp add: ex_two_def node_at_def)
  ultimately obtain s' where s': "fwrite 4 [0x58] ex_two = Some (0, s')"
    "\<forall>c. c \<notin> set (block (0x1400 + fl_offset ?x) (length [0x58 :: u8])) \<longrightarrow> kmem s' c = kmem ex_two c"
    "unat (fl_offset ?x) + length [0x58 :: u8] \<le> length [0x62 :: u8, 0x63, 0x64] \<and> (0 :: u8) \<notin> set [0x58] \<longrightarrow>
       header_name (kmem s') 0x1400 = Some (take (unat (fl_offset ?x)) [0x62, 0x63, 0x64] @ [0x58] @
         drop (unat (fl_offset ?x) + length [0x58 :: u8]) [0x62, 0x63, 0x64])"
    "files s' = (files ex_two)(32 \<mapsto> ?x\<lparr>fl_offset := fl_offset ?x + of_nat (length [0x58 :: u8])\<rparr>)"
    using fwrite_overwrites_header [of ex_two "[16, 32, 48]" 4 32 ?x "[([0x61], 3)]" "[0x62, 0x63, 0x64]" 0 "[]" "[0x58]"] x
    unfolding k(2) p by auto
  have "kmem s' 0x1000 = kmem ex_two 0x1000" by (rule s'(2) [rule_format]) simp
  moreover have "kmem ex_two 0x1000 = 0x61" unfolding k by code_simp
  ultimately show ?thesis using s'(1,3,4) by (intro exI [of _ s']) (simp add: node_at_def)
qed

end
