(* ===== verification/Console.thy ===== *)
theory Console
  imports Printf Tarfs
begin

section \<open>The text console (\<open>w2/sys/vgaconsole.c\<close>, \<open>w2/sys/kprintf.c\<close>, \<open>w2/sys/ioport.c\<close>)\<close>

text \<open>
  The state of the console: the video memory as bytes, the cursor and the attribute.  Writing a port
  appends to the record \<open>ports\<close> of the bytes sent to the devices (\<open>outportb\<close> of theory \<open>Sched\<close>);
  \<open>port_in\<close> is what the devices answer.  A text to print is the list of its bytes up to the terminator; it has to be outside the
  video memory.
\<close>

record con_state = fs_state +
  vmem :: cmem
  attrib :: u64
  cursor_x :: u64
  cursor_y :: u64
  port_in :: "u16 \<Rightarrow> u8"

definition vga_addr :: u64 where "vga_addr = 0xFFFFFFFF800B8000"
definition MAX_Y :: u64 where "MAX_Y = 25"
definition MAX_X :: u64 where "MAX_X = 80"

definition inportb :: "u16 \<Rightarrow> 'z con_state_scheme \<Rightarrow> u8" where
  "inportb port s = port_in s port"

definition vga_store :: "u64 \<Rightarrow> u8 \<Rightarrow> 'z con_state_scheme \<Rightarrow> 'z con_state_scheme" where
  "vga_store a b s = s\<lparr>vmem := (vmem s)(a := b)\<rparr>"

subsection \<open>Printing characters\<close>

text \<open>The colours are signed characters, promoted to \<open>int\<close>.\<close>

definition setcolor :: "u8 \<Rightarrow> u8 \<Rightarrow> 'z con_state_scheme \<Rightarrow> 'z con_state_scheme" where
  "setcolor background foreground s =
     s\<lparr>attrib := scast (push_bit 4 (scast background :: u32) OR (scast foreground AND 0x0F) :: u32)\<rparr>"

definition handle_backspace :: "'z con_state_scheme \<Rightarrow> 'z con_state_scheme" where
  "handle_backspace s =
     (if cursor_x s \<noteq> 0 then
        let s = s\<lparr>cursor_x := cursor_x s - 1\<rparr>;
            blank = 0x20 OR push_bit 8 (attrib s)
        in vga_store (vga_addr + (cursor_y s * 80 + cursor_x s) * 2) (ucast blank) s
      else if cursor_y s \<noteq> 0 then
        let s = s\<lparr>cursor_x := 80, cursor_y := cursor_y s - 1\<rparr>;
            blank = 0x20 OR push_bit 8 (attrib s);
            s = vga_store (vga_addr + (cursor_y s * 80 + cursor_x s) * 2) (ucast blank) s
        in s\<lparr>cursor_x := cursor_x s - 1\<rparr>
      else s)"

definition scroll :: "'z con_state_scheme \<Rightarrow> 'z con_state_scheme" where
  "scroll s =
     (let blank = push_bit 8 (attrib s)
      in if cursor_y s \<ge> 24
         then let temp = cursor_y s - 24 + 1;
                  m = memcpy vga_addr (vga_addr + temp * 80 * 2) ((24 - temp) * 80 * 2) (vmem s);
                  m = memsetw (vga_addr + (24 - temp) * 80 * 2) (ucast blank) (80 * 2) m
              in s\<lparr>vmem := m, cursor_y := 24 - 1\<rparr>
         else s)"

definition move_csr :: "'z con_state_scheme \<Rightarrow> 'z con_state_scheme" where
  "move_csr s =
     (let temp = (ucast (cursor_y s * 80 + cursor_x s) :: u32);
          s = outportb 0x3D4 14 s;
          s = outportb 0x3D5 (ucast (drop_bit 8 temp)) s;
          s = outportb 0x3D4 15 s
      in outportb 0x3D5 (ucast temp) s)"

definition putch :: "u8 \<Rightarrow> 'z con_state_scheme \<Rightarrow> 'z con_state_scheme" where
  "putch ch s =
     (let s =
        (if ch = 0x0A then s\<lparr>cursor_x := 0, cursor_y := cursor_y s + 1\<rparr>
         else if ch = 0x08 then handle_backspace s
         else if ch = 0x09 then s\<lparr>cursor_x := (cursor_x s + 8) AND NOT (8 - 1)\<rparr>
         else if ch = 0x0D then s\<lparr>cursor_x := 0\<rparr>
         else let dst_addr = vga_addr + (cursor_y s * 80 + cursor_x s) * 2;
                  s = vga_store dst_addr ch s;
                  s = vga_store (dst_addr + 1) (ucast (attrib s)) s
              in s\<lparr>cursor_x := cursor_x s + 1\<rparr>)
      in move_csr (scroll s))"

fun puts :: "bytes \<Rightarrow> 'z con_state_scheme \<Rightarrow> 'z con_state_scheme" where
  "puts [] s = s"
| "puts (c # str) s = puts str (putch c s)"

text \<open>\<open>puttimer\<close> colours the whole row and writes a text into it; positions are \<open>int\<close>.\<close>

definition timer_cell :: "u32 \<Rightarrow> u32 \<Rightarrow> u64" where
  "timer_cell x y = vga_addr + scast ((y * 80 + x) * 2)"

definition puttimer_row :: "u32 \<Rightarrow> 'z con_state_scheme \<Rightarrow> 'z con_state_scheme" where
  "puttimer_row y s = fold (\<lambda>i. vga_store (timer_cell (of_nat i) y + 1) 0x0A) [0..<80] s"

fun puttimer_text :: "u32 \<Rightarrow> u32 \<Rightarrow> bytes \<Rightarrow> 'z con_state_scheme \<Rightarrow> 'z con_state_scheme" where
  "puttimer_text x y [] s = s"
| "puttimer_text x y (c # str) s =
     puttimer_text (x + 1) y str (vga_store (timer_cell x y + 1) 0x0A (vga_store (timer_cell x y) c s))"

definition puttimer :: "u32 \<Rightarrow> u32 \<Rightarrow> bytes \<Rightarrow> 'z con_state_scheme \<Rightarrow> 'z con_state_scheme" where
  "puttimer x y str s = puttimer_text x y str (puttimer_row y s)"

definition adjustcursor :: "'z con_state_scheme \<Rightarrow> 'z con_state_scheme" where
  "adjustcursor s =
     (let s = (if cursor_x s \<ge> MAX_X then s\<lparr>cursor_x := 0, cursor_y := cursor_y s + 1\<rparr> else s)
      in if cursor_y s \<ge> MAX_Y - 1
         then let m = memcpy vga_addr (vga_addr + MAX_X * 2) (MAX_Y * MAX_X * 2) (vmem s);
                  m = memsetw (vga_addr + 2 * MAX_X * (MAX_Y - 1)) (ucast (push_bit 8 (attrib s))) (2 * MAX_X) m
              in s\<lparr>vmem := m, cursor_y := 24\<rparr>
         else s)"

definition clearscreen :: "'z con_state_scheme \<Rightarrow> 'z con_state_scheme" where
  "clearscreen s =
     (let blank = ucast (push_bit 8 (attrib s));
          s = fold (\<lambda>i s. s\<lparr>vmem := memsetw (vga_addr + 2 * of_nat i * MAX_X) blank (2 * MAX_X) (vmem s)\<rparr>) [0..<24] s
      in move_csr (s\<lparr>cursor_x := 0, cursor_y := 0\<rparr>))"

subsection \<open>Formatted output of the kernel\<close>

text \<open>\<open>printf_buf\<close> is printed up to its first NUL.  \<open>kprintf\<close> returns at once.\<close>

definition c_text :: "bytes \<Rightarrow> bytes" where
  "c_text str = takeWhile (\<lambda>c. c \<noteq> 0) str"

definition kprintf :: "bytes \<Rightarrow> u64 list \<Rightarrow> 'z con_state_scheme \<Rightarrow> 'z con_state_scheme" where
  "kprintf fmt args s = s"

definition kprintf2 :: "bytes \<Rightarrow> u64 list \<Rightarrow> 'z con_state_scheme \<Rightarrow> 'z con_state_scheme option" where
  "kprintf2 fmt args s = do {
     (str, m) \<leftarrow> kvsprintf fmt args (kmem s);
     Some (puts (c_text str) (s\<lparr>kmem := m\<rparr>))
   }"

definition kprintat :: "u32 \<Rightarrow> u32 \<Rightarrow> bytes \<Rightarrow> u64 list \<Rightarrow> 'z con_state_scheme \<Rightarrow> 'z con_state_scheme option" where
  "kprintat x y fmt args s = do {
     (str, m) \<leftarrow> kvsprintf fmt args (kmem s);
     Some (puttimer x y (c_text str) (s\<lparr>kmem := m\<rparr>))
   }"

definition clrscr :: "'z con_state_scheme \<Rightarrow> 'z con_state_scheme" where
  "clrscr s = s"

subsection \<open>Cells\<close>

text \<open>The \<open>i\<close>-th cell of the video memory: a character and its attribute.\<close>

definition cell :: "u64 \<Rightarrow> u64" where
  "cell i = vga_addr + i * 2"

definition printable :: "u8 \<Rightarrow> bool" where
  "printable c \<longleftrightarrow> c \<notin> {0x08, 0x09, 0x0A, 0x0D}"

abbreviation here :: "'z con_state_scheme \<Rightarrow> u64" where
  "here s \<equiv> cursor_y s * 80 + cursor_x s"

lemma scroll_id: "cursor_y s < 24 \<Longrightarrow> scroll s = s"
  by (simp add: scroll_def Let_def not_le)

lemma move_csr_ports: "\<exists>ps. move_csr s = s\<lparr>ports := ps\<rparr>"
  by (simp add: move_csr_def outportb_def Let_def) blast

lemma putch_printable:
  assumes "printable c" and "cursor_y s < 24"
  shows "\<exists>ps. putch c s = s\<lparr>vmem := (vmem s)(cell (here s) := c, cell (here s) + 1 := ucast (attrib s)),
      cursor_x := cursor_x s + 1, ports := ps\<rparr>"
proof -
  let ?t = "s\<lparr>vmem := (vmem s)(cell (here s) := c, cell (here s) + 1 := ucast (attrib s)), cursor_x := cursor_x s + 1\<rparr>"
  have "putch c s = move_csr (scroll ?t)"
    using assms(1) by (simp add: putch_def printable_def vga_store_def Let_def cell_def)
  also have "scroll ?t = ?t" using assms(2) by (intro scroll_id) simp
  finally show ?thesis using move_csr_ports [of ?t] by (elim exE) (intro exI, simp)
qed

lemma double_inj:
  fixes b :: u64
  assumes "i < 2 ^ 63" "j < 2 ^ 63" "b + of_nat i * 2 = b + of_nat j * 2"
  shows "i = j"
proof -
  have "(of_nat (i * 2) :: u64) = of_nat (j * 2)" using assms(3) by simp
  then have "i * 2 = j * 2" by (rule word_of_nat_u64_inj) (use assms in auto)
  then show ?thesis by simp
qed

lemma double_parity: "b + i * 2 \<noteq> b + j * 2 + (1 :: u64)"
proof
  assume "b + i * 2 = b + j * 2 + 1"
  then have "i * 2 = j * 2 + 1" by simp
  then have "(i * 2) mod 2 = (j * 2 + 1) mod 2" by simp
  moreover have "\<not> bit (i * 2) 0" "bit (j * 2 + 1) 0" by (simp_all add: bit_0)
  ultimately show False using \<open>i * 2 = j * 2 + 1\<close> by simp
qed

text \<open>The effect of printing a run of printable characters.\<close>

fun place :: "bytes \<Rightarrow> u64 \<Rightarrow> u8 \<Rightarrow> cmem \<Rightarrow> cmem" where
  "place [] i at m = m"
| "place (x # xs) i at m = place xs (i + 1) at (m(cell i := x, cell i + 1 := at))"

lemma puts_printable:
  "\<forall>c \<in> set xs. printable c \<Longrightarrow> cursor_y s < 24 \<Longrightarrow>
   \<exists>ps. puts xs s = s\<lparr>vmem := place xs (here s) (ucast (attrib s)) (vmem s),
     cursor_x := cursor_x s + of_nat (length xs), ports := ps\<rparr>"
proof (induction xs arbitrary: s)
  case Nil
  have "s = s\<lparr>vmem := vmem s, cursor_x := cursor_x s, ports := ports s\<rparr>" by simp
  then show ?case by (intro exI [of _ "ports s"]) simp
next
  case (Cons x xs)
  obtain ps where p: "putch x s = s\<lparr>vmem := (vmem s)(cell (here s) := x, cell (here s) + 1 := ucast (attrib s)),
      cursor_x := cursor_x s + 1, ports := ps\<rparr>" (is "_ = ?t")
    using putch_printable [of x s] Cons.prems by auto
  obtain ps' where "puts xs ?t = ?t\<lparr>vmem := place xs (here ?t) (ucast (attrib ?t)) (vmem ?t),
     cursor_x := cursor_x ?t + of_nat (length xs), ports := ps'\<rparr>"
  proof -
    have "\<forall>c \<in> set xs. printable c" "cursor_y ?t < 24" using Cons.prems by simp_all
    from Cons.IH [OF this] that show thesis by blast
  qed
  then show ?case by (intro exI [of _ ps']) (simp add: p add.assoc del: fun_upd_apply)
qed

lemma cell_Suc: "cell (i + 1 + of_nat k) = cell i + of_nat (Suc k) * 2"
  by (simp add: cell_def algebra_simps)

lemma cells_apart:
  assumes "k < 2 ^ 62"
  shows "cell i \<noteq> cell (i + 1 + of_nat k)" "cell i + 1 \<noteq> cell (i + 1 + of_nat k) + 1"
    "cell i \<noteq> cell (i + 1 + of_nat k) + 1" "cell i + 1 \<noteq> cell (i + 1 + of_nat k)"
proof -
  show *: "cell i \<noteq> cell (i + 1 + of_nat k)"
    using double_inj [of 0 "Suc k" "cell i"] assms unfolding cell_Suc by auto
  show "cell i + 1 \<noteq> cell (i + 1 + of_nat k) + 1" using * by simp
  show "cell i \<noteq> cell (i + 1 + of_nat k) + 1"
    using double_parity [of "cell i" 0 "of_nat (Suc k)"] unfolding cell_Suc by simp
  show "cell i + 1 \<noteq> cell (i + 1 + of_nat k)"
    using double_parity [of "cell i" "of_nat (Suc k)" 0] unfolding cell_Suc by simp
qed

lemma place_other:
  "(\<And>k. k < length xs \<Longrightarrow> a \<noteq> cell (i + of_nat k) \<and> a \<noteq> cell (i + of_nat k) + 1) \<Longrightarrow> place xs i at m a = m a"
proof (induction xs arbitrary: i m)
  case (Cons x xs)
  have "place xs (i + 1) at (m(cell i := x, cell i + 1 := at)) a = (m(cell i := x, cell i + 1 := at)) a"
    using Cons.prems [of "Suc _"] by (intro Cons.IH) (auto simp: add.assoc)
  then show ?case using Cons.prems [of 0] by simp
qed simp

lemma place_nth:
  "length xs < 2 ^ 62 \<Longrightarrow> k < length xs \<Longrightarrow>
   place xs i at m (cell (i + of_nat k)) = xs ! k \<and> place xs i at m (cell (i + of_nat k) + 1) = at"
proof (induction xs arbitrary: i m k)
  case (Cons x xs)
  show ?case
  proof (cases k)
    case 0
    have "place xs (i + 1) at m' (cell i) = m' (cell i)" "place xs (i + 1) at m' (cell i + 1) = m' (cell i + 1)" for m'
      using Cons.prems(1) by (intro place_other conjI cells_apart; simp)+
    then show ?thesis using 0 by simp
  next
    case (Suc j)
    then show ?thesis
      using Cons.IH [of j "i + 1" "m(cell i := x, cell i + 1 := at)"] Cons.prems
      by (simp add: algebra_simps del: fun_upd_apply)
  qed
qed simp

subsection \<open>Copying and filling\<close>

lemma offset_neq:
  assumes "i < 2 ^ 64" "j < 2 ^ 64" "i \<noteq> j"
  shows "p + of_nat i \<noteq> (p :: u64) + of_nat j"
  using word_of_nat_u64_inj assms by fastforce

text \<open>A copy to a lower address is right even when the blocks overlap.\<close>

lemma memcpy_loop_other: "a \<notin> set (block p n) \<Longrightarrow> memcpy_loop n p q m a = m a"
  by (induction n arbitrary: p q m) auto

lemma memset_loop_other: "a \<notin> set (block p n) \<Longrightarrow> memset_loop n p c m a = m a"
  by (induction n arbitrary: p m) auto

lemma memcpy_loop_down:
  "0 < d \<Longrightarrow> n + d < 2 ^ 64 \<Longrightarrow> i < n \<Longrightarrow>
   memcpy_loop n p (p + of_nat d) m (p + of_nat i) = m (p + of_nat d + of_nat i)"
proof (induction n arbitrary: p m i)
  case (Suc n)
  let ?m = "m(p := m (p + of_nat d))"
  show ?case
  proof (cases i)
    case 0
    have "memcpy_loop n (p + 1) (p + of_nat d + 1) ?m p = ?m p"
      by (rule memcpy_loop_other [OF block_head]) (use Suc.prems in simp)
    then show ?thesis using 0 by simp
  next
    case (Suc j)
    have "p + of_nat (d + i) \<noteq> p + of_nat 0"
      by (rule offset_neq) (use Suc.prems in auto)
    then have "p + of_nat d + of_nat i \<noteq> p" by (simp add: add.assoc)
    moreover have "memcpy_loop n (p + 1) (p + 1 + of_nat d) ?m (p + 1 + of_nat j) = ?m (p + 1 + of_nat d + of_nat j)"
      by (rule Suc.IH) (use Suc.prems \<open>i = Suc j\<close> in simp_all)
    ultimately show ?thesis using \<open>i = Suc j\<close> by (simp add: ac_simps)
  qed
qed simp

lemma memset_loop_in: "i < n \<Longrightarrow> n < 2 ^ 64 \<Longrightarrow> memset_loop n p c m (p + of_nat i) = c"
proof (induction n arbitrary: p m i)
  case (Suc n)
  show ?case
  proof (cases i)
    case 0
    have "memset_loop n (p + 1) c (m(p := c)) p = (m(p := c)) p"
      by (rule memset_loop_other [OF block_head]) (use Suc.prems in simp)
    then show ?thesis using 0 by simp
  next
    case (Suc j)
    have "memset_loop n (p + 1) c (m(p := c)) (p + 1 + of_nat j) = c"
      by (rule Suc.IH) (use Suc.prems \<open>i = Suc j\<close> in simp_all)
    then show ?thesis using \<open>i = Suc j\<close> by (simp add: ac_simps)
  qed
qed simp

lemma offset_not_in_block:
  assumes "n \<le> i" "i < 2 ^ 64"
  shows "p + of_nat i \<notin> set (block p n)"
proof
  assume "p + of_nat i \<in> set (block p n)"
  then obtain j where "j < n" "p + of_nat i = p + of_nat j" by (auto simp: block_conv)
  then show False using offset_neq [of i j p] assms by simp
qed

subsection \<open>Properties\<close>

definition ex_con :: con_state where
  "ex_con = fs_state.extend ex_fs \<lparr>vmem = (\<lambda>a. if a = cell (24 * 80) then 0x41 else 0), attrib = 3, cursor_x = 78, cursor_y = 23,
     port_in = (\<lambda>_. 0)\<rparr>"

lemma ex_con_fields: "cursor_x ex_con = 78" "cursor_y ex_con = 23" "attrib ex_con = 3"
  by (simp_all add: ex_con_def fs_state.defs)



text \<open>A new line on the last text row scrolls the screen: every row takes the bytes of the row below
  it, the last row is filled with zeros (the attribute is lost with the upper byte of \<open>blank\<close>), the
  cursor stays on the last row and nothing outside the 24 text rows changes.\<close>

lemma newline_scrolls:
  assumes "cursor_y s = 23"
  shows "\<exists>m ps. putch 0x0A s = s\<lparr>vmem := m, cursor_x := 0, cursor_y := 23, ports := ps\<rparr> \<and>
    (\<forall>i < 23 * 160. m (vga_addr + of_nat i) = vmem s (vga_addr + 160 + of_nat i)) \<and>
    (\<forall>i < 160. m (vga_addr + 23 * 160 + of_nat i) = 0) \<and>
    (\<forall>a. a \<notin> set (block vga_addr (24 * 160)) \<longrightarrow> m a = vmem s a)"
proof -
  have blank: "ucast (ucast (push_bit 8 (attrib s)) :: u16) = (0 :: u8)"
    by (rule bit_word_eqI) (auto simp: bit_simps)
  let ?m1 = "memcpy_loop (23 * 160) vga_addr (vga_addr + of_nat 160) (vmem s)"
  let ?m = "memset_loop 160 (vga_addr + of_nat (23 * 160)) 0 ?m1"
  let ?t = "s\<lparr>vmem := ?m, cursor_x := 0, cursor_y := 23\<rparr>"
  have "scroll (s\<lparr>cursor_x := 0, cursor_y := cursor_y s + 1\<rparr>) = ?t"
    using assms by (simp add: scroll_def memcpy_def memsetw_def Let_def blank)
  then have "putch 0x0A s = move_csr ?t" by (simp add: putch_def Let_def)
  then obtain ps where "putch 0x0A s = s\<lparr>vmem := ?m, cursor_x := 0, cursor_y := 23, ports := ps\<rparr>"
    using move_csr_ports [of ?t] by auto
  moreover have "\<forall>i < 23 * 160. ?m (vga_addr + of_nat i) = vmem s (vga_addr + 160 + of_nat i)"
  proof (intro allI impI)
    fix i :: nat assume i: "i < 23 * 160"
    have "vga_addr + of_nat i \<notin> set (block (vga_addr + of_nat (23 * 160)) 160)"
    proof
      assume "vga_addr + of_nat i \<in> set (block (vga_addr + of_nat (23 * 160)) 160)"
      then obtain j where "j < 160" "vga_addr + of_nat i = vga_addr + of_nat (23 * 160 + j)"
        by (auto simp: block_conv ac_simps)
      then show False using offset_neq [of i "23 * 160 + j" vga_addr] i by simp
    qed
    then have "?m (vga_addr + of_nat i) = ?m1 (vga_addr + of_nat i)" by (rule memset_loop_other)
    also have "\<dots> = vmem s (vga_addr + of_nat 160 + of_nat i)"
      by (rule memcpy_loop_down) (use i in simp_all)
    finally show "?m (vga_addr + of_nat i) = vmem s (vga_addr + 160 + of_nat i)" by simp
  qed
  moreover have "\<forall>i < 160. ?m (vga_addr + 23 * 160 + of_nat i) = 0"
    using memset_loop_in [of _ 160 "vga_addr + of_nat (23 * 160)" 0 ?m1] by simp
  moreover have "\<forall>a. a \<notin> set (block vga_addr (24 * 160)) \<longrightarrow> ?m a = vmem s a"
  proof (intro allI impI)
    fix a assume a: "a \<notin> set (block vga_addr (24 * 160))"
    have "a \<notin> set (block (vga_addr + of_nat (23 * 160)) 160)"
    proof
      assume "a \<in> set (block (vga_addr + of_nat (23 * 160)) 160)"
      then obtain j where "j < 160" "a = vga_addr + of_nat (23 * 160 + j)"
        by (auto simp: block_conv ac_simps)
      then have "a \<in> set (block vga_addr (24 * 160))"
        unfolding block_conv set_map by (intro image_eqI [of _ _ "23 * 160 + j"]) auto
      then show False using a by contradiction
    qed
    moreover have "a \<notin> set (block vga_addr (23 * 160))" using a by (auto simp: block_conv)
    ultimately show "?m a = vmem s a" by (simp add: memset_loop_other memcpy_loop_other)
  qed
  ultimately show ?thesis by blast
qed

lemma newline_scrolls_witness:
  "\<exists>m ps. putch 0x0A (ex_con\<lparr>vmem := (\<lambda>a. 0x41)\<rparr>) = ex_con\<lparr>vmem := m, cursor_x := 0, cursor_y := 23, ports := ps\<rparr> \<and>
     m (vga_addr + 5) = 0x41 \<and> m (vga_addr + 23 * 160) = 0"
proof -
  let ?s = "ex_con\<lparr>vmem := (\<lambda>a. 0x41)\<rparr>"
  have "cursor_y ?s = 23" by (simp add: ex_con_fields)
  from newline_scrolls [OF this]
  obtain m ps where m: "putch 0x0A ?s = ?s\<lparr>vmem := m, cursor_x := 0, cursor_y := 23, ports := ps\<rparr>"
    "\<forall>i < 23 * 160. m (vga_addr + of_nat i) = vmem ?s (vga_addr + 160 + of_nat i)"
    "\<forall>i < 160. m (vga_addr + 23 * 160 + of_nat i) = 0"
    by (elim exE conjE) (rule that)
  have "m (vga_addr + 5) = 0x41" using m(2) [rule_format, of 5] by simp
  moreover have "m (vga_addr + 23 * 160) = 0" using m(3) [rule_format, of 0] by simp
  moreover have "putch 0x0A ?s = ex_con\<lparr>vmem := m, cursor_x := 0, cursor_y := 23, ports := ps\<rparr>"
    using m(1) by simp
  ultimately show ?thesis by blast
qed

end
