(* ===== verification/Keyboard.thy ===== *)
theory Keyboard
  imports Console
begin

section \<open>The keyboard and its line discipline (\<open>w2/sys/kb.c\<close>)\<close>

text \<open>
  The driver echoes every key and, while a task waits for input (\<open>flag\<close> is 1), collects the
  characters in the buffer \<open>a\<close>; at the end of the line, or when as many characters have come as the
  reader asked for, it copies from the buffer to the address \<open>str\<close> of the waiting task's address space
  and makes the task runnable.  An access outside the 1024 bytes of the buffer has no result.
\<close>

datatype control = NORMAL_KEY | CONTROL_KEY | SHIFT_KEY | ALT_KEY

record kb_state = con_state +
  current_control :: control
  kb_flag :: u32
  kb_i :: u32
  kb_str :: u64
  kb_count :: u64
  kb_a :: bytes
  current_char :: u8
  waiting_task :: u64

subsection \<open>Scan codes\<close>

definition key_table :: "string \<Rightarrow> string \<Rightarrow> string \<Rightarrow> string \<Rightarrow> bytes" where
  "key_table row1 row2 row3 row4 =
     [0, 27] @ str_bytes row1 @ [0x08, 0x09] @ str_bytes row2 @ [0x0A, 0] @ str_bytes row3 @ [0] @
     str_bytes row4 @ [0] @ str_bytes ''*'' @ [0] @ str_bytes '' '' @ replicate 16 0 @
     str_bytes ''-'' @ [0, 0, 0] @ str_bytes ''+'' @ replicate 49 0"

definition kbdus :: bytes where
  "kbdus = key_table ''1234567890-='' ''qwertyuiop[]'' (''asdfghjkl;'' @ [CHR 39] @ ''`'') (CHR 92 # ''zxcvbnm,./'')"

definition shiftcodes :: bytes where
  "shiftcodes = key_table ''!@#$%^&*()_+'' ''QWERTYUIOP{}'' (''ASDFGHJKL:'' @ [CHR 34] @ ''~'') ''|ZXCVBNM<>?''"

subsection \<open>The state of the reader\<close>

definition set_flag :: "'z kb_state_scheme \<Rightarrow> 'z kb_state_scheme" where
  "set_flag s = s\<lparr>kb_flag := 1\<rparr>"

definition get_flag :: "'z kb_state_scheme \<Rightarrow> u64" where
  "get_flag s = scast (kb_flag s)"

definition unset_flag :: "'z kb_state_scheme \<Rightarrow> 'z kb_state_scheme" where
  "unset_flag s = s\<lparr>kb_flag := 0\<rparr>"

definition set_waiting_task :: "u64 \<Rightarrow> 'z kb_state_scheme \<Rightarrow> 'z kb_state_scheme" where
  "set_waiting_task task s = s\<lparr>waiting_task := task\<rparr>"

definition get_waiting_task :: "'z kb_state_scheme \<Rightarrow> u64" where
  "get_waiting_task s = waiting_task s"

definition wake_waiting_task :: "'z kb_state_scheme \<Rightarrow> 'z kb_state_scheme option" where
  "wake_waiting_task s = upd_task (waiting_task s) (\<lambda>t. t\<lparr>t_state := TASK_RUNNABLE\<rparr>) s"

definition gets :: "u64 \<Rightarrow> u32 \<Rightarrow> 'z kb_state_scheme \<Rightarrow> 'z kb_state_scheme" where
  "gets buf nbytes s = s\<lparr>kb_str := buf, kb_count := scast nbytes\<rparr>"

subsection \<open>Keys\<close>

text \<open>\<open>a[i] = c\<close>\<close>

definition set_a :: "u32 \<Rightarrow> u8 \<Rightarrow> 'z kb_state_scheme \<Rightarrow> 'z kb_state_scheme option" where
  "set_a i c s = (if 0 \<le> sint i \<and> nat (sint i) < length (kb_a s)
     then Some (s\<lparr>kb_a := (kb_a s)[nat (sint i) := c]\<rparr>) else None)"

text \<open>Delivery of the first \<open>n\<close> bytes of the buffer; the loop over \<open>j\<close> clears one byte, since \<open>i\<close> has just
  been set to 0.\<close>

definition deliver :: "nat \<Rightarrow> 'z kb_state_scheme \<Rightarrow> 'z kb_state_scheme option" where
  "deliver n s = do {
     let s = unset_flag s;
     let k_cr3 = cr3 s;
     w \<leftarrow> deref (tasks s) (waiting_task s);
     let s = write_cr3 (virt_to_phy (t_pml4e w) 0 s) s;
     s \<leftarrow> (if n \<le> length (kb_a s) then vstore_bytes (take n (kb_a s)) (kb_str s) s else None);
     let s = write_cr3 k_cr3 s;
     let s = s\<lparr>kb_i := 0\<rparr>;
     s \<leftarrow> set_a 0 0 s;
     wake_waiting_task s
   }"

text \<open>A character for the waiting reader.\<close>

definition accept_char :: "'z kb_state_scheme \<Rightarrow> 'z kb_state_scheme option" where
  "accept_char s =
     (if current_char s = 0x0A then do {
        s \<leftarrow> set_a (kb_i s) 0x0A s;
        let s = s\<lparr>kb_i := kb_i s + 1\<rparr>;
        deliver (nat (sint (kb_i s))) s
      }
      else if current_char s = 0x08 \<and> sint (kb_i s) > 0 then do {
        s \<leftarrow> set_a (kb_i s) 0 s;
        Some (s\<lparr>kb_i := kb_i s - 1\<rparr>)
      }
      else do {
        s \<leftarrow> set_a (kb_i s) (current_char s) s;
        let s = s\<lparr>kb_i := kb_i s + 1\<rparr>;
        if scast (kb_i s) \<ge> kb_count s then deliver 1 s else Some s
      })"

definition handlekey :: "u8 \<Rightarrow> 'z kb_state_scheme \<Rightarrow> 'z kb_state_scheme option" where
  "handlekey scancode s = do {
     let c = (if current_control s = SHIFT_KEY then shiftcodes else kbdus) ! unat scancode;
     let s = kprintf (str_bytes ''%c'') [ucast c] s;
     s \<leftarrow> kprintat 73 24 (str_bytes ''glyph:%c'') [ucast c] s;
     let s = s\<lparr>current_char := c\<rparr>;
     s \<leftarrow>
       (if kb_flag s = 1 then do {
          s \<leftarrow> kprintf2 (str_bytes ''%c'') [scast (current_char s)] s;
          accept_char s
        }
        else Some s);
     Some (s\<lparr>current_control := NORMAL_KEY\<rparr>)
   }"

definition kb_handler :: "'z kb_state_scheme \<Rightarrow> 'z kb_state_scheme option" where
  "kb_handler s = do {
     let scancode = inportb 0x60 s;
     s \<leftarrow> (if scancode AND 0x80 \<noteq> 0 then Some s
          else if scancode = 42 then Some (s\<lparr>current_control := SHIFT_KEY\<rparr>)
          else if scancode = 56 then Some (s\<lparr>current_control := ALT_KEY\<rparr>)
          else if scancode = 29 then Some (s\<lparr>current_control := CONTROL_KEY\<rparr>)
          else handlekey scancode s);
     Some (outportb 0x20 0x20 s)
   }"

lemma table_lengths: "length kbdus = 128" "length shiftcodes = 128"
  by code_simp+

subsection \<open>The echo changes only the screen\<close>

lemma kvsprintf_char: "kvsprintf (str_bytes ''%c'') [a] m = Some ([ucast (ucast a :: u32)], m)"
  by (simp add: kvsprintf_def str_bytes_def directive_def parse_width_def parse_precision_def
    parse_qualifier_def is_digit_def va_int_def format_c_def Let_def)

lemma kvsprintf_glyph: "kvsprintf (str_bytes ''glyph:%c'') [a] m = Some (str_bytes ''glyph:'' @ [ucast (ucast a :: u32)], m)"
  by (simp add: kvsprintf_def str_bytes_def directive_def parse_width_def parse_precision_def
    parse_qualifier_def is_digit_def va_int_def format_c_def Let_def)

text \<open>The state apart from what the console driver changes.\<close>

definition off_screen :: "'z con_state_scheme \<Rightarrow> 'z con_state_scheme" where
  "off_screen s = s\<lparr>vmem := (\<lambda>_. 0), cursor_x := 0, cursor_y := 0, ports := []\<rparr>"

definition screen_only :: "'z con_state_scheme \<Rightarrow> 'z con_state_scheme \<Rightarrow> bool" where
  "screen_only s s' \<longleftrightarrow> off_screen s' = off_screen s"

lemma off_screen_simps [simp]:
  "off_screen (s\<lparr>vmem := m\<rparr>) = off_screen s" "off_screen (s\<lparr>cursor_x := x\<rparr>) = off_screen s"
  "off_screen (s\<lparr>cursor_y := y\<rparr>) = off_screen s" "off_screen (s\<lparr>ports := ps\<rparr>) = off_screen s"
  "off_screen (vga_store a b s) = off_screen s" "off_screen (outportb p v s) = off_screen s"
  by (simp_all add: off_screen_def vga_store_def outportb_def)

lemma screen_onlyD:
  assumes "screen_only s s'"
  shows "s' = s\<lparr>vmem := vmem s', cursor_x := cursor_x s', cursor_y := cursor_y s', ports := ports s'\<rparr>"
proof -
  have "s' = (off_screen s')\<lparr>vmem := vmem s', cursor_x := cursor_x s', cursor_y := cursor_y s', ports := ports s'\<rparr>"
    by (simp add: off_screen_def)
  also have "off_screen s' = off_screen s" using assms by (simp add: screen_only_def)
  finally show ?thesis by (simp add: off_screen_def)
qed

lemma off_screen_move_csr [simp]: "off_screen (move_csr s) = off_screen s"
  by (simp add: move_csr_def Let_def)

lemma off_screen_scroll [simp]: "off_screen (scroll s) = off_screen s"
  by (simp add: scroll_def Let_def)

lemma off_screen_backspace [simp]: "off_screen (handle_backspace s) = off_screen s"
  by (simp add: handle_backspace_def Let_def)

lemma off_screen_putch [simp]: "off_screen (putch c s) = off_screen s"
  by (simp add: putch_def Let_def)

lemma off_screen_puts [simp]: "off_screen (puts xs s) = off_screen s"
  by (induction xs arbitrary: s) simp_all

lemma off_screen_puttimer [simp]: "off_screen (puttimer x y xs s) = off_screen s"
proof -
  have "off_screen (fold (\<lambda>i. vga_store (f i) b) is s) = off_screen s" for f b "is" and s :: "'a con_state_scheme"
    by (induction "is" arbitrary: s) simp_all
  moreover have "off_screen (puttimer_text x y xs t) = off_screen t" for t :: "'a con_state_scheme"
    by (induction xs arbitrary: x t) simp_all
  ultimately show ?thesis by (simp add: puttimer_def puttimer_row_def)
qed

lemma kprintf2_char: "\<exists>s'. kprintf2 (str_bytes ''%c'') [a] s = Some s' \<and> screen_only s s'"
  by (simp add: kprintf2_def kvsprintf_char screen_only_def)

lemma kprintat_glyph: "\<exists>s'. kprintat x y (str_bytes ''glyph:%c'') [a] s = Some s' \<and> screen_only s s'"
  by (simp add: kprintat_def kvsprintf_glyph screen_only_def)

subsection \<open>Reading a line\<close>

definition key_char :: "control \<Rightarrow> u8 \<Rightarrow> u8" where
  "key_char ctl sc = (if ctl = SHIFT_KEY then shiftcodes else kbdus) ! unat sc"

lemma handlekey_echo:
  assumes "kb_flag s = 1"
  shows "\<exists>m x y ps. handlekey sc s = map_option (\<lambda>s. s\<lparr>current_control := NORMAL_KEY\<rparr>)
    (accept_char (s\<lparr>vmem := m, cursor_x := x, cursor_y := y, ports := ps, current_char := key_char (current_control s) sc\<rparr>))"
proof -
  let ?c = "key_char (current_control s) sc"
  obtain s1 where s1: "kprintat 73 24 (str_bytes ''glyph:%c'') [ucast ?c] s = Some s1" "screen_only s s1"
    using kprintat_glyph by blast
  obtain s2 where s2: "kprintf2 (str_bytes ''%c'') [scast ?c] (s1\<lparr>current_char := ?c\<rparr>) = Some s2"
    "screen_only (s1\<lparr>current_char := ?c\<rparr>) s2"
    using kprintf2_char by blast
  note u1 = screen_onlyD [OF s1(2)] and u2 = screen_onlyD [OF s2(2)]
  have flag: "kb_flag s1 = 1" using assms by (subst u1) simp
  have "s2 = s\<lparr>vmem := vmem s2, cursor_x := cursor_x s2, cursor_y := cursor_y s2, ports := ports s2, current_char := ?c\<rparr>"
    by (subst u2, subst u1) simp
  moreover have "handlekey sc s = map_option (\<lambda>s. s\<lparr>current_control := NORMAL_KEY\<rparr>) (accept_char s2)"
    using s1(1) s2(1) flag by (cases "accept_char s2") (simp_all add: handlekey_def kprintf_def key_char_def Let_def)
  ultimately show ?thesis by metis
qed

text \<open>The line editor that the driver implements: a backspace takes the last character back, any other
  character, also a backspace on an empty line, is added.\<close>

definition edit :: "bytes \<Rightarrow> u8 \<Rightarrow> bytes" where
  "edit line c = (if c = 0x08 \<and> line \<noteq> [] then butlast line else line @ [c])"

text \<open>The driver is collecting a line for a reader, and has \<open>line\<close> so far.\<close>

definition collecting :: "bytes \<Rightarrow> 'z kb_state_scheme \<Rightarrow> bool" where
  "collecting line s \<longleftrightarrow> kb_flag s = 1 \<and> length (kb_a s) = 1024 \<and> length line < 1024 \<and>
     kb_i s = of_nat (length line) \<and> take (length line) (kb_a s) = line"

text \<open>The state apart from the screen, the ports and what the driver keeps for itself.\<close>

definition off_kb :: "'z kb_state_scheme \<Rightarrow> 'z kb_state_scheme" where
  "off_kb s = (off_screen s)\<lparr>port_in := (\<lambda>_. 0), current_control := NORMAL_KEY, kb_flag := 0, kb_i := 0, kb_a := [], current_char := 0\<rparr>"

lemma sint_length: "length line < 1024 \<Longrightarrow> sint (of_nat (length line) :: u32) = int (length line)"
  by (rule sint_of_nat_small) simp

lemma set_a_next:
  assumes "collecting line s"
  shows "set_a (kb_i s) c s = Some (s\<lparr>kb_a := (kb_a s)[length line := c]\<rparr>)"
  using assms by (simp add: collecting_def set_a_def sint_length)

lemma take_Suc_update: "k < length a \<Longrightarrow> take (Suc k) (a[k := c]) = take k a @ [c]"
  by (simp add: take_Suc_conv_app_nth)

lemma accept_char_edits:
  assumes s: "collecting line s" and c: "current_char s \<noteq> 0x0A" and len: "length line < 1023" "length line + 1 < unat (kb_count s)"
  shows "\<exists>s'. accept_char s = Some s' \<and> collecting (edit line (current_char s)) s' \<and> off_kb s' = off_kb s"
proof (cases "current_char s = 0x08 \<and> line \<noteq> []")
  case True
  then have pos: "sint (kb_i s) > 0" using s by (auto simp: collecting_def sint_length)
  let ?s' = "s\<lparr>kb_a := (kb_a s)[length line := 0], kb_i := kb_i s - 1\<rparr>"
  have "accept_char s = Some ?s'" using c True pos set_a_next [OF s, of 0] by (simp add: accept_char_def)
  moreover have "kb_i s - 1 = of_nat (length (butlast line))"
    using s True by (cases line rule: rev_cases) (auto simp: collecting_def)
  moreover have "take (length (butlast line)) ((kb_a s)[length line := 0]) = butlast line"
    using s by (simp add: collecting_def take_update_cancel butlast_conv_take) (metis diff_le_self min.absorb1 take_take)
  moreover have "length line - Suc 0 < 1024" using s by (auto simp: collecting_def)
  ultimately show ?thesis
    using s True by (intro exI [of _ ?s']) (simp add: collecting_def edit_def off_kb_def off_screen_def)
next
  case False
  let ?s' = "s\<lparr>kb_a := (kb_a s)[length line := current_char s], kb_i := kb_i s + 1\<rparr>"
  have zero: "sint (kb_i s) = int (length line)" using s by (simp add: collecting_def sint_length)
  have next_i: "kb_i s + 1 = of_nat (Suc (length line))" using s by (simp add: collecting_def)
  have "scast (kb_i s + 1) = (of_nat (Suc (length line)) :: u64)"
    using len(1) unfolding next_i by (simp add: scast_eq sint_of_nat_small del: of_nat_Suc)
  then have "\<not> scast (kb_i s + 1) \<ge> kb_count s"
    using len by (simp add: not_le word_less_nat_alt unat_of_nat del: of_nat_Suc)
  then have "accept_char s = Some ?s'"
    using c False zero set_a_next [OF s, of "current_char s"] by (auto simp: accept_char_def Let_def)
  then show ?thesis
    using s len(1) False next_i
    by (intro exI [of _ ?s']) (auto simp: collecting_def edit_def off_kb_def off_screen_def take_Suc_update simp del: of_nat_Suc)
qed

text \<open>The task that waits, its address space, and what the copy of the line does to the memory.\<close>

lemma vstore_bytes_same_memory:
  assumes "pmem s = pmem t" and "cr3 s = cr3 t"
  shows "map_option pmem (vstore_bytes bs va s) = map_option pmem (vstore_bytes bs va t)"
  using assms
proof (induction bs arbitrary: va s t)
  case (Cons b bs)
  have fr: "vtrans va s = vtrans va t"
    using Cons.prems by (simp add: vtrans_def frame_of_def)
  show ?case
  proof (cases "vtrans va t")
    case None
    then show ?thesis using fr by (simp add: vstore8_def)
  next
    case (Some a)
    then show ?thesis
      using fr Cons.prems Cons.IH [of "s\<lparr>pmem := set_phys_byte a b (pmem s)\<rparr>" "t\<lparr>pmem := set_phys_byte a b (pmem t)\<rparr>" "va + 1"]
      by (simp add: vstore8_def)
  qed
qed simp

lemma vstore_bytes_pmem: "vstore_bytes bs va s = Some t \<Longrightarrow> t = s\<lparr>pmem := pmem t\<rparr>"
proof (induction bs arbitrary: va s)
  case (Cons b bs)
  then obtain a where "vtrans va s = Some a" "vstore_bytes bs (va + 1) (s\<lparr>pmem := set_phys_byte a b (pmem s)\<rparr>) = Some t"
    by (auto simp: vstore8_def split: bind_splits)
  from Cons.IH [OF this(2)] show ?case by simp
qed simp

text \<open>The reader: a waiting task with an address space in which the buffer can be written.\<close>

definition line_stored :: "bytes \<Rightarrow> 'z kb_state_scheme \<Rightarrow> (u64 \<Rightarrow> u64) option" where
  "line_stored line s =
     (case deref (tasks s) (waiting_task s) of
        None \<Rightarrow> None
      | Some w \<Rightarrow> map_option pmem (vstore_bytes line (kb_str s) (write_cr3 (virt_to_phy (t_pml4e w) 0 s) s)))"

lemma deliver_effect:
  assumes "length (kb_a s) = 1024" and "n \<le> 1024" and "line_stored (take n (kb_a s)) s = Some m"
  shows "\<exists>s' w. deliver n s = Some s' \<and> deref (tasks s) (waiting_task s) = Some w \<and> kb_flag s' = 0 \<and> kb_i s' = 0 \<and>
    length (kb_a s') = 1024 \<and> current_control s' = current_control s \<and>
    off_kb s' = (off_kb s)\<lparr>pmem := m, tasks := (tasks s)(waiting_task s \<mapsto> w\<lparr>t_state := TASK_RUNNABLE\<rparr>)\<rparr>"
proof -
  obtain w where w: "deref (tasks s) (waiting_task s) = Some w"
    "map_option pmem (vstore_bytes (take n (kb_a s)) (kb_str s) (write_cr3 (virt_to_phy (t_pml4e w) 0 s) s)) = Some m"
    using assms(3) by (auto simp: line_stored_def split: option.splits)
  let ?t = "write_cr3 (virt_to_phy (t_pml4e w) 0 (unset_flag s)) (unset_flag s)"
  have "virt_to_phy (t_pml4e w) 0 (unset_flag s) = virt_to_phy (t_pml4e w) 0 s"
    by (simp add: virt_to_phy_frame_of frame_of_def unset_flag_def)
  then have "map_option pmem (vstore_bytes (take n (kb_a s)) (kb_str s) ?t) = Some m"
    using w(2) vstore_bytes_same_memory [of ?t "write_cr3 (virt_to_phy (t_pml4e w) 0 s) s"]
    by (simp add: write_cr3_def unset_flag_def)
  then obtain u where u: "vstore_bytes (take n (kb_a s)) (kb_str s) ?t = Some u" "pmem u = m" by auto
  have u': "u = ?t\<lparr>pmem := m\<rparr>" using vstore_bytes_pmem [OF u(1)] u(2) by simp
  let ?s' = "s\<lparr>kb_flag := 0, kb_i := 0, kb_a := (kb_a s)[0 := 0], pmem := m,
    tasks := (tasks s)(waiting_task s \<mapsto> w\<lparr>t_state := TASK_RUNNABLE\<rparr>)\<rparr>"
  have "kb_a s \<noteq> []" using assms(1) by auto
  then have "deliver n s = Some ?s'"
    using assms(1,2) w(1) u(1) unfolding u'
    by (simp add: deliver_def unset_flag_def write_cr3_def set_a_def wake_waiting_task_def upd_task_def hupd_def Let_def)
  then show ?thesis using w(1) assms(1) by (intro exI [of _ ?s'] exI [of _ w]) (simp add: off_kb_def off_screen_def)
qed

lemma off_kb_fields:
  assumes "off_kb s = off_kb t"
  shows "kb_count s = kb_count t" "kb_str s = kb_str t" "waiting_task s = waiting_task t" "tasks s = tasks t"
    "pmem s = pmem t" "cr3 s = cr3 t"
  using arg_cong [OF assms, of kb_count] arg_cong [OF assms, of kb_str] arg_cong [OF assms, of waiting_task]
    arg_cong [OF assms, of tasks] arg_cong [OF assms, of pmem] arg_cong [OF assms, of cr3]
  by (simp_all add: off_kb_def off_screen_def)

lemma line_stored_cong:
  assumes "off_kb s = off_kb t"
  shows "line_stored line s = line_stored line t"
proof -
  note f = off_kb_fields [OF assms]
  have "virt_to_phy a 0 s = virt_to_phy a 0 t" for a
    using f by (simp add: virt_to_phy_frame_of frame_of_def)
  then show ?thesis
    using f vstore_bytes_same_memory [of "write_cr3 v s" "write_cr3 v t" for v]
    by (auto simp: line_stored_def write_cr3_def split: option.splits)
qed

text \<open>A key event: the keyboard controller presents a scan code and interrupts.\<close>

definition press :: "u8 \<Rightarrow> 'z kb_state_scheme \<Rightarrow> 'z kb_state_scheme option" where
  "press sc s = kb_handler (s\<lparr>port_in := (port_in s)(0x60 := sc)\<rparr>)"

fun press_all :: "u8 list \<Rightarrow> 'z kb_state_scheme \<Rightarrow> 'z kb_state_scheme option" where
  "press_all [] s = Some s"
| "press_all (sc # scs) s = do { s \<leftarrow> press sc s; press_all scs s }"

lemma press_all_append: "press_all (xs @ ys) s = do { s \<leftarrow> press_all xs s; press_all ys s }"
  by (induction xs arbitrary: s) (simp_all split: bind_splits)

text \<open>The characters that scan codes stand for: codes of released keys count for nothing, the modifier
  keys apply to the next key.\<close>

fun decode :: "control \<Rightarrow> u8 list \<Rightarrow> bytes" where
  "decode ctl [] = []"
| "decode ctl (sc # scs) =
     (if sc AND 0x80 \<noteq> 0 then decode ctl scs
      else if sc = 42 then decode SHIFT_KEY scs
      else if sc = 56 then decode ALT_KEY scs
      else if sc = 29 then decode CONTROL_KEY scs
      else key_char ctl sc # decode NORMAL_KEY scs)"

text \<open>A key event either only changes the modifier that is held or is a character for \<open>handlekey\<close>.\<close>

lemma press_cases:
  obtains (pass) ctl where "decode (current_control s) (sc # scs) = decode ctl scs"
      "press sc s = Some (outportb 0x20 0x20 (s\<lparr>port_in := (port_in s)(0x60 := sc), current_control := ctl\<rparr>))"
    | (key) "decode (current_control s) (sc # scs) = key_char (current_control s) sc # decode NORMAL_KEY scs"
      "press sc s = map_option (outportb 0x20 0x20) (handlekey sc (s\<lparr>port_in := (port_in s)(0x60 := sc)\<rparr>))"
proof -
  let ?p = "s\<lparr>port_in := (port_in s)(0x60 := sc)\<rparr>"
  have r: "kb_handler ?p = map_option (outportb 0x20 0x20)
    (if sc AND 0x80 \<noteq> 0 then Some ?p else if sc = 42 then Some (?p\<lparr>current_control := SHIFT_KEY\<rparr>)
     else if sc = 56 then Some (?p\<lparr>current_control := ALT_KEY\<rparr>)
     else if sc = 29 then Some (?p\<lparr>current_control := CONTROL_KEY\<rparr>) else handlekey sc ?p)"
    by (simp add: kb_handler_def inportb_def Let_def split: bind_splits)
  show thesis
    by (cases "sc AND 0x80 \<noteq> 0"; cases "sc = 42"; cases "sc = 56"; cases "sc = 29")
      (use that r in \<open>simp_all add: press_def\<close>)
qed

lemma collecting_port: "collecting line (s\<lparr>port_in := f\<rparr>) = collecting line s"
  by (simp add: collecting_def)

lemma off_kb_updates [simp]:
  "off_kb (s\<lparr>port_in := f\<rparr>) = off_kb s" "off_kb (s\<lparr>current_control := c\<rparr>) = off_kb s"
  "off_kb (outportb p v s) = off_kb s" "off_kb (s\<lparr>current_char := ch\<rparr>) = off_kb s"
  "off_kb (s\<lparr>vmem := m\<rparr>) = off_kb s" "off_kb (s\<lparr>cursor_x := x\<rparr>) = off_kb s"
  "off_kb (s\<lparr>cursor_y := y\<rparr>) = off_kb s" "off_kb (s\<lparr>ports := ps\<rparr>) = off_kb s"
  by (simp_all add: off_kb_def off_screen_def outportb_def)

lemma key_step:
  assumes s: "collecting line s" and c: "key_char (current_control s) sc \<noteq> 0x0A"
    and len: "length line < 1023" "length line + 1 < unat (kb_count s)"
  shows "\<exists>s'. handlekey sc s = Some s' \<and> collecting (edit line (key_char (current_control s) sc)) s' \<and>
    off_kb s' = off_kb s \<and> current_control s' = NORMAL_KEY"
proof -
  let ?c = "key_char (current_control s) sc"
  obtain m x y ps where e: "handlekey sc s = map_option (\<lambda>s. s\<lparr>current_control := NORMAL_KEY\<rparr>)
      (accept_char (s\<lparr>vmem := m, cursor_x := x, cursor_y := y, ports := ps, current_char := ?c\<rparr>))"
    using handlekey_echo [of s sc] s by (auto simp: collecting_def)
  let ?t = "s\<lparr>vmem := m, cursor_x := x, cursor_y := y, ports := ps, current_char := ?c\<rparr>"
  have "collecting line ?t" using s by (simp add: collecting_def)
  then obtain t' where t': "accept_char ?t = Some t'" "collecting (edit line (current_char ?t)) t'" "off_kb t' = off_kb ?t"
    using accept_char_edits [of line ?t] c len by auto
  have "collecting (edit line ?c) (t'\<lparr>current_control := NORMAL_KEY\<rparr>)"
    using t'(2) by (simp add: collecting_def)
  then show ?thesis using e t'(1,3) by simp
qed

lemma length_edit: "length (edit line c) \<le> Suc (length line)"
  by (auto simp: edit_def)

lemma press_all_collects:
  "collecting line s \<Longrightarrow> 0x0A \<notin> set (decode (current_control s) scs) \<Longrightarrow>
   length line + length (decode (current_control s) scs) < 1023 \<Longrightarrow>
   length line + length (decode (current_control s) scs) < unat (kb_count s) \<Longrightarrow>
   \<exists>s'. press_all scs s = Some s' \<and> collecting (foldl edit line (decode (current_control s) scs)) s' \<and> off_kb s' = off_kb s"
proof (induction scs arbitrary: line s)
  case (Cons sc scs)
  let ?p = "s\<lparr>port_in := (port_in s)(0x60 := sc)\<rparr>"
  show ?case
  proof (cases rule: press_cases [of s sc scs])
    case (pass ctl)
    let ?q = "outportb 0x20 0x20 (?p\<lparr>current_control := ctl\<rparr>)"
    have q: "collecting line ?q" "current_control ?q = ctl" "kb_count ?q = kb_count s" "off_kb ?q = off_kb s"
      using Cons.prems(1) by (simp_all add: collecting_def outportb_def)
    then have "\<exists>u. press_all scs ?q = Some u \<and> collecting (foldl edit line (decode ctl scs)) u \<and> off_kb u = off_kb ?q"
      using Cons.IH [of line ?q] Cons.prems pass(1) by simp
    then show ?thesis unfolding pass(1) press_all.simps pass(2) q(4) by simp
  next
    case key
    let ?c = "key_char (current_control s) sc"
    have "collecting line ?p" using Cons.prems(1) by (simp add: collecting_def)
    then obtain s' where s': "handlekey sc ?p = Some s'" "collecting (edit line ?c) s'" "off_kb s' = off_kb s"
      "current_control s' = NORMAL_KEY"
      using key_step [of line ?p sc] Cons.prems key(1) by auto
    let ?q = "outportb 0x20 0x20 s'"
    have q: "collecting (edit line ?c) ?q" "current_control ?q = NORMAL_KEY" "kb_count ?q = kb_count s" "off_kb ?q = off_kb s"
      using s' off_kb_fields(1) [OF s'(3)] by (simp_all add: collecting_def outportb_def)
    then have "\<exists>u. press_all scs ?q = Some u \<and> collecting (foldl edit (edit line ?c) (decode NORMAL_KEY scs)) u \<and> off_kb u = off_kb ?q"
      using Cons.IH [of "edit line ?c" ?q] Cons.prems key(1) length_edit [of line ?c] by simp
    then show ?thesis unfolding key(1) press_all.simps key(2) s'(1) q(4) by simp
  qed
qed simp

subsection \<open>Properties\<close>

text \<open>C30: the driver refines the line editor: whatever keys are pressed while a task waits for a line
  that fits, with modifier keys, released keys and corrections, at the enter key the edited line and
  its new line are in the buffer of the reader, in the reader's address space, the reader is runnable,
  and apart from the screen nothing else has changed.\<close>

lemma keyboard_delivers_line:
  assumes s: "collecting [] s" and keys: "decode (current_control s) scs = cs" "0x0A \<notin> set cs"
    and len: "length cs < 1023" "length cs < unat (kb_count s)"
    and mem: "line_stored (foldl edit [] cs @ [0x0A]) s = Some m"
  shows "\<exists>s' w. press_all (scs @ [28]) s = Some s' \<and> deref (tasks s) (waiting_task s) = Some w \<and>
    kb_flag s' = 0 \<and> kb_i s' = 0 \<and>
    off_kb s' = (off_kb s)\<lparr>pmem := m, tasks := (tasks s)(waiting_task s \<mapsto> w\<lparr>t_state := TASK_RUNNABLE\<rparr>)\<rparr>"
proof -
  let ?line = "foldl edit [] cs"
  obtain u where u: "press_all scs s = Some u" "collecting ?line u" "off_kb u = off_kb s"
    using press_all_collects [OF s, of scs] keys len by auto
  let ?p = "u\<lparr>port_in := (port_in u)(0x60 := 28)\<rparr>"
  have nl: "key_char ctl 28 = 0x0A" for ctl
    by (cases "ctl = SHIFT_KEY") (simp_all add: key_char_def kbdus_def shiftcodes_def key_table_def str_bytes_def)
  obtain vm x y ps where e: "handlekey 28 ?p = map_option (\<lambda>s. s\<lparr>current_control := NORMAL_KEY\<rparr>)
      (accept_char (?p\<lparr>vmem := vm, cursor_x := x, cursor_y := y, ports := ps, current_char := key_char (current_control ?p) 28\<rparr>))"
    using handlekey_echo [of ?p 28] u(2) by (auto simp: collecting_def)
  let ?t = "?p\<lparr>vmem := vm, cursor_x := x, cursor_y := y, ports := ps, current_char := 0x0A\<rparr>"
  have t: "collecting ?line ?t" "off_kb ?t = off_kb s" using u(2,3) by (simp_all add: collecting_def)
  let ?v = "?t\<lparr>kb_a := (kb_a ?t)[length ?line := 0x0A], kb_i := kb_i ?t + 1\<rparr>"
  have "kb_i ?t + 1 = of_nat (Suc (length ?line))" using t(1) by (simp add: collecting_def)
  moreover have "sint (of_nat (Suc (length ?line)) :: u32) = int (Suc (length ?line))"
    using t(1) by (intro sint_of_nat_small) (simp add: collecting_def)
  ultimately have "nat (sint (kb_i ?t + 1)) = Suc (length ?line)" by (simp only: nat_int)
  then have acc: "accept_char ?t = deliver (Suc (length ?line)) ?v"
    using set_a_next [OF t(1), of "0x0A"] by (simp add: accept_char_def Let_def)
  have v: "off_kb ?v = off_kb s" using t(2) by (simp add: off_kb_def off_screen_def)
  have "line_stored (take (Suc (length ?line)) (kb_a ?v)) ?v = Some m"
    using mem line_stored_cong [OF v] t(1) by (simp add: collecting_def take_Suc_update)
  then obtain s' w where s': "deliver (Suc (length ?line)) ?v = Some s'" "deref (tasks ?v) (waiting_task ?v) = Some w"
    "kb_flag s' = 0" "kb_i s' = 0"
    "off_kb s' = (off_kb ?v)\<lparr>pmem := m, tasks := (tasks ?v)(waiting_task ?v \<mapsto> w\<lparr>t_state := TASK_RUNNABLE\<rparr>)\<rparr>"
    using deliver_effect [of ?v "Suc (length ?line)" m] t(1) by (auto simp: collecting_def)
  let ?r = "outportb 0x20 0x20 (s'\<lparr>current_control := NORMAL_KEY\<rparr>)"
  have "press 28 u = Some ?r"
    using e acc s'(1) by (simp add: press_def kb_handler_def inportb_def nl Let_def)
  then have "press_all (scs @ [28]) s = Some ?r" using u(1) by (simp add: press_all_append)
  moreover have "tasks ?v = tasks s" "waiting_task ?v = waiting_task s" using off_kb_fields [OF v] by simp_all
  ultimately show ?thesis
    using s' v by (intro exI [of _ ?r] exI [of _ w]) (simp add: outportb_def)
qed

text \<open>A task 32 that waits for a line at \<open>0x401000\<close>, in an address space in which its top-level table is
  at \<open>0x400000\<close>.\<close>

definition ex_kb :: kb_state where
  "ex_kb = con_state.extend (ex_con\<lparr>cr3 := 0x1000, pmem := (\<lambda>a. case map_of [(0x1000, 0x2007), (0x2000, 0x3007),
       (0x3010, 0x4007), (0x4000, 0x1007), (0x4008, 0x5007)] a of Some w \<Rightarrow> w | None \<Rightarrow> 0),
     tasks := (tasks ex_con)(32 := Some ((mk_task 2 TASK_WAITING 48 80)\<lparr>t_pml4e := 0x400000\<rparr>))\<rparr>)
   \<lparr>current_control = NORMAL_KEY, kb_flag = 1, kb_i = 0, kb_str = 0x401000, kb_count = 1024,
    kb_a = replicate 1024 0, current_char = 0, waiting_task = 32\<rparr>"

lemma keyboard_delivers_line_witness:
  "\<exists>m s'. press_all ([42, 30, 158, 48, 46, 14] @ [28]) ex_kb = Some s' \<and> kb_flag s' = 0 \<and>
     line_stored [0x41, 0x62, 0x0A] ex_kb = Some m \<and> pmem s' = m \<and> m 0x5000 = 0x0A6241 \<and>
     t_state (the (tasks s' 32)) = TASK_RUNNABLE"
proof -
  have ctl: "current_control ex_kb = NORMAL_KEY" "kb_count ex_kb = 1024" "waiting_task ex_kb = 32"
    by (simp_all add: ex_kb_def con_state.defs)
  have s: "collecting [] ex_kb" by (simp add: collecting_def ex_kb_def con_state.defs)
  have keys: "decode NORMAL_KEY [42, 30, 158, 48, 46, 14] = [0x41, 0x62, 0x63, 0x08]"
    "foldl edit [] [0x41, 0x62, 0x63, 0x08] = [0x41, 0x62]"
    by code_simp+
  have mem: "map_option (\<lambda>m. m 0x5000) (line_stored [0x41, 0x62, 0x0A] ex_kb) = Some 0x0A6241" by code_simp
  then obtain m where m: "line_stored [0x41, 0x62, 0x0A] ex_kb = Some m" "m 0x5000 = 0x0A6241" by auto
  have "\<exists>s' w. press_all ([42, 30, 158, 48, 46, 14] @ [28]) ex_kb = Some s' \<and> deref (tasks ex_kb) (waiting_task ex_kb) = Some w \<and>
    kb_flag s' = 0 \<and> kb_i s' = 0 \<and>
    off_kb s' = (off_kb ex_kb)\<lparr>pmem := m, tasks := (tasks ex_kb)(waiting_task ex_kb \<mapsto> w\<lparr>t_state := TASK_RUNNABLE\<rparr>)\<rparr>"
    by (rule keyboard_delivers_line [where cs = "[0x41, 0x62, 0x63, 0x08]"]) (use s keys m(1) ctl in simp_all)
  then obtain s' w where s': "press_all ([42, 30, 158, 48, 46, 14] @ [28]) ex_kb = Some s'" "kb_flag s' = 0"
    "off_kb s' = (off_kb ex_kb)\<lparr>pmem := m, tasks := (tasks ex_kb)(waiting_task ex_kb \<mapsto> w\<lparr>t_state := TASK_RUNNABLE\<rparr>)\<rparr>"
    by blast
  have "pmem s' = m" using arg_cong [OF s'(3), of pmem] by (simp add: off_kb_def off_screen_def)
  moreover have "t_state (the (tasks s' 32)) = TASK_RUNNABLE"
    using arg_cong [OF s'(3), of tasks] ctl(3) by (simp add: off_kb_def off_screen_def)
  ultimately show ?thesis using s'(1,2) m by blast
qed

end
