(* ===== verification/Elf.thy ===== *)
theory Elf
  imports Tarfs
begin

section \<open>Loading programs (\<open>w2/sys/process/elf.c\<close>, \<open>w2/crt/crt1.c\<close>)\<close>

text \<open>
  \<open>readElf\<close> makes a task of an executable in the archive: it reads the headers from the kernel image,
  maps and fills the loadable segments in the address space of the new task, adds the memory areas for
  heap and stack, and lays out the arguments on the stack.  The argument strings are in the kernel
  heap; they are passed as byte lists.
\<close>

subsection \<open>Fields of the headers\<close>

text \<open>A little-endian field of \<open>n\<close> bytes of the kernel image, and of a user program's memory.\<close>

definition kload :: "nat \<Rightarrow> u64 \<Rightarrow> cmem \<Rightarrow> u64" where
  "kload n p m = word_of_bytes (kmem_bytes m p n)"

definition e_entry :: "cmem \<Rightarrow> u64 \<Rightarrow> u64" where "e_entry m h = kload 8 (h + 24) m"
definition e_phoff :: "cmem \<Rightarrow> u64 \<Rightarrow> u64" where "e_phoff m h = kload 8 (h + 32) m"
definition e_phentsize :: "cmem \<Rightarrow> u64 \<Rightarrow> u64" where "e_phentsize m h = kload 2 (h + 54) m"
definition e_phnum :: "cmem \<Rightarrow> u64 \<Rightarrow> u64" where "e_phnum m h = kload 2 (h + 56) m"

definition p_type :: "cmem \<Rightarrow> u64 \<Rightarrow> u64" where "p_type m p = kload 4 p m"
definition p_flags :: "cmem \<Rightarrow> u64 \<Rightarrow> u64" where "p_flags m p = kload 4 (p + 4) m"
definition p_offset :: "cmem \<Rightarrow> u64 \<Rightarrow> u64" where "p_offset m p = kload 8 (p + 8) m"
definition p_vaddr :: "cmem \<Rightarrow> u64 \<Rightarrow> u64" where "p_vaddr m p = kload 8 (p + 16) m"
definition p_filesz :: "cmem \<Rightarrow> u64 \<Rightarrow> u64" where "p_filesz m p = kload 8 (p + 32) m"
definition p_memsz :: "cmem \<Rightarrow> u64 \<Rightarrow> u64" where "p_memsz m p = kload 8 (p + 40) m"

definition PT_LOAD :: u64 where "PT_LOAD = 1"

subsection \<open>Segments\<close>

definition load_segment :: "u64 \<Rightarrow> u64 \<Rightarrow> u64 \<Rightarrow> u64 \<Rightarrow> 'z fs_state_scheme \<Rightarrow> 'z fs_state_scheme option" where
  "load_segment task old_cr3 elf_header phdr s = do {
     let m = kmem s;
     let start = p_vaddr m phdr;
     let end_addr = p_vaddr m phdr + p_memsz m phdr;
     t \<leftarrow> deref (tasks s) task;
     (vma, s) \<leftarrow> create_vma (t_mm t) start end_addr VMA_NORMAL (p_flags m phdr) 0 s;
     s \<leftarrow> add_to_vma_list (t_mm t) vma s;
     let s = write_cr3 (virt_to_phy (t_pml4e t) 0 s) s;
     (_, s) \<leftarrow> alloc_pages_at_virt start (p_memsz m phdr)
        (if p_flags m phdr = 0 then PT_PRESENT_FLAG OR PT_USER
         else PT_PRESENT_FLAG OR PT_WRITABLE_FLAG OR PT_USER) s;
     s \<leftarrow> vstore_bytes (kmem_bytes m (elf_header + p_offset m phdr) (unat (p_filesz m phdr))) start s;
     s \<leftarrow> vmemset (unat (p_memsz m phdr - p_filesz m phdr)) (start + p_filesz m phdr) 0 s;
     let s = write_cr3 old_cr3 s;
     upd_mm (t_mm t) (\<lambda>x. x\<lparr>m_total_vm_size := m_total_vm_size x + p_memsz m phdr\<rparr>) s
   }"

fun load_segments :: "nat \<Rightarrow> u64 \<Rightarrow> u64 \<Rightarrow> u64 \<Rightarrow> u64 \<Rightarrow> 'z fs_state_scheme \<Rightarrow> 'z fs_state_scheme option" where
  "load_segments 0 task old_cr3 elf_header phdr s = Some s"
| "load_segments (Suc n) task old_cr3 elf_header phdr s = do {
     s \<leftarrow> (if p_type (kmem s) phdr = PT_LOAD then load_segment task old_cr3 elf_header phdr s else Some s);
     load_segments n task old_cr3 elf_header (phdr + e_phentsize (kmem s) elf_header) s
   }"

subsection \<open>The initial stack\<close>

text \<open>The strings are pushed from the last to the first, each with its terminator; the result is their
  addresses and the new stack pointer.\<close>

fun push_strings :: "bytes list \<Rightarrow> u64 \<Rightarrow> 'z mmu_state_scheme \<Rightarrow> (u64 list \<times> u64 \<times> 'z mmu_state_scheme) option" where
  "push_strings [] p s = Some ([], p, s)"
| "push_strings (x # xs) p s = do {
     (addr, p, s) \<leftarrow> push_strings xs p s;
     let p = p - (of_nat (length x) + 1);
     s \<leftarrow> vstore_bytes (x @ [0]) p s;
     Some (p # addr, p, s)
   }"

fun push_words :: "u64 list \<Rightarrow> u64 \<Rightarrow> 'z mmu_state_scheme \<Rightarrow> (u64 \<times> 'z mmu_state_scheme) option" where
  "push_words [] p s = Some (p, s)"
| "push_words (w # ws) p s = do {
     (p, s) \<leftarrow> push_words ws p s;
     let p = p - 8;
     s \<leftarrow> vstore64 p w s;
     Some (p, s)
   }"

text \<open>The part of \<open>setup_stack\<close> that fills the stack, from the stack pointer \<open>p\<close> on.\<close>

definition fill_stack :: "bytes list \<Rightarrow> bytes list \<Rightarrow> u64 \<Rightarrow> 'z mmu_state_scheme \<Rightarrow> (u64 \<times> 'z mmu_state_scheme) option" where
  "fill_stack argv envp p s = do {
     (addr1, p, s) \<leftarrow> push_strings envp p s;
     (addr, p, s) \<leftarrow> push_strings argv p s;
     let p = (if length argv > 0 then p - 8 else p);
     (p, s) \<leftarrow> push_words addr1 p s;
     let p = (if length argv > 0 then p - 8 else p - 8 - 8);
     (p, s) \<leftarrow> push_words addr p s;
     push_words [of_nat (length argv)] p s
   }"

definition setup_stack :: "u64 \<Rightarrow> bytes list \<Rightarrow> bytes list \<Rightarrow> 'z proc_state_scheme \<Rightarrow> 'z proc_state_scheme option" where
  "setup_stack task argv envp s = do {
     t \<leftarrow> deref (tasks s) task;
     s \<leftarrow> upd_mm (t_mm t) (\<lambda>m. m\<lparr>m_stack_vm := USER_STACK - 8\<rparr>) s;
     let s = write_cr3 (virt_to_phy (t_pml4e t) 0 s) s;
     (_, s) \<leftarrow> alloc_pages_at_virt (USER_STACK - PAGE_SIZE) PAGE_SIZE (PT_PRESENT_FLAG OR PT_USER OR PT_WRITABLE_FLAG) s;
     m \<leftarrow> deref (mms s) (t_mm t);
     (p, s) \<leftarrow> fill_stack argv envp (m_stack_vm m) s;
     upd_mm (t_mm t) (\<lambda>m. m\<lparr>m_stack_vm := p\<rparr>) s
   }"

definition readElf :: "bytes \<Rightarrow> bytes list \<Rightarrow> bytes list \<Rightarrow> 'z fs_state_scheme \<Rightarrow> (u64 \<times> 'z fs_state_scheme) option" where
  "readElf filename argv envp s = do {
     (offset, s) \<leftarrow> find_offset_for_file filename s;
     let elf_header = tarfs_start s + offset;
     (task, s) \<leftarrow> create_new_task filename s;
     s \<leftarrow> upd_task task (\<lambda>t. t\<lparr>t_e_entry := e_entry (kmem s) elf_header\<rparr>) s;
     let old_cr3 = cr3 s;
     let pgm_hdr_num = e_phnum (kmem s) elf_header;
     let phdr = elf_header + e_phoff (kmem s) elf_header;
     s \<leftarrow> load_segments (unat pgm_hdr_num) task old_cr3 elf_header phdr s;
     t \<leftarrow> deref (tasks s) task;
     s \<leftarrow> upd_mm (t_mm t) (\<lambda>m. m\<lparr>m_brk_start := USER_HEAP, m_brk_end := USER_HEAP\<rparr>) s;
     (vma, s) \<leftarrow> create_vma (t_mm t) USER_HEAP USER_HEAP VMA_HEAP VM_RW 0 s;
     s \<leftarrow> add_to_vma_list (t_mm t) vma s;
     (vma, s) \<leftarrow> create_vma (t_mm t) USER_STACK (USER_STACK - USER_STACK_SIZE) VMA_STACK VM_RW 0 s;
     s \<leftarrow> add_to_vma_list (t_mm t) vma s;
     s \<leftarrow> upd_mm (t_mm t) (\<lambda>m. m\<lparr>m_total_vm_size := m_total_vm_size m + USER_STACK_SIZE\<rparr>) s;
     s \<leftarrow> setup_stack task argv envp s;
     let s = write_cr3 old_cr3 s;
     m \<leftarrow> deref (mms s) (t_mm t);
     s \<leftarrow> upd_task task (\<lambda>t. t\<lparr>t_r := (t_r t)\<lparr>r_rsp := m_stack_vm m, r_rip := t_e_entry t\<rparr>\<rparr>) s;
     Some (task, s)
   }"

subsection \<open>The start of a program\<close>

text \<open>What \<open>_start\<close> passes to \<open>main\<close>: the function's prologue pushes the frame pointer, so that \<open>rsp\<close> is
  one word below the word that \<open>setup_stack\<close> pushed last.\<close>

definition start_args :: "u64 \<Rightarrow> 'z mmu_state_scheme \<Rightarrow> (u64 \<times> u64 \<times> u64) option" where
  "start_args rsp s = do {
     argc \<leftarrow> vload64 (rsp + 8) s;
     let argv = rsp + 0x2 * 8;
     let envp = (if argc > 1 then argv + (argc - 1) * 8 + 0x2 * 8 else argv + 0x2 * 8);
     Some (argc, argv, envp)
   }"

end
