(* ===== verification/Syscall.thy ===== *)
theory Syscall
  imports Keyboard Elf
begin

section \<open>System calls and pipes (\<open>w2/sys/syscall.c\<close>, \<open>syscall_handler\<close> of \<open>w2/sys/idt.c\<close>)\<close>

text \<open>
  A system call either returns a value to the program or gives up the processor with \<open>int $0x20\<close>.
  Every handler that does the latter has first set the current task to NULL, so that the timer
  interrupt saves nothing and the task resumes, when it is scheduled again, with the registers saved at
  the entry of the call: the C code behind \<open>int $0x20\<close> is never reached.  This is the outcome \<open>Resched\<close>.

  Arguments that are addresses of a program are addresses in the current address space; strings and
  buffers there are read and written byte by byte (\<open>vload_bytes\<close>, \<open>vstore_bytes\<close>).  Pipes are
  \<open>struct file\<close> objects in the heap \<open>files\<close>, linked from the task; their data is one page of memory.
\<close>

record sys_state = kb_state +
  pipe_read_wait_queue :: u64
  pipe_str :: u64
  pipe_count :: u64
  pipe_write_flag :: u32

datatype 's outcome = Return u64 's | Resched 's

definition ret_void :: "'s option \<Rightarrow> 's outcome option" where
  "ret_void r = map_option (Return 0) r"

definition ret_val :: "(u64 \<times> 's) option \<Rightarrow> 's outcome option" where
  "ret_val r = map_option (\<lambda>(v, s). Return v s) r"

subsection \<open>Strings in the address space of a program\<close>

partial_function (option) vread_cstr :: "u64 \<Rightarrow> 'z mmu_state_scheme \<Rightarrow> bytes option" where
  "vread_cstr va s = do {
     b \<leftarrow> vload8 va s;
     if b = 0 then Some [] else do { bs \<leftarrow> vread_cstr (va + 1) s; Some (b # bs) }
   }"

declare vread_cstr.simps [code]

text \<open>\<open>((char **)p)[i]\<close> up to the null pointer.\<close>

partial_function (option) vread_strings :: "u64 \<Rightarrow> 'z mmu_state_scheme \<Rightarrow> bytes list option" where
  "vread_strings p s = do {
     a \<leftarrow> vload64 p s;
     if a = 0 then Some []
     else do { x \<leftarrow> vread_cstr a s; xs \<leftarrow> vread_strings (p + 8) s; Some (x # xs) }
   }"

declare vread_strings.simps [code]

subsection \<open>The pipes of a task\<close>

definition add_pipe_to_task :: "u64 \<Rightarrow> u64 \<Rightarrow> 'z fs_state_scheme \<Rightarrow> 'z fs_state_scheme option" where
  "add_pipe_to_task task pipe s = do {
     t \<leftarrow> deref (tasks s) task;
     (h, l) \<leftarrow> append_node fl_next set_fl_next (files s) (t_pipe t) pipe;
     upd_task task (\<lambda>t. t\<lparr>t_pipe := l\<rparr>) (s\<lparr>files := h\<rparr>)
   }"

definition is_file_pipe :: "u64 \<Rightarrow> u64 \<Rightarrow> 'z fs_state_scheme \<Rightarrow> bool option" where
  "is_file_pipe task fd s = do {
     t \<leftarrow> deref (tasks s) task;
     p \<leftarrow> list_find fl_next (files s) (\<lambda>_ x. fl_fd x = fd) (t_pipe t);
     Some (p \<noteq> 0)
   }"

partial_function (option) remove_pipe_loop :: "u64 \<Rightarrow> u64 \<Rightarrow> u64 \<Rightarrow> 'z fs_state_scheme \<Rightarrow> 'z fs_state_scheme option" where
  "remove_pipe_loop fd prev cur s =
     (if cur = 0 then Some s
      else do {
        c \<leftarrow> deref (files s) cur;
        if fl_fd c = fd then upd_file prev (set_fl_next (fl_next c)) s
        else remove_pipe_loop fd cur (fl_next c) s
      })"

declare remove_pipe_loop.simps [code]

definition remove_pipe_from_task :: "u64 \<Rightarrow> u64 \<Rightarrow> 'z fs_state_scheme \<Rightarrow> 'z fs_state_scheme option" where
  "remove_pipe_from_task task fd s =
     (if task = 0 then Some s
      else do {
        t \<leftarrow> deref (tasks s) task;
        if t_pipe t = 0 then Some s
        else do {
          p \<leftarrow> deref (files s) (t_pipe t);
          if fl_fd p = fd then upd_task task (\<lambda>t. t\<lparr>t_pipe := fl_next p\<rparr>) s
          else remove_pipe_loop fd (t_pipe t) (fl_next p) s
        }
      })"

text \<open>\<open>nbytes\<close> is an \<open>int\<close>; as the size of a copy it is converted to an unsigned long.\<close>

definition int_size :: "u32 \<Rightarrow> nat" where
  "int_size nbytes = unat (scast nbytes :: u64)"

partial_function (option) write_to_pipe_loop :: "u64 \<Rightarrow> u64 \<Rightarrow> u32 \<Rightarrow> u64 \<Rightarrow> 'z fs_state_scheme \<Rightarrow> 'z fs_state_scheme option" where
  "write_to_pipe_loop fd buf nbytes temp s =
     (if temp = 0 then Some s
      else do {
        x \<leftarrow> deref (files s) temp;
        s \<leftarrow> (if fl_fd x = fd then do {
                s \<leftarrow> vmemcpy (int_size nbytes) (fl_addr x + fl_offset x) buf s;
                upd_file temp (\<lambda>x. x\<lparr>fl_offset := fl_offset x + scast nbytes\<rparr>) s
              }
              else Some s);
        write_to_pipe_loop fd buf nbytes (fl_next x) s
      })"

definition write_to_pipe :: "u64 \<Rightarrow> u64 \<Rightarrow> u64 \<Rightarrow> u32 \<Rightarrow> 'z fs_state_scheme \<Rightarrow> 'z fs_state_scheme option" where
  "write_to_pipe task fd buf nbytes s = do {
     t \<leftarrow> deref (tasks s) task;
     write_to_pipe_loop fd buf nbytes (t_pipe t) s
   }"

partial_function (option) read_from_pipe_loop :: "u64 \<Rightarrow> u64 \<Rightarrow> u32 \<Rightarrow> u64 \<Rightarrow> 'z fs_state_scheme \<Rightarrow> 'z fs_state_scheme option" where
  "read_from_pipe_loop fd outbuf nbytes temp s =
     (if temp = 0 then Some s
      else do {
        x \<leftarrow> deref (files s) temp;
        s \<leftarrow> (if fl_fd x = fd then do {
                s \<leftarrow> vmemcpy (int_size nbytes) outbuf (fl_addr x + fl_offset x) s;
                upd_file temp (\<lambda>x. x\<lparr>fl_offset := fl_offset x + scast nbytes\<rparr>) s
              }
              else Some s);
        read_from_pipe_loop fd outbuf nbytes (fl_next x) s
      })"

definition read_from_pipe :: "u64 \<Rightarrow> u64 \<Rightarrow> u64 \<Rightarrow> u32 \<Rightarrow> 'z fs_state_scheme \<Rightarrow> 'z fs_state_scheme option" where
  "read_from_pipe task fd outbuf nbytes s = do {
     t \<leftarrow> deref (tasks s) task;
     read_from_pipe_loop fd outbuf nbytes (t_pipe t) s
   }"

declare write_to_pipe_loop.simps [code] read_from_pipe_loop.simps [code]

definition copy_pipe :: "u64 \<Rightarrow> u64 \<Rightarrow> 'z fs_state_scheme \<Rightarrow> 'z fs_state_scheme option" where
  "copy_pipe dst src s = do {
     x \<leftarrow> deref (files s) src;
     upd_file dst (\<lambda>d. d\<lparr>fl_name := fl_name x, fl_addr := fl_addr x, fl_fd := fl_fd x, fl_size := fl_size x,
       fl_offset := fl_offset x, fl_next := 0\<rparr>) s
   }"

text \<open>The loop of \<open>fork\<close> and \<open>execve\<close> that gives a task copies of the pipes of another.\<close>

partial_function (option) copy_pipes_loop :: "u64 \<Rightarrow> u64 \<Rightarrow> 'z fs_state_scheme \<Rightarrow> 'z fs_state_scheme option" where
  "copy_pipes_loop task temp s =
     (if temp = 0 then Some s
      else do {
        (pipe, s) \<leftarrow> new_file s;
        s \<leftarrow> copy_pipe pipe temp s;
        s \<leftarrow> add_pipe_to_task task pipe s;
        x \<leftarrow> deref (files s) temp;
        copy_pipes_loop task (fl_next x) s
      })"

declare copy_pipes_loop.simps [code]

definition add_to_pipe_read_waiting_queue :: "u64 \<Rightarrow> 'z sys_state_scheme \<Rightarrow> 'z sys_state_scheme option" where
  "add_to_pipe_read_waiting_queue task s = do {
     s \<leftarrow> upd_task task (\<lambda>t. t\<lparr>t_state := TASK_WAITING\<rparr>) s;
     let s = set_current_task 0 s;
     Some (s\<lparr>pipe_read_wait_queue := task\<rparr>)
   }"

definition wake_up_waiting_task :: "'z sys_state_scheme \<Rightarrow> 'z sys_state_scheme option" where
  "wake_up_waiting_task s =
     (if pipe_read_wait_queue s \<noteq> 0 then do {
        let w = pipe_read_wait_queue s;
        s \<leftarrow> upd_task w (\<lambda>t. t\<lparr>t_state := TASK_RUNNABLE\<rparr>) s;
        t \<leftarrow> deref (tasks s) w;
        s \<leftarrow> read_from_pipe w (t_read_redirection_fd t) (pipe_str s) (ucast (pipe_count s)) s;
        Some (s\<lparr>pipe_write_flag := 0\<rparr>)
      }
      else Some s)"

definition system_pipe :: "u64 \<Rightarrow> 'z fs_state_scheme \<Rightarrow> 'z fs_state_scheme option" where
  "system_pipe fds s = do {
     let task = get_current_task s;
     (p1, s) \<leftarrow> new_file s;
     (p2, s) \<leftarrow> new_file s;
     (addr, s) \<leftarrow> alloc_pages 1 (PT_PRESENT_FLAG OR PT_WRITABLE_FLAG OR PT_USER) s;
     let fd1 = get_fdcount s;
     let s = set_fdcount (get_fdcount s + 1) s;
     let fd2 = get_fdcount s;
     let s = set_fdcount (get_fdcount s + 1) s;
     s \<leftarrow> upd_file p1 (\<lambda>x. x\<lparr>fl_name := str_bytes ''pipe1'', fl_addr := addr, fl_fd := fd1, fl_size := PAGE_SIZE,
       fl_offset := 0, fl_next := 0\<rparr>) s;
     s \<leftarrow> upd_file p2 (\<lambda>x. x\<lparr>fl_name := str_bytes ''pipe2'', fl_addr := addr, fl_fd := fd2, fl_size := PAGE_SIZE,
       fl_offset := 0, fl_next := 0\<rparr>) s;
     s \<leftarrow> add_pipe_to_task task p1 s;
     s \<leftarrow> add_pipe_to_task task p2 s;
     s \<leftarrow> vstore_bytes (take 4 (bytes_of_word fd1)) fds s;
     vstore_bytes (take 4 (bytes_of_word fd2)) (fds + 4) s
   }"

definition system_dup2 :: "u64 \<Rightarrow> u64 \<Rightarrow> 'z proc_state_scheme \<Rightarrow> 'z proc_state_scheme option" where
  "system_dup2 dstfd srcfd s =
     (if srcfd = 1 then upd_task (get_current_task s) (\<lambda>t. t\<lparr>t_write_redirection_fd := dstfd\<rparr>) s
      else if srcfd = 0 then upd_task (get_current_task s) (\<lambda>t. t\<lparr>t_read_redirection_fd := dstfd\<rparr>) s
      else Some s)"

subsection \<open>Files\<close>

definition system_write :: "u64 \<Rightarrow> u64 \<Rightarrow> u64 \<Rightarrow> 'z sys_state_scheme \<Rightarrow> 'z sys_state_scheme outcome option" where
  "system_write fd buf nbytes s = do {
     let task = get_current_task s;
     is_pipe \<leftarrow> is_file_pipe task fd s;
     if is_pipe then do {
       s \<leftarrow> write_to_pipe task fd buf (ucast nbytes) s;
       Some (Return nbytes s)
     }
     else if fd = 1 then do {
       t \<leftarrow> deref (tasks s) task;
       s \<leftarrow> (if t_write_redirection_fd t \<noteq> 0 then do {
               s \<leftarrow> write_to_pipe task (t_write_redirection_fd t) buf (ucast nbytes) s;
               wake_up_waiting_task (s\<lparr>pipe_write_flag := 1\<rparr>)
             }
             else do { str \<leftarrow> vread_cstr buf s; Some (puts str s) });
       Some (Return nbytes s)
     }
     else if fd = 2 then do {
       let s = puts (str_bytes ''Error:'') s;
       str \<leftarrow> vread_cstr buf s;
       Some (Return nbytes (puts str s))
     }
     else do {
       t \<leftarrow> scan_files (files s) (\<lambda>x. fl_fd x = fd) (filelist s);
       data \<leftarrow> (if t = 0 then Some [] else vload_bytes (unat nbytes) buf s);
       ret_val (fwrite fd data s)
     }
   }"

definition system_read :: "u64 \<Rightarrow> u64 \<Rightarrow> u64 \<Rightarrow> 'z sys_state_scheme \<Rightarrow> 'z sys_state_scheme outcome option" where
  "system_read fd buf nbytes s = do {
     let task = get_current_task s;
     is_pipe \<leftarrow> is_file_pipe task fd s;
     if is_pipe then ret_void (read_from_pipe task fd buf (ucast nbytes) s)
     else if fd = 0 then do {
       t \<leftarrow> deref (tasks s) task;
       if t_read_redirection_fd t \<noteq> 0 then
         if pipe_write_flag s = 1
         then ret_void (read_from_pipe task (t_read_redirection_fd t) buf (ucast nbytes) (s\<lparr>pipe_write_flag := 0\<rparr>))
         else do {
           s \<leftarrow> add_to_pipe_read_waiting_queue task (s\<lparr>pipe_str := buf, pipe_count := nbytes\<rparr>);
           Some (Resched s)
         }
       else do {
         let s = set_flag s;
         s \<leftarrow> upd_task task (\<lambda>t. t\<lparr>t_state := TASK_WAITING\<rparr>) s;
         let s = set_waiting_task task (set_current_task 0 s);
         Some (Resched (gets buf (ucast nbytes) s))
       }
     }
     else do {
       (n, data, s) \<leftarrow> fread fd nbytes s;
       s \<leftarrow> vstore_bytes data buf s;
       Some (Return (scast n) s)
     }
   }"

definition system_open :: "u64 \<Rightarrow> u64 \<Rightarrow> 'z fs_state_scheme \<Rightarrow> u64 option" where
  "system_open filepath perm s = do {
     nm \<leftarrow> vread_cstr filepath s;
     fd \<leftarrow> fopen nm s;
     Some (scast fd)
   }"

definition system_close :: "u64 \<Rightarrow> 'z fs_state_scheme \<Rightarrow> 'z fs_state_scheme option" where
  "system_close fd s = do {
     let task = get_current_task s;
     is_pipe \<leftarrow> is_file_pipe task fd s;
     if is_pipe then do {
       s \<leftarrow> remove_pipe_from_task task fd s;
       upd_task task (\<lambda>t. if t_write_redirection_fd t = fd then t\<lparr>t_write_redirection_fd := 0\<rparr>
                          else if t_read_redirection_fd t = fd then t\<lparr>t_read_redirection_fd := 0\<rparr> else t) s
     }
     else fclose fd s
   }"

definition system_lseek :: "u64 \<Rightarrow> u64 \<Rightarrow> u64 \<Rightarrow> 'z fs_state_scheme \<Rightarrow> (u64 \<times> 'z fs_state_scheme) option" where
  "system_lseek fd offset whence s = fseek fd offset whence s"

definition system_getcwd :: "u64 \<Rightarrow> u64 \<Rightarrow> 'z fs_state_scheme \<Rightarrow> (u64 \<times> 'z fs_state_scheme) option" where
  "system_getcwd buf sz s = do { s \<leftarrow> vstore_bytes (get_cwd s @ [0]) buf s; Some (buf, s) }"

definition system_chdir :: "u64 \<Rightarrow> 'z fs_state_scheme \<Rightarrow> (u64 \<times> 'z fs_state_scheme) option" where
  "system_chdir dpath s = do {
     nm \<leftarrow> vread_cstr dpath s;
     fd \<leftarrow> fopen nm s;
     Some (if sint fd < 0 then (- 1, s) else (0, set_cwd nm s))
   }"

text \<open>\<open>struct dirent\<close>: the inode number at 0, the offset at 8, the record length (16 bits) at 16 and the
  name at 18; its size is 1048.\<close>

definition SIZEOF_DIRENT :: u64 where "SIZEOF_DIRENT = 1048"

definition store_dirent :: "u64 \<Rightarrow> fs_file \<Rightarrow> 'z mmu_state_scheme \<Rightarrow> 'z mmu_state_scheme option" where
  "store_dirent dir r s = do {
     s \<leftarrow> vstore64 dir (fl_fd r) s;
     s \<leftarrow> vstore64 (dir + 8) (fl_offset r) s;
     s \<leftarrow> vstore_bytes (take 2 (bytes_of_word (fl_size r))) (dir + 16) s;
     vstore_bytes (fl_name r @ [0]) (dir + 18) s
   }"

definition system_getdents :: "u64 \<Rightarrow> u64 \<Rightarrow> u64 \<Rightarrow> 'z fs_state_scheme \<Rightarrow> (u64 \<times> 'z fs_state_scheme) option" where
  "system_getdents fd buf sz s = do {
     (dir, s) \<leftarrow> kmalloc SIZEOF_DIRENT s;
     r \<leftarrow> dopen fd s;
     if r = 0 then Some (- 1, s)
     else do {
       x \<leftarrow> deref (files s) r;
       s \<leftarrow> store_dirent dir x s;
       let saved_cr3 = cr3 s;
       t \<leftarrow> deref (tasks s) (get_current_task s);
       let s = write_cr3 (virt_to_phy (t_pml4e t) 0 s) s;
       s \<leftarrow> vmemcpy (unat SIZEOF_DIRENT) buf dir s;
       Some (0, write_cr3 saved_cr3 s)
     }
   }"

definition system_readdir :: "u64 \<Rightarrow> u64 \<Rightarrow> 'z fs_state_scheme \<Rightarrow> 'z fs_state_scheme option" where
  "system_readdir addr buf s = do {
     (dir, s) \<leftarrow> new_file s;
     nm \<leftarrow> vread_cstr (addr + 18) s;
     fd \<leftarrow> vload64 addr s;
     s \<leftarrow> upd_file dir (\<lambda>x. x\<lparr>fl_name := nm, fl_fd := fd\<rparr>) s;
     r \<leftarrow> dread dir s;
     if r = 0 then Some s
     else do {
       x \<leftarrow> deref (files s) r;
       s \<leftarrow> store_dirent addr x s;
       vmemcpy (unat SIZEOF_DIRENT) buf addr s
     }
   }"

subsection \<open>Processes\<close>

definition system_kill :: "u64 \<Rightarrow> 'z proc_state_scheme \<Rightarrow> (u64 \<times> 'z proc_state_scheme) option" where
  "system_kill process_id s = do {
     t \<leftarrow> get_task process_id s;
     if t \<noteq> 0 then do {
       s \<leftarrow> free_task_struct t s;
       s \<leftarrow> upd_task t (\<lambda>t. t\<lparr>t_state := TASK_STOPPED\<rparr>) s;
       Some (0, s)
     }
     else Some (- 1, s)
   }"

definition system_exit :: "u64 \<Rightarrow> 'z proc_state_scheme \<Rightarrow> 'z proc_state_scheme outcome option" where
  "system_exit first_arg s = do {
     let task = get_current_task s;
     t \<leftarrow> deref (tasks s) task;
     s \<leftarrow> (if t_ppid t > 0 then do {
             s \<leftarrow> upd_task (t_parent t) (\<lambda>p. p\<lparr>t_state := TASK_RUNNABLE\<rparr>) s;
             remove_from_parent task s
           }
           else Some s);
     s \<leftarrow> free_task_struct task s;
     s \<leftarrow> upd_task task (\<lambda>t. t\<lparr>t_state := TASK_STOPPED\<rparr>) s;
     Some (Resched (set_current_task 0 s))
   }"

definition increament_heap_vma :: "u64 \<Rightarrow> u64 \<Rightarrow> 'z proc_state_scheme \<Rightarrow> 'z proc_state_scheme option" where
  "increament_heap_vma task end_brk s = do {
     t \<leftarrow> deref (tasks s) task;
     m \<leftarrow> deref (mms s) (t_mm t);
     v \<leftarrow> list_find v_next (vmas s) (\<lambda>_ v. v_vma_type v = VMA_HEAP) (m_vma_list m);
     if v = 0 then Some s else upd_vma v (\<lambda>v. v\<lparr>v_vm_end := end_brk\<rparr>) s
   }"

definition system_brk :: "u64 \<Rightarrow> 'z proc_state_scheme \<Rightarrow> (u64 \<times> 'z proc_state_scheme) option" where
  "system_brk end_brk s = do {
     let task = get_current_task s;
     t \<leftarrow> deref (tasks s) task;
     m \<leftarrow> deref (mms s) (t_mm t);
     if end_brk = 0 then Some (m_brk_end m, s)
     else do {
       s \<leftarrow> upd_mm (t_mm t) (\<lambda>m. m\<lparr>m_brk_end := end_brk\<rparr>) s;
       s \<leftarrow> increament_heap_vma task end_brk s;
       m \<leftarrow> deref (mms s) (t_mm t);
       Some (m_brk_end m, s)
     }
   }"

definition system_getpid :: "'z proc_state_scheme \<Rightarrow> u64 option" where
  "system_getpid s = do { t \<leftarrow> deref (tasks s) (get_current_task s); Some (ucast (t_pid t)) }"

definition system_getppid :: "'z proc_state_scheme \<Rightarrow> u64 option" where
  "system_getppid s = do { t \<leftarrow> deref (tasks s) (get_current_task s); Some (ucast (t_ppid t)) }"

text \<open>\<open>setup_memory\<close>: the pages of the stack are copied, those of the other areas shared.\<close>

abbreviation user_flags :: u64 where
  "user_flags \<equiv> PT_PRESENT_FLAG OR PT_WRITABLE_FLAG OR PT_USER"

partial_function (option) copy_stack_pages :: "u64 \<Rightarrow> u64 \<Rightarrow> u64 \<Rightarrow> u64 \<Rightarrow> 'z proc_state_scheme \<Rightarrow> 'z proc_state_scheme option" where
  "copy_stack_pages c_pml4e p_pml4e vaddr end_addr s =
     (if vaddr \<ge> end_addr then do {
        let parent_page = virt_to_phy vaddr 0 s;
        s \<leftarrow> (if parent_page \<noteq> 0 then do {
                (dummy_vaddr, s) \<leftarrow> alloc_pages 1 user_flags s;
                let phy_addr = virt_to_phy dummy_vaddr 0 s;
                s \<leftarrow> vmemcpy 4096 dummy_vaddr vaddr s;
                let s = write_cr3 (virt_to_phy c_pml4e 0 s) s;
                s \<leftarrow> map_virt_to_phy vaddr phy_addr user_flags s;
                Some (write_cr3 (virt_to_phy p_pml4e 0 s) s)
              }
              else Some s);
        copy_stack_pages c_pml4e p_pml4e (vaddr - PAGE_SIZE) end_addr s
      }
      else Some s)"

partial_function (option) share_pages :: "u64 \<Rightarrow> u64 \<Rightarrow> u64 \<Rightarrow> u64 \<Rightarrow> 'z proc_state_scheme \<Rightarrow> 'z proc_state_scheme option" where
  "share_pages c_pml4e p_pml4e vaddr end_addr s =
     (if vaddr < end_addr then do {
        let paddr = virt_to_phy vaddr 0 s;
        let s = write_cr3 (virt_to_phy c_pml4e 0 s) s;
        s \<leftarrow> map_virt_to_phy vaddr paddr user_flags s;
        let s = inc_ref_count paddr s;
        let s = write_cr3 (virt_to_phy p_pml4e 0 s) s;
        share_pages c_pml4e p_pml4e (vaddr + PAGE_SIZE) end_addr s
      }
      else Some s)"

declare copy_stack_pages.simps [code] share_pages.simps [code]

definition setup_area :: "u64 \<Rightarrow> u64 \<Rightarrow> vm_area_struct \<Rightarrow> 'z proc_state_scheme \<Rightarrow> 'z proc_state_scheme option" where
  "setup_area c p v s = do {
     ct \<leftarrow> deref (tasks s) c;
     pt \<leftarrow> deref (tasks s) p;
     (vma, s) \<leftarrow> create_vma (t_mm ct) (v_vm_start v) (v_vm_end v) (v_vma_type v) (v_vm_flags v) (v_vm_file_descp v) s;
     s \<leftarrow> add_to_vma_list (t_mm ct) vma s;
     if v_vma_type v = VMA_STACK
     then copy_stack_pages (t_pml4e ct) (t_pml4e pt) (ALIGN_UP (v_vm_start v) - 4096) (v_vm_end v) s
     else share_pages (t_pml4e ct) (t_pml4e pt) (ALIGN_DOWN (v_vm_start v)) (v_vm_end v) s
   }"

partial_function (option) setup_areas :: "u64 \<Rightarrow> u64 \<Rightarrow> u64 \<Rightarrow> 'z proc_state_scheme \<Rightarrow> 'z proc_state_scheme option" where
  "setup_areas c p vm_list s =
     (if vm_list = 0 then Some s
      else do {
        v \<leftarrow> deref (vmas s) vm_list;
        s \<leftarrow> setup_area c p v s;
        v \<leftarrow> deref (vmas s) vm_list;
        setup_areas c p (v_next v) s
      })"

declare setup_areas.simps [code]

definition setup_memory :: "u64 \<Rightarrow> u64 \<Rightarrow> 'z proc_state_scheme \<Rightarrow> 'z proc_state_scheme option" where
  "setup_memory c p s = do {
     pt \<leftarrow> deref (tasks s) p;
     m \<leftarrow> deref (mms s) (t_mm pt);
     setup_areas c p (m_vma_list m) s
   }"

text \<open>\<open>fork\<close>: the child gets a copy of the registers with \<open>rax = 0\<close>, of the memory and of the pipes.\<close>

definition system_fork :: "'z fs_state_scheme \<Rightarrow> 'z fs_state_scheme outcome option" where
  "system_fork s = do {
     let parent = get_current_task s;
     (child, s) \<leftarrow> create_new_task (str_bytes ''child'') s;
     p \<leftarrow> deref (tasks s) parent;
     pm \<leftarrow> deref (mms s) (t_mm p);
     s \<leftarrow> upd_task child (\<lambda>c. c\<lparr>t_ppid := t_pid p, t_r := (t_r p)\<lparr>r_rax := 0\<rparr>,
            t_e_entry := t_kstack p ! (KSTACK_SIZE - 6)\<rparr>) s;
     c \<leftarrow> deref (tasks s) child;
     s \<leftarrow> upd_mm (t_mm c) (\<lambda>m. m\<lparr>m_brk_end := m_brk_end pm, m_stack_vm := USER_STACK - 8\<rparr>) s;
     s \<leftarrow> setup_memory child parent s;
     s \<leftarrow> upd_task child (\<lambda>c. c\<lparr>t_parent := parent\<rparr>) s;
     s \<leftarrow> upd_task parent (\<lambda>p. p\<lparr>t_child_count := t_child_count p + 1\<rparr>) s;
     p \<leftarrow> deref (tasks s) parent;
     s \<leftarrow> upd_task child (\<lambda>c. c\<lparr>t_write_redirection_fd := t_write_redirection_fd p,
            t_read_redirection_fd := t_read_redirection_fd p\<rparr>) s;
     s \<leftarrow> copy_pipes_loop child (t_pipe p) s;
     c \<leftarrow> deref (tasks s) child;
     s \<leftarrow> upd_task parent (\<lambda>p. p\<lparr>t_r := (t_r p)\<lparr>r_rax := ucast (t_pid c)\<rparr>, t_state := TASK_RUNNABLE\<rparr>) s;
     Some (Resched (set_current_task 0 s))
   }"

text \<open>The copies of the arguments in the kernel heap: \<open>kmalloc(strlen(x))\<close>, without a byte for the
  terminator that \<open>kstrcpy\<close> stores.\<close>

fun copy_strings :: "bytes list \<Rightarrow> 'z mmu_state_scheme \<Rightarrow> 'z mmu_state_scheme option" where
  "copy_strings [] s = Some s"
| "copy_strings (x # xs) s = do {
     (a, s) \<leftarrow> kmalloc (of_nat (length x)) s;
     s \<leftarrow> vstore_bytes (x @ [0]) a s;
     copy_strings xs s
   }"

definition system_execve :: "u64 \<Rightarrow> u64 \<Rightarrow> u64 \<Rightarrow> 'z fs_state_scheme \<Rightarrow> 'z fs_state_scheme option" where
  "system_execve filename argv_addr envp_addr s = do {
     argv \<leftarrow> vread_strings argv_addr s;
     s \<leftarrow> (if length argv \<le> 10 then copy_strings argv s else None);
     env0 \<leftarrow> vload64 envp_addr s;
     env \<leftarrow> vread_cstr env0 s;
     s \<leftarrow> copy_strings [env] s;
     fn \<leftarrow> vread_cstr filename s;
     let curr_task = get_current_task s;
     (task, s) \<leftarrow> readElf fn argv [env] s;
     ct \<leftarrow> deref (tasks s) curr_task;
     s \<leftarrow> upd_task task (\<lambda>t. t\<lparr>t_pid := t_pid ct, t_ppid := t_ppid ct\<rparr>) s;
     s \<leftarrow> upd_task curr_task (\<lambda>t. t\<lparr>t_ppid := 0\<rparr>) s;
     s \<leftarrow> upd_task task (\<lambda>t. t\<lparr>t_parent := t_parent ct, t_write_redirection_fd := t_write_redirection_fd ct,
            t_read_redirection_fd := t_read_redirection_fd ct\<rparr>) s;
     copy_pipes_loop task (t_pipe ct) s
   }"

definition system_waitpid :: "u64 \<Rightarrow> u64 \<Rightarrow> u64 \<Rightarrow> 'z proc_state_scheme \<Rightarrow> 'z proc_state_scheme outcome option" where
  "system_waitpid child_pid status options s = do {
     let task = get_current_task s;
     t \<leftarrow> deref (tasks s) task;
     if t_child_count t = 0 then do { s \<leftarrow> vstore64 status (- 1) s; Some (Return (- 1) s) }
     else do {
       s \<leftarrow> upd_task task (\<lambda>t. t\<lparr>t_state := TASK_WAITING, t_wait_for_child_pid := child_pid\<rparr>) s;
       Some (Resched (set_current_task 0 s))
     }
   }"

definition system_sleep :: "u64 \<Rightarrow> 'z proc_state_scheme \<Rightarrow> 'z proc_state_scheme outcome option" where
  "system_sleep sec s = do {
     s \<leftarrow> upd_task (get_current_task s) (\<lambda>t. t\<lparr>t_state := TASK_SLEEP, t_sleep_time := sec - 1\<rparr>) s;
     Some (Resched (set_current_task 0 s))
   }"

text \<open>\<open>print_task_list\<close> of \<open>process.c\<close>; one \<open>kprintf2\<close> per task, whose name is a field of the task.\<close>

definition task_state_name :: "task_states \<Rightarrow> bytes" where
  "task_state_name st = str_bytes (case st of
     TASK_RUNNING \<Rightarrow> ''RUNNING'' | TASK_IDLE \<Rightarrow> ''IDLE'' | TASK_INTERRUPTIBLE \<Rightarrow> ''INTERRUPTIBLE''
   | TASK_UNINTERRUPTIBLE \<Rightarrow> ''UNINTERRUPTIBLE'' | TASK_ZOMBIE \<Rightarrow> ''ZOMBIE'' | TASK_STOPPED \<Rightarrow> ''STOPPED''
   | TASK_SWAPPING \<Rightarrow> ''SWAPPING'' | TASK_RUNNABLE \<Rightarrow> ''RUNNABLE'' | TASK_SLEEP \<Rightarrow> ''SLEEP'' | TASK_WAITING \<Rightarrow> ''WAITING'')"

abbreviation tab :: bytes where "tab \<equiv> [0x09]"
abbreviation newline :: bytes where "newline \<equiv> [0x0A]"

partial_function (option) print_tasks_loop :: "u64 \<Rightarrow> 'z con_state_scheme \<Rightarrow> 'z con_state_scheme option" where
  "print_tasks_loop t s =
     (if t = 0 then Some s
      else do {
        x \<leftarrow> deref (tasks s) t;
        s \<leftarrow> kprintf2 (str_bytes ''%d'' @ tab @ str_bytes ''%d'' @ tab) [ucast (t_pid x), ucast (t_ppid x)] s;
        let s = puts (t_name x @ tab @ [0x20] @ task_state_name (t_state x) @ [0x20] @ newline) s;
        print_tasks_loop (t_next x) s
      })"

declare print_tasks_loop.simps [code]

definition print_task_list :: "'z con_state_scheme \<Rightarrow> 'z con_state_scheme option" where
  "print_task_list s = (
     let dashes = (\<lambda>n. replicate n 0x2D);
         s = puts (dashes 26 @ str_bytes ''List of Process'' @ dashes 37 @ newline) s;
         s = puts (newline @ str_bytes '' Pid'' @ tab @ str_bytes ''PPid'' @ tab @ str_bytes ''Name'' @ tab @ str_bytes ''State'' @ newline) s;
         s = puts (dashes 79 @ newline) s
     in print_tasks_loop (task_list s) s)"

definition system_listprocess :: "'z con_state_scheme \<Rightarrow> 'z con_state_scheme option" where
  "system_listprocess s = print_task_list s"

definition system_clearscreen :: "'z con_state_scheme \<Rightarrow> 'z con_state_scheme" where
  "system_clearscreen s = clearscreen s"

subsection \<open>The system call gate\<close>

definition switch_handler :: "u64 \<Rightarrow> u64 \<Rightarrow> u64 \<Rightarrow> u64 \<Rightarrow> 'z sys_state_scheme \<Rightarrow> 'z sys_state_scheme outcome option" where
  "switch_handler syscall_num first_arg sec_arg third_arg s =
     (if syscall_num = 0 then system_read first_arg sec_arg third_arg s
      else if syscall_num = 1 then system_write first_arg sec_arg third_arg s
      else if syscall_num = 2 then map_option (\<lambda>v. Return v s) (system_open first_arg sec_arg s)
      else if syscall_num = 60 then system_exit first_arg s
      else if syscall_num = 12 then ret_val (system_brk first_arg s)
      else if syscall_num = 57 then system_fork s
      else if syscall_num = 39 then map_option (\<lambda>v. Return v s) (system_getpid s)
      else if syscall_num = 110 then map_option (\<lambda>v. Return v s) (system_getppid s)
      else if syscall_num = 59 then ret_void (system_execve first_arg sec_arg third_arg s)
      else if syscall_num = 61 then
        map_option (\<lambda>r. case r of Return v s \<Rightarrow> Return 0 s | Resched s \<Rightarrow> Resched s)
          (system_waitpid first_arg sec_arg third_arg s)
      else if syscall_num = 35 then system_sleep first_arg s
      else if syscall_num = 37 then Some (Return 0 s)
      else if syscall_num = 79 then ret_val (system_getcwd first_arg sec_arg s)
      else if syscall_num = 80 then ret_val (system_chdir first_arg s)
      else if syscall_num = 8 then ret_val (system_lseek first_arg sec_arg third_arg s)
      else if syscall_num = 3 then ret_void (system_close first_arg s)
      else if syscall_num = 22 then ret_void (system_pipe first_arg s)
      else if syscall_num = 32 then Some (Return 0 s)
      else if syscall_num = 33 then ret_void (system_dup2 first_arg sec_arg s)
      else if syscall_num = 78 then ret_val (system_getdents first_arg sec_arg third_arg s)
      else if syscall_num = 81 then ret_void (system_readdir first_arg sec_arg s)
      else if syscall_num = 82 then ret_void (system_listprocess s)
      else if syscall_num = 83 then Some (Return 0 (system_clearscreen s))
      else if syscall_num = 84 then ret_val (system_kill first_arg s)
      else Some (Return 0 s))"

text \<open>
  \<open>syscall_handler\<close> with the interrupt frame \<open>r\<close>: the registers with which the processor returns to a
  program, and the new state.  After \<open>Resched\<close> the timer interrupt chooses the task; when there is none
  the processor never leaves the kernel.
\<close>

definition syscall_handler :: "regs \<Rightarrow> 'z sys_state_scheme \<Rightarrow> (regs \<times> 'z sys_state_scheme) option" where
  "syscall_handler r s = do {
     let task = get_current_task s;
     s \<leftarrow> (if task \<noteq> 0 then upd_task task (\<lambda>t. t\<lparr>t_r := r\<rparr>) s else Some s);
     t \<leftarrow> deref (tasks s) task;
     let first_arg = r_rbx (t_r t);
     let syscall_num = r_rax (t_r t);
     let sec_arg = r_rcx (t_r t);
     let third_arg = r_rdx (t_r t);
     out \<leftarrow> switch_handler syscall_num first_arg sec_arg third_arg s;
     (case out of
        Return ret s \<Rightarrow> do {
          s \<leftarrow> upd_task task (\<lambda>t. t\<lparr>t_r := (t_r t)\<lparr>r_rax := ret\<rparr>\<rparr>) s;
          t \<leftarrow> deref (tasks s) task;
          Some (t_r t, s)
        }
      | Resched s \<Rightarrow> do {
          (r, s) \<leftarrow> timer_handler r s;
          if get_current_task s = 0 then None else Some (r, s)
        })
   }"

text \<open>An example state: tasks 16, 32 and 48, of which 32 is the current one and has the page 0x401000.\<close>

definition ex_sys :: sys_state where
  "ex_sys = kb_state.extend ex_kb \<lparr>pipe_read_wait_queue = 0, pipe_str = 0, pipe_count = 0, pipe_write_flag = 0\<rparr>"

end
