(* ===== verification/Interrupts.thy ===== *)
theory Interrupts
  imports Syscall
begin

section \<open>Interrupts, faults and the start of the kernel (\<open>w2/sys/idt.c\<close>, \<open>irq.c\<close>, \<open>gdt.c\<close>, \<open>main.c\<close>)\<close>

text \<open>
  The descriptor tables, the interrupt controller, the exception handlers with the page fault handler,
  and the order in which \<open>boot\<close> and \<open>start\<close> set the kernel up.  The addresses of the assembly
  entries and of the handlers are parameters.
\<close>

record idt_entry =
  g_base_lo :: u16
  g_sel :: u16
  g_ist_reserved :: u8
  g_flags :: u8
  g_base_mid :: u16
  g_base_hi :: u32
  g_reserved :: u32

record int_state = sys_state +
  idt :: "idt_entry list"
  irq_routines :: "u64 list"
  gdt :: "u64 list"
  cr2 :: u64

subsection \<open>The interrupt descriptor table\<close>

definition idt_set_gate :: "nat \<Rightarrow> u64 \<Rightarrow> u16 \<Rightarrow> u8 \<Rightarrow> idt_entry list \<Rightarrow> idt_entry list" where
  "idt_set_gate num base sel flags t =
     t[num := \<lparr>g_base_lo = ucast (base AND 0xFFFF), g_sel = sel, g_ist_reserved = 0, g_flags = flags,
               g_base_mid = ucast (drop_bit 16 base AND 0xFFFF),
               g_base_hi = ucast (drop_bit 32 base AND 0xFFFFFFFF), g_reserved = 0\<rparr>]"

definition zero_gate :: idt_entry where
  "zero_gate = \<lparr>g_base_lo = 0, g_sel = 0, g_ist_reserved = 0, g_flags = 0, g_base_mid = 0, g_base_hi = 0, g_reserved = 0\<rparr>"

text \<open>\<open>isr n\<close> is the address of the assembly entry of exception \<open>n\<close>, \<open>irq n\<close> that of a device.\<close>

definition idt_install :: "(nat \<Rightarrow> u64) \<Rightarrow> (nat \<Rightarrow> u64) \<Rightarrow> 'z int_state_scheme \<Rightarrow> 'z int_state_scheme" where
  "idt_install isr irq s =
     (let t = replicate 256 zero_gate;
          t = fold (\<lambda>n. idt_set_gate n (isr n) 0x08 0x8E) [0..<32] t;
          t = idt_set_gate 32 (irq 0) 0x08 0x8E t;
          t = idt_set_gate 0x80 (isr 128) 0x08 0xEE t;
          t = idt_set_gate 33 (irq 1) 0x08 0x8E t
      in s\<lparr>idt := t\<rparr>)"

subsection \<open>The interrupt controller\<close>

definition irq_install_handler :: "nat \<Rightarrow> u64 \<Rightarrow> 'z int_state_scheme \<Rightarrow> 'z int_state_scheme option" where
  "irq_install_handler irq handler s =
     (if irq < length (irq_routines s) then Some (s\<lparr>irq_routines := (irq_routines s)[irq := handler]\<rparr>) else None)"

definition irq_uninstall_handler :: "nat \<Rightarrow> 'z int_state_scheme \<Rightarrow> 'z int_state_scheme option" where
  "irq_uninstall_handler irq s = irq_install_handler irq 0 s"

definition pic_remap :: "'z time_state_scheme \<Rightarrow> 'z time_state_scheme" where
  "pic_remap s = fold (\<lambda>(p, v). outportb p v)
     [(0x20, 0x11), (0xA0, 0x11), (0x21, 0x20), (0xA1, 0x28), (0x21, 0x04), (0xA1, 0x02),
      (0x21, 0x01), (0xA1, 0x01), (0x21, 0x0), (0xA1, 0x0)] s"

definition install_irqs :: "'z time_state_scheme \<Rightarrow> 'z time_state_scheme" where
  "install_irqs s = pic_remap s"

text \<open>The common dispatcher, which no entry calls; \<open>run\<close> runs the handler at an address.\<close>

definition irq_rountine_handler ::
  "(u64 \<Rightarrow> 'z int_state_scheme \<Rightarrow> 'z int_state_scheme option) \<Rightarrow> 'z int_state_scheme \<Rightarrow> 'z int_state_scheme option" where
  "irq_rountine_handler run s = map_option (outportb 0x20 0x20) (run (irq_routines s ! 0) s)"

definition timer_install :: "u64 \<Rightarrow> 'z int_state_scheme \<Rightarrow> 'z int_state_scheme option" where
  "timer_install handler s = irq_install_handler 0 handler (timer_phase 100 s)"

definition kb_install :: "u64 \<Rightarrow> 'z int_state_scheme \<Rightarrow> 'z int_state_scheme option" where
  "kb_install handler s = irq_install_handler 1 handler s"

subsection \<open>The global descriptor table\<close>

definition boot_gdt :: "u64 list" where
  "boot_gdt =
     (let GDT_CS = 0x00180000000000; GDT_DS = 0x00100000000000; P = 0x00800000000000;
          L = 0x20000000000000; W = 0x00020000000000; DPL0 = 0; DPL3 = 0x00600000000000
      in [0, GDT_CS OR P OR DPL0 OR L, GDT_DS OR P OR W OR DPL0, GDT_CS OR P OR DPL3 OR L,
          GDT_DS OR P OR W OR DPL3, 0, 0] @ replicate 25 0)"

text \<open>Storing into a bit field of \<open>w\<close> bits at bit \<open>k\<close> of a word.\<close>

definition set_field :: "nat \<Rightarrow> nat \<Rightarrow> u64 \<Rightarrow> u64 \<Rightarrow> u64" where
  "set_field k w v x = (x AND NOT (push_bit k (mask w))) OR push_bit k (v AND mask w)"

text \<open>The system segment descriptor of the TSS, of two words; the upper part of the base crosses them.\<close>

definition setup_tss :: "u64 \<Rightarrow> u64 \<Rightarrow> 'z int_state_scheme \<Rightarrow> 'z int_state_scheme" where
  "setup_tss tss rsp s =
     (let lo = gdt s ! 5; hi = gdt s ! 6;
          lo = set_field 0 16 (56 - 1) lo;
          lo = set_field 16 24 tss lo;
          lo = set_field 40 5 9 lo;
          lo = set_field 45 2 0 lo;
          lo = set_field 47 1 1 lo;
          lo = set_field 48 4 0 lo;
          lo = set_field 55 1 0 lo;
          lo = set_field 56 8 (drop_bit 24 tss) lo;
          hi = set_field 0 32 (drop_bit 32 tss) hi
      in set_tss_rsp0 rsp (s\<lparr>gdt := (gdt s)[5 := lo, 6 := hi]\<rparr>))"

subsection \<open>Exceptions\<close>

definition two_digits :: "nat \<Rightarrow> bytes" where
  "two_digits n = (if n \<ge> 10 then [0x30 + of_nat (n div 10)] else []) @ [0x30 + of_nat (n mod 10)]"

text \<open>The handlers \<open>isr1_handler\<close> to \<open>isr31_handler\<close>, which only differ in the number.\<close>

definition isr_handler :: "nat \<Rightarrow> 'z con_state_scheme \<Rightarrow> 'z con_state_scheme option" where
  "isr_handler n s = kprintf2 (str_bytes ''Inside isr'' @ two_digits n @ str_bytes '' handler'' @ newline) [] s"

definition divide_by_zero_handler :: "'z con_state_scheme \<Rightarrow> 'z con_state_scheme" where
  "divide_by_zero_handler s = kprintf (str_bytes ''divide_by_zero_handler reached.... '' @ newline) [] s"

definition gpf_fault_handler :: "'z con_state_scheme \<Rightarrow> 'z con_state_scheme option" where
  "gpf_fault_handler s = kprintf2 (str_bytes ''Inside gpf'') [] s"

subsection \<open>Page faults\<close>

definition in_heap_area :: "u64 \<Rightarrow> vm_area_struct \<Rightarrow> bool" where
  "in_heap_area addr v \<longleftrightarrow> v_vma_type v = VMA_HEAP \<and> v_vm_start v \<le> addr \<and> v_vm_end v + 2 * PAGE_SIZE > addr"

definition in_stack_area :: "u64 \<Rightarrow> vm_area_struct \<Rightarrow> bool" where
  "in_stack_area addr v \<longleftrightarrow> v_vma_type v = VMA_STACK \<and> v_vm_start v \<ge> addr \<and> v_vm_end v < addr"

text \<open>\<open>demand_paging\<close>: the first area that covers the address decides; without one the program ends.\<close>

definition demand_paging :: "u64 \<Rightarrow> 'z proc_state_scheme \<Rightarrow> 'z proc_state_scheme outcome option" where
  "demand_paging addr s = do {
     let task = get_current_task s;
     t \<leftarrow> deref (tasks s) task;
     m \<leftarrow> deref (mms s) (t_mm t);
     p \<leftarrow> list_find v_next (vmas s) (\<lambda>_ v. in_heap_area addr v \<or> in_stack_area addr v) (m_vma_list m);
     if p = 0 then system_exit 0 s
     else do {
       v \<leftarrow> deref (vmas s) p;
       let s = write_cr3 (virt_to_phy (t_pml4e t) 0 s) s;
       if in_heap_area addr v then do {
         let vaddr = ALIGN_DOWN addr;
         (_, s) \<leftarrow> alloc_pages_at_virt vaddr PAGE_SIZE user_flags s;
         s \<leftarrow> vmemset 4096 vaddr 0 s;
         Some (Return 0 s)
       }
       else do {
         let vaddr = ALIGN_UP addr - 4096;
         (_, s) \<leftarrow> alloc_pages_at_virt vaddr PAGE_SIZE user_flags s;
         Some (Return 0 s)
       }
     }
   }"

text \<open>A write to a shared page that is marked for copying gets a copy of its own.\<close>

definition copy_on_write :: "u64 \<Rightarrow> 'z con_state_scheme \<Rightarrow> 'z con_state_scheme option" where
  "copy_on_write vaddr s = do {
     let pte = get_pte_entry vaddr s;
     if pte = 0 then None
     else do {
       let paddr = kread s pte AND 0x000FFFFFFFFFF000;
       if is_cow_set pte s \<noteq> 0 \<and> is_writable_page pte s = 0 then do {
         s \<leftarrow> kprintf2 (str_bytes ''cow page '' @ newline) [] s;
         let start_addr = ALIGN_DOWN vaddr;
         (dummy_vaddr, s) \<leftarrow> alloc_pages 1 user_flags s;
         let phy_addr = virt_to_phy dummy_vaddr 0 s;
         s \<leftarrow> vmemcpy 4096 dummy_vaddr start_addr s;
         s \<leftarrow> map_virt_to_phy start_addr phy_addr user_flags s;
         let s = dec_ref_count paddr s;
         let pte = get_pte_entry start_addr s;
         Some (set_cow_bit pte s)
       }
       else Some s
     }
   }"

text \<open>The error code's lowest bit tells a protection violation from a missing page.  The registers of
  the result are those with which the handler returns.\<close>

definition page_fault_handler :: "regs \<Rightarrow> 'z int_state_scheme \<Rightarrow> (regs \<times> 'z int_state_scheme) option" where
  "page_fault_handler r s = do {
     let s = clrscr s;
     let task = get_current_task s;
     s \<leftarrow> (if task \<noteq> 0 then upd_task task (\<lambda>t. t\<lparr>t_r := r\<rparr>) s else Some s);
     let vaddr = cr2 s;
     out \<leftarrow>
       (if vaddr \<ge> VIRT_KERNEL_BASE then do {
          s \<leftarrow> kprintf2 (str_bytes ''page fault in kernel '' @ newline) [] s;
          system_exit 0 s
        }
        else if r_err_code r AND 0x1 \<noteq> 0 then map_option (Return 0) (copy_on_write vaddr s)
        else demand_paging vaddr s);
     (case out of
        Return _ s \<Rightarrow>
          if get_current_task s \<noteq> 0
          then do { t \<leftarrow> deref (tasks s) (get_current_task s); Some (t_r t, s) }
          else Some (r, s)
      | Resched s \<Rightarrow> do {
          (r, s) \<leftarrow> timer_handler r s;
          if get_current_task s = 0 then None else Some (r, s)
        })
   }"

text \<open>The index of the first word of the kernel stack, from its end, that is not zero.\<close>

definition kstack_used :: "task_struct \<Rightarrow> nat option" where
  "kstack_used t = find (\<lambda>i. t_kstack t ! (KSTACK_SIZE - i) \<noteq> 0) [1..<KSTACK_SIZE - 3]"

definition save_regs :: "u64 \<Rightarrow> 'z proc_state_scheme \<Rightarrow> 'z proc_state_scheme option" where
  "save_regs task s = do {
     t \<leftarrow> deref (tasks s) task;
     i \<leftarrow> kstack_used t;
     upd_task task (\<lambda>t. t\<lparr>t_rsp := t_kstack t ! (KSTACK_SIZE - i - 1), t_rip := t_kstack t ! (KSTACK_SIZE - i - 4)\<rparr>) s
   }"

definition save_current_task_regs :: "'z proc_state_scheme \<Rightarrow> 'z proc_state_scheme option" where
  "save_current_task_regs s = do {
     let task = get_current_task s;
     s \<leftarrow> upd_task task (\<lambda>t. t\<lparr>t_state := TASK_RUNNABLE\<rparr>) s;
     save_regs task s
   }"

definition copy_stack :: "u64 \<Rightarrow> u64 \<Rightarrow> 'z proc_state_scheme \<Rightarrow> 'z proc_state_scheme option" where
  "copy_stack c p s = do {
     t \<leftarrow> deref (tasks s) p;
     upd_task c (\<lambda>x. x\<lparr>t_rip := t_kstack t ! (KSTACK_SIZE - 7), t_rsp := t_kstack t ! (KSTACK_SIZE - 4)\<rparr>) s
   }"

subsection \<open>The start of the kernel\<close>

fun announce_regions :: "smap_t list \<Rightarrow> 'z con_state_scheme \<Rightarrow> 'z con_state_scheme option" where
  "announce_regions [] s = Some s"
| "announce_regions (r # rs) s =
     (if smap_type r = 1 \<and> smap_length r \<noteq> 0
      then do {
        s \<leftarrow> kprintf2 (str_bytes ''Available Physical Memory [%x-%x]'' @ newline)
               [smap_base r, smap_base r + smap_length r] s;
        s \<leftarrow> mm_phy_map (smap_base r) (smap_length r) s;
        announce_regions rs s
      }
      else announce_regions rs s)"

text \<open>\<open>print_files\<close>, which \<open>initialize_tarfs\<close> calls at its end: a line per file on the screen.\<close>

partial_function (option) print_files_loop :: "u64 \<Rightarrow> 'z con_state_scheme \<Rightarrow> 'z con_state_scheme option" where
  "print_files_loop t s =
     (if t = 0 then Some s
      else do {
        x \<leftarrow> deref (files s) t;
        let s = puts (str_bytes ''name: '' @ fl_name x @ [0x20] @ tab) s;
        s \<leftarrow> kprintf2 (str_bytes ''fd: %d '' @ newline) [fl_fd x] s;
        print_files_loop (fl_next x) s
      })"

declare print_files_loop.simps [code]

definition print_files :: "'z con_state_scheme \<Rightarrow> 'z con_state_scheme option" where
  "print_files s = print_files_loop (filelist s) s"

definition start :: "smap_t list \<Rightarrow> u64 \<Rightarrow> u64 \<Rightarrow> 'z con_state_scheme \<Rightarrow> 'z con_state_scheme option" where
  "start smap physbase physfree s = do {
     s \<leftarrow> announce_regions smap (mm_phy_init s);
     s \<leftarrow> mark_kernel_pages physbase physfree s;
     s \<leftarrow> kprintf2 (str_bytes ''physbase and  physfree [%x-%x]'' @ newline) [physbase, physfree] s;
     s \<leftarrow> setup_paging physbase physfree s;
     s \<leftarrow> initialize_tarfs s;
     s \<leftarrow> print_files s;
     let s = clearscreen s;
     (_, s) \<leftarrow> readElf (str_bytes ''rootfs/bin/hello'') [] [str_bytes ''PATH=rootfs/bin'', str_bytes ''shashi''] s;
     (_, s) \<leftarrow> readElf (str_bytes ''rootfs/bin/sbush'') [] [str_bytes ''PATH=rootfs/bin''] s;
     Some s
   }"

definition boot ::
  "u64 \<Rightarrow> u64 \<Rightarrow> (nat \<Rightarrow> u64) \<Rightarrow> (nat \<Rightarrow> u64) \<Rightarrow> u64 \<Rightarrow> u64 \<Rightarrow> smap_t list \<Rightarrow> u64 \<Rightarrow> u64 \<Rightarrow>
   'z int_state_scheme \<Rightarrow> 'z int_state_scheme option" where
  "boot tss rsp isr irq timer_entry_addr kb_entry_addr smap physbase physfree s = do {
     let s = setup_tss tss rsp s;
     let s = idt_install isr irq s;
     let s = install_irqs s;
     s \<leftarrow> timer_install timer_entry_addr s;
     s \<leftarrow> kb_install kb_entry_addr s;
     start smap physbase physfree s
   }"

subsection \<open>The gates\<close>

text \<open>The address and the parts of a gate as the processor reads them.\<close>

definition gate_target :: "idt_entry \<Rightarrow> u64" where
  "gate_target g = ucast (g_base_lo g) OR push_bit 16 (ucast (g_base_mid g)) OR push_bit 32 (ucast (g_base_hi g))"

definition gate_dpl :: "idt_entry \<Rightarrow> u8" where
  "gate_dpl g = drop_bit 5 (g_flags g) AND 3"

definition gate_present :: "idt_entry \<Rightarrow> bool" where
  "gate_present g \<longleftrightarrow> bit (g_flags g) 7"

lemma split_address:
  "ucast (ucast (base AND 0xFFFF) :: u16) OR push_bit 16 (ucast (ucast (drop_bit 16 base AND 0xFFFF) :: u16))
     OR push_bit 32 (ucast (ucast (drop_bit 32 base AND 0xFFFFFFFF) :: u32)) = (base :: u64)"
proof -
  have m: "(0xFFFF :: u64) = mask 16" "(0xFFFFFFFF :: u64) = mask 32" by (simp_all add: mask_eq_exp_minus_1)
  show ?thesis
    unfolding m
  proof (rule bit_eqI)
    fix n assume "possible_bit TYPE(u64) n"
    then have "n < 64" by simp
    then show "bit (ucast (ucast (base AND mask 16) :: u16) OR push_bit 16 (ucast (ucast (drop_bit 16 base AND mask 16) :: u16))
        OR push_bit 32 (ucast (ucast (drop_bit 32 base AND mask 32) :: u32)) :: u64) n = bit base n"
      by (cases "n < 16"; cases "n < 32") (auto simp: bit_simps)
  qed
qed

text \<open>An entry after \<open>idt_set_gate\<close>; the gate that it writes.\<close>

abbreviation is_gate :: "u64 \<Rightarrow> u8 \<Rightarrow> idt_entry \<Rightarrow> bool" where
  "is_gate base flags g \<equiv> gate_target g = base \<and> g_sel g = 0x08 \<and> g_flags g = flags \<and> g_ist_reserved g = 0 \<and> g_reserved g = 0"

lemma idt_set_gate_length [simp]: "length (idt_set_gate num base sel flags t) = length t"
  by (simp add: idt_set_gate_def)

lemma idt_set_gate_other [simp]: "v \<noteq> num \<Longrightarrow> idt_set_gate num base sel flags t ! v = t ! v"
  by (simp add: idt_set_gate_def)

lemma idt_set_gate_same: "num < length t \<Longrightarrow> is_gate base flags (idt_set_gate num base 0x08 flags t ! num)"
  by (simp add: idt_set_gate_def gate_target_def split_address)

lemma set_gates_length [simp]: "length (fold (\<lambda>n. idt_set_gate n (f n) sel flags) ns t) = length t"
  by (induction ns arbitrary: t) simp_all

lemma set_gates_other:
  "v \<notin> set ns \<Longrightarrow> fold (\<lambda>n. idt_set_gate n (f n) sel flags) ns t ! v = t ! v"
  by (induction ns arbitrary: t) auto

lemma set_gates_in:
  "v \<in> set ns \<Longrightarrow> distinct ns \<Longrightarrow> v < length t \<Longrightarrow>
     is_gate (f v) flags (fold (\<lambda>n. idt_set_gate n (f n) 0x08 flags) ns t ! v)"
proof (induction ns arbitrary: t)
  case (Cons n ns)
  show ?case
  proof (cases "v = n")
    case True
    have "v \<notin> set ns" using True Cons.prems by simp
    then have "fold (\<lambda>n. idt_set_gate n (f n) 0x08 flags) (n # ns) t ! v = idt_set_gate v (f v) 0x08 flags t ! v"
      using set_gates_other [of v ns f "0x08" flags] True by simp
    then show ?thesis using idt_set_gate_same [OF Cons.prems(3)] by simp
  next
    case False
    then show ?thesis using Cons.IH [of "idt_set_gate n (f n) 0x08 flags t"] Cons.prems by simp
  qed
qed simp

text \<open>C27: the interrupt descriptor table is well formed: every present gate leads through the kernel's code
  segment to its own entry - the address that the processor puts together from the three parts is the
  whole address -, the exceptions 0 to 31, the timer at 32, the keyboard at 33 and the system calls at 128
  are present and nothing else, and only the system call gate can be called from a program.\<close>

lemma idt_install_well_formed:
  fixes s :: "'z int_state_scheme" and isr irq :: "nat \<Rightarrow> u64"
  defines "t \<equiv> idt (idt_install isr irq s)"
  shows "length t = 256 \<and>
    (\<forall>v < 256. (if v < 32 then is_gate (isr v) 0x8E (t ! v)
                else if v = 32 then is_gate (irq 0) 0x8E (t ! v)
                else if v = 33 then is_gate (irq 1) 0x8E (t ! v)
                else if v = 128 then is_gate (isr 128) 0xEE (t ! v)
                else t ! v = zero_gate) \<and>
       (gate_present (t ! v) \<longleftrightarrow> v < 34 \<or> v = 128) \<and>
       (gate_present (t ! v) \<and> gate_dpl (t ! v) = 3 \<longleftrightarrow> v = 128))"
proof -
  define u where "u = fold (\<lambda>n. idt_set_gate n (isr n) 0x08 0x8E) [0..<32] (replicate 256 zero_gate)"
  have len: "length u = 256" by (simp add: u_def)
  have t: "t = idt_set_gate 33 (irq 1) 0x08 0x8E (idt_set_gate 0x80 (isr 128) 0x08 0xEE (idt_set_gate 32 (irq 0) 0x08 0x8E u))"
    by (simp add: t_def idt_install_def u_def Let_def)
  have exc: "is_gate (isr v) 0x8E (u ! v)" if "v < 32" for v
    using set_gates_in [of v "[0..<32]" "replicate 256 zero_gate" isr "0x8E"] that by (simp add: u_def)
  have rest: "u ! v = zero_gate" if "32 \<le> v" "v < 256" for v
    using set_gates_other [of v "[0..<32]"] that by (simp add: u_def)
  have gate: "if v < 32 then is_gate (isr v) 0x8E (t ! v)
                else if v = 32 then is_gate (irq 0) 0x8E (t ! v)
                else if v = 33 then is_gate (irq 1) 0x8E (t ! v)
                else if v = 128 then is_gate (isr 128) 0xEE (t ! v)
                else t ! v = zero_gate" if "v < 256" for v
    using exc [of v] rest [of v] that
    by (auto simp: t idt_set_gate_same len)
  have pres: "(gate_present (t ! v) \<longleftrightarrow> v < 34 \<or> v = 128) \<and>
       (gate_present (t ! v) \<and> gate_dpl (t ! v) = 3 \<longleftrightarrow> v = 128)" if "v < 256" for v
  proof -
    have fl: "g_flags (t ! v) = (if v = 128 then 0xEE else if v < 34 then 0x8E else 0)"
      using gate [OF that] by (auto simp: zero_gate_def split: if_splits)
    have "gate_present (t ! v) \<longleftrightarrow> v < 34 \<or> v = 128" by (simp add: gate_present_def fl)
    moreover have "gate_dpl (t ! v) = (if v = 128 then 3 else 0)" by (simp add: gate_dpl_def fl)
    ultimately show ?thesis by auto
  qed
  have "length t = 256" by (simp add: t len)
  with gate pres show ?thesis by blast
qed


lemma idt_install_well_formed_witness:
  "\<forall>s :: int_state. gate_target (idt (idt_install (\<lambda>n. 0xFFFFFFFF80201000 + 16 * of_nat n) (\<lambda>_. 0) s) ! 14) = 0xFFFFFFFF802010E0"
proof
  fix s :: int_state
  have "(14 :: nat) < 256" by simp
  with idt_install_well_formed [of "\<lambda>n. 0xFFFFFFFF80201000 + 16 * of_nat n" "\<lambda>_. 0" s]
  have "if (14 :: nat) < 32 then is_gate (0xFFFFFFFF80201000 + 16 * of_nat 14) 0x8E
      (idt (idt_install (\<lambda>n. 0xFFFFFFFF80201000 + 16 * of_nat n) (\<lambda>_. 0) s) ! 14) else True" by auto
  then show "gate_target (idt (idt_install (\<lambda>n. 0xFFFFFFFF80201000 + 16 * of_nat n) (\<lambda>_. 0) s) ! 14) = 0xFFFFFFFF802010E0"
    by simp
qed

end
