(* ===== verification/ByteMemory.thy ===== *)
theory ByteMemory
  imports CString
begin

section \<open>The contract of a byte memory\<close>

text \<open>
  What a client of memory relies on: within a set of addresses that is \<open>valid\<close> every load returns, and a
  store changes exactly the byte stored to.  Loads and stores of several bytes go upwards one byte at a
  time.  The lemmas are proved once here; the virtual memory of a program and the byte memory of the
  kernel image are instances.
\<close>

locale byte_memory =
  fixes valid :: "u64 set \<Rightarrow> 's \<Rightarrow> bool"
    and load :: "u64 \<Rightarrow> 's \<Rightarrow> u8 option"
    and store :: "u64 \<Rightarrow> u8 \<Rightarrow> 's \<Rightarrow> 's option"
    and loads :: "nat \<Rightarrow> u64 \<Rightarrow> 's \<Rightarrow> bytes option"
    and stores :: "bytes \<Rightarrow> u64 \<Rightarrow> 's \<Rightarrow> 's option"
  assumes load_returns: "valid A s \<Longrightarrow> a \<in> A \<Longrightarrow> \<exists>b. load a s = Some b"
    and store_returns: "valid A s \<Longrightarrow> a \<in> A \<Longrightarrow>
      \<exists>s'. store a b s = Some s' \<and> valid A s' \<and> (\<forall>c \<in> A. load c s' = (if c = a then Some b else load c s))"
    and loads_0: "loads 0 a s = Some []"
    and loads_Suc: "loads (Suc n) a s = do { b \<leftarrow> load a s; bs \<leftarrow> loads n (a + 1) s; Some (b # bs) }"
    and stores_Nil: "stores [] a s = Some s"
    and stores_Cons: "stores (b # bs) a s = do { s \<leftarrow> store a b s; stores bs (a + 1) s }"

lemma block_add: "block a (m + n) = block a m @ block (a + of_nat m) n"
  by (induction m arbitrary: a) (simp_all add: add.assoc)

lemma block_distinct: "n < 2 ^ 64 \<Longrightarrow> distinct (block a n)"
  by (induction n arbitrary: a) (simp_all add: block_head)

lemma block_step_index:
  "length bs < 2 ^ 64 \<Longrightarrow> c \<in> set (block (a + 1) (length bs)) \<Longrightarrow> unat (c - a) = Suc (unat (c - (a + 1)))"
proof -
  assume l: "length bs < 2 ^ 64" and "c \<in> set (block (a + 1) (length bs))"
  then obtain i where i: "i < length bs" "c = a + 1 + of_nat i" by (auto simp: block_conv)
  have "unat (word_of_nat (Suc i) :: u64) = Suc i" "unat (word_of_nat i :: u64) = i"
    using i l by (simp_all add: unat_of_nat take_bit_nat_eq_self del: of_nat_Suc)
  moreover have "c - a = word_of_nat (Suc i)" "c - (a + 1) = word_of_nat i" using i by simp_all
  ultimately show "unat (c - a) = Suc (unat (c - (a + 1)))" by (simp del: of_nat_Suc)
qed

context byte_memory
begin

lemma stores_valid:
  assumes "valid A s" and "set (block a (length bs)) \<subseteq> A" and "length bs < 2 ^ 64"
  shows "\<exists>s'. stores bs a s = Some s' \<and> valid A s' \<and>
    (\<forall>c \<in> A. load c s' = (if c \<in> set (block a (length bs)) then Some (bs ! unat (c - a)) else load c s))"
  using assms
proof (induction bs arbitrary: a s)
  case (Cons b bs)
  obtain t where t: "store a b s = Some t" "valid A t" "\<forall>c \<in> A. load c t = (if c = a then Some b else load c s)"
    using store_returns [OF Cons.prems(1), of a b] Cons.prems(2) by auto
  obtain s' where s': "stores bs (a + 1) t = Some s'" "valid A s'"
    "\<forall>c \<in> A. load c s' = (if c \<in> set (block (a + 1) (length bs)) then Some (bs ! unat (c - (a + 1))) else load c t)"
    using Cons.IH [OF t(2), of "a + 1"] Cons.prems(2,3) by auto
  have a: "a \<notin> set (block (a + 1) (length bs))" by (rule block_head) (use Cons.prems(3) in simp)
  have "load c s' = (if c \<in> set (block a (length (b # bs))) then Some ((b # bs) ! unat (c - a)) else load c s)"
    if c: "c \<in> A" for c
  proof (cases "c \<in> set (block (a + 1) (length bs))")
    case True
    then show ?thesis using s'(3) c block_step_index [of bs c a] Cons.prems(3) by simp
  next
    case False
    then show ?thesis using s'(3) t(3) c a by auto
  qed
  then show ?case using t(1) s'(1,2) by (simp add: stores_Cons)
qed (simp add: stores_Nil)

lemma loads_iff: "loads n a s = Some bs \<longleftrightarrow> length bs = n \<and> (\<forall>i < n. load (a + of_nat i) s = Some (bs ! i))"
proof (induction n arbitrary: a bs)
  case (Suc n)
  show ?case
  proof (cases bs)
    case (Cons b cs)
    have "loads (Suc n) a s = Some (b # cs) \<longleftrightarrow> load a s = Some b \<and> loads n (a + 1) s = Some cs"
      by (auto simp: loads_Suc split: bind_splits)
    then show ?thesis
      by (simp add: Cons Suc.IH All_less_Suc2 add.assoc) (metis add.assoc)
  qed (auto simp: loads_Suc split: bind_splits)
qed (auto simp: loads_0)

lemma loads_returns:
  "valid A s \<Longrightarrow> set (block a n) \<subseteq> A \<Longrightarrow> \<exists>bs. loads n a s = Some bs \<and> length bs = n"
proof (induction n arbitrary: a)
  case (Suc n)
  then obtain b where "load a s = Some b" using load_returns by fastforce
  moreover obtain bs where "loads n (a + 1) s = Some bs" "length bs = n" using Suc by fastforce
  ultimately show ?case by (simp add: loads_Suc)
qed (simp add: loads_0)

text \<open>What was stored is loaded, now and after a store elsewhere.\<close>

lemma loads_stores:
  assumes "valid A s" and "set (block a (length bs)) \<subseteq> A" and "length bs < 2 ^ 64" and "stores bs a s = Some s'"
  shows "loads (length bs) a s' = Some bs"
proof -
  obtain t where t: "stores bs a s = Some t"
    "\<forall>c \<in> A. load c t = (if c \<in> set (block a (length bs)) then Some (bs ! unat (c - a)) else load c s)"
    using stores_valid [OF assms(1-3)] by blast
  have "load (a + of_nat i) s' = Some (bs ! i)" if i: "i < length bs" for i
  proof -
    have m: "a + of_nat i \<in> set (block a (length bs))" using i by (auto simp: block_conv)
    have "unat (a + of_nat i - a) = i" using i assms(3) by (simp add: unat_of_nat take_bit_nat_eq_self)
    then show ?thesis using t assms(2,4) m by auto
  qed
  then show ?thesis by (simp add: loads_iff)
qed

lemma loads_same:
  assumes "\<And>c. c \<in> set (block a n) \<Longrightarrow> load c s' = load c s"
  shows "loads n a s' = loads n a s"
  using assms by (induction n arbitrary: a) (simp_all add: loads_0 loads_Suc)

lemma loads_stores_other:
  assumes "valid A s" and "set (block a (length bs)) \<subseteq> A" and "length bs < 2 ^ 64" and "stores bs a s = Some s'"
    and "set (block c n) \<subseteq> A" and "set (block c n) \<inter> set (block a (length bs)) = {}"
  shows "loads n c s' = loads n c s"
proof -
  obtain t where t: "stores bs a s = Some t"
    "\<forall>c \<in> A. load c t = (if c \<in> set (block a (length bs)) then Some (bs ! unat (c - a)) else load c s)"
    using stores_valid [OF assms(1-3)] by blast
  have "load d s' = load d s" if d: "d \<in> set (block c n)" for d
  proof -
    have "d \<in> A" "d \<notin> set (block a (length bs))" using d assms(5,6) by blast+
    then show ?thesis using t assms(4) by simp
  qed
  then show ?thesis by (rule loads_same)
qed

end

subsection \<open>Copying and filling\<close>

text \<open>A memory with \<open>memcpy\<close> and \<open>memset\<close>, one byte per step.\<close>

locale block_memory = byte_memory +
  fixes copy :: "nat \<Rightarrow> u64 \<Rightarrow> u64 \<Rightarrow> 'a \<Rightarrow> 'a option"
    and fill :: "nat \<Rightarrow> u64 \<Rightarrow> u8 \<Rightarrow> 'a \<Rightarrow> 'a option"
  assumes copy_0: "copy 0 dst src s = Some s"
    and copy_Suc: "copy (Suc n) dst src s = do { b \<leftarrow> load src s; s \<leftarrow> store dst b s; copy n (dst + 1) (src + 1) s }"
    and fill_0: "fill 0 dst b s = Some s"
    and fill_Suc: "fill (Suc n) dst b s = do { s \<leftarrow> store dst b s; fill n (dst + 1) b s }"

context block_memory
begin

text \<open>A copy between blocks that do not overlap is a load followed by a store.\<close>

lemma copy_stores:
  assumes "valid A s" and "set (block dst n) \<subseteq> A" and "set (block src n) \<subseteq> A"
    and "set (block dst n) \<inter> set (block src n) = {}" and "loads n src s = Some bs"
  shows "copy n dst src s = stores bs dst s"
  using assms
proof (induction n arbitrary: dst src s bs)
  case 0
  then show ?case by (simp add: copy_0 loads_0 stores_Nil)
next
  case (Suc n)
  then obtain b cs where bs: "bs = b # cs" "load src s = Some b" "loads n (src + 1) s = Some cs"
    by (auto simp: loads_Suc split: bind_splits)
  obtain t where t: "store dst b s = Some t" "valid A t" "\<forall>c \<in> A. load c t = (if c = dst then Some b else load c s)"
    using store_returns [OF Suc.prems(1), of dst b] Suc.prems(2) by auto
  have "loads n (src + 1) t = loads n (src + 1) s"
    by (rule loads_same) (use t(3) Suc.prems(3,4) in auto)
  then have "copy n (dst + 1) (src + 1) t = stores cs (dst + 1) t"
    using Suc.IH [OF t(2), of "dst + 1" "src + 1" cs] Suc.prems(2-4) bs(3) by auto
  then show ?case using bs t(1) by (simp add: copy_Suc stores_Cons)
qed

lemma fill_stores: "fill n dst b s = stores (replicate n b) dst s"
  by (induction n arbitrary: dst s) (simp_all add: fill_0 fill_Suc stores_Nil stores_Cons)

end

end
