(* ===== verification/FlatMem.thy ===== *)
theory FlatMem
  imports VirtMem ByteMemory
begin

section \<open>Memory of a program as a flat array of bytes\<close>

text \<open>
  Virtual addresses whose pages are mapped to different frames, none of them a page table, behave like an
  array of bytes: a store changes the byte stored to, no other byte of the region and no translation.
  The contract is a locale; the virtual memory and the byte memory of the kernel image both provide it.
\<close>

subsection \<open>Bytes of a word\<close>

lemma mask8: "(0xFF :: u64) = mask 8" and mask3: "(7 :: u64) = mask 3"
  by (simp_all add: mask_eq_exp_minus_1)

lemma bit_phys_byte: "bit (phys_byte m a) n \<longleftrightarrow> n < 8 \<and> bit (m (a AND NOT 7)) (8 * unat (a AND 7) + n)"
  by (simp add: phys_byte_def bit_simps add.commute) (auto dest: bit_imp_le_length)

lemma unat_and7: "unat (a AND 7 :: u64) < 8"
proof -
  have "a AND 7 \<le> 7" by (rule word_and_le1)
  then show ?thesis by (simp add: word_le_nat_alt)
qed

lemma split_low: "(a AND NOT 7) OR (a AND 7) = (a :: u64)"
  by (simp add: bit_eq_iff bit_simps) blast

lemma same_word_iff: "a AND NOT 7 = c AND NOT (7 :: u64) \<Longrightarrow> a = c \<longleftrightarrow> unat (a AND 7) = unat (c AND 7)"
  using split_low [of a] split_low [of c] by (metis word_unat_eq_iff)

lemma bit_set_byte:
  assumes "k < 8" and "p < 64"
  shows "bit (((w :: u64) AND NOT (push_bit (8 * k) 0xFF)) OR push_bit (8 * k) (ucast (b :: u8))) p \<longleftrightarrow>
    (if 8 * k \<le> p \<and> p < 8 * k + 8 then bit b (p - 8 * k) else bit w p)"
  using assms unfolding mask8 by (auto simp: bit_simps dest: bit_imp_le_length)

lemma phys_byte_set: "phys_byte (set_phys_byte a b m) c = (if c = a then b else phys_byte m c)"
proof (cases "c AND NOT 7 = a AND NOT 7")
  case False
  then have "c \<noteq> a" by auto
  with False show ?thesis by (simp add: phys_byte_def set_phys_byte_def Let_def)
next
  case True
  let ?i = "unat (a AND 7)" and ?j = "unat (c AND 7)"
  have ij: "?i < 8" "?j < 8" by (rule unat_and7)+
  show ?thesis
  proof (rule bit_word_eqI)
    fix n assume n: "n < LENGTH(8)"
    then have p: "8 * ?j + n < 64" using ij by simp
    have "bit (phys_byte (set_phys_byte a b m) c) n \<longleftrightarrow>
        (if 8 * ?i \<le> 8 * ?j + n \<and> 8 * ?j + n < 8 * ?i + 8 then bit b (8 * ?j + n - 8 * ?i) else bit (m (a AND NOT 7)) (8 * ?j + n))"
      using n by (simp add: bit_phys_byte set_phys_byte_def Let_def True [simplified] bit_set_byte [OF ij(1) p, simplified])
    moreover have "8 * ?i \<le> 8 * ?j + n \<and> 8 * ?j + n < 8 * ?i + 8 \<longleftrightarrow> c = a"
      using same_word_iff [OF True] n by auto
    ultimately show "bit (phys_byte (set_phys_byte a b m) c) n \<longleftrightarrow> bit (if c = a then b else phys_byte m c) n"
      using n same_word_iff [OF True] by (simp add: bit_phys_byte True [simplified])
  qed
qed

lemma word_of_bytes_Cons [simp]: "word_of_bytes (b # bs) = push_bit 8 (word_of_bytes bs) OR ucast b"
  by (simp add: word_of_bytes_def)

lemma word_of_bytes_Nil [simp]: "word_of_bytes [] = 0"
  by (simp add: word_of_bytes_def)

lemma bit_word_of_bytes:
  "n < 64 \<Longrightarrow> bit (word_of_bytes bs) n \<longleftrightarrow> n div 8 < length bs \<and> bit (bs ! (n div 8)) (n mod 8)"
proof (induction bs arbitrary: n)
  case (Cons b bs)
  show ?case
  proof (cases "n < 8")
    case True
    then show ?thesis by (simp add: bit_simps)
  next
    case False
    then obtain k where k: "n = k + 8" by (metis add.commute le_Suc_ex not_less)
    have "bit b n = False" using False by (auto dest: bit_imp_le_length)
    moreover have "(k + 8) div 8 = Suc (k div 8)" by simp
    ultimately show ?thesis using Cons.IH [of k] Cons.prems k by (simp add: bit_simps)
  qed
qed simp

lemma word_of_bytes_of_word [simp]: "word_of_bytes (bytes_of_word w) = w"
proof (rule bit_word_eqI)
  fix n assume n: "n < LENGTH(64)"
  then have d: "n div 8 < 8" by simp
  have "bytes_of_word w ! (n div 8) = ucast (drop_bit (8 * (n div 8)) w)"
    using d by (simp add: bytes_of_word_def)
  then have "bit (bytes_of_word w ! (n div 8)) (n mod 8) \<longleftrightarrow> bit w n"
    by (simp add: bit_simps)
  then show "bit (word_of_bytes (bytes_of_word w)) n \<longleftrightarrow> bit w n"
    using n d by (simp add: bit_word_of_bytes bytes_of_word_def del: div_less_iff_less_mult)
qed

lemma length_bytes_of_word [simp]: "length (bytes_of_word w) = 8"
  by (simp add: bytes_of_word_def)

subsection \<open>Stores outside the page tables\<close>

lemma ALIGN_DOWN_frame_offset:
  assumes "page_aligned f"
  shows "ALIGN_DOWN (f + (va AND 0xFFF)) = f" and "ALIGN_DOWN (f + (va AND 0xFFF) AND NOT 7) = f"
    and "(f + (va AND 0xFFF)) AND 0xFFF = va AND 0xFFF"
proof -
  have low: "\<not> bit f n" if "n < 12" for n using assms that by (simp add: page_aligned_iff_bit)
  have high: "12 \<le> n" if "bit f n" for n using low [of n] that by (meson not_less)
  have "f AND (va AND 0xFFF) = 0"
    unfolding mask12 by (rule bit_word_eqI) (use low in \<open>auto simp: bit_simps\<close>)
  then have plus: "f + (va AND 0xFFF) = f OR (va AND 0xFFF)" by (rule disjunctive_add_eq_or)
  show "ALIGN_DOWN (f + (va AND 0xFFF)) = f" unfolding plus unfolding mask12
    by (rule bit_word_eqI) (use low in \<open>auto simp: bit_simps not_less dest: high\<close>)
  show "ALIGN_DOWN (f + (va AND 0xFFF) AND NOT 7) = f" unfolding plus unfolding mask12 mask3
    by (rule bit_word_eqI) (use low in \<open>auto simp: bit_simps not_less dest: high\<close>)
  show "(f + (va AND 0xFFF)) AND 0xFFF = va AND 0xFFF" unfolding plus unfolding mask12
    by (rule bit_word_eqI) (use low in \<open>auto simp: bit_simps not_less dest: high\<close>)
qed

text \<open>A tree of tables is the same after any change outside its tables.\<close>

lemma walk_untouched:
  assumes b: "page_aligned b" and same: "\<And>a. m' a \<noteq> m a \<Longrightarrow> \<not> is_table m b (ALIGN_DOWN a)"
  shows "valid_path q \<Longrightarrow> length q \<le> 4 \<Longrightarrow> walk m' b q = walk m b q"
proof (induction q rule: rev_induct)
  case (snoc y q)
  have IH: "walk m' b q = walk m b q" by (rule snoc.IH) (use snoc.prems in auto)
  show ?case
  proof (cases "walk m b q")
    case (Some g)
    have y: "y < 512" "valid_path q" "length q \<le> 3" using snoc.prems by simp_all
    then have "is_table m b g" using Some unfolding is_table_def by blast
    then have "m' (slot g y) = m (slot g y)"
      using same [of "slot g y"] ALIGN_DOWN_slot [OF walk_aligned [OF b Some] y(1)] by auto
    then show ?thesis by (simp add: walk_snoc IH Some)
  next
    case None
    then show ?thesis by (simp add: walk_snoc IH)
  qed
qed simp

lemma walk_data_store:
  assumes "page_aligned b" and "\<not> is_table m b (ALIGN_DOWN a)" and "valid_path q" and "length q \<le> 4"
  shows "walk (m(a := x)) b q = walk m b q"
  by (rule walk_untouched [OF assms(1) _ assms(3,4)]) (use assms(2) in \<open>auto split: if_splits\<close>)

definition data_region :: "u64 set \<Rightarrow> 'z mmu_state_scheme \<Rightarrow> bool" where
  "data_region A s \<longleftrightarrow> page_aligned (cr3 s) \<and>
     (\<forall>v \<in> A. \<exists>f. frame_of (cr3 s) s v = Some f \<and> \<not> is_table (pmem s) (cr3 s) f) \<and>
     (\<forall>v \<in> A. \<forall>w \<in> A. vtrans v s = vtrans w s \<longrightarrow> v = w)"

lemma data_region_phys:
  assumes "data_region A s" and "v \<in> A"
  obtains a where "vtrans v s = Some a" "\<not> is_table (pmem s) (cr3 s) (ALIGN_DOWN a)"
    "\<not> is_table (pmem s) (cr3 s) (ALIGN_DOWN (a AND NOT 7))" "a AND 0xFFF = v AND 0xFFF"
proof -
  obtain f where f: "frame_of (cr3 s) s v = Some f" "\<not> is_table (pmem s) (cr3 s) f" "page_aligned (cr3 s)"
    using assms by (auto simp: data_region_def)
  then have "page_aligned f" using walk_aligned by (auto simp: frame_of_def)
  then show thesis
    using that [of "f + (v AND 0xFFF)"] f ALIGN_DOWN_frame_offset [of f v] by (simp add: vtrans_def)
qed

lemma data_store_same:
  assumes "page_aligned (cr3 s)" and "\<not> is_table (pmem s) (cr3 s) (ALIGN_DOWN a)"
    and s': "s' = s\<lparr>pmem := (pmem s)(a := x)\<rparr>"
  shows "frame_of (cr3 s') s' v = frame_of (cr3 s) s v" and "vtrans v s' = vtrans v s"
    and "data_region A s' = data_region A s" and "is_table (pmem s') (cr3 s') g = is_table (pmem s) (cr3 s) g"
proof -
  have w: "valid_path q \<Longrightarrow> length q \<le> 4 \<Longrightarrow> walk (pmem s') (cr3 s') q = walk (pmem s) (cr3 s) q" for q
    using walk_data_store [OF assms(1,2)] by (simp add: s' del: fun_upd_apply)
  have f: "frame_of (cr3 s') s' v = frame_of (cr3 s) s v" for v using w [of "path v"] by (simp add: frame_of_def)
  have t: "vtrans v s' = vtrans v s" for v using f by (simp add: vtrans_def)
  have i: "is_table (pmem s') (cr3 s') g = is_table (pmem s) (cr3 s) g" for g
    unfolding is_table_def using w by (intro arg_cong [where f = Ex] ext conj_cong refl) simp
  show "is_table (pmem s') (cr3 s') g = is_table (pmem s) (cr3 s) g" by (rule i)
  from i show "frame_of (cr3 s') s' v = frame_of (cr3 s) s v" "vtrans v s' = vtrans v s"
    "data_region A s' = data_region A s"
    using f t by (simp_all add: data_region_def s')
qed

lemma vstore8_data:
  assumes r: "data_region A s" and v: "v \<in> A"
  obtains s' where "vstore8 v b s = Some s'" "data_region A s'"
    "\<And>w. w \<in> A \<Longrightarrow> vload8 w s' = (if w = v then Some b else vload8 w s)"
proof -
  obtain a where a: "vtrans v s = Some a" "\<not> is_table (pmem s) (cr3 s) (ALIGN_DOWN (a AND NOT 7))"
    by (rule data_region_phys [OF r v])
  define s' where "s' = s\<lparr>pmem := set_phys_byte a b (pmem s)\<rparr>"
  obtain x where x: "s' = s\<lparr>pmem := (pmem s)(a AND NOT 7 := x)\<rparr>" by (auto simp: s'_def set_phys_byte_def Let_def)
  have c: "page_aligned (cr3 s)" using r by (simp add: data_region_def)
  note same = data_store_same [OF c a(2) x]
  show thesis
  proof (rule that)
    show "vstore8 v b s = Some s'" by (simp add: vstore8_def a s'_def)
    show "data_region A s'" using same(3) r by simp
    fix w assume w: "w \<in> A"
    obtain c where c: "vtrans w s = Some c" by (rule data_region_phys [OF r w])
    have "vtrans w s = vtrans v s \<Longrightarrow> w = v" using r v w unfolding data_region_def by blast
    then have "c = a \<longleftrightarrow> w = v" using a c by auto
    then show "vload8 w s' = (if w = v then Some b else vload8 w s)"
      using same(2) [of w] a c by (simp add: vload8_def s'_def phys_byte_set)
  qed
qed

lemma vload8_data: "data_region A s \<Longrightarrow> v \<in> A \<Longrightarrow> \<exists>b. vload8 v s = Some b"
  by (erule (1) data_region_phys) (auto simp: vload8_def)

interpretation vmem: block_memory data_region vload8 vstore8 vload_bytes vstore_bytes vmemcpy vmemset
proof unfold_locales
  fix A a b and s :: "'z mmu_state_scheme"
  assume "data_region A s" and "a \<in> A"
  then obtain s' where "vstore8 a b s = Some s'" "data_region A s'"
    "\<And>w. w \<in> A \<Longrightarrow> vload8 w s' = (if w = a then Some b else vload8 w s)" by (rule vstore8_data) blast
  then show "\<exists>s'. vstore8 a b s = Some s' \<and> data_region A s' \<and>
      (\<forall>c \<in> A. vload8 c s' = (if c = a then Some b else vload8 c s))" by blast
qed (simp_all add: vload8_data)

subsection \<open>Words\<close>

lemma small_index_bits: "i < 8 \<Longrightarrow> bit (word_of_nat i :: u64) n \<Longrightarrow> n < 3"
proof (rule ccontr)
  assume i: "i < 8" and n: "\<not> n < 3" and "bit (word_of_nat i :: u64) n"
  then have "odd (i div 2 ^ n)" by (simp add: bit_of_nat_iff bit_iff_odd [of i])
  moreover have "(2 :: nat) ^ 3 \<le> 2 ^ n" using n by (intro power_increasing) simp_all
  ultimately show False using i by simp
qed

lemma aligned_low_bits: "v AND 7 = (0 :: u64) \<Longrightarrow> bit v n \<Longrightarrow> 3 \<le> n"
proof (rule ccontr)
  assume v: "v AND 7 = 0" and b: "bit v n" "\<not> 3 \<le> n"
  then have "bit (v AND mask 3) n" by (simp add: bit_simps)
  then show False using v by (simp add: mask3 [symmetric])
qed

lemma add_index_OR:
  assumes "v AND 7 = (0 :: u64)" and "i < 8"
  shows "v + of_nat i = v OR of_nat i"
proof (rule disjunctive_add_eq_or)
  have "\<not> (bit v n \<and> bit (word_of_nat i :: u64) n)" for n
    using aligned_low_bits [OF assms(1), of n] small_index_bits [OF assms(2), of n] by auto
  then show "v AND of_nat i = 0"
    by (intro bit_word_eqI) (simp only: bit_and_iff bit_0_eq bot_apply bot_bool_def)
qed

lemma word_index:
  assumes "v AND 7 = (0 :: u64)" and "i < 8"
  shows "(v + of_nat i) AND 7 = of_nat i" and "(v + of_nat i) AND NOT 7 = v"
    and "n \<ge> 3 \<Longrightarrow> bit (v + of_nat i) n = bit v n"
proof -
  note d = aligned_low_bits [OF assms(1)] small_index_bits [OF assms(2)]
  have lo: "bit (v OR of_nat i) n \<longleftrightarrow> (if n < 3 then bit (of_nat i :: u64) n else bit v n)" for n
    using d(1) [of n] d(2) [of n] by (auto simp: bit_or_iff)
  show "(v + of_nat i) AND 7 = of_nat i"
    unfolding add_index_OR [OF assms] unfolding mask3
    by (rule bit_word_eqI) (use d(2) in \<open>simp add: bit_and_iff lo bit_mask_iff, blast\<close>)
  show "(v + of_nat i) AND NOT 7 = v"
    unfolding add_index_OR [OF assms] unfolding mask3
    by (rule bit_word_eqI) (use d(1) in \<open>simp add: bit_and_iff bit_not_iff lo bit_mask_iff, force\<close>)
  show "n \<ge> 3 \<Longrightarrow> bit (v + of_nat i) n = bit v n"
    unfolding add_index_OR [OF assms] by (simp add: lo)
qed

lemma vtrans_word_index:
  assumes c: "page_aligned (cr3 s)" and v: "v AND 7 = 0" and a: "vtrans v s = Some a" and i: "i < 8"
  shows "vtrans (v + of_nat i) s = Some (a + of_nat i)" and "a AND 7 = 0"
proof -
  obtain f where f: "frame_of (cr3 s) s v = Some f" "a = f + (v AND 0xFFF)"
    using a by (auto simp: vtrans_def)
  have pf: "page_aligned f" using f(1) walk_aligned [OF c] by (simp add: frame_of_def)
  have "a AND 7 = (a AND 0xFFF) AND 7" unfolding mask12 mask3 by (rule bit_word_eqI) (auto simp: bit_simps)
  also have "\<dots> = (v AND 0xFFF) AND 7" using ALIGN_DOWN_frame_offset(3) [OF pf, of v] f(2) by simp
  also have "\<dots> = v AND 7" unfolding mask12 mask3 by (rule bit_word_eqI) (auto simp: bit_simps)
  finally show a7: "a AND 7 = 0" using v by simp
  have "same_page (v + of_nat i) v"
    using word_index(3) [OF v i] by (simp add: same_page_bits)
  then have fr: "frame_of (cr3 s) s (v + of_nat i) = Some f" using f(1) by (simp add: frame_of_def same_page_def)
  have w: "(v AND 0xFFF) AND 7 = 0" using \<open>(v AND 0xFFF) AND 7 = v AND 7\<close> v by simp
  have "(v + of_nat i) AND 0xFFF = (v AND 0xFFF) + of_nat i"
    unfolding add_index_OR [OF v i] add_index_OR [OF w i] unfolding mask12
    by (rule bit_word_eqI) (use small_index_bits [OF i] in \<open>simp add: bit_and_iff bit_or_iff bit_mask_iff, force\<close>)
  then show "vtrans (v + of_nat i) s = Some (a + of_nat i)"
    using fr f(2) by (simp add: vtrans_def add.assoc)
qed

text \<open>A word in a region is read and written as its eight bytes.\<close>

lemma vload64_data:
  assumes r: "data_region A s" and sub: "set (block v 8) \<subseteq> A"
  shows "vload64 v s = map_option word_of_bytes (vload_bytes 8 v s)"
proof (cases "v AND 7 = 0")
  case True
  have v: "v \<in> A" using sub by (simp add: eval_nat_numeral)
  obtain a where a: "vtrans v s = Some a" by (rule data_region_phys [OF r v])
  have c: "page_aligned (cr3 s)" using r by (simp add: data_region_def)
  note t = vtrans_word_index [OF c True a]
  have a7: "a AND 7 = 0" by (rule t(2) [of 0]) simp
  have "vload8 (v + of_nat i) s = Some (bytes_of_word (pmem s a) ! i)" if i: "i < 8" for i
    using t(1) [OF i] word_index(1,2) [OF a7 i] i
    by (simp add: vload8_def phys_byte_def bytes_of_word_def unat_of_nat take_bit_nat_eq_self)
  then have "vload_bytes 8 v s = Some (bytes_of_word (pmem s a))"
    by (subst vmem.loads_iff) simp
  then show ?thesis using True a by (simp add: vload64_def)
qed (simp add: vload64_def map_conv_bind_option comp_def)

lemma vstore64_data:
  assumes r: "data_region A s" and sub: "set (block v 8) \<subseteq> A"
  shows "\<exists>s'. vstore64 v w s = Some s' \<and> data_region A s' \<and>
    (\<forall>c \<in> A. vload8 c s' = (if c \<in> set (block v 8) then Some (bytes_of_word w ! unat (c - v)) else vload8 c s))"
proof (cases "v AND 7 = 0")
  case True
  have v: "v \<in> A" using sub by (simp add: eval_nat_numeral)
  obtain a where a: "vtrans v s = Some a" "\<not> is_table (pmem s) (cr3 s) (ALIGN_DOWN a)"
    by (rule data_region_phys [OF r v])
  have c: "page_aligned (cr3 s)" using r by (simp add: data_region_def)
  note t = vtrans_word_index [OF c True a(1)]
  have a7: "a AND 7 = 0" by (rule t(2) [of 0]) simp
  define s' where "s' = s\<lparr>pmem := (pmem s)(a := w)\<rparr>"
  note same = data_store_same [OF c a(2) s'_def]
  have ld: "vload8 u s' = (if u \<in> set (block v 8) then Some (bytes_of_word w ! unat (u - v)) else vload8 u s)" if u: "u \<in> A" for u
  proof -
    obtain p where p: "vtrans u s = Some p" by (rule data_region_phys [OF r u])
    show ?thesis
    proof (cases "u \<in> set (block v 8)")
      case True
      then obtain i where i: "i < 8" "u = v + of_nat i" by (auto simp: block_conv simp del: block.simps)
      then have "p = a + of_nat i" using t(1) [OF i(1)] p by simp
      then show ?thesis
        using True same(2) [of u] p i word_index(1,2) [OF a7 i(1)]
        by (simp add: vload8_def phys_byte_def s'_def bytes_of_word_def unat_of_nat take_bit_nat_eq_self)
    next
      case False
      have "p AND NOT 7 \<noteq> a"
      proof
        assume pa: "p AND NOT 7 = a"
        define i where "i = unat (p AND 7)"
        have i: "i < 8" unfolding i_def by (rule unat_and7)
        have "p = a OR (p AND 7)" using split_low [of p] pa by simp
        then have "p = a + of_nat i" using add_index_OR [OF a7 i] by (simp add: i_def)
        then have "vtrans u s = vtrans (v + of_nat i) s" using t(1) [OF i] p by simp
        moreover have "v + of_nat i \<in> set (block v 8)" using i by (auto simp: block_conv simp del: block.simps)
        ultimately have "u = v + of_nat i" using r u sub unfolding data_region_def by blast
        then show False using False \<open>v + of_nat i \<in> set (block v 8)\<close> by simp
      qed
      then show ?thesis using False same(2) [of u] p by (simp add: vload8_def phys_byte_def s'_def)
    qed
  qed
  have "vstore64 v w s = Some s'" using True a(1) by (simp add: vstore64_def s'_def)
  then show ?thesis using same(3) r ld by blast
next
  case False
  then show ?thesis
    using vmem.stores_valid [OF r, of v "bytes_of_word w"] sub by (simp add: vstore64_def)
qed

subsection \<open>A mapped page\<close>

lemma ALIGN_DOWN_same_page: "ALIGN_DOWN v = ALIGN_DOWN w \<Longrightarrow> same_page v w"
  unfolding same_page_bits by (metis bit_ALIGN_DOWN)

text \<open>The addresses of a page that is mapped to a frame which is not a table are a region.\<close>

lemma data_region_page:
  assumes "page_aligned (cr3 s)" and f: "frame_of (cr3 s) s base = Some f" and "\<not> is_table (pmem s) (cr3 s) f"
    and A: "\<And>v. v \<in> A \<Longrightarrow> ALIGN_DOWN v = ALIGN_DOWN base"
  shows "data_region A s"
proof -
  have fr: "frame_of (cr3 s) s v = Some f" if "v \<in> A" for v
    using f ALIGN_DOWN_same_page [OF A [OF that]] by (simp add: frame_of_def same_page_def)
  have "v = w" if "v \<in> A" "w \<in> A" "v AND 0xFFF = w AND 0xFFF" for v w
  proof (rule bit_word_eqI)
    fix n :: nat
    show "bit v n \<longleftrightarrow> bit w n"
    proof (cases "n < 12")
      case True
      then show ?thesis
        using that(3) unfolding mask12 by (metis bit_and_iff bit_mask_iff possible_bit_word bit_imp_le_length)
    next
      case False
      then have "12 \<le> n" by simp
      then show ?thesis using A [OF that(1)] A [OF that(2)] by (metis bit_ALIGN_DOWN)
    qed
  qed
  then show ?thesis using assms(1,3) fr by (auto simp: data_region_def vtrans_def)
qed

text \<open>A chain of three tables below the root at 0x1000, each with one entry, and what it reaches.\<close>

definition ex_chain :: "u64 \<Rightarrow> u64" where
  "ex_chain a = (case map_of [(0x1000, 0x2007), (0x2000, 0x3007), (0x3010, 0x4007), (0x4000, 0x1007), (0x4008, 0x5007)] a of
     Some w \<Rightarrow> w | None \<Rightarrow> 0)"

lemma ex_chain_step:
  assumes m: "\<And>a. a < 0x5000 \<Longrightarrow> m a = ex_chain a" and "b \<in> {0x1000, 0x2000, 0x3000}" and x: "x < 512"
    and p: "isPresent (m (slot b x))"
  shows "ALIGN_DOWN (m (slot b x)) = b + 0x1000" and "x = (if b = 0x3000 then 2 else 0)"
proof -
  have pa: "page_aligned b" using assms(2) by (auto simp: page_aligned_def)
  have u: "unat (slot b x) = unat b + 8 * unat x" by (rule unat_slot [OF pa x])
  have "unat x < 512" using x by (simp add: word_less_nat_alt)
  then have lt: "slot b x < 0x5000" using assms(2) u by (auto simp: word_less_nat_alt)
  then have e: "isPresent (ex_chain (slot b x))" using p m by simp
  then have "slot b x \<in> {0x1000, 0x2000, 0x3010, 0x4000, 0x4008}"
    by (auto simp: ex_chain_def isPresent_def split: if_splits)
  then have "(b = 0x1000 \<and> slot b x = 0x1000) \<or> (b = 0x2000 \<and> slot b x = 0x2000) \<or> (b = 0x3000 \<and> slot b x = 0x3010)"
    using assms(2) u \<open>unat x < 512\<close> by (auto simp: word_unat_eq_iff)
  then consider "b = 0x1000" "slot b x = 0x1000" | "b = 0x2000" "slot b x = 0x2000" | "b = 0x3000" "slot b x = 0x3010" by blast
  then have "ALIGN_DOWN (m (slot b x)) = b + 0x1000 \<and> x = (if b = 0x3000 then 2 else 0)"
  proof cases
    case 1
    then have "x = 0" using u by (simp add: word_unat_eq_iff)
    with 1 m lt show ?thesis by (simp add: ex_chain_def ALIGN_DOWN_def)
  next
    case 2
    then have "x = 0" using u by (simp add: word_unat_eq_iff)
    with 2 m lt show ?thesis by (simp add: ex_chain_def ALIGN_DOWN_def)
  next
    case 3
    then have "x = 2" using u by (simp add: word_unat_eq_iff)
    with 3 m lt show ?thesis by (simp add: ex_chain_def ALIGN_DOWN_def)
  qed
  then show "ALIGN_DOWN (m (slot b x)) = b + 0x1000" "x = (if b = 0x3000 then 2 else 0)" by blast+
qed

lemma ex_chain_walk:
  assumes "\<And>a. a < 0x5000 \<Longrightarrow> m a = ex_chain a" and "b = of_nat k * 0x1000" "0 < k" "k + length p \<le> 4"
    and "valid_path p" and "walk m b p = Some f"
  shows "f = of_nat (k + length p) * 0x1000"
  using assms(2-6)
proof (induction p arbitrary: b k)
  case (Cons x p)
  then have "k \<in> {1, 2, 3}" by auto
  then have b: "b \<in> {0x1000, 0x2000, 0x3000}" using Cons.prems(1) by auto
  have w: "isPresent (m (slot b x))" "walk m (ALIGN_DOWN (m (slot b x))) p = Some f"
    using Cons.prems(5) by (auto simp: Let_def split: if_splits)
  have "ALIGN_DOWN (m (slot b x)) = b + 0x1000"
    by (rule ex_chain_step(1) [OF assms(1) b _ w(1)]) (use Cons.prems(4) in simp_all)
  then have "ALIGN_DOWN (m (slot b x)) = of_nat (Suc k) * 0x1000" using Cons.prems(1) by (simp add: algebra_simps)
  then show ?case using Cons.IH [of "of_nat (Suc k) * 0x1000" "Suc k"] w(2) Cons.prems(3,4) by simp
qed simp

lemma ex_chain_path:
  assumes "\<And>a. a < 0x5000 \<Longrightarrow> m a = ex_chain a" and "b = of_nat k * 0x1000" "0 < k" "k + length p \<le> 4"
    and "valid_path p" and "walk m b p = Some f"
  shows "p = take (length p) (drop (k - 1) [0, 0, 2])"
  using assms(2-6)
proof (induction p arbitrary: b k)
  case (Cons x p)
  then have k: "k = 1 \<or> k = 2 \<or> k = 3" by auto
  then have b: "b \<in> {0x1000, 0x2000, 0x3000}" using Cons.prems(1) by auto
  have w: "isPresent (m (slot b x))" "walk m (ALIGN_DOWN (m (slot b x))) p = Some f"
    using Cons.prems(5) by (auto simp: Let_def split: if_splits)
  note st = ex_chain_step [OF assms(1) b _ w(1)]
  have x: "ALIGN_DOWN (m (slot b x)) = of_nat (Suc k) * 0x1000" "x = (if b = 0x3000 then 2 else 0)"
    using st Cons.prems(1,4) by (simp_all add: algebra_simps)
  then have "p = take (length p) (drop k [0, 0, 2])"
    using Cons.IH [of "of_nat (Suc k) * 0x1000" "Suc k"] w(2) Cons.prems(3,4) by simp
  with k x(2) Cons.prems(1) show ?case by (elim disjE) simp_all
qed simp

lemma ex_chain_not_table:
  assumes "\<And>a. a < 0x5000 \<Longrightarrow> m a = ex_chain a"
  shows "\<not> is_table m 0x1000 0x5000"
proof
  assume "is_table m 0x1000 0x5000"
  then obtain p where p: "valid_path p" "length p \<le> 3" "walk m 0x1000 p = Some 0x5000"
    unfolding is_table_def by blast
  then have "(0x5000 :: u64) = of_nat (1 + length p) * 0x1000"
    using ex_chain_walk [OF assms, of "0x1000" 1 p] by simp
  moreover have "length p = 0 \<or> length p = 1 \<or> length p = 2 \<or> length p = 3" using p(2) by linarith
  ultimately show False by (elim disjE) (simp_all del: length_0_conv)
qed

lemma ex_chain_region:
  assumes "cr3 s = 0x1000" and "\<And>a. a < 0x5000 \<Longrightarrow> pmem s a = ex_chain a"
    and "\<And>v. v \<in> A \<Longrightarrow> ALIGN_DOWN v = 0x401000"
  shows "data_region A s"
proof (rule data_region_page [where base = "0x401000" and f = "0x5000"])
  show "page_aligned (cr3 s)" by (simp add: assms(1) page_aligned_def)
  have "path 0x401000 = [0, 0, 2, 1]" by code_simp
  then show "frame_of (cr3 s) s 0x401000 = Some 0x5000"
    using assms(2) by (simp add: frame_of_def assms(1) slot_def ex_chain_def isPresent_def PT_PRESENT_FLAG_def ALIGN_DOWN_def)
  show "\<not> is_table (pmem s) (cr3 s) 0x5000" using ex_chain_not_table [OF assms(2)] by (simp add: assms(1))
  show "ALIGN_DOWN v = ALIGN_DOWN 0x401000" if "v \<in> A" for v
    using assms(3) [OF that] by (simp add: ALIGN_DOWN_def)
qed

end
