(* ===== verification/Paging.thy ===== *)
theory Paging
  imports Interrupts FlatMem
begin

section \<open>Page faults and the memory of a program\<close>

text \<open>
  A fault that brings in a page composes the frame allocator, the page tables and the byte memory: the page
  gets a frame of its own, its bytes are set, and what the other pages hold stays as it was.
\<close>

subsection \<open>The bytes of a page\<close>

lemma page_and_offset: "v = ALIGN_DOWN v + (v AND 0xFFF)"
proof -
  have "ALIGN_DOWN v AND (v AND 0xFFF) = 0" unfolding mask12 by (rule bit_word_eqI) (auto simp: bit_simps)
  then have "ALIGN_DOWN v + (v AND 0xFFF) = ALIGN_DOWN v OR (v AND 0xFFF)" by (rule disjunctive_add_eq_or)
  also have "\<dots> = v" unfolding mask12 by (rule bit_word_eqI) (auto simp: bit_simps)
  finally show ?thesis by simp
qed

lemma page_block: "v \<in> set (block (ALIGN_DOWN a) 4096) \<longleftrightarrow> ALIGN_DOWN v = ALIGN_DOWN a"
proof
  assume "v \<in> set (block (ALIGN_DOWN a) 4096)"
  then obtain i where i: "i < 4096" "v = ALIGN_DOWN a + of_nat i" by (auto simp: block_conv)
  have "(of_nat i :: u64) AND 0xFFF = of_nat i"
  proof -
    have "(of_nat i :: u64) < 2 ^ 12" using i(1) by (simp add: word_less_nat_alt unat_of_nat take_bit_nat_eq_self)
    then have "take_bit 12 (of_nat i :: u64) = of_nat i"
      by (simp add: word_unat_eq_iff unsigned_take_bit_eq take_bit_nat_eq_self word_less_nat_alt)
    then show ?thesis unfolding mask12 by (simp add: take_bit_eq_mask and.commute)
  qed
  then show "ALIGN_DOWN v = ALIGN_DOWN a"
    using ALIGN_DOWN_frame_offset(1) [of "ALIGN_DOWN a" "of_nat i"] i(2) by simp
next
  assume v: "ALIGN_DOWN v = ALIGN_DOWN a"
  have "v = ALIGN_DOWN v + (v AND 0xFFF)" by (rule page_and_offset)
  moreover have "unat (v AND 0xFFF) < 4096"
    using word_and_le1 [of v "0xFFF"] by (simp add: word_le_nat_alt)
  ultimately show "v \<in> set (block (ALIGN_DOWN a) 4096)"
    unfolding block_conv v [symmetric] by (auto intro!: image_eqI [of _ _ "unat (v AND 0xFFF)"])
qed

lemma ALIGN_UP_not_aligned:
  assumes "\<not> page_aligned v"
  shows "ALIGN_UP v - 4096 = ALIGN_DOWN v"
proof -
  have "page_aligned (ALIGN_DOWN v + 0x1000)"
    by (rule page_aligned_add) simp_all
  then have "ALIGN_DOWN ((ALIGN_DOWN v + 0x1000) + (v AND 0xFFF)) = ALIGN_DOWN v + 0x1000"
    by (rule ALIGN_DOWN_frame_offset(1))
  moreover have "(ALIGN_DOWN v + 0x1000) + (v AND 0xFFF) = v + 0x1000" using page_and_offset [of v] by (simp add: ac_simps)
  ultimately show ?thesis using assms by (simp add: ALIGN_UP_def page_aligned_def)
qed

subsection \<open>A frame of its own for a page\<close>

text \<open>What \<open>tables_on\<close> says of the frames: only tables are written, new tables were free frames.\<close>

definition tables_only :: "u64 \<Rightarrow> 'z mmu_state_scheme \<Rightarrow> 'z mmu_state_scheme \<Rightarrow> bool" where
  "tables_only root s s' \<longleftrightarrow>
     (\<forall>a. \<not> is_table (pmem s') root (ALIGN_DOWN a) \<longrightarrow> pmem s' a = pmem s a) \<and>
     (\<forall>f. is_table (pmem s) root f \<longrightarrow> is_table (pmem s') root f) \<and>
     (\<forall>f. is_table (pmem s') root f \<longrightarrow> is_table (pmem s) root f \<or>
        (\<exists>pg. page_free s pg \<and> unat pg < 508 * 64 \<and> f = mm_page_to_phy pg)) \<and>
     (\<forall>pg. page_free s' pg \<longrightarrow> page_free s pg)"

lemma tables_only_refl [simp]: "tables_only root s s"
  by (simp add: tables_only_def)

lemma tables_only_trans: "tables_only root s t \<Longrightarrow> tables_only root t u \<Longrightarrow> tables_only root s u"
  unfolding tables_only_def by metis

lemma tables_on_only:
  assumes t: "tables_on r root s s'" and r: "valid_path r"
  shows "tables_only root s s'"
  unfolding tables_only_def
proof (intro conjI allI impI)
  fix a assume nt: "\<not> is_table (pmem s') root (ALIGN_DOWN a)"
  show "pmem s' a = pmem s a"
  proof (rule ccontr)
    assume "pmem s' a \<noteq> pmem s a"
    then obtain k where "k \<le> 3" "walk (pmem s') root (take k r) = Some (ALIGN_DOWN a)"
      using t unfolding tables_on_def by blast
    moreover from this have "length (take k r) \<le> 3" by simp
    ultimately show False using nt valid_path_take [OF r] unfolding is_table_def by blast
  qed
next
  fix f assume "is_table (pmem s) root f"
  then show "is_table (pmem s') root f" using t unfolding tables_on_def is_table_def by blast
next
  fix f assume "is_table (pmem s') root f"
  then obtain p where "valid_path p" "length p \<le> 3" "walk (pmem s') root p = Some f" unfolding is_table_def by blast
  then show "is_table (pmem s) root f \<or> (\<exists>pg. page_free s pg \<and> unat pg < 508 * 64 \<and> f = mm_page_to_phy pg)"
    using t unfolding tables_on_def is_table_def by blast
next
  fix pg assume "page_free s' pg"
  then show "page_free s pg" using t unfolding tables_on_def by blast
qed

text \<open>The frames of data: mapped, no table, and not in the pool.\<close>

definition data_frame :: "u64 \<Rightarrow> 'z mmu_state_scheme \<Rightarrow> bool" where
  "data_frame f s \<longleftrightarrow> \<not> is_table (pmem s) (cr3 s) f \<and>
     (\<forall>pg. page_free s pg \<and> unat pg < 508 * 64 \<longrightarrow> f \<noteq> mm_page_to_phy pg)"

definition data_page :: "u64 \<Rightarrow> 'z mmu_state_scheme \<Rightarrow> bool" where
  "data_page v s \<longleftrightarrow> (\<exists>f. frame_of (cr3 s) s v = Some f \<and> data_frame f s)"

lemma data_frame_kept:
  assumes "tables_only (cr3 s) s s'" and "cr3 s' = cr3 s" and "data_frame f s"
  shows "data_frame f s'"
  using assms unfolding tables_only_def data_frame_def by metis

lemma tables_only_byte:
  assumes t: "tables_only root s s'" and "\<not> is_table (pmem s') root (ALIGN_DOWN (a AND NOT 7))"
  shows "phys_byte (pmem s') a = phys_byte (pmem s) a"
  using assms by (simp add: tables_only_def phys_byte_def)

lemma tables_only_load:
  assumes t: "tables_only (cr3 s) s s'" and c: "cr3 s' = cr3 s" "page_aligned (cr3 s)"
    and f: "frame_of (cr3 s) s v = Some f" "frame_of (cr3 s) s' v = Some f" "data_frame f s"
  shows "vload8 v s' = vload8 v s"
proof -
  have pf: "page_aligned f" using f(1) walk_aligned [OF c(2)] by (simp add: frame_of_def)
  have "\<not> is_table (pmem s') (cr3 s) f" using data_frame_kept [OF t c(1) f(3)] c(1) by (simp add: data_frame_def)
  then show ?thesis
    using tables_only_byte [OF t, of "f + (v AND 0xFFF)"] ALIGN_DOWN_frame_offset(2) [OF pf, of v] f c(1)
    by (simp add: vload8_def vtrans_def)
qed

text \<open>Mapping one frame at an address: \<open>alloc_pages_at_virt\<close> for a single page.\<close>

lemma map_fresh_page:
  assumes ok: "mm_ok (cr3 s) s" and fl: "valid_flags flags" and al: "mm_phy_alloc_page s = Some (pg, t)"
    and mp: "map_virt_to_phy va (mm_page_to_phy pg) flags t = Some s'"
  shows "mm_ok (cr3 s) s'" and "cr3 s' = cr3 s"
    and "frame_of (cr3 s) s' v = (if same_page v va then Some (mm_page_to_phy pg) else frame_of (cr3 s) s v)"
    and "tables_only (cr3 s) s s'" and "\<not> page_free s' pg" and "data_frame (mm_page_to_phy pg) s'"
    and "heap_update s s'"
proof -
  note same = alloc_mmu_fields [OF al] and free = alloc_page_free [OF al] and bound = alloc_page_bounds(1) [OF al]
  have mp': "map_page True (cr3 s) va (mm_page_to_phy pg) flags t = Some s'"
    using mp same by (simp add: map_virt_to_phy_map_page)
  note r = map_page_refines [OF mp' mm_ok_alloc [OF ok al] fl page_aligned_page_to_phy]
  show "mm_ok (cr3 s) s'" "cr3 s' = cr3 s" using r same by simp_all
  show "frame_of (cr3 s) s' v = (if same_page v va then Some (mm_page_to_phy pg) else frame_of (cr3 s) s v)"
    using r same by (simp add: frame_of_def)
  have t: "tables_only (cr3 s) t s'" using r tables_on_only [OF _ valid_path_path] by blast
  then show "tables_only (cr3 s) s s'" using same free(3) unfolding tables_only_def by metis
  show nf: "\<not> page_free s' pg" using t free(2) by (auto simp: tables_only_def)
  have "\<not> is_table (pmem s') (cr3 s) (mm_page_to_phy pg)"
  proof
    assume "is_table (pmem s') (cr3 s) (mm_page_to_phy pg)"
    then consider "is_table (pmem s) (cr3 s) (mm_page_to_phy pg)" |
      q where "page_free t q" "unat q < 508 * 64" "mm_page_to_phy pg = mm_page_to_phy q"
      using t same unfolding tables_only_def by metis
    then show False
    proof cases
      case 1
      then show ?thesis using ok free(1) bound by (auto simp: mm_ok_def)
    next
      case 2
      then show ?thesis using page_to_phy_inj [OF bound] free(2) by blast
    qed
  qed
  moreover have "mm_page_to_phy pg \<noteq> mm_page_to_phy q" if "page_free s' q \<and> unat q < 508 * 64" for q
    using page_to_phy_inj [OF bound, of q] nf that by auto
  ultimately show "data_frame (mm_page_to_phy pg) s'" using r same by (simp add: data_frame_def)
  show "heap_update s s'" using heap_update_trans [OF heap_update_alloc [OF al] heap_update_map_page [OF mp']] .
qed

lemma alloc_one_page:
  assumes "can_alloc 4 s"
  obtains pg t s' where "mm_phy_alloc_page s = Some (pg, t)"
    "map_virt_to_phy va (mm_page_to_phy pg) flags t = Some s'"
    "alloc_pages_at_virt va PAGE_SIZE flags s = Some (va, s')"
proof -
  have "can_alloc (Suc (Suc (Suc (Suc 0)))) s" using assms by (simp add: eval_nat_numeral)
  then obtain pg t where t: "mm_phy_alloc_page s = Some (pg, t)" "can_alloc (Suc (Suc (Suc 0))) t"
    using can_alloc_step by blast
  from map_page_returns [OF t(2), of True "cr3 t" va "mm_page_to_phy pg" flags]
  obtain s' where s': "map_virt_to_phy va (mm_page_to_phy pg) flags t = Some s'"
    by (auto simp: map_virt_to_phy_map_page)
  have "unat (pages_of_size PAGE_SIZE) = 1" by (simp add: pages_of_size_def)
  then have "alloc_pages_at_virt va PAGE_SIZE flags s = Some (va, s')"
    using t(1) s' by (simp add: alloc_pages_at_virt_def Let_def)
  with t(1) s' show thesis by (rule that)
qed

text \<open>Stores into frames \<open>F\<close> of data leave every walk and all other frames as they are.\<close>

definition stores_in :: "u64 set \<Rightarrow> 'z mmu_state_scheme \<Rightarrow> 'z mmu_state_scheme \<Rightarrow> bool" where
  "stores_in F s s' \<longleftrightarrow> s' = s\<lparr>pmem := pmem s'\<rparr> \<and>
     (\<forall>q. valid_path q \<and> length q \<le> 4 \<longrightarrow> walk (pmem s') (cr3 s) q = walk (pmem s) (cr3 s) q) \<and>
     (\<forall>c. ALIGN_DOWN c \<notin> F \<longrightarrow> pmem s' c = pmem s c)"

lemma stores_in_refl [simp]: "stores_in F s s"
  by (simp add: stores_in_def)

lemma stores_in_cr3: "stores_in F s s' \<Longrightarrow> cr3 s' = cr3 s \<and> (page_free s' pg \<longleftrightarrow> page_free s pg)"
proof -
  assume "stores_in F s s'"
  then have "s' = s\<lparr>pmem := pmem s'\<rparr>" by (simp only: stores_in_def)
  then have "cr3 s' = cr3 (s\<lparr>pmem := pmem s'\<rparr>)" "page_free s' pg = page_free (s\<lparr>pmem := pmem s'\<rparr>) pg" by metis+
  then show ?thesis by simp
qed

lemma stores_in_trans: "stores_in F s t \<Longrightarrow> stores_in F t u \<Longrightarrow> stores_in F s u"
proof -
  assume *: "stores_in F s t" "stores_in F t u"
  then have "t = s\<lparr>pmem := pmem t\<rparr>" "u = t\<lparr>pmem := pmem u\<rparr>" by (simp_all only: stores_in_def)
  then have "u = (s\<lparr>pmem := pmem t\<rparr>)\<lparr>pmem := pmem u\<rparr>" by metis
  then have "u = s\<lparr>pmem := pmem u\<rparr>" by simp
  with * stores_in_cr3 [OF *(1)] show ?thesis by (simp add: stores_in_def)
qed

lemma stores_in_tables:
  assumes "stores_in F s s'"
  shows "frame_of (cr3 s) s' v = frame_of (cr3 s) s v" and "is_table (pmem s') (cr3 s) g = is_table (pmem s) (cr3 s) g"
proof -
  have w: "valid_path q \<Longrightarrow> length q \<le> 4 \<Longrightarrow> walk (pmem s') (cr3 s) q = walk (pmem s) (cr3 s) q" for q
    using assms by (simp add: stores_in_def)
  show "frame_of (cr3 s) s' v = frame_of (cr3 s) s v" using w [of "path v"] by (simp add: frame_of_def)
  show "is_table (pmem s') (cr3 s) g = is_table (pmem s) (cr3 s) g"
    unfolding is_table_def using w by (intro arg_cong [where f = Ex] ext conj_cong refl) simp
qed

text \<open>Stores into data frames keep the invariant of the memory manager and the bytes of other pages.\<close>

lemma stores_in_mm_ok:
  assumes st: "stores_in F s s'" and ok: "mm_ok (cr3 s) s" and F: "\<And>f. f \<in> F \<Longrightarrow> data_frame f s"
  shows "mm_ok (cr3 s) s'"
  unfolding mm_ok_def
proof (intro conjI allI impI)
  have w: "valid_path q \<Longrightarrow> length q \<le> 4 \<Longrightarrow> walk (pmem s') (cr3 s) q = walk (pmem s) (cr3 s) q" for q
    using st by (simp add: stores_in_def)
  have wf: "pt_wf (pmem s) (cr3 s)" using ok by (simp add: mm_ok_def)
  have "p = q" if "valid_path p \<and> valid_path q \<and> length p \<le> 3 \<and> length q \<le> 3 \<and>
      walk (pmem s') (cr3 s) p = Some f \<and> walk (pmem s') (cr3 s) q = Some f" for p q f
    by (rule pt_wfD [OF wf, of _ f]) (use w [of p] w [of q] that in auto)
  then show "pt_wf (pmem s') (cr3 s)" using wf unfolding pt_wf_def by blast
  fix pg assume pg: "page_free s' pg \<and> unat pg < 508 * 64"
  then have free: "page_free s pg" using stores_in_cr3 [OF st] by simp
  have "mm_page_to_phy pg \<notin> F" using F pg free unfolding data_frame_def by blast
  then have "pmem s' (slot (mm_page_to_phy pg) x) = pmem s (slot (mm_page_to_phy pg) x)" if "x < 512" for x
    using st ALIGN_DOWN_slot [OF page_aligned_page_to_phy that] by (simp add: stores_in_def)
  then show "zero_frame (pmem s') (mm_page_to_phy pg)" using ok free pg by (simp add: mm_ok_def zero_frame_def)
  show "\<not> is_table (pmem s') (cr3 s) (mm_page_to_phy pg)"
    using ok free pg stores_in_tables(2) [OF st] by (simp add: mm_ok_def)
qed

lemma stores_in_load:
  assumes st: "stores_in F s s'" and al: "page_aligned (cr3 s)"
    and f: "frame_of (cr3 s) s v = Some f" "f \<notin> F"
  shows "vload8 v s' = vload8 v s"
proof -
  have pf: "page_aligned f" using f(1) walk_aligned [OF al] by (simp add: frame_of_def)
  have "pmem s' (f + (v AND 0xFFF) AND NOT 7) = pmem s (f + (v AND 0xFFF) AND NOT 7)"
    using st f(2) ALIGN_DOWN_frame_offset(2) [OF pf, of v] by (simp add: stores_in_def)
  then show ?thesis
    using f(1) stores_in_cr3 [OF st] stores_in_tables(1) [OF st] by (simp add: vload8_def vtrans_def phys_byte_def)
qed

lemma vstore8_stores_in:
  assumes r: "data_region A s" "v \<in> A" and f: "frame_of (cr3 s) s v = Some f" "f \<in> F" and st: "vstore8 v b s = Some s'"
  shows "stores_in F s s'"
proof -
  obtain a where a: "vtrans v s = Some a" "\<not> is_table (pmem s) (cr3 s) (ALIGN_DOWN (a AND NOT 7))"
    by (rule data_region_phys [OF r])
  then obtain x where x: "s' = s\<lparr>pmem := (pmem s)(a AND NOT 7 := x)\<rparr>"
    using st by (auto simp: vstore8_def set_phys_byte_def Let_def)
  have al: "page_aligned (cr3 s)" using r by (simp add: data_region_def)
  then have "page_aligned f" using f(1) walk_aligned by (auto simp: frame_of_def)
  then have "ALIGN_DOWN (a AND NOT 7) = f"
    using a(1) f(1) ALIGN_DOWN_frame_offset(2) by (auto simp: vtrans_def)
  then show ?thesis
    using walk_data_store [OF al a(2)] f(2) unfolding stores_in_def by (auto simp: x simp del: fun_upd_apply) auto
qed

lemma vstore_bytes_stores_in:
  "data_region A s \<Longrightarrow> set (block a (length bs)) \<subseteq> A \<Longrightarrow> vstore_bytes bs a s = Some s' \<Longrightarrow>
   \<forall>v \<in> A. \<exists>f \<in> F. frame_of (cr3 s) s v = Some f \<Longrightarrow> stores_in F s s'"
proof (induction bs arbitrary: a s)
  case (Cons b bs)
  then obtain t where t: "vstore8 a b s = Some t" "vstore_bytes bs (a + 1) t = Some s'"
    by (auto split: bind_splits)
  have a: "a \<in> A" using Cons.prems(2) by simp
  then obtain f where f: "f \<in> F" "frame_of (cr3 s) s a = Some f" using Cons.prems(4) by blast
  note st = vstore8_stores_in [OF Cons.prems(1) a f(2,1) t(1)]
  have "data_region A t" using vstore8_data [OF Cons.prems(1) a, of b] t(1) by (metis option.inject)
  moreover have "\<forall>v \<in> A. \<exists>f \<in> F. frame_of (cr3 t) t v = Some f"
    using Cons.prems(4) stores_in_cr3 [OF st] stores_in_tables(1) [OF st] by simp
  ultimately have "stores_in F t s'" using Cons.IH [OF _ _ t(2)] Cons.prems(2) by simp
  with st show ?case by (rule stores_in_trans)
qed simp

text \<open>Filling a page: the bytes of the page, and nothing else.\<close>

lemma fill_page:
  assumes al: "page_aligned (cr3 s)" and f: "frame_of (cr3 s) s a = Some f"
    and nt: "\<not> is_table (pmem s) (cr3 s) f" and bs: "length bs = 4096"
  obtains s' where "vstore_bytes bs (ALIGN_DOWN a) s = Some s'" "stores_in {f} s s'"
    "\<And>v. ALIGN_DOWN v = ALIGN_DOWN a \<Longrightarrow> vload8 v s' = Some (bs ! unat (v AND 0xFFF))"
proof -
  let ?A = "set (block (ALIGN_DOWN a) 4096)"
  have r: "data_region ?A s" by (rule data_region_page [OF al f nt]) (simp only: page_block)
  have fr: "frame_of (cr3 s) s v = Some f" if "v \<in> ?A" for v
    using that f ALIGN_DOWN_same_page [of v a] by (simp add: page_block frame_of_def same_page_def)
  obtain s' where s': "vstore_bytes bs (ALIGN_DOWN a) s = Some s'"
    "\<forall>c \<in> ?A. vload8 c s' = (if c \<in> ?A then Some (bs ! unat (c - ALIGN_DOWN a)) else vload8 c s)"
    using vmem.stores_valid [OF r, of "ALIGN_DOWN a" bs] bs by auto
  show thesis
  proof (rule that [OF s'(1)])
    show "stores_in {f} s s'" by (rule vstore_bytes_stores_in [OF r _ s'(1)]) (use fr in \<open>simp_all add: bs\<close>)
    fix v assume v: "ALIGN_DOWN v = ALIGN_DOWN a"
    have "v - ALIGN_DOWN a = v AND 0xFFF" using page_and_offset [of v] v by (simp add: algebra_simps)
    then show "vload8 v s' = Some (bs ! unat (v AND 0xFFF))"
      using bspec [OF s'(2), of v] v by (simp add: page_block)
  qed
qed

subsection \<open>Demand paging\<close>

lemma valid_user_flags [simp]: "valid_flags user_flags"
  by (simp add: valid_flags_def isPresent_def PT_PRESENT_FLAG_def PT_WRITABLE_FLAG_def PT_USER_def)

text \<open>The part both branches share: the page of an address gets a fresh frame.\<close>

lemma page_for_address:
  assumes ok: "mm_ok (cr3 s) s" and "can_alloc 4 s"
  obtains pg s' where "alloc_pages_at_virt va PAGE_SIZE user_flags s = Some (va, s')" "page_free s pg" "\<not> page_free s' pg"
    "mm_ok (cr3 s) s'" "cr3 s' = cr3 s" "heap_update s s'" "tables_only (cr3 s) s s'" "data_frame (mm_page_to_phy pg) s'"
    "\<And>f. data_frame f s \<Longrightarrow> f \<noteq> mm_page_to_phy pg"
    "\<And>v. frame_of (cr3 s) s' v = (if same_page v va then Some (mm_page_to_phy pg) else frame_of (cr3 s) s v)"
proof -
  obtain pg t s' where r: "mm_phy_alloc_page s = Some (pg, t)"
    "map_virt_to_phy va (mm_page_to_phy pg) user_flags t = Some s'"
    "alloc_pages_at_virt va PAGE_SIZE user_flags s = Some (va, s')"
    by (rule alloc_one_page [OF assms(2), of va user_flags])
  note m = map_fresh_page [OF ok valid_user_flags r(1,2)]
  have "f \<noteq> mm_page_to_phy pg" if "data_frame f s" for f
    using that alloc_page_free(1) [OF r(1)] alloc_page_bounds(1) [OF r(1)] unfolding data_frame_def by blast
  with r(3) alloc_page_free(1) [OF r(1)] m show thesis by (intro that)
qed

text \<open>The state in which a fault at \<open>addr\<close> is an access of the current task to its area \<open>v\<close>: the first area
  of its list that covers the address; its own tables are loaded, and frames are available.\<close>

definition area_fault :: "u64 \<Rightarrow> vm_area_struct \<Rightarrow> 'z proc_state_scheme \<Rightarrow> bool" where
  "area_fault addr v s \<longleftrightarrow> (\<exists>t m as a. deref (tasks s) (current_task s) = Some t \<and> deref (mms s) (t_mm t) = Some m \<and>
     vma_seq s (m_vma_list m) as \<and>
     find (\<lambda>a. in_heap_area addr (node_at (vmas s) a) \<or> in_stack_area addr (node_at (vmas s) a)) as = Some a \<and>
     v = node_at (vmas s) a \<and> virt_to_phy (t_pml4e t) 0 s = cr3 s) \<and> mm_ok (cr3 s) s \<and> can_alloc 4 s"

lemma demand_paging_area:
  assumes "area_fault addr v s"
  shows "demand_paging addr s =
    (if in_heap_area addr v then do {
       (_, s) \<leftarrow> alloc_pages_at_virt (ALIGN_DOWN addr) PAGE_SIZE user_flags s;
       s \<leftarrow> vstore_bytes (replicate 4096 0) (ALIGN_DOWN addr) s;
       Some (Return 0 s)
     }
     else do {
       (_, s) \<leftarrow> alloc_pages_at_virt (ALIGN_UP addr - 4096) PAGE_SIZE user_flags s;
       Some (Return 0 s)
     })"
proof -
  obtain t m as a where *: "deref (tasks s) (current_task s) = Some t" "deref (mms s) (t_mm t) = Some m"
    "vma_seq s (m_vma_list m) as"
    "find (\<lambda>a. in_heap_area addr (node_at (vmas s) a) \<or> in_stack_area addr (node_at (vmas s) a)) as = Some a"
    "v = node_at (vmas s) a" "virt_to_phy (t_pml4e t) 0 s = cr3 s"
    using assms unfolding area_fault_def by blast
  have "a \<in> set as" using *(4) by (auto simp: find_Some_iff)
  then have d: "deref (vmas s) a = Some v" "a \<noteq> 0"
    using llist_deref [OF *(3)] llist_nonzero [OF *(3)] *(5) by simp_all
  have "list_find v_next (vmas s) (\<lambda>_ v. in_heap_area addr v \<or> in_stack_area addr v) (m_vma_list m) = Some a"
    using list_find_llist [OF *(3)] *(4) by simp
  moreover have "write_cr3 (cr3 s) s = s" by (simp add: write_cr3_def)
  ultimately show ?thesis
    using d by (simp add: demand_paging_def get_current_task_def Let_def vmem.fill_stores *(1,2,6))
qed

subsection \<open>An example\<close>

text \<open>A task whose own table is mapped at 0x400000, with a heap from 0x500000 and a stack below 0x800000.\<close>

definition ex_fault :: proc_state where
  "ex_fault = ex_proc\<lparr>cr3 := 0x1000, pmem := (\<lambda>a. if a < 0x5000 then ex_chain a else 0),
     tasks := [32 \<mapsto> (mk_task 2 TASK_RUNNING 0 80)\<lparr>t_pml4e := 0x400000\<rparr>],
     vmas := [8 \<mapsto> mk_vma 0x500000 0x500000 VMA_HEAP 24, 24 \<mapsto> mk_vma 0x800000 0x700000 VMA_STACK 0]\<rparr>"

lemma ex_pool:
  assumes "phy_bitmap s = phy_bitmap ex_heap" and "page_free s pg" and "unat pg < 508 * 64"
  shows "0x7EC0000 \<le> mm_page_to_phy pg"
proof -
  have n: "unat pg mod 64 < 64" by simp
  have "pg div 64 = 507"
  proof (rule ccontr)
    assume "pg div 64 \<noteq> 507"
    then have "phy_bitmap s (pg div 64) = 0xFFFFFFFFFFFFFFFF" by (simp add: assms(1) ex_heap_def)
    moreover have "(0xFFFFFFFFFFFFFFFF :: u64) = - 1" by simp
    then have "bit (0xFFFFFFFFFFFFFFFF :: u64) (unat pg mod 64)"
      using n by (simp only: bit_minus_1_iff possible_bit_word) simp
    ultimately show False using assms(2) by (simp add: page_free_def)
  qed
  then have "unat (pg div 64) = unat (507 :: u64)" by (rule arg_cong)
  then have "unat pg div 64 = 507" by (simp add: unat_div)
  then have "507 * 64 \<le> unat pg" using div_times_less_eq_dividend [of "unat pg" 64] by simp
  then show ?thesis using assms(3) by (simp add: mm_page_to_phy_def word_le_nat_alt unat_word_ariths)
qed

lemma ex_chain_mm_ok:
  assumes m: "pmem s = (\<lambda>a. if a < 0x5000 then ex_chain a else 0)" and b: "phy_bitmap s = phy_bitmap ex_heap"
  shows "mm_ok 0x1000 s"
proof -
  have c: "pmem s a = ex_chain a" if "a < 0x5000" for a using that by (simp add: m)
  have w: "p = take (length p) [0, 0, 2] \<and> f = of_nat (1 + length p) * 0x1000"
    if "valid_path p" "length p \<le> 3" "walk (pmem s) 0x1000 p = Some f" for p f
    using ex_chain_path [OF c, of "0x1000" 1 p f] ex_chain_walk [OF c, of "0x1000" 1 p f] that by simp
  have "pt_wf (pmem s) 0x1000"
    unfolding pt_wf_def
  proof (intro conjI allI impI)
    fix p q f assume *: "valid_path p \<and> valid_path q \<and> length p \<le> 3 \<and> length q \<le> 3 \<and>
      walk (pmem s) 0x1000 p = Some f \<and> walk (pmem s) 0x1000 q = Some f"
    then have "unat (of_nat (1 + length p) * 0x1000 :: u64) = unat (of_nat (1 + length q) * 0x1000 :: u64)"
      using w [of p f] w [of q f] by simp
    then have "length p = length q"
      using * by (simp add: unat_word_ariths unat_of_nat take_bit_nat_eq_self)
    then show "p = q" using w [of p f] w [of q f] * by metis
  qed (simp add: page_aligned_def)
  moreover have "zero_frame (pmem s) (mm_page_to_phy pg) \<and> \<not> is_table (pmem s) 0x1000 (mm_page_to_phy pg)"
    if "page_free s pg \<and> unat pg < 508 * 64" for pg
  proof
    have hi: "0x7EC0000 \<le> mm_page_to_phy pg" using ex_pool [OF b] that by blast
    show "zero_frame (pmem s) (mm_page_to_phy pg)"
      unfolding zero_frame_def
    proof (intro allI impI)
      fix x :: u64 assume x: "x < 512"
      have "unat (slot (mm_page_to_phy pg) x) \<ge> 0x7EC0000"
        using unat_slot [OF page_aligned_page_to_phy x, of pg] hi by (simp add: word_le_nat_alt)
      then show "pmem s (slot (mm_page_to_phy pg) x) = 0" by (simp add: m word_less_nat_alt)
    qed
    show "\<not> is_table (pmem s) 0x1000 (mm_page_to_phy pg)"
    proof
      assume "is_table (pmem s) 0x1000 (mm_page_to_phy pg)"
      then obtain p where p: "valid_path p" "length p \<le> 3" "walk (pmem s) 0x1000 p = Some (mm_page_to_phy pg)"
        unfolding is_table_def by blast
      have "unat (of_nat (1 + length p) * 0x1000 :: u64) \<le> 0x4000"
        using p(2) by (simp add: unat_word_ariths unat_of_nat take_bit_nat_eq_self)
      then show False using w [OF p] hi by (simp add: word_le_nat_alt)
    qed
  qed
  ultimately show ?thesis by (simp add: mm_ok_def)
qed

lemma ex_fault_areas:
  assumes "find (\<lambda>a. in_heap_area addr (node_at (vmas ex_fault) a) \<or> in_stack_area addr (node_at (vmas ex_fault) a)) [8, 24] = Some a"
  shows "area_fault addr (node_at (vmas ex_fault) a) ex_fault"
proof -
  have c: "cr3 ex_fault = 0x1000" and m: "pmem ex_fault = (\<lambda>a. if a < 0x5000 then ex_chain a else 0)"
    and b: "phy_bitmap ex_fault = phy_bitmap ex_heap"
    by (simp_all add: ex_fault_def ex_proc_def mmu_state.defs)
  have "vma_seq ex_fault 8 [8, 24]" by (simp add: ex_fault_def deref_def mk_vma_def)
  moreover have "virt_to_phy 0x400000 0 ex_fault = 0x1000" by code_simp
  moreover have "can_alloc 4 ex_fault" unfolding can_alloc_def by code_simp
  ultimately show ?thesis
    unfolding area_fault_def
    using ex_chain_mm_ok [OF m b] assms
    by (intro conjI exI [of _ "(mk_task 2 TASK_RUNNING 0 80)\<lparr>t_pml4e := 0x400000\<rparr>"] exI [of _ "mk_mm 8"]
        exI [of _ "[8, 24]"] exI [of _ a])
      (simp_all add: c, simp_all add: ex_fault_def deref_def ex_proc_def mmu_state.defs mk_task_def mk_mm_def)
qed

lemma ex_fault_area: "area_fault 0x500123 (mk_vma 0x500000 0x500000 VMA_HEAP 24) ex_fault"
  using ex_fault_areas [of "0x500123" 8]
  by (simp add: ex_fault_def node_at_def in_heap_area_def mk_vma_def)

lemma ex_fault_stack: "area_fault 0x7FF000 (mk_vma 0x800000 0x700000 VMA_STACK 0) ex_fault"
  using ex_fault_areas [of "0x7FF000" 24]
  by (simp add: ex_fault_def node_at_def in_heap_area_def in_stack_area_def mk_vma_def)

subsection \<open>Properties\<close>

text \<open>C12: a fault on the heap of a program brings in a page of zeros: the handler returns, the page of the
  address translates to a frame that was free and every byte of it reads 0; no other page changes its
  translation or its contents, and the memory manager's invariant is kept.\<close>

lemma heap_fault_zero_page:
  assumes "area_fault addr v s" and "in_heap_area addr v"
  shows "\<exists>s' pg. demand_paging addr s = Some (Return 0 s') \<and> mm_ok (cr3 s') s' \<and> cr3 s' = cr3 s \<and>
    page_free s pg \<and> \<not> page_free s' pg \<and>
    (\<forall>u. frame_of (cr3 s) s' u = (if same_page u addr then Some (mm_page_to_phy pg) else frame_of (cr3 s) s u)) \<and>
    (\<forall>u. ALIGN_DOWN u = ALIGN_DOWN addr \<longrightarrow> vload8 u s' = Some 0) \<and>
    (\<forall>u. data_page u s \<and> \<not> same_page u addr \<longrightarrow> vload8 u s' = vload8 u s)"
proof -
  have ok: "mm_ok (cr3 s) s" "can_alloc 4 s" using assms(1) by (simp_all add: area_fault_def)
  have al: "page_aligned (cr3 s)" using ok(1) by (simp add: mm_ok_def pt_wf_def)
  have page: "same_page u (ALIGN_DOWN addr) = same_page u addr" for u
    using ALIGN_DOWN_same_page [of "ALIGN_DOWN addr" addr] by (simp add: same_page_def)
  obtain pg t where t: "alloc_pages_at_virt (ALIGN_DOWN addr) PAGE_SIZE user_flags s = Some (ALIGN_DOWN addr, t)"
    "page_free s pg" "\<not> page_free t pg" "mm_ok (cr3 s) t" "cr3 t = cr3 s" "heap_update s t" "tables_only (cr3 s) s t"
    "data_frame (mm_page_to_phy pg) t" "\<And>f. data_frame f s \<Longrightarrow> f \<noteq> mm_page_to_phy pg"
    "\<And>u. frame_of (cr3 s) t u = (if same_page u (ALIGN_DOWN addr) then Some (mm_page_to_phy pg) else frame_of (cr3 s) s u)"
    by (rule page_for_address [OF ok, of "ALIGN_DOWN addr"]) blast
  have f: "frame_of (cr3 t) t addr = Some (mm_page_to_phy pg)"
    using t(5,10) page by (simp add: same_page_def)
  have "\<not> is_table (pmem t) (cr3 t) (mm_page_to_phy pg)" using t(8) by (simp add: data_frame_def)
  then obtain s' where s': "vstore_bytes (replicate 4096 0) (ALIGN_DOWN addr) t = Some s'"
    "stores_in {mm_page_to_phy pg} t s'"
    "\<And>u. ALIGN_DOWN u = ALIGN_DOWN addr \<Longrightarrow> vload8 u s' = Some (replicate 4096 0 ! unat (u AND 0xFFF))"
    using fill_page [OF _ f, of "replicate 4096 0"] al t(5) by (metis length_replicate)
  note c = stores_in_cr3 [OF s'(2)] and fr = stores_in_tables(1) [OF s'(2)]
  have "demand_paging addr s = Some (Return 0 s')"
    using demand_paging_area [OF assms(1)] assms(2) t(1) s'(1) by simp
  moreover have "mm_ok (cr3 s') s'" using stores_in_mm_ok [OF s'(2)] t(4,5,8) c by simp
  moreover have "vload8 u s' = Some 0" if "ALIGN_DOWN u = ALIGN_DOWN addr" for u
  proof -
    have "unat (u AND 0xFFF) < 4096" using word_and_le1 [of u "0xFFF"] by (simp add: word_le_nat_alt)
    then show ?thesis using s'(3) [OF that] by simp
  qed
  moreover have "vload8 u s' = vload8 u s" if u: "data_page u s \<and> \<not> same_page u addr" for u
  proof -
    obtain g where g: "frame_of (cr3 s) s u = Some g" "data_frame g s" using u by (auto simp: data_page_def)
    have gt: "frame_of (cr3 s) t u = Some g" using g(1) t(10) page u by simp
    have "vload8 u t = vload8 u s" by (rule tables_only_load [OF t(7,5) al g(1) gt g(2)])
    moreover have "vload8 u s' = vload8 u t"
      by (rule stores_in_load [OF s'(2)]) (use gt g(2) t(5,9) al in simp_all)
    ultimately show ?thesis by simp
  qed
  ultimately show ?thesis
    using t(2,3,5,10) c fr page by (intro exI [of _ s'] exI [of _ pg]) simp
qed

lemma heap_fault_zero_page_witness:
  "\<exists>s'. demand_paging 0x500123 ex_fault = Some (Return 0 s') \<and> vload8 0x500FFF s' = Some 0 \<and>
     virt_to_phy 0x500000 0 ex_fault = 0 \<and> frame_of 0x1000 s' 0x401000 = Some 0x5000"
proof -
  have c: "cr3 ex_fault = 0x1000" by (simp add: ex_fault_def)
  have "in_heap_area 0x500123 (mk_vma 0x500000 0x500000 VMA_HEAP 24)" by (simp add: in_heap_area_def mk_vma_def)
  from heap_fault_zero_page [OF ex_fault_area this]
  obtain s' pg where s': "demand_paging 0x500123 ex_fault = Some (Return 0 s')"
    "\<forall>u. frame_of 0x1000 s' u = (if same_page u 0x500123 then Some (mm_page_to_phy pg) else frame_of 0x1000 ex_fault u)"
    "\<forall>u. ALIGN_DOWN u = ALIGN_DOWN 0x500123 \<longrightarrow> vload8 u s' = Some 0"
    unfolding c by (elim exE conjE) (rule that)
  have "ALIGN_DOWN 0x500FFF = ALIGN_DOWN 0x500123" by code_simp
  then have "vload8 0x500FFF s' = Some 0" using s'(3) by blast
  moreover have "virt_to_phy 0x500000 0 ex_fault = 0" by code_simp
  moreover have "\<not> same_page 0x401000 0x500123" "frame_of 0x1000 ex_fault 0x401000 = Some 0x5000" by code_simp+
  ultimately show ?thesis using s' by (intro exI [of _ s']) simp
qed

text \<open>C13: a fault on the stack of a program brings in the page below the address when the address is the
  first byte of a page, and the page of the address otherwise: at the first byte of a page the handler
  returns and the address is as unmapped as before.  Other pages keep their translation and contents.\<close>

lemma stack_fault_page:
  assumes "area_fault addr v s" and "in_stack_area addr v"
  shows "\<exists>s' pg. demand_paging addr s = Some (Return 0 s') \<and> mm_ok (cr3 s') s' \<and> cr3 s' = cr3 s \<and>
    page_free s pg \<and> \<not> page_free s' pg \<and>
    (\<forall>u. frame_of (cr3 s) s' u =
      (if same_page u (if page_aligned addr then addr - 4096 else addr) then Some (mm_page_to_phy pg) else frame_of (cr3 s) s u)) \<and>
    (page_aligned addr \<longrightarrow> frame_of (cr3 s) s' addr = frame_of (cr3 s) s addr) \<and>
    (\<forall>u. data_page u s \<and> \<not> same_page u (if page_aligned addr then addr - 4096 else addr) \<longrightarrow> vload8 u s' = vload8 u s)"
proof -
  let ?va = "if page_aligned addr then addr - 4096 else addr"
  have ok: "mm_ok (cr3 s) s" "can_alloc 4 s" using assms(1) by (simp_all add: area_fault_def)
  have al: "page_aligned (cr3 s)" using ok(1) by (simp add: mm_ok_def pt_wf_def)
  have nh: "\<not> in_heap_area addr v" using assms(2) by (simp add: in_heap_area_def in_stack_area_def)
  have page: "same_page u (ALIGN_UP addr - 4096) = same_page u ?va" for u
  proof (cases "page_aligned addr")
    case True
    then show ?thesis by (simp add: ALIGN_UP_def page_aligned_def)
  next
    case False
    have "ALIGN_UP addr - 4096 = ALIGN_DOWN addr" using False ALIGN_UP_not_aligned by simp
    then show ?thesis using False ALIGN_DOWN_same_page [of "ALIGN_DOWN addr" addr] by (simp add: same_page_def)
  qed
  have below: "\<not> same_page addr (addr - 4096)"
    using page_at_distinct [of 1 "addr - 4096"] by (simp add: same_page_def)
  obtain pg t where t: "alloc_pages_at_virt (ALIGN_UP addr - 4096) PAGE_SIZE user_flags s = Some (ALIGN_UP addr - 4096, t)"
    "page_free s pg" "\<not> page_free t pg" "mm_ok (cr3 s) t" "cr3 t = cr3 s" "heap_update s t" "tables_only (cr3 s) s t"
    "data_frame (mm_page_to_phy pg) t" "\<And>f. data_frame f s \<Longrightarrow> f \<noteq> mm_page_to_phy pg"
    "\<And>u. frame_of (cr3 s) t u = (if same_page u (ALIGN_UP addr - 4096) then Some (mm_page_to_phy pg) else frame_of (cr3 s) s u)"
    by (rule page_for_address [OF ok, of "ALIGN_UP addr - 4096"]) blast
  have "demand_paging addr s = Some (Return 0 t)"
    using demand_paging_area [OF assms(1)] nh t(1) by simp
  moreover have "vload8 u t = vload8 u s" if u: "data_page u s \<and> \<not> same_page u ?va" for u
  proof -
    obtain g where g: "frame_of (cr3 s) s u = Some g" "data_frame g s" using u by (auto simp: data_page_def)
    then show ?thesis using tables_only_load [OF t(7,5) al g(1) _ g(2)] t(10) page u by simp
  qed
  ultimately show ?thesis
    using t(2-5,10) page below by (intro exI [of _ t] exI [of _ pg]) simp
qed

lemma stack_fault_page_witness:
  "\<exists>s'. demand_paging 0x7FF000 ex_fault = Some (Return 0 s') \<and> frame_of 0x1000 s' 0x7FF000 = None \<and>
     frame_of 0x1000 s' 0x7FE000 \<noteq> None"
proof -
  have c: "cr3 ex_fault = 0x1000" by (simp add: ex_fault_def)
  have a: "page_aligned 0x7FF000" by (simp add: page_aligned_def)
  have "in_stack_area 0x7FF000 (mk_vma 0x800000 0x700000 VMA_STACK 0)" by (simp add: in_stack_area_def mk_vma_def)
  from stack_fault_page [OF ex_fault_stack this]
  obtain s' pg where s': "demand_paging 0x7FF000 ex_fault = Some (Return 0 s')"
    "\<forall>u. frame_of 0x1000 s' u =
      (if same_page u (if page_aligned 0x7FF000 then 0x7FF000 - 4096 else 0x7FF000) then Some (mm_page_to_phy pg)
       else frame_of 0x1000 ex_fault u)"
    unfolding c by (elim exE conjE) (rule that)
  have "frame_of 0x1000 ex_fault 0x7FF000 = None" "\<not> same_page 0x7FF000 0x7FE000" by code_simp+
  then show ?thesis using s' a by (intro exI [of _ s']) (simp add: same_page_def)
qed

end
