(* ===== verification/Spaces.thy ===== *)
theory Spaces
  imports Paging Syscall
begin

section \<open>The address spaces of parent and child\<close>

text \<open>
  \<open>fork\<close> gives the child tables of its own.  The two trees share the kernel's tables: entries 256 to 511
  of the top level.  What a mapping in one of the spaces does to the other, and the example both parts of
  \<open>fork\<close> use.
\<close>

subsection \<open>Two trees over one memory\<close>

definition two_spaces :: "u64 \<Rightarrow> u64 \<Rightarrow> 'z mmu_state_scheme \<Rightarrow> bool" where
  "two_spaces P C s \<longleftrightarrow> mm_ok P s \<and> mm_ok C s \<and>
     (\<forall>p q f. valid_path p \<and> length p \<le> 3 \<and> walk (pmem s) C p = Some f \<and>
        valid_path q \<and> length q \<le> 3 \<and> walk (pmem s) P q = Some f \<longrightarrow> p \<noteq> [] \<and> 256 \<le> hd p)"

text \<open>Mapping a page in the lower half of the child's space leaves the parent's space as it is.\<close>

lemma child_map_keeps_parent:
  assumes two: "two_spaces P C s" and t: "tables_on (path va) C s s'" and low: "pml4e_offset va < 256"
    and f: "pmem s' a \<noteq> pmem s a"
  shows "\<not> is_table (pmem s) P (ALIGN_DOWN a)"
proof
  assume "is_table (pmem s) P (ALIGN_DOWN a)"
  then obtain q where q: "valid_path q" "length q \<le> 3" "walk (pmem s) P q = Some (ALIGN_DOWN a)"
    unfolding is_table_def by blast
  obtain k where k: "k \<le> 3" "walk (pmem s') C (take k (path va)) = Some (ALIGN_DOWN a)"
    using t f unfolding tables_on_def by blast
  let ?p = "take k (path va)"
  have p: "valid_path ?p" "length ?p \<le> 3" using k(1) valid_path_take [OF valid_path_path] by simp_all
  consider "walk (pmem s) C ?p = Some (ALIGN_DOWN a)" |
      pg where "page_free s pg" "unat pg < 508 * 64" "ALIGN_DOWN a = mm_page_to_phy pg"
    using t p k(2) unfolding tables_on_def by blast
  then show False
  proof cases
    case 1
    then have "?p \<noteq> [] \<and> 256 \<le> hd ?p" using two p q unfolding two_spaces_def by blast
    moreover from this have "hd ?p = pml4e_offset va" by (cases k) (simp_all add: path_def)
    ultimately show ?thesis using low by (auto dest: leD)
  next
    case 2
    then show ?thesis using two q unfolding two_spaces_def mm_ok_def is_table_def by metis
  qed
qed

lemma child_map:
  assumes two: "two_spaces P C s" and mp: "map_virt_to_phy va pa flags s = Some s'" and c: "cr3 s = C"
    and fl: "valid_flags flags" and pa: "page_aligned pa" and low: "pml4e_offset va < 256"
  shows "two_spaces P C s'" and "cr3 s' = C" and "heap_update s s'"
    and "frame_of P s' v = frame_of P s v"
    and "frame_of C s' v = (if same_page v va then Some pa else frame_of C s v)"
    and "tables_on (path va) C s s'" and "is_table (pmem s') P g = is_table (pmem s) P g"
proof -
  have mp': "map_page True C va pa flags s = Some s'" using mp c by (simp add: map_virt_to_phy_map_page)
  have ok: "mm_ok P s" "mm_ok C s" using two by (simp_all add: two_spaces_def)
  note r = map_page_refines [OF mp' ok(2) fl pa]
  then show t: "tables_on (path va) C s s'" by simp
  show "cr3 s' = C" "frame_of C s' v = (if same_page v va then Some pa else frame_of C s v)" using r c by simp_all
  show "heap_update s s'" by (rule heap_update_map_page [OF mp'])
  have al: "page_aligned P" using ok by (simp add: mm_ok_def pt_wf_def)
  have w: "walk (pmem s') P q = walk (pmem s) P q" if "valid_path q" "length q \<le> 4" for q
    by (rule walk_untouched [OF al child_map_keeps_parent [OF two t low] that])
  then show "frame_of P s' v = frame_of P s v" by (simp add: frame_of_def)
  show tab: "is_table (pmem s') P g = is_table (pmem s) P g" for g
    unfolding is_table_def using w by (intro arg_cong [where f = Ex] ext conj_cong refl) simp
  have wf: "pt_wf (pmem s) P" using ok by (simp add: mm_ok_def)
  have "p = q" if "valid_path p \<and> valid_path q \<and> length p \<le> 3 \<and> length q \<le> 3 \<and>
      walk (pmem s') P p = Some f \<and> walk (pmem s') P q = Some f" for p q f
    by (rule pt_wfD [OF wf, of _ f]) (use w [of p] w [of q] that in auto)
  then have "pt_wf (pmem s') P" using al unfolding pt_wf_def by blast
  moreover have "zero_frame (pmem s') (mm_page_to_phy pg) \<and> \<not> is_table (pmem s') P (mm_page_to_phy pg)"
    if "page_free s' pg \<and> unat pg < 508 * 64" for pg
  proof -
    have "page_free s pg" using t that unfolding tables_on_def by blast
    then show ?thesis using that r ok(1) tab by (simp add: mm_ok_def)
  qed
  ultimately have okP: "mm_ok P s'" by (simp add: mm_ok_def)
  show "two_spaces P C s'"
    unfolding two_spaces_def
  proof (intro conjI okP allI impI)
    show "mm_ok C s'" using r by simp
    fix p q f assume *: "valid_path p \<and> length p \<le> 3 \<and> walk (pmem s') C p = Some f \<and>
      valid_path q \<and> length q \<le> 3 \<and> walk (pmem s') P q = Some f"
    then have q: "walk (pmem s) P q = Some f" using w [of q] by simp
    then have "\<not> (\<exists>pg. page_free s pg \<and> unat pg < 508 * 64 \<and> f = mm_page_to_phy pg)"
      using ok(1) * unfolding mm_ok_def is_table_def by blast
    then have "walk (pmem s) C p = Some f" using t * unfolding tables_on_def by blast
    then have "p \<noteq> [] \<and> 256 \<le> hd p" using two * q unfolding two_spaces_def by blast
    then show "p \<noteq> []" "256 \<le> hd p" by simp_all
  qed
qed

subsection \<open>Addresses of the lower half\<close>

lemma low_address_bits:
  assumes "unat v < 2 ^ 47"
  shows "bit v n \<Longrightarrow> n < 47"
proof -
  have "v = take_bit 47 v"
    using assms by (simp add: word_unat_eq_iff unsigned_take_bit_eq take_bit_nat_eq_self)
  then show "bit v n \<Longrightarrow> n < 47" by (metis bit_take_bit_iff)
qed

lemma low_address_index:
  assumes "unat v < 2 ^ 47"
  shows "pml4e_offset v < 256"
proof -
  have "unat (drop_bit 39 v) < 256" using assms by (simp add: drop_bit_eq_div unat_div)
  moreover have "pml4e_offset v \<le> drop_bit 39 v" unfolding pml4e_offset_def by (rule word_and_le1)
  ultimately show ?thesis by (simp add: word_less_nat_alt word_le_nat_alt)
qed

lemma low_address_page:
  assumes "unat v < 2 ^ 47" and "unat w < 2 ^ 47"
  shows "same_page v w \<longleftrightarrow> ALIGN_DOWN v = ALIGN_DOWN w"
proof
  assume s: "same_page v w"
  show "ALIGN_DOWN v = ALIGN_DOWN w"
  proof (rule bit_word_eqI)
    fix n :: nat
    show "bit (ALIGN_DOWN v) n = bit (ALIGN_DOWN w) n"
      using s low_address_bits [OF assms(1), of n] low_address_bits [OF assms(2), of n]
      unfolding same_page_bits bit_ALIGN_DOWN by (cases "n < 47") auto
  qed
qed (rule ALIGN_DOWN_same_page)

lemma in_page_ALIGN_DOWN:
  assumes "page_aligned va" and "unat va \<le> unat u" and "unat u < unat va + 4096"
  shows "ALIGN_DOWN u = va"
proof -
  obtain k where "unat va = 4096 * k" using assms(1) by (auto simp: page_aligned_iff_dvd)
  then have "unat (ALIGN_DOWN u) = unat va" using assms(2,3) by (simp add: unat_ALIGN_DOWN)
  then show ?thesis by (simp add: word_unat_eq_iff)
qed

text \<open>A frame of data of both spaces: no table of either, and not in the pool.\<close>

definition user_frame :: "u64 \<Rightarrow> u64 \<Rightarrow> u64 \<Rightarrow> 'z mmu_state_scheme \<Rightarrow> bool" where
  "user_frame P C f s \<longleftrightarrow> \<not> is_table (pmem s) P f \<and> \<not> is_table (pmem s) C f \<and>
     (\<forall>pg. page_free s pg \<and> unat pg < 508 * 64 \<longrightarrow> f \<noteq> mm_page_to_phy pg)"

lemma two_spaces_cong:
  assumes "pmem s = pmem t" and "\<And>pg. page_free s pg = page_free t pg"
  shows "two_spaces P C s = two_spaces P C t"
  using assms by (simp add: two_spaces_def mm_ok_def)

subsection \<open>The kernel's half of two spaces\<close>

text \<open>The two spaces with the kernel's half in common: above the root, the walks of the upper half are the same.\<close>

definition shared_spaces :: "u64 \<Rightarrow> u64 \<Rightarrow> 'z mmu_state_scheme \<Rightarrow> bool" where
  "shared_spaces P C s \<longleftrightarrow> two_spaces P C s \<and>
     (\<forall>p. valid_path p \<and> length p \<le> 4 \<and> p \<noteq> [] \<and> 256 \<le> hd p \<longrightarrow> walk (pmem s) C p = walk (pmem s) P p)"

lemma shared_spaces_two: "shared_spaces P C s \<Longrightarrow> two_spaces P C s"
  by (simp add: shared_spaces_def)

lemma shared_spaces_upper:
  "shared_spaces P C s \<Longrightarrow> valid_path p \<Longrightarrow> length p \<le> 4 \<Longrightarrow> p \<noteq> [] \<Longrightarrow> 256 \<le> hd p \<Longrightarrow>
   walk (pmem s) C p = walk (pmem s) P p"
  by (simp add: shared_spaces_def)

lemma shared_spaces_cong:
  assumes "pmem s = pmem t" and "\<And>pg. page_free s pg = page_free t pg"
  shows "shared_spaces P C s = shared_spaces P C t"
  by (simp only: shared_spaces_def two_spaces_cong [OF assms] assms(1))

lemma two_spaces_aligned: "two_spaces P C s \<Longrightarrow> page_aligned P \<and> page_aligned C"
  by (simp add: two_spaces_def mm_ok_def pt_wf_def)

text \<open>The tables of the child's lower half are none of the parent's, whatever the parent maps.\<close>

lemma lower_table_not_parent:
  assumes two: "two_spaces P C s" and t: "tables_on (path va) P s s'"
    and q: "valid_path q" "length q \<le> 3" "walk (pmem s) C q = Some g" "q = [] \<or> \<not> 256 \<le> hd q"
  shows "\<not> is_table (pmem s') P g"
proof
  assume "is_table (pmem s') P g"
  then obtain r where r: "valid_path r" "length r \<le> 3" "walk (pmem s') P r = Some g" unfolding is_table_def by blast
  then consider "walk (pmem s) P r = Some g" | pg where "page_free s pg" "unat pg < 508 * 64" "g = mm_page_to_phy pg"
    using t unfolding tables_on_def by blast
  then show False
  proof cases
    case 1
    then show ?thesis using two q r unfolding two_spaces_def by blast
  next
    case 2
    then show ?thesis using two q unfolding two_spaces_def mm_ok_def is_table_def by metis
  qed
qed

lemma lower_walk_kept:
  assumes two: "two_spaces P C s" and t: "tables_on (path va) P s s'"
  shows "valid_path q \<Longrightarrow> length q \<le> 4 \<Longrightarrow> q = [] \<or> \<not> 256 \<le> hd q \<Longrightarrow> walk (pmem s') C q = walk (pmem s) C q"
proof (induction q rule: rev_induct)
  case (snoc y q)
  have low: "q = [] \<or> \<not> 256 \<le> hd q" using snoc.prems(3) by (cases q) simp_all
  have IH: "walk (pmem s') C q = walk (pmem s) C q" using snoc low by simp
  show ?case
  proof (cases "walk (pmem s) C q")
    case (Some g)
    have y: "y < 512" "valid_path q" "length q \<le> 3" using snoc.prems by simp_all
    have nt: "\<not> is_table (pmem s') P g" by (rule lower_table_not_parent [OF two t y(2,3) Some low])
    have "page_aligned g" by (rule walk_aligned [OF _ Some]) (simp add: two_spaces_aligned [OF two])
    then have "pmem s' (slot g y) = pmem s (slot g y)"
      using t nt ALIGN_DOWN_slot [of g y] y(1) tables_on_only [OF t valid_path_path] unfolding tables_only_def by auto
    then show ?thesis by (simp add: walk_snoc IH Some)
  next
    case None
    then show ?thesis by (simp add: walk_snoc IH)
  qed
qed simp

text \<open>The top-level entry of a kernel address is there from the start, so its table never changes.\<close>

lemma root_entry_kept:
  assumes t: "tables_on (path va) P s s'" and pres: "walk (pmem s) P [pml4e_offset va] \<noteq> None" and h: "h < 512"
  shows "walk (pmem s') P [h] = walk (pmem s) P [h]"
proof (cases "walk (pmem s) P [h]")
  case (Some g)
  moreover have "valid_path [h] \<and> length [h] \<le> 3" using h by simp
  ultimately show ?thesis using t unfolding tables_on_def by metis
next
  case None
  have h1: "valid_path [h] \<and> length [h] \<le> 3" using h by simp
  have "walk (pmem s') P [h] \<noteq> Some g" for g
  proof
    assume "walk (pmem s') P [h] = Some g"
    then obtain k where "[h] = take k (path va)" using t h1 None unfolding tables_on_def by (metis option.distinct(1))
    then have "h = pml4e_offset va" by (cases k) (simp_all add: path_def)
    then show False using pres None by simp
  qed
  then show ?thesis using None by (metis not_Some_eq)
qed

lemma walk_first: "walk m b (h # p) = Option.bind (walk m b [h]) (\<lambda>f. walk m f p)"
  by (simp add: Let_def)

text \<open>Mapping a kernel page in the parent: the child sees it through the tables both share.\<close>

lemma shared_walks_kept:
  assumes sh: "shared_spaces P C s" and t: "tables_on (path va) P s s'" and pres: "walk (pmem s) P [pml4e_offset va] \<noteq> None"
    and p: "valid_path p" "length p \<le> 4" "p \<noteq> []" "256 \<le> hd p"
  shows "walk (pmem s') C p = walk (pmem s') P p"
proof -
  have two: "two_spaces P C s" using sh by (simp add: shared_spaces_def)
  obtain h r where hr: "p = h # r" using p(3) by (cases p) simp_all
  have h: "h < 512" "valid_path [h]" using p(1) hr by simp_all
  have nt: "\<not> is_table (pmem s') P C" by (rule lower_table_not_parent [OF two t, of "[]"]) simp_all
  have "pmem s' (slot C h) = pmem s (slot C h)"
    using nt ALIGN_DOWN_slot [of C h] h(1) tables_on_only [OF t valid_path_path] two_spaces_aligned [OF two]
    unfolding tables_only_def by auto
  then have "walk (pmem s') C [h] = walk (pmem s) C [h]" by (simp add: Let_def)
  also have "\<dots> = walk (pmem s) P [h]" by (rule shared_spaces_upper [OF sh h(2)]) (use p(4) hr in simp_all)
  also have "\<dots> = walk (pmem s') P [h]" by (rule root_entry_kept [OF t pres h(1), symmetric])
  finally show ?thesis unfolding hr by (simp only: walk_first [of _ _ h r])
qed

lemma parent_map:
  assumes sh: "shared_spaces P C s" and mp: "map_virt_to_phy va pa flags s = Some s'" and c: "cr3 s = P"
    and fl: "valid_flags flags" and pa: "page_aligned pa" and pres: "walk (pmem s) P [pml4e_offset va] \<noteq> None"
  shows "shared_spaces P C s'" and "tables_on (path va) P s s'"
    and "is_table (pmem s') C g \<Longrightarrow> is_table (pmem s) C g \<or> is_table (pmem s') P g"
proof -
  have mp': "map_page True P va pa flags s = Some s'" using mp c by (simp add: map_virt_to_phy_map_page)
  have two: "two_spaces P C s" using sh by (simp add: shared_spaces_def)
  have ok: "mm_ok P s" "mm_ok C s" using two by (simp_all add: two_spaces_def)
  note r = map_page_refines [OF mp' ok(1) fl pa]
  then show t: "tables_on (path va) P s s'" by simp
  note low = lower_walk_kept [OF two t] and high = shared_walks_kept [OF sh t pres] and apart = lower_table_not_parent [OF two t]
  have low_apart: "p \<noteq> [] \<and> 256 \<le> hd p"
    if "valid_path p" "length p \<le> 3" "walk (pmem s') C p = Some f" "is_table (pmem s') P f" for p f
    using apart [OF that(1,2)] low [OF that(1)] that by fastforce
  have tab: "p \<noteq> [] \<and> 256 \<le> hd p \<and> walk (pmem s') P p = Some f \<or> walk (pmem s) C p = Some f \<and> \<not> is_table (pmem s') P f"
    if "valid_path p" "length p \<le> 3" "walk (pmem s') C p = Some f" for p f
    using low [OF that(1)] high [OF that(1)] apart [OF that(1,2)] that by fastforce
  then show tabs: "is_table (pmem s') C g \<Longrightarrow> is_table (pmem s) C g \<or> is_table (pmem s') P g" for g
    unfolding is_table_def by blast
  have wfP: "pt_wf (pmem s') P" and wfC: "pt_wf (pmem s) C" using r ok by (simp_all add: mm_ok_def)
  have "p = q" if *: "valid_path p \<and> valid_path q \<and> length p \<le> 3 \<and> length q \<le> 3 \<and>
      walk (pmem s') C p = Some f \<and> walk (pmem s') C q = Some f" for p q f
    using tab [of p f] tab [of q f] pt_wfD [OF wfP, of p f q] pt_wfD [OF wfC, of p f q] * unfolding is_table_def by blast
  then have "pt_wf (pmem s') C" using two_spaces_aligned [OF two] unfolding pt_wf_def by blast
  moreover have "zero_frame (pmem s') (mm_page_to_phy pg) \<and> \<not> is_table (pmem s') C (mm_page_to_phy pg)"
    if "page_free s' pg \<and> unat pg < 508 * 64" for pg
  proof -
    have "page_free s pg" using t that unfolding tables_on_def by blast
    then show ?thesis using that r ok(2) tabs by (auto simp: mm_ok_def)
  qed
  ultimately have "mm_ok C s'" by (simp add: mm_ok_def)
  then have "two_spaces P C s'" using r low_apart unfolding two_spaces_def is_table_def by blast
  then show "shared_spaces P C s'" using high by (simp add: shared_spaces_def)
qed

text \<open>A frame of data stays one, and keeps its contents.\<close>

lemma tables_only_user_frame:
  assumes t: "tables_only R s s'" and f: "user_frame P C f s" and R: "R = P \<or> R = C"
    and other: "\<And>g. is_table (pmem s') P g \<or> is_table (pmem s') C g \<Longrightarrow>
      is_table (pmem s) P g \<or> is_table (pmem s) C g \<or> is_table (pmem s') R g"
  shows "user_frame P C f s'" and "ALIGN_DOWN a = f \<Longrightarrow> pmem s' a = pmem s a"
proof -
  have nt: "\<not> is_table (pmem s') R f"
  proof
    assume "is_table (pmem s') R f"
    then consider "is_table (pmem s) R f" | pg where "page_free s pg" "unat pg < 508 * 64" "f = mm_page_to_phy pg"
      using t unfolding tables_only_def by blast
    then show False using f R unfolding user_frame_def by cases blast+
  qed
  then show "user_frame P C f s'" using other [of f] f t unfolding user_frame_def tables_only_def by blast
  show "ALIGN_DOWN a = f \<Longrightarrow> pmem s' a = pmem s a" using nt t unfolding tables_only_def by blast
qed

lemma child_map_shared:
  assumes sh: "shared_spaces P C s" and mp: "map_virt_to_phy va pa flags s = Some s'" and c: "cr3 s = C"
    and fl: "valid_flags flags" and pa: "page_aligned pa" and low: "pml4e_offset va < 256"
  shows "shared_spaces P C s'"
proof -
  have two: "two_spaces P C s" using sh by (simp add: shared_spaces_def)
  note m = child_map [OF two mp c fl pa low]
  have two': "two_spaces P C s'" by (rule m(1))
  have al: "page_aligned C" "page_aligned P" using two_spaces_aligned [OF two] by simp_all
  have wf: "pt_wf (pmem s') C" using two' by (simp add: two_spaces_def mm_ok_def)
  have P: "walk (pmem s') P q = walk (pmem s) P q" if "valid_path q" "length q \<le> 4" for q
    by (rule walk_untouched [OF al(2) child_map_keeps_parent [OF two m(6) low] that])
  have off: "\<not> (\<exists>k. p = take k (path va))" if "p \<noteq> []" "256 \<le> hd p" for p
  proof
    assume "\<exists>k. p = take k (path va)"
    then obtain k where "p = take k (path va)" by blast
    then have "hd p = pml4e_offset va" using that(1) by (cases k) (simp_all add: path_def)
    then show False using that(2) low by simp
  qed
  have C3: "walk (pmem s') C p = walk (pmem s) C p" if p: "valid_path p" "length p \<le> 3" "p \<noteq> []" "256 \<le> hd p" for p
  proof (cases "walk (pmem s) C p")
    case (Some f)
    then have "walk (pmem s') C p = Some f" using m(6) p unfolding tables_on_def by blast
    then show ?thesis using Some by simp
  next
    case None
    then have "walk (pmem s') C p \<noteq> Some f" for f
      using m(6) p off [OF p(3,4)] unfolding tables_on_def by (metis option.distinct(1))
    then show ?thesis using None by (metis not_Some_eq)
  qed
  have "walk (pmem s') C p = walk (pmem s) C p" if p: "valid_path p" "length p \<le> 4" "p \<noteq> []" "256 \<le> hd p" for p
  proof (cases "length p \<le> 3")
    case False
    obtain q y where q: "p = q @ [y]" using p(3) by (cases p rule: rev_cases) simp_all
    then have q3: "valid_path q" "length q \<le> 3" "q \<noteq> []" "256 \<le> hd q" "y < 512" using p False by (cases q; simp)+
    note same = C3 [OF q3(1-4)]
    show ?thesis
    proof (cases "walk (pmem s) C q")
      case (Some g)
      have "pmem s' (slot g y) = pmem s (slot g y)"
      proof (rule ccontr)
        assume "pmem s' (slot g y) \<noteq> pmem s (slot g y)"
        then obtain k where k: "k \<le> 3" "walk (pmem s') C (take k (path va)) = Some g"
          using m(6) ALIGN_DOWN_slot [OF walk_aligned [OF al(1) Some] q3(5)] unfolding tables_on_def by metis
        have "q = take k (path va)"
          by (rule pt_wfD [OF wf _ k(2) q3(1) valid_path_take [OF valid_path_path] q3(2)]) (use same Some k(1) in simp_all)
        then show False using off [OF q3(3,4)] by blast
      qed
      then show ?thesis by (simp add: q walk_snoc same Some)
    qed (simp add: q walk_snoc same)
  qed (use C3 [OF p(1) _ p(3,4)] in simp)
  then show ?thesis using two' P shared_spaces_upper [OF sh] unfolding shared_spaces_def by metis
qed

text \<open>Stores into frames of data.\<close>

lemma stores_in_shared:
  assumes sh: "shared_spaces P C s" and st: "stores_in F s s'" and c: "cr3 s = P"
    and F: "\<And>f. f \<in> F \<Longrightarrow> user_frame P C f s"
  shows "shared_spaces P C s'" and "frame_of C s' v = frame_of C s v" and "user_frame P C g s' = user_frame P C g s"
proof -
  have two: "two_spaces P C s" using sh by (simp add: shared_spaces_def)
  have al: "page_aligned C" "page_aligned P" using two_spaces_aligned [OF two] by simp_all
  have chg: "pmem s' a \<noteq> pmem s a \<Longrightarrow> ALIGN_DOWN a \<in> F" for a using st unfolding stores_in_def by blast
  have w: "walk (pmem s') R q = walk (pmem s) R q" if "valid_path q" "length q \<le> 4" "R = P \<or> R = C" for q R
    by (rule walk_untouched [OF _ _ that(1,2)]) (use that(3) al chg F in \<open>auto simp: user_frame_def\<close>)
  have tab: "is_table (pmem s') R f = is_table (pmem s) R f" if "R = P \<or> R = C" for R f
    unfolding is_table_def using w that by (intro arg_cong [where f = Ex] ext conj_cong refl) simp
  have free: "page_free s' pg = page_free s pg" for pg using stores_in_cr3 [OF st] by simp
  show "frame_of C s' v = frame_of C s v" using w [of "path v" C] by (simp add: frame_of_def)
  show "user_frame P C g s' = user_frame P C g s" by (simp add: user_frame_def tab free)
  have ok: "mm_ok R s'" if R: "R = P \<or> R = C" for R
  proof -
    have "stores_in F (s\<lparr>cr3 := R\<rparr>) (s'\<lparr>cr3 := R\<rparr>)"
    proof -
      have "s' = s\<lparr>pmem := pmem s'\<rparr>" using st by (simp only: stores_in_def)
      then have "s'\<lparr>cr3 := R\<rparr> = (s\<lparr>pmem := pmem s'\<rparr>)\<lparr>cr3 := R\<rparr>" by metis
      then have "s'\<lparr>cr3 := R\<rparr> = (s\<lparr>cr3 := R\<rparr>)\<lparr>pmem := pmem (s'\<lparr>cr3 := R\<rparr>)\<rparr>" by simp
      then show ?thesis unfolding stores_in_def using w R chg by auto
    qed
    moreover have "mm_ok R (s\<lparr>cr3 := R\<rparr>)" using two R by (auto simp: two_spaces_def mm_ok_def page_free_def)
    ultimately have "mm_ok R (s'\<lparr>cr3 := R\<rparr>)"
      using stores_in_mm_ok [of F "s\<lparr>cr3 := R\<rparr>" "s'\<lparr>cr3 := R\<rparr>"] F R
      by (auto simp: data_frame_def user_frame_def page_free_def)
    then show ?thesis by (simp add: mm_ok_def page_free_def)
  qed
  have "walk (pmem s') C p = walk (pmem s') P p" if "valid_path p" "length p \<le> 4" "p \<noteq> []" "256 \<le> hd p" for p
    using shared_spaces_upper [OF sh that] w [OF that(1,2)] by simp
  moreover have "p \<noteq> [] \<and> 256 \<le> hd p" if "valid_path p \<and> length p \<le> 3 \<and> walk (pmem s') C p = Some f \<and>
      valid_path q \<and> length q \<le> 3 \<and> walk (pmem s') P q = Some f" for p q f
  proof -
    have "walk (pmem s) C p = Some f" "walk (pmem s) P q = Some f" using w [of p C] w [of q P] that by simp_all
    then show ?thesis using two that unfolding two_spaces_def by blast
  qed
  ultimately show "shared_spaces P C s'" using ok unfolding shared_spaces_def two_spaces_def by blast
qed

text \<open>The state of \<open>setup_memory\<close>: the parent's tables are loaded, the child's top-level table is mapped in the
  parent's space, and the parent's in the kernel's half of the child's.\<close>

definition fork_spaces :: "u64 \<Rightarrow> u64 \<Rightarrow> u64 \<Rightarrow> u64 \<Rightarrow> 'z mmu_state_scheme \<Rightarrow> bool" where
  "fork_spaces P C c p s \<longleftrightarrow> two_spaces P C s \<and> cr3 s = P \<and> frame_of P s c = Some C \<and> frame_of C s p = Some P \<and>
     256 \<le> pml4e_offset p"

lemma frame_aligned: "page_aligned P \<Longrightarrow> frame_of P s v = Some f \<Longrightarrow> page_aligned f"
  unfolding frame_of_def by (rule walk_aligned)

subsection \<open>A page for the child\<close>

text \<open>The tables of the child are loaded, a page of the lower half is mapped there, and the parent's tables are loaded again.\<close>

lemma child_page:
  fixes s :: "'z mmu_state_scheme"
  assumes sp: "fork_spaces P C c p s" and low: "unat va < 2 ^ 47" and n: "can_alloc (3 + n) s" and pa: "page_aligned pa"
    and fl: "valid_flags flags"
  obtains s1 s2 where "map_virt_to_phy va pa flags (write_cr3 (virt_to_phy c 0 s) s) = Some s1"
    "s2 = write_cr3 (virt_to_phy p 0 s1) s1"
    "fork_spaces P C c p s2" "can_alloc n s2" "\<And>v. frame_of P s2 v = frame_of P s v"
    "\<And>v. frame_of C s2 v = (if same_page v va then Some pa else frame_of C s v)"
    "tables_on (path va) C s s2" "\<And>g. is_table (pmem s2) P g = is_table (pmem s) P g"
    "shared_spaces P C s \<Longrightarrow> shared_spaces P C s2" "virtual_top s2 = virtual_top s"
    "\<And>q. valid_path q \<Longrightarrow> length q \<le> 4 \<Longrightarrow> walk (pmem s2) P q = walk (pmem s) P q"
proof -
  let ?s = "write_cr3 (virt_to_phy c 0 s) s"
  have c: "virt_to_phy c 0 s = C" using sp by (simp add: fork_spaces_def virt_to_phy_frame_of)
  have two: "two_spaces P C s" using sp by (simp add: fork_spaces_def)
  have s: "pmem ?s = pmem s" "cr3 ?s = C" "phy_bitmap ?s = phy_bitmap s" "virtual_top ?s = virtual_top s"
    by (simp_all add: write_cr3_def c)
  have free: "page_free ?s pg = page_free s pg" for pg by (simp add: page_free_def s)
  have "can_alloc (Suc (Suc (Suc n))) ?s" using can_alloc_cong [OF s(3) [symmetric] n] by (simp add: eval_nat_numeral)
  from map_page_returns [OF this, of True C va pa flags]
  obtain s1 where s1: "map_virt_to_phy va pa flags ?s = Some s1" "can_alloc n s1"
    by (auto simp: map_virt_to_phy_map_page s)
  have two': "two_spaces P C ?s" using two two_spaces_cong [OF s(1) free] by simp
  have li: "pml4e_offset va < 256" by (rule low_address_index [OF low])
  note m = child_map [OF two' s1(1) s(2) fl pa li]
  have "pml4e_offset p \<noteq> pml4e_offset va" using li sp by (auto simp: fork_spaces_def dest: leD)
  then have pv: "\<not> same_page p va" by (simp add: same_page_def path_def)
  then have "frame_of C s1 p = Some P"
    using m(5) sp s by (simp add: fork_spaces_def frame_of_def)
  then have p: "virt_to_phy p 0 s1 = P" using m(2) by (simp add: virt_to_phy_frame_of frame_of_def)
  define s2 where "s2 = write_cr3 (virt_to_phy p 0 s1) s1"
  have s2: "pmem s2 = pmem s1" "cr3 s2 = P" "phy_bitmap s2 = phy_bitmap s1" "virtual_top s2 = virtual_top s1"
    by (simp_all add: s2_def p) (simp_all add: write_cr3_def)
  then have free2: "page_free s2 pg = page_free s1 pg" for pg by (simp add: page_free_def)
  have fr: "frame_of r s2 v = frame_of r s1 v" "frame_of r ?s v = frame_of r s v" for r v
    by (simp_all add: frame_of_def s s2)
  show thesis
  proof (rule that [OF s1(1) s2_def])
    show P: "frame_of P s2 v = frame_of P s v" for v using m(4) fr by simp
    show C: "frame_of C s2 v = (if same_page v va then Some pa else frame_of C s v)" for v using m(5) fr by simp
    show "can_alloc n s2" by (rule can_alloc_cong [OF s2(3) [symmetric] s1(2)])
    show "fork_spaces P C c p s2"
      using sp m(1) two_spaces_cong [OF s2(1) free2] P C pv s2(2) by (simp add: fork_spaces_def)
    show "tables_on (path va) C s s2" using m(6) s(1) s2(1) free free2 by (simp add: tables_on_def)
    show "is_table (pmem s2) P g = is_table (pmem s) P g" for g using m(7) s(1) s2(1) by simp
    show "virtual_top s2 = virtual_top s"
      using map_page_frees [OF s1(1) [unfolded map_virt_to_phy_map_page]] s2(4) s(4) by simp
    show "walk (pmem s2) P q = walk (pmem s) P q" if "valid_path q" "length q \<le> 4" for q
    proof -
      have "page_aligned P" using two_spaces_aligned [OF two] by simp
      then have "walk (pmem s1) P q = walk (pmem ?s) P q"
        by (rule walk_untouched [OF _ child_map_keeps_parent [OF two' m(6) li] that])
      then show ?thesis by (simp add: s s2)
    qed
    assume "shared_spaces P C s"
    then have "shared_spaces P C ?s" using shared_spaces_cong [OF s(1) free] by simp
    from child_map_shared [OF this s1(1) s(2) fl pa li] show "shared_spaces P C s2"
      using shared_spaces_cong [OF s2(1) free2] by simp
  qed
qed

subsection \<open>An example\<close>

text \<open>A tree whose tables are known: every table has its way from the root as its tag.\<close>

lemma tagged_walk:
  assumes step: "\<And>b q x. tag b = Some q \<Longrightarrow> length q < 3 \<Longrightarrow> x < 512 \<Longrightarrow> isPresent (m (slot b x)) \<Longrightarrow>
    tag (ALIGN_DOWN (m (slot b x))) = Some (q @ [x])"
  shows "tag b = Some q \<Longrightarrow> length q + length p \<le> 3 \<Longrightarrow> valid_path p \<Longrightarrow> walk m b p = Some f \<Longrightarrow> tag f = Some (q @ p)"
proof (induction p arbitrary: b q)
  case (Cons x p)
  have w: "isPresent (m (slot b x))" "walk m (ALIGN_DOWN (m (slot b x))) p = Some f"
    using Cons.prems(4) by (auto simp: Let_def split: if_splits)
  have "tag (ALIGN_DOWN (m (slot b x))) = Some (q @ [x])" by (rule step) (use Cons.prems w in simp_all)
  then show ?case using Cons.IH [of _ "q @ [x]"] Cons.prems w(2) by simp
qed simp

lemma tagged_mm_ok:
  assumes step: "\<And>b q x. tag b = Some q \<Longrightarrow> length q < 3 \<Longrightarrow> x < 512 \<Longrightarrow> isPresent (pmem s (slot b x)) \<Longrightarrow>
      tag (ALIGN_DOWN (pmem s (slot b x))) = Some (q @ [x])"
    and root: "tag b = Some []" "page_aligned b" and low: "\<And>f. tag f \<noteq> None \<Longrightarrow> f < 0x7EC0000"
    and zero: "\<And>a. 0x7EC0000 \<le> a \<Longrightarrow> pmem s a = 0" and pool: "phy_bitmap s = phy_bitmap ex_heap"
  shows "mm_ok b s"
proof -
  have w: "tag f = Some p" if "valid_path p" "length p \<le> 3" "walk (pmem s) b p = Some f" for p f
    using tagged_walk [of tag "pmem s", OF step root(1) _ that(1,3)] that(2) by simp
  have "pt_wf (pmem s) b"
    using root(2) w unfolding pt_wf_def by (metis option.inject)
  moreover have "zero_frame (pmem s) (mm_page_to_phy pg) \<and> \<not> is_table (pmem s) b (mm_page_to_phy pg)"
    if "page_free s pg \<and> unat pg < 508 * 64" for pg
  proof
    have hi: "0x7EC0000 \<le> mm_page_to_phy pg" using ex_pool [OF pool] that by blast
    have "0x7EC0000 \<le> slot (mm_page_to_phy pg) x" if "x < 512" for x
      using unat_slot [OF page_aligned_page_to_phy that, of pg] hi by (simp add: word_le_nat_alt)
    then show "zero_frame (pmem s) (mm_page_to_phy pg)" using zero by (simp add: zero_frame_def)
    show "\<not> is_table (pmem s) b (mm_page_to_phy pg)"
    proof
      assume "is_table (pmem s) b (mm_page_to_phy pg)"
      then obtain p where "tag (mm_page_to_phy pg) = Some p" using w unfolding is_table_def by blast
      then show False using low [of "mm_page_to_phy pg"] hi by (auto dest: leD)
    qed
  qed
  ultimately show ?thesis by (simp add: mm_ok_def)
qed

text \<open>The parent's tree at 0x1000 with a page of data, the child's at 0x8000, both with the kernel's tables from 0x9000 on;
  the two roots are mapped at the start of the last entry's range.\<close>

definition ex_trees :: "u64 \<Rightarrow> u64" where
  "ex_trees a = (case map_of [(0x1000, 0x2007), (0x2000, 0x3007), (0x3010, 0x4007), (0x4008, 0x5007), (0x5008, 0x2A),
     (0x1FF8, 0x9007), (0x8FF8, 0x9007), (0x9000, 0xA007), (0xA000, 0xB007), (0xB000, 0x8007), (0xB008, 0x1007)] a of
       Some w \<Rightarrow> w | None \<Rightarrow> 0)"

definition ex_fork :: proc_state where
  "ex_fork = ex_proc\<lparr>cr3 := 0x1000, pmem := ex_trees, virtual_top := 0xFFFFFF8000002000\<rparr>"

definition ex_kernel_tag :: "u64 \<Rightarrow> u64 list option" where
  "ex_kernel_tag = [0x9000 \<mapsto> [511], 0xA000 \<mapsto> [511, 0], 0xB000 \<mapsto> [511, 0, 0]]"

definition ex_parent_tag :: "u64 \<Rightarrow> u64 list option" where
  "ex_parent_tag = ex_kernel_tag(0x1000 \<mapsto> [], 0x2000 \<mapsto> [0], 0x3000 \<mapsto> [0, 0], 0x4000 \<mapsto> [0, 0, 2])"

definition ex_child_tag :: "u64 \<Rightarrow> u64 list option" where
  "ex_child_tag = ex_kernel_tag(0x8000 \<mapsto> [])"

lemma ex_entries:
  assumes b: "b \<in> {0x1000, 0x2000, 0x3000, 0x8000, 0x9000, 0xA000}" and x: "x < 512" and p: "isPresent (ex_trees (slot b x))"
  shows "(b, x) \<in> {(0x1000, 0), (0x1000, 511), (0x2000, 0), (0x3000, 2), (0x8000, 511), (0x9000, 0), (0xA000, 0)}"
proof -
  have "page_aligned b" using b by (auto simp: page_aligned_def)
  then have u: "unat (slot b x) = unat b + 8 * unat x" by (rule unat_slot [OF _ x])
  have x': "unat x < 512" using x by (simp add: word_less_nat_alt)
  have "slot b x \<in> {0x1000, 0x1FF8, 0x2000, 0x3010, 0x4008, 0x5008, 0x8FF8, 0x9000, 0xA000, 0xB000, 0xB008}"
    using p by (auto simp: ex_trees_def isPresent_def split: if_splits)
  then have k: "unat (slot b x) \<in> {0x1000, 0x1FF8, 0x2000, 0x3010, 0x4008, 0x5008, 0x8FF8, 0x9000, 0xA000, 0xB000, 0xB008}" by auto
  from b show ?thesis
  proof (elim insertE emptyE)
    assume "b = 0x1000"
    then have "unat x = 0 \<or> unat x = 511" using k u x' by auto
    then show ?thesis using \<open>b = 0x1000\<close> by (simp add: word_unat_eq_iff)
  next
    assume "b = 0x2000"
    then have "unat x = 0" using k u x' by auto
    then show ?thesis using \<open>b = 0x2000\<close> by (simp add: word_unat_eq_iff)
  next
    assume "b = 0x3000"
    then have "unat x = 2" using k u x' by auto
    then show ?thesis using \<open>b = 0x3000\<close> by (simp add: word_unat_eq_iff)
  next
    assume "b = 0x8000"
    then have "unat x = 511" using k u x' by auto
    then show ?thesis using \<open>b = 0x8000\<close> by (simp add: word_unat_eq_iff)
  next
    assume "b = 0x9000"
    then have "unat x = 0" using k u x' by auto
    then show ?thesis using \<open>b = 0x9000\<close> by (simp add: word_unat_eq_iff)
  next
    assume "b = 0xA000"
    then have "unat x = 0" using k u x' by auto
    then show ?thesis using \<open>b = 0xA000\<close> by (simp add: word_unat_eq_iff)
  qed
qed

lemma ex_step:
  assumes "x < 512" "length q < 3" "isPresent (ex_trees (slot b x))"
  shows "ex_parent_tag b = Some q \<Longrightarrow> ex_parent_tag (ALIGN_DOWN (ex_trees (slot b x))) = Some (q @ [x])"
    and "ex_child_tag b = Some q \<Longrightarrow> ex_child_tag (ALIGN_DOWN (ex_trees (slot b x))) = Some (q @ [x])"
proof -
  note e = ex_entries [OF _ assms(1,3)]
  assume q: "ex_parent_tag b = Some q"
  then have "b \<in> {0x1000, 0x2000, 0x3000, 0x9000, 0xA000}"
    using assms(2) by (auto simp: ex_parent_tag_def ex_kernel_tag_def split: if_splits)
  then have "(b, x) \<in> {(0x1000, 0), (0x1000, 511), (0x2000, 0), (0x3000, 2), (0x9000, 0), (0xA000, 0)}" using e by auto
  then show "ex_parent_tag (ALIGN_DOWN (ex_trees (slot b x))) = Some (q @ [x])"
    using q by (elim insertE emptyE) (simp_all add: ex_parent_tag_def ex_kernel_tag_def slot_def ex_trees_def ALIGN_DOWN_def)
next
  note e = ex_entries [OF _ assms(1,3)]
  assume q: "ex_child_tag b = Some q"
  then have "b \<in> {0x8000, 0x9000, 0xA000}"
    using assms(2) by (auto simp: ex_child_tag_def ex_kernel_tag_def split: if_splits)
  then have "(b, x) \<in> {(0x8000, 511), (0x9000, 0), (0xA000, 0)}" using e by auto
  then show "ex_child_tag (ALIGN_DOWN (ex_trees (slot b x))) = Some (q @ [x])"
    using q by (elim insertE emptyE) (simp_all add: ex_child_tag_def ex_kernel_tag_def slot_def ex_trees_def ALIGN_DOWN_def)
qed

lemma ex_fork_mem: "pmem ex_fork = ex_trees" "cr3 ex_fork = 0x1000" "phy_bitmap ex_fork = phy_bitmap ex_heap"
    "virtual_top ex_fork = 0xFFFFFF8000002000"
  by (simp_all add: ex_fork_def ex_proc_def mmu_state.defs)

lemma ex_tables:
  assumes "valid_path p" "length p \<le> 3"
  shows "walk ex_trees 0x1000 p = Some f \<Longrightarrow> ex_parent_tag f = Some p"
    and "walk ex_trees 0x8000 p = Some f \<Longrightarrow> ex_child_tag f = Some p"
  using tagged_walk [of ex_parent_tag ex_trees "0x1000" "[]" p f] ex_step(1)
    tagged_walk [of ex_child_tag ex_trees "0x8000" "[]" p f] ex_step(2) assms
  by (simp_all add: ex_parent_tag_def ex_child_tag_def)

lemma ex_upper_entry:
  assumes "256 \<le> h" "h < 512"
  shows "walk ex_trees 0x8000 [h] = walk ex_trees 0x1000 [h]"
proof (cases "h = 511")
  case True
  show ?thesis unfolding True by code_simp
next
  case False
  have "h \<noteq> 0" using assms(1) by auto
  then have "\<not> isPresent (ex_trees (slot 0x8000 h))" "\<not> isPresent (ex_trees (slot 0x1000 h))"
    using ex_entries [of "0x8000" h] ex_entries [of "0x1000" h] assms(2) False by auto
  then show ?thesis by (simp add: Let_def)
qed

lemma ex_shared_spaces: "shared_spaces 0x1000 0x8000 ex_fork"
proof -
  have zero: "pmem ex_fork a = 0" if "0x7EC0000 \<le> a" for a
    using that unfolding ex_fork_mem by (auto simp: ex_trees_def)
  have "mm_ok 0x1000 ex_fork"
    by (rule tagged_mm_ok [of ex_parent_tag, OF _ _ _ _ zero ex_fork_mem(3)])
      (use ex_step(1) in \<open>auto simp: ex_fork_mem ex_parent_tag_def ex_kernel_tag_def page_aligned_def split: if_splits\<close>)
  moreover have "mm_ok 0x8000 ex_fork"
    by (rule tagged_mm_ok [of ex_child_tag, OF _ _ _ _ zero ex_fork_mem(3)])
      (use ex_step(2) in \<open>auto simp: ex_fork_mem ex_child_tag_def ex_kernel_tag_def page_aligned_def split: if_splits\<close>)
  moreover have "p \<noteq> [] \<and> 256 \<le> hd p" if "valid_path p \<and> length p \<le> 3 \<and> walk (pmem ex_fork) 0x8000 p = Some f \<and>
      valid_path q \<and> length q \<le> 3 \<and> walk (pmem ex_fork) 0x1000 q = Some f" for p q f
  proof -
    have "ex_child_tag f = Some p" "ex_parent_tag f = Some q" using that ex_tables [of p f] ex_tables [of q f] by (simp_all add: ex_fork_mem)
    then show ?thesis by (auto simp: ex_parent_tag_def ex_child_tag_def ex_kernel_tag_def split: if_splits)
  qed
  ultimately have "two_spaces 0x1000 0x8000 ex_fork" unfolding two_spaces_def by blast
  moreover have "walk (pmem ex_fork) 0x8000 p = walk (pmem ex_fork) 0x1000 p"
    if p: "valid_path p \<and> length p \<le> 4 \<and> p \<noteq> [] \<and> 256 \<le> hd p" for p
  proof -
    obtain h r where "p = h # r" using p by (cases p) simp_all
    then show ?thesis using p ex_upper_entry [of h] walk_first [of ex_trees "0x8000" h r] walk_first [of ex_trees "0x1000" h r]
      by (simp only: ex_fork_mem valid_path_Cons list.sel)
  qed
  ultimately show ?thesis unfolding shared_spaces_def by blast
qed

lemma ex_fork_spaces: "fork_spaces 0x1000 0x8000 0xFFFFFF8000000000 0xFFFFFF8000001000 ex_fork"
proof -
  have "frame_of 0x1000 ex_fork 0xFFFFFF8000000000 = Some 0x8000" "frame_of 0x8000 ex_fork 0xFFFFFF8000001000 = Some 0x1000"
    by code_simp+
  moreover have "256 \<le> pml4e_offset 0xFFFFFF8000001000" by code_simp
  ultimately show ?thesis using ex_shared_spaces ex_fork_mem(2) unfolding fork_spaces_def shared_spaces_def by simp
qed

lemma ex_fork_frame: "user_frame 0x1000 0x8000 0x5000 ex_fork"
proof -
  have "ex_parent_tag 0x5000 = None" "ex_child_tag 0x5000 = None"
    by (simp_all add: ex_parent_tag_def ex_child_tag_def ex_kernel_tag_def)
  then have "\<not> is_table (pmem ex_fork) 0x1000 0x5000" "\<not> is_table (pmem ex_fork) 0x8000 0x5000"
    using ex_tables [of _ "0x5000"] by (auto simp: is_table_def ex_fork_mem)
  moreover have "0x5000 \<noteq> mm_page_to_phy pg" if "page_free ex_fork pg \<and> unat pg < 508 * 64" for pg
    using ex_pool [OF ex_fork_mem(3), of pg] that by auto
  ultimately show ?thesis by (auto simp: user_frame_def)
qed

end
