(* ===== verification/Fork.thy ===== *)
theory Fork
  imports Spaces
begin

section \<open>The memory of parent and child\<close>

text \<open>
  \<open>setup_memory\<close> maps the pages of the parent's areas other than the stack in the tables of the child, switching
  between the two address spaces page by page: the two share the frames.
\<close>

subsection \<open>Sharing the pages of an area\<close>

text \<open>One page.\<close>

lemma share_page:
  fixes s :: "'z proc_state_scheme"
  assumes sp: "fork_spaces P C c p s" and low: "unat va < 2 ^ 47" and n: "can_alloc (3 + n) s"
  obtains s1 s2 where "map_virt_to_phy va (virt_to_phy va 0 s) user_flags (write_cr3 (virt_to_phy c 0 s) s) = Some s1"
    "s2 = write_cr3 (virt_to_phy p 0 (inc_ref_count (virt_to_phy va 0 s) s1)) (inc_ref_count (virt_to_phy va 0 s) s1)"
    "fork_spaces P C c p s2" "can_alloc n s2" "\<And>v. frame_of P s2 v = frame_of P s v"
    "\<And>v. frame_of C s2 v = (if same_page v va then Some (virt_to_phy va 0 s) else frame_of C s v)"
    "tables_on (path va) C s s2" "\<And>g. is_table (pmem s2) P g = is_table (pmem s) P g"
proof -
  let ?pa = "virt_to_phy va 0 s"
  have al: "page_aligned P" using sp two_spaces_aligned by (auto simp: fork_spaces_def)
  have pa: "page_aligned ?pa"
    unfolding virt_to_phy_frame_of using sp frame_aligned [OF al] by (auto simp: fork_spaces_def split: option.splits)
  obtain s1 s2 where m: "map_virt_to_phy va ?pa user_flags (write_cr3 (virt_to_phy c 0 s) s) = Some s1"
    "s2 = write_cr3 (virt_to_phy p 0 s1) s1" "fork_spaces P C c p s2" "can_alloc n s2" "\<And>v. frame_of P s2 v = frame_of P s v"
    "\<And>v. frame_of C s2 v = (if same_page v va then Some ?pa else frame_of C s v)"
    "tables_on (path va) C s s2" "\<And>g. is_table (pmem s2) P g = is_table (pmem s) P g"
    by (rule child_page [OF sp low n pa valid_user_flags]) blast
  let ?t = "inc_ref_count ?pa s1"
  define s3 where "s3 = write_cr3 (virt_to_phy p 0 ?t) ?t"
  have "virt_to_phy p 0 ?t = virt_to_phy p 0 s1" by (simp add: virt_to_phy_walk)
  moreover have "phy_bitmap ?t = phy_bitmap s1" by (simp add: inc_ref_count_def Let_def)
  ultimately have s3: "pmem s3 = pmem s2" "cr3 s3 = cr3 s2" "phy_bitmap s3 = phy_bitmap s2"
    by (simp_all add: s3_def m(2) write_cr3_def)
  then have free: "page_free s3 pg = page_free s2 pg" for pg by (simp add: page_free_def)
  have fr: "frame_of r s3 v = frame_of r s2 v" for r v by (simp add: frame_of_def s3)
  show thesis
  proof (rule that [OF m(1) s3_def])
    show "fork_spaces P C c p s3" using m(3) two_spaces_cong [OF s3(1) free] by (simp add: fork_spaces_def fr s3(2))
    show "can_alloc n s3" by (rule can_alloc_cong [OF s3(3) [symmetric] m(4)])
    show "tables_on (path va) C s s3" using m(7) by (simp add: tables_on_def s3(1) free)
  qed (use m(5,6,8) in \<open>simp_all add: fr s3(1)\<close>)
qed

text \<open>The whole area.\<close>

lemma share_pages_spec:
  fixes s :: "'z proc_state_scheme"
  assumes "fork_spaces P C c p s" and "page_aligned va" and "unat e \<le> 2 ^ 47" and "unat e \<le> unat va + 4096 * n"
    and "can_alloc (3 * n) s"
  shows "\<exists>s'. share_pages c p va e s = Some s' \<and> fork_spaces P C c p s' \<and> (\<forall>v. frame_of P s' v = frame_of P s v) \<and>
    (\<forall>u. va \<le> u \<and> u < e \<longrightarrow> frame_of C s' u = Some (virt_to_phy u 0 s)) \<and>
    (\<forall>u. (\<forall>w. va \<le> w \<and> w < e \<longrightarrow> \<not> same_page u w) \<longrightarrow> frame_of C s' u = frame_of C s u) \<and>
    tables_only C s s' \<and> (\<forall>g. is_table (pmem s') P g = is_table (pmem s) P g)"
  using assms
proof (induction n arbitrary: va s)
  case 0
  then have "\<not> va < e" by (simp add: word_less_nat_alt)
  moreover from this have "share_pages c p va e s = Some s" by (subst share_pages.simps) simp
  ultimately show ?case using 0 by (auto dest: order.strict_trans1)
next
  case (Suc n)
  show ?case
  proof (cases "va < e")
    case False
    then have "share_pages c p va e s = Some s" by (subst share_pages.simps) simp
    with False show ?thesis using Suc.prems by (auto dest: order.strict_trans1)
  next
    case True
    then have va: "unat va < unat e" by (simp add: word_less_nat_alt)
    then have low: "unat va < 2 ^ 47" using Suc.prems(3) by linarith
    have step: "unat (va + PAGE_SIZE) = unat va + 4096" using low by (simp add: unat_word_ariths)
    have "can_alloc (3 + 3 * n) s" using Suc.prems(5) by (simp add: algebra_simps)
    then obtain s1 s2 where s1: "map_virt_to_phy va (virt_to_phy va 0 s) user_flags (write_cr3 (virt_to_phy c 0 s) s) = Some s1"
      and s2: "s2 = write_cr3 (virt_to_phy p 0 (inc_ref_count (virt_to_phy va 0 s) s1)) (inc_ref_count (virt_to_phy va 0 s) s1)"
      and sp: "fork_spaces P C c p s2" "can_alloc (3 * n) s2" "\<And>v. frame_of P s2 v = frame_of P s v"
      "\<And>v. frame_of C s2 v = (if same_page v va then Some (virt_to_phy va 0 s) else frame_of C s v)"
      "tables_on (path va) C s s2" "\<And>g. is_table (pmem s2) P g = is_table (pmem s) P g"
      by (rule share_page [OF Suc.prems(1) low]) blast
    have "page_aligned (va + PAGE_SIZE)" by (rule page_aligned_add [OF Suc.prems(2)]) simp
    moreover have "unat e \<le> unat (va + PAGE_SIZE) + 4096 * n" using Suc.prems(4) step by simp
    ultimately obtain s' where s': "share_pages c p (va + PAGE_SIZE) e s2 = Some s'" "fork_spaces P C c p s'"
      "\<And>v. frame_of P s' v = frame_of P s2 v"
      "\<And>u. va + PAGE_SIZE \<le> u \<Longrightarrow> u < e \<Longrightarrow> frame_of C s' u = Some (virt_to_phy u 0 s2)"
      "\<And>u. (\<And>w. va + PAGE_SIZE \<le> w \<Longrightarrow> w < e \<Longrightarrow> \<not> same_page u w) \<Longrightarrow> frame_of C s' u = frame_of C s2 u"
      "tables_only C s2 s'" "\<And>g. is_table (pmem s') P g = is_table (pmem s2) P g"
      using Suc.IH [OF sp(1) _ Suc.prems(3) _ sp(2)] by blast
    have vp: "virt_to_phy u 0 s2 = virt_to_phy u 0 s" for u
      using Suc.prems(1) sp(1,3) by (simp add: virt_to_phy_frame_of fork_spaces_def)
    have "share_pages c p va e s = Some s'"
      using True s1 s'(1) s2 by (subst share_pages.simps) (simp add: Let_def)
    moreover have "frame_of C s' u = Some (virt_to_phy u 0 s)" if u: "va \<le> u" "u < e" for u
    proof (cases "va + PAGE_SIZE \<le> u")
      case True
      then show ?thesis using s'(4) u(2) vp by simp
    next
      case False
      then have un: "unat va \<le> unat u" "unat u < unat va + 4096" using u(1) step by (simp_all add: word_le_nat_alt not_le)
      have d: "ALIGN_DOWN u = va" by (rule in_page_ALIGN_DOWN [OF Suc.prems(2) un])
      then have same: "same_page u va" using ALIGN_DOWN_same_page [of u va] Suc.prems(2) by simp
      have ul: "unat u < 2 ^ 47" using u(2) Suc.prems(3) by (simp add: word_less_nat_alt)
      have "\<not> same_page u w" if w: "va + PAGE_SIZE \<le> w" "w < e" for w
      proof
        have wl: "unat w < 2 ^ 47" using w(2) Suc.prems(3) by (simp add: word_less_nat_alt)
        assume "same_page u w"
        then have "ALIGN_DOWN w = va" using low_address_page [OF ul wl] d by simp
        then have "unat w < unat va + 4096" using unat_ALIGN_DOWN [of w] by simp
        with w(1) step show False by (simp add: word_le_nat_alt)
      qed
      then have "frame_of C s' u = Some (virt_to_phy va 0 s)" using s'(5) sp(4) same by simp
      then show ?thesis using same by (simp add: virt_to_phy_frame_of frame_of_def same_page_def)
    qed
    moreover have "frame_of C s' u = frame_of C s u" if out: "\<forall>w. va \<le> w \<and> w < e \<longrightarrow> \<not> same_page u w" for u
    proof -
      have "va \<le> w" if "va + PAGE_SIZE \<le> w" for w using that step by (simp add: word_le_nat_alt)
      then have "frame_of C s' u = frame_of C s2 u" using out by (intro s'(5)) blast
      moreover have "\<not> same_page u va" using out True by blast
      ultimately show ?thesis using sp(4) by simp
    qed
    moreover have "tables_only C s s'" using tables_only_trans [OF tables_on_only [OF sp(5) valid_path_path] s'(6)] .
    ultimately show ?thesis using s'(2,3,7) sp(3,6) by (intro exI [of _ s']) simp
  qed
qed

lemma store_seen_by_other:
  fixes t :: "'z mmu_state_scheme"
  assumes f: "frame_of C t u = Some f" "frame_of P t u = Some f" and nt: "\<not> is_table (pmem t) P f"
    and al: "page_aligned P"
  shows "\<exists>s1. vstore8 u b (write_cr3 C t) = Some s1 \<and> vload8 u (write_cr3 P s1) = Some b"
proof -
  let ?a = "f + (u AND 0xFFF)"
  define s1 where "s1 = (write_cr3 C t)\<lparr>pmem := set_phys_byte ?a b (pmem t)\<rparr>"
  have "vtrans u (write_cr3 C t) = Some ?a" using f(1) by (simp add: vtrans_def frame_of_def write_cr3_def)
  then have st: "vstore8 u b (write_cr3 C t) = Some s1" by (simp add: vstore8_def s1_def write_cr3_def)
  have pf: "page_aligned f" using f(2) walk_aligned [OF al] by (simp add: frame_of_def)
  have "\<not> is_table (pmem t) P (ALIGN_DOWN a)" if "set_phys_byte ?a b (pmem t) a \<noteq> pmem t a" for a
  proof -
    have "a = ?a AND NOT 7" using that by (auto simp: set_phys_byte_def Let_def split: if_splits)
    then show ?thesis using nt ALIGN_DOWN_frame_offset(2) [OF pf, of u] by simp
  qed
  then have "walk (set_phys_byte ?a b (pmem t)) P (path u) = walk (pmem t) P (path u)"
    by (intro walk_untouched [OF al]) simp_all
  then have "vtrans u (write_cr3 P s1) = Some ?a"
    using f(2) by (simp add: vtrans_def frame_of_def write_cr3_def s1_def)
  then have "vload8 u (write_cr3 P s1) = Some b"
    by (simp add: vload8_def s1_def write_cr3_def phys_byte_set)
  with st show ?thesis by blast
qed

subsection \<open>Properties\<close>

text \<open>C14: \<open>fork\<close> shares the pages of an area that is not the stack, it does not copy them: the loop returns and
  leaves the parent's translations alone; every address of the area translates in the child to the parent's
  frame, and to frame 0 when the parent has not touched its page yet; a byte that the child stores is
  the byte that the parent reads.\<close>

lemma fork_shares_memory:
  fixes s :: "'z proc_state_scheme"
  assumes sp: "fork_spaces P C c p s" and e: "unat e \<le> 2 ^ 47" "unat e \<le> unat (ALIGN_DOWN st) + 4096 * n"
    and pool: "can_alloc (3 * n) s"
  shows "\<exists>s'. share_pages c p (ALIGN_DOWN st) e s = Some s' \<and> fork_spaces P C c p s' \<and>
    (\<forall>u. frame_of P s' u = frame_of P s u) \<and>
    (\<forall>u. ALIGN_DOWN st \<le> u \<and> u < e \<longrightarrow>
       frame_of C s' u = Some (case frame_of P s u of Some f \<Rightarrow> f | None \<Rightarrow> 0)) \<and>
    (\<forall>u f b. ALIGN_DOWN st \<le> u \<and> u < e \<and> frame_of P s u = Some f \<and> user_frame P C f s \<longrightarrow>
       (\<exists>s1. vstore8 u b (write_cr3 C s') = Some s1 \<and> vload8 u (write_cr3 P s1) = Some b))"
proof -
  obtain s' where s': "share_pages c p (ALIGN_DOWN st) e s = Some s'" "fork_spaces P C c p s'"
    "\<And>v. frame_of P s' v = frame_of P s v"
    "\<And>u. ALIGN_DOWN st \<le> u \<Longrightarrow> u < e \<Longrightarrow> frame_of C s' u = Some (virt_to_phy u 0 s)"
    "\<And>g. is_table (pmem s') P g = is_table (pmem s) P g"
    using share_pages_spec [OF sp _ e pool] by auto
  have al: "page_aligned P" using sp by (simp add: fork_spaces_def two_spaces_def mm_ok_def pt_wf_def)
  have v: "virt_to_phy u 0 s = (case frame_of P s u of Some f \<Rightarrow> f | None \<Rightarrow> 0)" for u
    using sp by (simp add: virt_to_phy_frame_of fork_spaces_def)
  show ?thesis
  proof (rule exI [of _ s'], intro conjI allI impI)
    fix u f b
    assume "ALIGN_DOWN st \<le> u \<and> u < e \<and> frame_of P s u = Some f \<and> user_frame P C f s"
    then show "\<exists>s1. vstore8 u b (write_cr3 C s') = Some s1 \<and> vload8 u (write_cr3 P s1) = Some b"
      by (intro store_seen_by_other [OF _ _ _ al, where f = f]) (use s'(3-5) v in \<open>simp_all add: user_frame_def\<close>)
  qed (use s' v in simp_all)
qed

lemma fork_shares_memory_witness:
  "\<exists>s' s1. share_pages 0xFFFFFF8000000000 0xFFFFFF8000001000 0x401000 0x403000 ex_fork = Some s' \<and>
     frame_of 0x8000 s' 0x402000 = Some 0 \<and>
     vstore8 0x401005 42 (write_cr3 0x8000 s') = Some s1 \<and> vload8 0x401005 (write_cr3 0x1000 s1) = Some 42"
proof -
  have a: "ALIGN_DOWN 0x401000 = 0x401000" by code_simp
  have "can_alloc (3 * 2) ex_fork" unfolding can_alloc_def by code_simp
  with fork_shares_memory [OF ex_fork_spaces, of "0x403000" "0x401000" 2]
  obtain s' where s': "share_pages 0xFFFFFF8000000000 0xFFFFFF8000001000 0x401000 0x403000 ex_fork = Some s'"
    "\<forall>u. 0x401000 \<le> u \<and> u < 0x403000 \<longrightarrow>
       frame_of 0x8000 s' u = Some (case frame_of 0x1000 ex_fork u of Some f \<Rightarrow> f | None \<Rightarrow> 0)"
    "\<forall>u f b. 0x401000 \<le> u \<and> u < 0x403000 \<and> frame_of 0x1000 ex_fork u = Some f \<and> user_frame 0x1000 0x8000 f ex_fork \<longrightarrow>
       (\<exists>s1. vstore8 u b (write_cr3 0x8000 s') = Some s1 \<and> vload8 u (write_cr3 0x1000 s1) = Some b)"
    unfolding a by auto
  have "frame_of 0x1000 ex_fork 0x402000 = None" "frame_of 0x1000 ex_fork 0x401005 = Some 0x5000" by code_simp+
  then have "frame_of 0x8000 s' 0x402000 = Some 0"
    "\<exists>s1. vstore8 0x401005 42 (write_cr3 0x8000 s') = Some s1 \<and> vload8 0x401005 (write_cr3 0x1000 s1) = Some 42"
    using s'(2) s'(3) ex_fork_frame by auto
  with s'(1) show ?thesis by blast
qed

end
