(* ===== verification/ForkStack.thy ===== *)
theory ForkStack
  imports Spaces
begin

section \<open>The stack of the child\<close>

text \<open>
  \<open>setup_memory\<close> copies the pages of the stack: each page gets a frame that is mapped first at the top of the kernel's
  heap, in the tables both spaces share, is filled there, and is then mapped in the child.  The mapping in the
  kernel's heap stays, the call that removes it is commented out.
\<close>

subsection \<open>A page of the kernel's heap\<close>

text \<open>Room for \<open>n\<close> pages above the top of the kernel's heap: in the last entry of the top level, which is there, and not mapped.\<close>

definition heap_room :: "nat \<Rightarrow> u64 \<Rightarrow> 'z mmu_state_scheme \<Rightarrow> bool" where
  "heap_room n P s \<longleftrightarrow> page_aligned (virtual_top s) \<and> 0xFFFFFF8000000000 \<le> virtual_top s \<and>
     unat (virtual_top s) + 4096 * n < 2 ^ 64 \<and> walk (pmem s) P [511] \<noteq> None \<and>
     (\<forall>k < n. frame_of P s (page_at (virtual_top s) k) = None)"

lemma top_index:
  assumes "0xFFFFFF8000000000 \<le> v"
  shows "pml4e_offset v = 511"
proof -
  have "unat v div 2 ^ 39 = 2 ^ 25 - 1"
  proof -
    have "0xFFFFFF8000000000 \<le> unat v" "unat v < 2 ^ 64" using assms unat_u64 [of v] by (simp_all add: word_le_nat_alt)
    then show ?thesis by simp
  qed
  then have "unat (drop_bit 39 v) = 2 ^ 25 - 1" by (simp add: drop_bit_eq_div unat_div)
  then have "drop_bit 39 v = 0x1FFFFFF" by (simp add: word_unat_eq_iff)
  then show ?thesis by (simp add: pml4e_offset_def)
qed

lemma heap_room_Suc:
  assumes r: "heap_room (Suc n) P s" and top: "virtual_top s' = virtual_top s + PAGE_SIZE"
    and w: "walk (pmem s') P [511] \<noteq> None"
    and f: "\<And>v. \<not> same_page v (virtual_top s) \<Longrightarrow> frame_of P s' v = frame_of P s v"
  shows "heap_room n P s'"
proof -
  let ?t = "virtual_top s"
  have t: "0xFFFFFF8000000000 \<le> unat ?t" "unat ?t + 4096 * Suc n < 2 ^ 64" "page_aligned ?t"
    using r by (simp_all add: heap_room_def word_le_nat_alt)
  then have u: "unat (?t + PAGE_SIZE) = unat ?t + 4096" by (simp add: unat_word_ariths)
  have n: "Suc n < 2 ^ 36" using t(1,2) by simp
  have "frame_of P s' (page_at (?t + PAGE_SIZE) k) = None" if k: "k < n" for k
  proof -
    have e: "page_at (?t + PAGE_SIZE) k = page_at ?t (Suc k)" by (simp add: algebra_simps)
    have "\<not> same_page (page_at ?t (Suc k)) ?t"
      using page_at_distinct [of "Suc k" ?t] k n unfolding same_page_def by fastforce
    moreover have "Suc k < Suc n" using k by simp
    then have "frame_of P s (page_at ?t (Suc k)) = None" using r unfolding heap_room_def by blast
    ultimately show ?thesis using f unfolding e by metis
  qed
  moreover have "page_aligned (?t + PAGE_SIZE)" by (rule page_aligned_add [OF t(3)]) simp
  ultimately show ?thesis using t u w by (simp add: heap_room_def top word_le_nat_alt)
qed

text \<open>The states of the loop: the spaces of a fork with the kernel's half in common, and room for the pages to come.\<close>

definition copy_ready :: "nat \<Rightarrow> u64 \<Rightarrow> u64 \<Rightarrow> u64 \<Rightarrow> u64 \<Rightarrow> 'z mmu_state_scheme \<Rightarrow> bool" where
  "copy_ready n P C c p s \<longleftrightarrow> fork_spaces P C c p s \<and> shared_spaces P C s \<and> heap_room n P s"

text \<open>What a step keeps: every frame of data, its contents, and the translations of the lower half but those of \<open>va\<close>.\<close>

definition data_kept :: "u64 \<Rightarrow> u64 \<Rightarrow> 'z mmu_state_scheme \<Rightarrow> 'z mmu_state_scheme \<Rightarrow> bool" where
  "data_kept P C s s' \<longleftrightarrow> (\<forall>pg. page_free s' pg \<longrightarrow> page_free s pg) \<and>
     (\<forall>g. user_frame P C g s \<longrightarrow> user_frame P C g s' \<and> (\<forall>a. ALIGN_DOWN a = g \<longrightarrow> pmem s' a = pmem s a))"

lemma data_kept_refl [simp]: "data_kept P C s s"
  by (simp add: data_kept_def)

lemma data_kept_trans: "data_kept P C s t \<Longrightarrow> data_kept P C t u \<Longrightarrow> data_kept P C s u"
  unfolding data_kept_def by metis

lemma fork_spaces_alloc:
  assumes sh: "shared_spaces P C s" and al: "mm_phy_alloc_page s = Some (pg, s')"
  shows "shared_spaces P C s'" and "user_frame P C (mm_page_to_phy pg) s'" and "data_kept P C s s'"
    and "\<And>g. user_frame P C g s \<Longrightarrow> g \<noteq> mm_page_to_phy pg"
proof -
  note same = alloc_mmu_fields [OF al] and free = alloc_page_free [OF al] and bound = alloc_page_bounds(1) [OF al]
  have ok: "mm_ok P s" "mm_ok C s" using sh by (simp_all add: shared_spaces_def two_spaces_def)
  have m: "pmem s' = pmem s" using same by simp
  show "shared_spaces P C s'"
    using sh mm_ok_alloc [OF ok(1) al] mm_ok_alloc [OF ok(2) al] unfolding shared_spaces_def two_spaces_def m by blast
  show "user_frame P C (mm_page_to_phy pg) s'"
    unfolding user_frame_def
  proof (intro conjI allI impI)
    show "\<not> is_table (pmem s') P (mm_page_to_phy pg)" "\<not> is_table (pmem s') C (mm_page_to_phy pg)"
      using ok free(1) bound same by (simp_all add: mm_ok_def)
    fix q assume "page_free s' q \<and> unat q < 508 * 64"
    then show "mm_page_to_phy pg \<noteq> mm_page_to_phy q" using page_to_phy_inj [OF bound] free(2) by blast
  qed
  show "data_kept P C s s'" using same free(3) by (auto simp: data_kept_def user_frame_def)
  show "\<And>g. user_frame P C g s \<Longrightarrow> g \<noteq> mm_page_to_phy pg" using free(1) bound by (auto simp: user_frame_def)
qed

lemma kernel_page:
  assumes r: "copy_ready (Suc n) P C c p s" and al: "can_alloc (4 + m) s" and fl: "valid_flags flags"
  obtains pg s' where "alloc_pages 1 flags s = Some (virtual_top s, s')" "page_free s pg" "unat pg < 508 * 64"
    "copy_ready n P C c p s'" "can_alloc m s'" "data_kept P C s s'" "user_frame P C (mm_page_to_phy pg) s'"
    "frame_of P s' (virtual_top s) = Some (mm_page_to_phy pg)"
    "\<And>v. pml4e_offset v < 256 \<Longrightarrow> frame_of P s' v = frame_of P s v \<and> frame_of C s' v = frame_of C s v"
proof -
  let ?t = "virtual_top s"
  have fs: "fork_spaces P C c p s" and sh: "shared_spaces P C s" and room: "heap_room (Suc n) P s"
    using r by (simp_all add: copy_ready_def)
  have c: "cr3 s = P" using fs by (simp add: fork_spaces_def)
  have "can_alloc (Suc (Suc (Suc (Suc m)))) s" using al by (simp add: eval_nat_numeral)
  then obtain pg s0 where a: "mm_phy_alloc_page s = Some (pg, s0)" "can_alloc (Suc (Suc (Suc m))) s0"
    using can_alloc_step by blast
  note same = alloc_mmu_fields [OF a(1)] and fa = fork_spaces_alloc [OF sh a(1)]
  let ?F = "mm_page_to_phy pg"
  from map_page_returns [OF a(2), of True P ?t ?F flags]
  obtain s1 where m: "map_virt_to_phy ?t ?F flags s0 = Some s1" "can_alloc m s1"
    using same c by (auto simp: map_virt_to_phy_map_page)
  have c0: "cr3 s0 = P" using same c by simp
  have idx: "pml4e_offset ?t = 511" by (rule top_index) (use room in \<open>simp add: heap_room_def\<close>)
  have pres: "walk (pmem s0) P [pml4e_offset ?t] \<noteq> None" using room same unfolding idx heap_room_def by simp
  note pm = parent_map [OF fa(1) m(1) c0 fl page_aligned_page_to_phy pres]
  have mp: "map_page True P ?t ?F flags s0 = Some s1" using m(1) c0 by (simp add: map_virt_to_phy_map_page)
  have "mm_ok P s0" using fa(1) by (simp add: shared_spaces_def two_spaces_def)
  note mr = map_page_refines [OF mp this fl page_aligned_page_to_phy]
  define s' where "s' = s1\<lparr>virtual_top := ?t + PAGE_SIZE\<rparr>"
  have s': "pmem s' = pmem s1" "cr3 s' = P" "virtual_top s' = ?t + PAGE_SIZE" "\<And>q. page_free s' q = page_free s1 q"
    using mr c0 by (simp_all add: s'_def)
  have frP: "frame_of P s' v = (if same_page v ?t then Some ?F else frame_of P s v)" for v
  proof -
    have "frame_of P s0 v = frame_of P s v" "frame_of P s' v = frame_of P s1 v" using same s'(1) by (simp_all add: frame_of_def)
    then show ?thesis using mr by simp
  qed
  have upC: "frame_of C s' v = frame_of P s' v" if "256 \<le> pml4e_offset v" for v
    using shared_spaces_upper [OF pm(1), of "path v"] that s'(1) by (simp add: frame_of_def) (simp add: path_def)
  have lowC: "frame_of C s' v = frame_of C s v" if "pml4e_offset v < 256" for v
    using lower_walk_kept [OF shared_spaces_two [OF fa(1)] pm(2), of "path v"] that same s'(1)
    by (simp add: frame_of_def path_def not_le)
  show thesis
  proof (rule that [of s' pg])
    have "virtual_top s1 = ?t" using map_page_frees [OF mp] same by simp
    then show "alloc_pages 1 flags s = Some (?t, s')"
      using a(1) m(1) same by (simp add: alloc_pages_def alloc_pages_step_def s'_def Let_def)
    show "page_free s pg" "unat pg < 508 * 64" using alloc_page_free(1) [OF a(1)] alloc_page_bounds(1) [OF a(1)] by simp_all
    show "can_alloc m s'" by (rule can_alloc_cong [OF _ m(2)]) (simp add: s'_def)
    have kept: "user_frame P C g s1" "ALIGN_DOWN a = g \<Longrightarrow> pmem s1 a = pmem s0 a" if "user_frame P C g s0" for g a
      using tables_only_user_frame [OF tables_on_only [OF pm(2) valid_path_path] that] pm(3) by blast+
    have u1: "user_frame P C g s' = user_frame P C g s1" for g by (simp add: user_frame_def s')
    show "user_frame P C ?F s'" using kept(1) [OF fa(2)] u1 by simp
    have "data_kept P C s0 s'"
      using kept u1 s'(1,4) pm(2) unfolding data_kept_def tables_on_def by simp
    with fa(3) show "data_kept P C s s'" by (rule data_kept_trans)
    show "frame_of P s' ?t = Some ?F" using frP [of ?t] by (simp add: same_page_def)
    show low: "frame_of P s' v = frame_of P s v \<and> frame_of C s' v = frame_of C s v" if "pml4e_offset v < 256" for v
      using frP [of v] lowC [OF that] that idx by (auto simp: same_page_def path_def)
    have sh': "shared_spaces P C s'"
      using pm(1) s'(1,4) two_spaces_cong [OF s'(1) s'(4)] unfolding shared_spaces_def by simp
    have t0: "frame_of P s ?t = None" using room unfolding heap_room_def by (elim conjE allE [of _ 0]) simp
    have mapped: "frame_of P s' v = Some f" if "frame_of P s v = Some f" for v f
    proof -
      have "\<not> same_page v ?t" using that t0 by (auto simp: frame_of_def same_page_def)
      then show ?thesis using frP [of v] that by simp
    qed
    have p: "256 \<le> pml4e_offset p" "frame_of C s p = Some P" "frame_of P s c = Some C" using fs by (simp_all add: fork_spaces_def)
    have "frame_of P s p = frame_of C s p"
      unfolding frame_of_def by (rule shared_spaces_upper [OF sh, symmetric]) (use p(1) in \<open>simp_all add: path_def\<close>)
    then have "frame_of C s' p = Some P" using upC [OF p(1)] mapped p(2) by simp
    then have "fork_spaces P C c p s'"
      using sh' mapped [OF p(3)] p(1) s'(2) by (simp add: fork_spaces_def shared_spaces_two)
    moreover have "walk (pmem s1) P [511] = walk (pmem s0) P [511]"
      by (rule root_entry_kept [OF pm(2) pres]) simp
    then have "walk (pmem s') P [511] \<noteq> None" using pres s'(1) idx by metis
    then have "heap_room n P s'" by (rule heap_room_Suc [OF room s'(3)]) (use frP in simp)
    ultimately show "copy_ready n P C c p s'" using sh' by (simp add: copy_ready_def)
  qed
qed

subsection \<open>Copying a page\<close>

lemma data_region_Un:
  assumes "data_region A s" "data_region B s"
    and A: "\<And>v. v \<in> A \<Longrightarrow> frame_of (cr3 s) s v = Some f" and B: "\<And>v. v \<in> B \<Longrightarrow> frame_of (cr3 s) s v = Some g" and "f \<noteq> g"
  shows "data_region (A \<union> B) s"
proof -
  have al: "page_aligned (cr3 s)" using assms(1) by (simp add: data_region_def)
  have "vtrans v s \<noteq> vtrans w s" if v: "v \<in> A" and w: "w \<in> B" for v w
  proof
    assume e: "vtrans v s = vtrans w s"
    have "page_aligned f" "page_aligned g" using walk_aligned [OF al] A [OF v] B [OF w] by (auto simp: frame_of_def)
    then have "ALIGN_DOWN (f + (v AND 0xFFF)) = f" "ALIGN_DOWN (g + (w AND 0xFFF)) = g" by (simp_all add: ALIGN_DOWN_frame_offset(1))
    then show False using e A [OF v] B [OF w] assms(5) by (simp add: vtrans_def)
  qed
  then show ?thesis using assms(1,2) unfolding data_region_def by (metis Un_iff)
qed

lemma copy_frame:
  assumes al: "page_aligned (cr3 s)" and d: "frame_of (cr3 s) s dst = Some g" "\<not> is_table (pmem s) (cr3 s) g" "page_aligned dst"
    and src: "frame_of (cr3 s) s va = Some f" "\<not> is_table (pmem s) (cr3 s) f" "page_aligned va" and ne: "g \<noteq> f"
  obtains s' where "vmemcpy 4096 dst va s = Some s'" "stores_in {g} s s'"
    "\<And>x. phys_byte (pmem s') (g + (x AND 0xFFF)) = phys_byte (pmem s) (f + (x AND 0xFFF))"
proof -
  let ?A = "set (block dst 4096)" and ?B = "set (block va 4096)"
  have ad: "ALIGN_DOWN dst = dst" "ALIGN_DOWN va = va" using d(3) src(3) by (simp_all add: page_aligned_def)
  have pages: "v \<in> ?A \<longleftrightarrow> ALIGN_DOWN v = dst" "v \<in> ?B \<longleftrightarrow> ALIGN_DOWN v = va" for v
    using page_block [of v dst] page_block [of v va] by (simp_all only: ad)
  have rA: "data_region ?A s" by (rule data_region_page [OF al d(1,2)]) (simp add: pages ad del: block.simps)
  have rB: "data_region ?B s" by (rule data_region_page [OF al src(1,2)]) (simp add: pages ad del: block.simps)
  have fA: "frame_of (cr3 s) s v = Some g" if "v \<in> ?A" for v
    using that d(1) ad(1) ALIGN_DOWN_same_page [of v dst] pages by (simp add: frame_of_def same_page_def)
  have fB: "frame_of (cr3 s) s v = Some f" if "v \<in> ?B" for v
    using that src(1) ad(2) ALIGN_DOWN_same_page [of v va] pages by (simp add: frame_of_def same_page_def)
  have r: "data_region (?A \<union> ?B) s" by (rule data_region_Un [OF rA rB fA fB ne])
  obtain bs where bs: "vload_bytes 4096 va s = Some bs" "length bs = 4096"
    using vmem.loads_returns [OF r, of va 4096] by blast
  have "dst \<noteq> va" using d(1) src(1) ne by auto
  then have "?A \<inter> ?B = {}" using pages by auto
  then have run: "vmemcpy 4096 dst va s = vstore_bytes bs dst s" by (intro vmem.copy_stores [OF r _ _ _ bs(1)]) auto
  obtain s' where s': "vstore_bytes bs dst s = Some s'" "stores_in {g} s s'"
    "\<And>v. ALIGN_DOWN v = dst \<Longrightarrow> vload8 v s' = Some (bs ! unat (v AND 0xFFF))"
    using fill_page [OF al d(1,2) bs(2)] unfolding ad by blast
  show thesis
  proof (rule that [OF run [unfolded s'(1)] s'(2)])
    fix x :: u64
    let ?o = "x AND 0xFFF"
    have o: "unat ?o < 4096" using word_and_le1 [of x "0xFFF"] by (simp add: word_le_nat_alt)
    have D: "ALIGN_DOWN (dst + ?o) = dst" "(dst + ?o) AND 0xFFF = ?o" and V: "ALIGN_DOWN (va + ?o) = va" "(va + ?o) AND 0xFFF = ?o"
      using ALIGN_DOWN_frame_offset(1,3) [OF d(3), of x] ALIGN_DOWN_frame_offset(1,3) [OF src(3), of x] by simp_all
    have "frame_of (cr3 s') s' (dst + ?o) = Some g"
      using fA [of "dst + ?o"] D(1) pages stores_in_cr3 [OF s'(2)] stores_in_tables(1) [OF s'(2)] by simp
    then have "vload8 (dst + ?o) s' = Some (phys_byte (pmem s') (g + ?o))" by (simp add: vload8_def vtrans_def D(2))
    moreover have "vload8 (va + ?o) s = Some (phys_byte (pmem s) (f + ?o))"
      using fB [of "va + ?o"] V pages by (simp add: vload8_def vtrans_def)
    moreover have "vload8 (va + of_nat (unat ?o)) s = Some (bs ! unat ?o)" using bs(1) o unfolding vmem.loads_iff by blast
    ultimately show "phys_byte (pmem s') (g + ?o) = phys_byte (pmem s) (f + ?o)" using s'(3) [OF D(1)] D(2) by simp
  qed
qed

subsection \<open>One page of the stack\<close>

lemma stores_in_ready:
  assumes r: "copy_ready n P C c p s" and st: "stores_in {g} s s'" and g: "user_frame P C g s"
  shows "copy_ready n P C c p s'" and "frame_of P s' v = frame_of P s v" and "frame_of C s' v = frame_of C s v"
    and "user_frame P C h s' = user_frame P C h s" and "phy_bitmap s' = phy_bitmap s"
proof -
  have fs: "fork_spaces P C c p s" and sh: "shared_spaces P C s" and room: "heap_room n P s" using r by (simp_all add: copy_ready_def)
  have c: "cr3 s = P" using fs by (simp add: fork_spaces_def)
  have u: "user_frame P C f s" if "f \<in> {g}" for f using that g by simp
  note t = stores_in_shared [OF sh st c u]
  show fP: "frame_of P s' v = frame_of P s v" for v using stores_in_tables(1) [OF st] c by simp
  show "frame_of C s' v = frame_of C s v" "user_frame P C h s' = user_frame P C h s" by (simp_all only: t(2,3))
  have s': "s' = s\<lparr>pmem := pmem s'\<rparr>" using st by (simp only: stores_in_def)
  show "phy_bitmap s' = phy_bitmap s" by (subst s') simp
  have top: "virtual_top s' = virtual_top s" by (subst s') simp
  have "walk (pmem s') P [511] = walk (pmem s) P [511]" using st c unfolding stores_in_def by (elim conjE allE [of _ "[511]"]) simp
  then have "heap_room n P s'" using room unfolding heap_room_def top fP by simp
  moreover have "fork_spaces P C c p s'"
    using fs t(2) fP shared_spaces_two [OF t(1)] stores_in_cr3 [OF st] by (simp add: fork_spaces_def)
  ultimately show "copy_ready n P C c p s'" using t(1) by (simp add: copy_ready_def)
qed

text \<open>A round of the loop for a page that the parent has.\<close>

lemma copy_page:
  fixes s :: "'z proc_state_scheme"
  assumes r: "copy_ready (Suc n) P C c p s" and al: "can_alloc (7 + m) s" and va: "unat va < 2 ^ 47" "page_aligned va"
    and f: "frame_of P s va = Some f" "user_frame P C f s" "f \<noteq> 0" and e: "e \<le> va"
  obtains s' pg where "copy_stack_pages c p va e s = copy_stack_pages c p (va - PAGE_SIZE) e s'" "copy_ready n P C c p s'" "can_alloc m s'" "data_kept P C s s'"
    "page_free s pg" "unat pg < 508 * 64" "user_frame P C (mm_page_to_phy pg) s'"
    "\<And>x. phys_byte (pmem s') (mm_page_to_phy pg + (x AND 0xFFF)) = phys_byte (pmem s) (f + (x AND 0xFFF))"
    "\<And>v. pml4e_offset v < 256 \<Longrightarrow> frame_of P s' v = frame_of P s v"
    "\<And>v. pml4e_offset v < 256 \<Longrightarrow> frame_of C s' v = (if same_page v va then Some (mm_page_to_phy pg) else frame_of C s v)"
proof -
  have low: "pml4e_offset va < 256" by (rule low_address_index [OF va(1)])
  have al': "can_alloc (4 + (3 + m)) s" using al by (simp add: algebra_simps)
  obtain pg s1 where k: "alloc_pages 1 user_flags s = Some (virtual_top s, s1)" "page_free s pg" "unat pg < 508 * 64"
    "copy_ready n P C c p s1" "can_alloc (3 + m) s1" "data_kept P C s s1" "user_frame P C (mm_page_to_phy pg) s1"
    "frame_of P s1 (virtual_top s) = Some (mm_page_to_phy pg)"
    "\<And>v. pml4e_offset v < 256 \<Longrightarrow> frame_of P s1 v = frame_of P s v \<and> frame_of C s1 v = frame_of C s v"
    by (rule kernel_page [OF r al' valid_user_flags]) blast
  let ?F = "mm_page_to_phy pg"
  have c1: "cr3 s1 = P" and alP: "page_aligned P" and t: "page_aligned (virtual_top s)"
    using k(4) r two_spaces_aligned by (auto simp: copy_ready_def fork_spaces_def heap_room_def)
  have f1: "frame_of P s1 va = Some f" "user_frame P C f s1" using k(9) [OF low] f k(6) by (simp_all add: data_kept_def)
  have ne: "?F \<noteq> f" using f(2) k(2,3) by (auto simp: user_frame_def)
  have nt: "\<not> is_table (pmem s1) P ?F" "\<not> is_table (pmem s1) P f" using k(7) f1(2) by (simp_all add: user_frame_def)
  obtain s2 where s2: "vmemcpy 4096 (virtual_top s) va s1 = Some s2" "stores_in {?F} s1 s2"
    "\<And>x. phys_byte (pmem s2) (?F + (x AND 0xFFF)) = phys_byte (pmem s1) (f + (x AND 0xFFF))"
    using copy_frame [of s1 "virtual_top s" ?F va f] alP k(8) nt t f1(1) va(2) ne unfolding c1 by blast
  note r2 = stores_in_ready [OF k(4) s2(2) k(7)]
  have al2: "can_alloc (3 + m) s2" by (rule can_alloc_cong [OF r2(5) [symmetric] k(5)])
  have fs2: "fork_spaces P C c p s2" and sh2: "shared_spaces P C s2" and room2: "heap_room n P s2" using r2(1) by (simp_all add: copy_ready_def)
  obtain s3 s4 where s4: "map_virt_to_phy va ?F user_flags (write_cr3 (virt_to_phy c 0 s2) s2) = Some s3"
    "s4 = write_cr3 (virt_to_phy p 0 s3) s3" "fork_spaces P C c p s4" "can_alloc m s4" "\<And>v. frame_of P s4 v = frame_of P s2 v"
    "\<And>v. frame_of C s4 v = (if same_page v va then Some ?F else frame_of C s2 v)" "tables_on (path va) C s2 s4"
    "\<And>g. is_table (pmem s4) P g = is_table (pmem s2) P g" "shared_spaces P C s4" "virtual_top s4 = virtual_top s2"
    "\<And>q. valid_path q \<Longrightarrow> length q \<le> 4 \<Longrightarrow> walk (pmem s4) P q = walk (pmem s2) P q"
    using child_page [OF fs2 va(1) al2 page_aligned_page_to_phy valid_user_flags] sh2 by metis
  have vp: "virt_to_phy va 0 s = f" "virt_to_phy (virtual_top s) 0 s1 = ?F"
    using r f(1) k(8) c1 by (simp_all add: virt_to_phy_frame_of copy_ready_def fork_spaces_def)
  have u2: "user_frame P C g s2 = user_frame P C g s1" for g by (rule r2(4))
  have kept4: "user_frame P C g s4" "ALIGN_DOWN a = g \<Longrightarrow> pmem s4 a = pmem s2 a" if "user_frame P C g s2" for g a
    using tables_only_user_frame [OF tables_on_only [OF s4(7) valid_path_path] that] s4(8) by blast+
  have other: "\<not> ALIGN_DOWN a = ?F \<Longrightarrow> pmem s2 a = pmem s1 a" for a using s2(2) unfolding stores_in_def by blast
  have free4: "page_free s4 q \<Longrightarrow> page_free s1 q" for q
    using s4(7) stores_in_cr3 [OF s2(2)] unfolding tables_on_def by blast
  have apart: "g \<noteq> ?F" if "user_frame P C g s" for g using that k(2,3) by (auto simp: user_frame_def)
  show thesis
  proof (rule that [of s4 pg])
    show "copy_stack_pages c p va e s = copy_stack_pages c p (va - PAGE_SIZE) e s4"
      by (subst copy_stack_pages.simps) (use e f(3) k(1) s2(1) s4(1,2) in \<open>simp add: vp Let_def\<close>)
    show "page_free s pg" "unat pg < 508 * 64" "can_alloc m s4" by (rule k(2) k(3) s4(4))+
    have "walk (pmem s4) P [511] = walk (pmem s2) P [511]" by (rule s4(11)) simp_all
    then have "heap_room n P s4" using room2 unfolding heap_room_def s4(5,10) by simp
    then show "copy_ready n P C c p s4" using s4(3,9) by (simp add: copy_ready_def)
    show "user_frame P C ?F s4" using kept4(1) k(7) u2 by simp
    show "frame_of P s4 v = frame_of P s v" if "pml4e_offset v < 256" for v using that s4(5) r2(2) k(9) by simp
    show "frame_of C s4 v = (if same_page v va then Some ?F else frame_of C s v)" if "pml4e_offset v < 256" for v
      using that s4(6) r2(3) k(9) by simp
    show "data_kept P C s s4"
      unfolding data_kept_def
    proof (intro conjI allI impI)
      show "page_free s q" if "page_free s4 q" for q using free4 [OF that] k(6) by (simp add: data_kept_def)
      fix g assume g: "user_frame P C g s"
      then have g1: "user_frame P C g s1" "\<And>a. ALIGN_DOWN a = g \<Longrightarrow> pmem s1 a = pmem s a" using k(6) by (simp_all add: data_kept_def)
      then show "user_frame P C g s4" using kept4(1) u2 by simp
      fix a assume "ALIGN_DOWN a = g"
      then show "pmem s4 a = pmem s a" using kept4(2) g1 u2 other apart [OF g] by simp
    qed
    have pf: "page_aligned ?F" "page_aligned f"
      using f(1) walk_aligned [OF alP] by (simp_all add: frame_of_def)
    show "phys_byte (pmem s4) (?F + (x AND 0xFFF)) = phys_byte (pmem s) (f + (x AND 0xFFF))" for x
      using s2(3) [of x] kept4(2) [of ?F] k(6,7) u2 f(2) ALIGN_DOWN_frame_offset(2) [OF pf(1), of x] ALIGN_DOWN_frame_offset(2) [OF pf(2), of x]
      by (simp add: phys_byte_def data_kept_def)
  qed
qed

subsection \<open>The loop over the stack\<close>

text \<open>\<open>stack_frame e va P s u f\<close>: the address \<open>u\<close> is on a page from \<open>e\<close> to \<open>va\<close> that the parent has, in the frame \<open>f\<close>.\<close>

definition stack_frame :: "u64 \<Rightarrow> u64 \<Rightarrow> u64 \<Rightarrow> 'z mmu_state_scheme \<Rightarrow> u64 \<Rightarrow> u64 \<Rightarrow> bool" where
  "stack_frame e va P s u f \<longleftrightarrow> e \<le> ALIGN_DOWN u \<and> ALIGN_DOWN u \<le> va \<and> frame_of P s u = Some f \<and> f \<noteq> 0"

text \<open>A copy of the frame \<open>f\<close> of \<open>s\<close> at \<open>u\<close> in the child, in a frame that held no data before.\<close>

definition own_copy :: "u64 \<Rightarrow> u64 \<Rightarrow> u64 \<Rightarrow> u64 \<Rightarrow> 'z mmu_state_scheme \<Rightarrow> 'z mmu_state_scheme \<Rightarrow> bool" where
  "own_copy P C f u s s' \<longleftrightarrow> (\<exists>g. frame_of C s' u = Some g \<and> user_frame P C g s' \<and> \<not> user_frame P C g s \<and>
     (\<forall>x. phys_byte (pmem s') (g + (x AND 0xFFF)) = phys_byte (pmem s) (f + (x AND 0xFFF))))"

lemma data_kept_byte:
  assumes "data_kept P C s s'" and "user_frame P C f s" and "page_aligned f"
  shows "phys_byte (pmem s') (f + (x AND 0xFFF)) = phys_byte (pmem s) (f + (x AND 0xFFF))"
  using assms ALIGN_DOWN_frame_offset(2) [OF assms(3), of x] by (simp add: data_kept_def phys_byte_def)

lemma can_alloc_add: "can_alloc (k + n) s \<Longrightarrow> can_alloc n s"
  by (induction k) (auto dest: can_alloc_Suc)

lemma copy_ready_aligned: "copy_ready n P C c p s \<Longrightarrow> page_aligned P \<and> page_aligned C"
  using two_spaces_aligned by (auto simp: copy_ready_def fork_spaces_def)

lemma copy_ready_Suc: "copy_ready (Suc n) P C c p s \<Longrightarrow> copy_ready n P C c p s"
  by (simp add: copy_ready_def heap_room_def)

lemma page_below:
  assumes "ALIGN_DOWN u \<le> va" "page_aligned va" "unat va < 2 ^ 47"
  shows "unat u < 2 ^ 47"
proof -
  obtain k where k: "unat va = 4096 * k" using assms(2) by (auto simp: page_aligned_iff_dvd)
  have "unat u < unat (ALIGN_DOWN u) + 4096" using unat_ALIGN_DOWN [of u] by simp
  then have "unat u < 4096 * k + 4096" using assms(1) k by (simp add: word_le_nat_alt)
  moreover have "k < 2 ^ 35" using assms(3) k by simp
  ultimately show ?thesis by simp
qed

lemma page_or_below:
  assumes "page_aligned va" and "0 < unat va"
  shows "ALIGN_DOWN u \<le> va \<longleftrightarrow> ALIGN_DOWN u \<le> va - PAGE_SIZE \<or> ALIGN_DOWN u = va"
proof -
  obtain k where k: "unat va = 4096 * k" using assms(1) by (auto simp: page_aligned_iff_dvd)
  moreover obtain l where "unat (ALIGN_DOWN u) = 4096 * l" using page_aligned_iff_dvd [of "ALIGN_DOWN u"] by auto
  moreover have "unat (va - PAGE_SIZE) = unat va - 4096" using k assms(2) by (simp add: unat_sub_if')
  ultimately show ?thesis using assms(2) by (auto simp: word_le_nat_alt word_unat_eq_iff)
qed

lemma copy_round:
  fixes s :: "'z proc_state_scheme"
  assumes r: "copy_ready (Suc n) P C c p s" and al: "can_alloc (7 + m) s" and va: "unat va < 2 ^ 47" "page_aligned va"
    and e: "e \<le> va" and st: "\<And>f. stack_frame e va P s va f \<Longrightarrow> user_frame P C f s"
  obtains s' where "copy_stack_pages c p va e s = copy_stack_pages c p (va - PAGE_SIZE) e s'" "copy_ready n P C c p s'"
    "can_alloc m s'" "data_kept P C s s'" "\<And>v. unat v < 2 ^ 47 \<Longrightarrow> frame_of P s' v = frame_of P s v"
    "\<And>v f. ALIGN_DOWN v = va \<Longrightarrow> stack_frame e va P s v f \<Longrightarrow> own_copy P C f v s s'"
    "\<And>v. unat v < 2 ^ 47 \<Longrightarrow> ALIGN_DOWN v \<noteq> va \<or> (\<forall>f. \<not> stack_frame e va P s v f) \<Longrightarrow> frame_of C s' v = frame_of C s v"
proof -
  have ad: "ALIGN_DOWN va = va" using va(2) by (simp add: page_aligned_def)
  have same: "same_page v va \<longleftrightarrow> ALIGN_DOWN v = va" if "unat v < 2 ^ 47" for v using low_address_page [OF that va(1)] ad by simp
  have fr: "frame_of R t v = frame_of R t va" if "ALIGN_DOWN v = va" for R t v
    using ALIGN_DOWN_same_page [of v va] that ad by (simp add: frame_of_def same_page_def)
  have cr3: "cr3 s = P" using r by (simp add: copy_ready_def fork_spaces_def)
  show thesis
  proof (cases "\<exists>f. stack_frame e va P s va f")
    case False
    then have "virt_to_phy va 0 s = 0"
      using e cr3 by (auto simp: virt_to_phy_frame_of stack_frame_def ad split: option.splits)
    then have "copy_stack_pages c p va e s = copy_stack_pages c p (va - PAGE_SIZE) e s"
      using e by (subst copy_stack_pages.simps) (simp add: Let_def)
    moreover have "\<not> stack_frame e va P s v f" if "ALIGN_DOWN v = va" for v f
      using False fr [OF that, of P s] that unfolding stack_frame_def ad by metis
    ultimately show ?thesis using that [of s] copy_ready_Suc [OF r] can_alloc_add [OF al] by simp
  next
    case True
    then obtain f where f: "stack_frame e va P s va f" by blast
    then have fs: "frame_of P s va = Some f" "f \<noteq> 0" by (simp_all add: stack_frame_def)
    obtain s' pg where c: "copy_stack_pages c p va e s = copy_stack_pages c p (va - PAGE_SIZE) e s'" "copy_ready n P C c p s'"
      "can_alloc m s'" "data_kept P C s s'" "page_free s pg" "unat pg < 508 * 64" "user_frame P C (mm_page_to_phy pg) s'"
      "\<And>x. phys_byte (pmem s') (mm_page_to_phy pg + (x AND 0xFFF)) = phys_byte (pmem s) (f + (x AND 0xFFF))"
      "\<And>v. pml4e_offset v < 256 \<Longrightarrow> frame_of P s' v = frame_of P s v"
      "\<And>v. pml4e_offset v < 256 \<Longrightarrow> frame_of C s' v = (if same_page v va then Some (mm_page_to_phy pg) else frame_of C s v)"
      by (rule copy_page [OF r al va fs(1) st [OF f] fs(2) e]) blast
    show ?thesis
    proof (rule that [OF c(1-4)])
      show "frame_of P s' v = frame_of P s v" if "unat v < 2 ^ 47" for v by (rule c(9) [OF low_address_index [OF that]])
      show "own_copy P C g v s s'" if v: "ALIGN_DOWN v = va" "stack_frame e va P s v g" for v g
      proof -
        have "g = f" using v(2) fr [OF v(1), of P s] fs(1) by (simp add: stack_frame_def)
        moreover have "frame_of C s' v = Some (mm_page_to_phy pg)"
          using fr [OF v(1), of C s'] c(10) [OF low_address_index [OF va(1)]] by (simp add: same_page_def)
        moreover have "\<not> user_frame P C (mm_page_to_phy pg) s" using c(5,6) by (auto simp: user_frame_def)
        ultimately show ?thesis using c(7,8) unfolding own_copy_def by blast
      qed
      show "frame_of C s' v = frame_of C s v"
        if v: "unat v < 2 ^ 47" "ALIGN_DOWN v \<noteq> va \<or> (\<forall>f. \<not> stack_frame e va P s v f)" for v
      proof -
        have "ALIGN_DOWN v \<noteq> va"
        proof
          assume a: "ALIGN_DOWN v = va"
          have "stack_frame e va P s v f" using f fr [OF a, of P s] a by (simp add: stack_frame_def ad)
          with v(2) a show False by blast
        qed
        then show ?thesis using c(10) [OF low_address_index [OF v(1)]] same [OF v(1)] by simp
      qed
    qed
  qed
qed

lemma own_copy_before:
  assumes k: "data_kept P C s s1" and o: "own_copy P C f u s1 s'" and f: "user_frame P C f s" "page_aligned f"
  shows "own_copy P C f u s s'"
proof -
  have "\<not> user_frame P C g s1 \<Longrightarrow> \<not> user_frame P C g s" for g using k by (auto simp: data_kept_def)
  then show ?thesis using o data_kept_byte [OF k f] unfolding own_copy_def by metis
qed

lemma own_copy_after:
  assumes o: "own_copy P C f u s s1" and k: "data_kept P C s1 s'" and fr: "frame_of C s' u = frame_of C s1 u" and al: "page_aligned C"
  shows "own_copy P C f u s s'"
proof -
  obtain g where g: "frame_of C s1 u = Some g" "user_frame P C g s1" "\<not> user_frame P C g s"
    "\<And>x. phys_byte (pmem s1) (g + (x AND 0xFFF)) = phys_byte (pmem s) (f + (x AND 0xFFF))"
    using o unfolding own_copy_def by blast
  have "user_frame P C g s'" using k g(2) by (simp add: data_kept_def)
  then show ?thesis unfolding own_copy_def using g data_kept_byte [OF k g(2) frame_aligned [OF al g(1)]] fr by metis
qed

lemma copy_stack_spec:
  fixes s :: "'z proc_state_scheme"
  assumes "copy_ready n P C c p s" and "can_alloc (7 * n) s" and "unat va < 2 ^ 47" "page_aligned va" and "0 < e"
    and "unat va < unat e + 4096 * n" and "\<And>u f. stack_frame e va P s u f \<Longrightarrow> user_frame P C f s"
  shows "\<exists>s'. copy_stack_pages c p va e s = Some s' \<and> fork_spaces P C c p s' \<and> data_kept P C s s' \<and>
    (\<forall>u. unat u < 2 ^ 47 \<longrightarrow> frame_of P s' u = frame_of P s u) \<and>
    (\<forall>u f. stack_frame e va P s u f \<longrightarrow> own_copy P C f u s s') \<and>
    (\<forall>u. unat u < 2 ^ 47 \<and> (\<forall>f. \<not> stack_frame e va P s u f) \<longrightarrow> frame_of C s' u = frame_of C s u)"
  using assms
proof (induction n arbitrary: va s)
  case 0
  then have "\<not> e \<le> va" by (simp add: word_le_nat_alt)
  moreover from this have "\<not> stack_frame e va P s u f" for u f by (auto simp: stack_frame_def)
  ultimately show ?case using 0 by (subst copy_stack_pages.simps) (simp add: copy_ready_def)
next
  case (Suc n)
  show ?case
  proof (cases "e \<le> va")
    case False
    then have "\<not> stack_frame e va P s u f" for u f by (auto simp: stack_frame_def)
    with False show ?thesis using Suc.prems(1) by (subst copy_stack_pages.simps) (simp add: copy_ready_def)
  next
    case True
    have al7: "can_alloc (7 + 7 * n) s" using Suc.prems(2) by (simp add: algebra_simps)
    obtain s1 where s1: "copy_stack_pages c p va e s = copy_stack_pages c p (va - PAGE_SIZE) e s1" "copy_ready n P C c p s1"
      "can_alloc (7 * n) s1" "data_kept P C s s1" "\<And>v. unat v < 2 ^ 47 \<Longrightarrow> frame_of P s1 v = frame_of P s v"
      "\<And>v f. ALIGN_DOWN v = va \<Longrightarrow> stack_frame e va P s v f \<Longrightarrow> own_copy P C f v s s1"
      "\<And>v. unat v < 2 ^ 47 \<Longrightarrow> ALIGN_DOWN v \<noteq> va \<or> (\<forall>f. \<not> stack_frame e va P s v f) \<Longrightarrow> frame_of C s1 v = frame_of C s v"
      by (rule copy_round [OF Suc.prems(1) al7 Suc.prems(3,4) True Suc.prems(7) [of va]], assumption, rule that)
    let ?va = "va - PAGE_SIZE"
    have va: "0 < unat va" "4096 dvd unat va" using True Suc.prems(4,5) by (simp_all add: word_le_nat_alt word_less_nat_alt page_aligned_iff_dvd)
    then have ge: "4096 \<le> unat va" by (auto dest: dvd_imp_le)
    then have un: "unat ?va = unat va - 4096" by (simp add: unat_sub_if')
    have next_va: "unat ?va < 2 ^ 47" "page_aligned ?va" "unat ?va < unat e + 4096 * n"
      using un ge va(2) Suc.prems(3,6) by (simp_all add: page_aligned_iff_dvd)
    have le: "ALIGN_DOWN u \<le> va \<longleftrightarrow> ALIGN_DOWN u \<le> ?va \<or> ALIGN_DOWN u = va" for u
      by (rule page_or_below [OF Suc.prems(4) va(1)])
    have above: "\<not> va \<le> ?va" using un ge by (simp add: word_le_nat_alt)
    have old: "stack_frame e ?va P s1 u f \<longleftrightarrow> stack_frame e va P s u f \<and> ALIGN_DOWN u \<noteq> va" for u f
    proof (cases "ALIGN_DOWN u \<le> ?va")
      case True
      then have "unat u < 2 ^ 47" by (rule page_below [OF _ next_va(2,1)])
      then show ?thesis using True le [of u] above s1(5) [of u] by (auto simp: stack_frame_def)
    next
      case False
      then show ?thesis using le [of u] by (auto simp: stack_frame_def)
    qed
    have "user_frame P C f s1" if "stack_frame e ?va P s1 u f" for u f
      using that Suc.prems(7) [of u f] s1(4) old by (simp add: data_kept_def)
    with Suc.IH [OF s1(2,3) next_va(1,2) Suc.prems(5) next_va(3)]
    obtain s' where s': "copy_stack_pages c p ?va e s1 = Some s'" "fork_spaces P C c p s'" "data_kept P C s1 s'"
      "\<And>u. unat u < 2 ^ 47 \<Longrightarrow> frame_of P s' u = frame_of P s1 u" "\<And>u f. stack_frame e ?va P s1 u f \<Longrightarrow> own_copy P C f u s1 s'"
      "\<And>u. unat u < 2 ^ 47 \<Longrightarrow> (\<And>f. \<not> stack_frame e ?va P s1 u f) \<Longrightarrow> frame_of C s' u = frame_of C s1 u"
      by blast
    have al: "page_aligned P" "page_aligned C" using copy_ready_aligned [OF Suc.prems(1)] by simp_all
    have "own_copy P C f u s s'" if f: "stack_frame e va P s u f" for u f
    proof (cases "ALIGN_DOWN u = va")
      case True
      have "unat u < 2 ^ 47" by (rule page_below [OF _ Suc.prems(4,3)]) (simp add: True)
      then have "frame_of C s' u = frame_of C s1 u" by (rule s'(6)) (simp add: old True)
      then show ?thesis by (rule own_copy_after [OF s1(6) [OF True f] s'(3) _ al(2)])
    next
      case False
      have "page_aligned f" using f frame_aligned [OF al(1)] unfolding stack_frame_def by blast
      then show ?thesis using own_copy_before [OF s1(4) s'(5) Suc.prems(7) [OF f]] f False old by blast
    qed
    moreover have "frame_of C s' u = frame_of C s u" if "unat u < 2 ^ 47 \<and> (\<forall>f. \<not> stack_frame e va P s u f)" for u
      using that s'(6) [of u] s1(7) [of u] old by simp
    ultimately show ?thesis using s1(1,5) s'(1,2,4) data_kept_trans [OF s1(4) s'(3)] by (intro exI [of _ s']) simp
  qed
qed

subsection \<open>A store of the child\<close>

text \<open>A store of the child into a frame of its own, seen by the child and not by the parent.\<close>

lemma child_store:
  fixes s :: "'z mmu_state_scheme"
  assumes al: "page_aligned P" "page_aligned C" and g: "frame_of C s u = Some g" "user_frame P C g s"
  obtains s' where "vstore8 u b (write_cr3 C s) = Some s'" "vload8 u s' = Some b"
    "\<And>w f. frame_of P s w = Some f \<Longrightarrow> f \<noteq> g \<Longrightarrow> vload8 w (write_cr3 P s') = Some (phys_byte (pmem s) (f + (w AND 0xFFF)))"
proof -
  let ?a = "g + (u AND 0xFFF)"
  define s' where "s' = (write_cr3 C s)\<lparr>pmem := set_phys_byte ?a b (pmem s)\<rparr>"
  have pg: "page_aligned g" by (rule frame_aligned [OF al(2) g(1)])
  have "ALIGN_DOWN a = g" if "set_phys_byte ?a b (pmem s) a \<noteq> pmem s a" for a
  proof -
    have "a = ?a AND NOT 7" using that by (auto simp: set_phys_byte_def Let_def split: if_splits)
    then show ?thesis using ALIGN_DOWN_frame_offset(2) [OF pg, of u] by simp
  qed
  then have w: "walk (set_phys_byte ?a b (pmem s)) R (path v) = walk (pmem s) R (path v)" if "R = P \<or> R = C" for R v
    by (intro walk_untouched) (use that al g(2) in \<open>auto simp: user_frame_def\<close>)
  show thesis
  proof (rule that)
    show "vstore8 u b (write_cr3 C s) = Some s'"
      using g(1) by (simp add: vstore8_def vtrans_def frame_of_def write_cr3_def s'_def)
    show "vload8 u s' = Some b"
      using g(1) w [of C u] by (simp add: vload8_def vtrans_def frame_of_def write_cr3_def s'_def phys_byte_set)
    fix v f assume f: "frame_of P s v = Some f" "f \<noteq> g"
    have "ALIGN_DOWN (f + (v AND 0xFFF)) = f" "ALIGN_DOWN ?a = g"
      using ALIGN_DOWN_frame_offset(1) [OF frame_aligned [OF al(1) f(1)]] ALIGN_DOWN_frame_offset(1) [OF pg] by simp_all
    then have "f + (v AND 0xFFF) \<noteq> ?a" using f(2) by metis
    then show "vload8 v (write_cr3 P s') = Some (phys_byte (pmem s) (f + (v AND 0xFFF)))"
      using f(1) w [of P v] by (simp add: vload8_def vtrans_def frame_of_def write_cr3_def s'_def phys_byte_set)
  qed
qed

lemma page_aligned_below: "page_aligned (ALIGN_UP st - 4096)"
proof -
  have "page_aligned (ALIGN_UP st)" using page_aligned_ALIGN_DOWN [of "st + 0x1000"] by (auto simp: ALIGN_UP_def page_aligned_def)
  then have "page_aligned (ALIGN_UP st + (- 4096))" by (rule page_aligned_add) (simp add: page_aligned_def ALIGN_DOWN_def)
  then show ?thesis by simp
qed

subsection \<open>Properties\<close>

text \<open>C15: \<open>fork\<close> copies the stack: the loop returns, the parent's translations of the lower half stay as they are, and every
  address of the area whose page the parent has reads in the child the byte it reads in the parent, which the parent
  keeps; the child's page is its own, so what the child stores there changes no byte of the parent's stack.  A
  page that the parent does not have is left out in the child.\<close>

lemma fork_copies_stack:
  fixes s :: "'z proc_state_scheme"
  assumes r: "copy_ready n P C c p s" and pool: "can_alloc (7 * n) s" and e: "0 < e" "unat (ALIGN_UP st - 4096) < 2 ^ 47" "unat (ALIGN_UP st - 4096) < unat e + 4096 * n"
    and stack: "\<And>u f. stack_frame e (ALIGN_UP st - 4096) P s u f \<Longrightarrow> user_frame P C f s"
  shows "\<exists>s'. copy_stack_pages c p (ALIGN_UP st - 4096) e s = Some s' \<and> fork_spaces P C c p s' \<and>
    (\<forall>u. unat u < 2 ^ 47 \<longrightarrow> frame_of P s' u = frame_of P s u) \<and>
    (\<forall>u. unat u < 2 ^ 47 \<and> (\<forall>f. \<not> stack_frame e (ALIGN_UP st - 4096) P s u f) \<longrightarrow> frame_of C s' u = frame_of C s u) \<and>
    (\<forall>u f. stack_frame e (ALIGN_UP st - 4096) P s u f \<longrightarrow>
       vload8 u (write_cr3 C s') = vload8 u s \<and> vload8 u s' = vload8 u s \<and>
       (\<forall>b. \<exists>s1. vstore8 u b (write_cr3 C s') = Some s1 \<and> vload8 u s1 = Some b \<and>
          (\<forall>w h. stack_frame e (ALIGN_UP st - 4096) P s w h \<longrightarrow> vload8 w (write_cr3 P s1) = vload8 w s)))"
proof -
  let ?va = "ALIGN_UP st - 4096"
  have va: "page_aligned ?va" by (rule page_aligned_below) 
  obtain s' where s': "copy_stack_pages c p ?va e s = Some s'" "fork_spaces P C c p s'" "data_kept P C s s'"
    "\<And>u. unat u < 2 ^ 47 \<Longrightarrow> frame_of P s' u = frame_of P s u"
    "\<And>u f. stack_frame e ?va P s u f \<Longrightarrow> own_copy P C f u s s'"
    "\<And>u. unat u < 2 ^ 47 \<Longrightarrow> (\<And>f. \<not> stack_frame e ?va P s u f) \<Longrightarrow> frame_of C s' u = frame_of C s u"
    using copy_stack_spec [OF r pool e(2) va e(1,3)] stack by blast
  have al: "page_aligned P" "page_aligned C" and cr3: "cr3 s = P" "cr3 s' = P"
    using copy_ready_aligned [OF r] r s'(2) by (simp_all add: copy_ready_def fork_spaces_def)
  have parent: "frame_of P s' u = Some f" "vload8 u s = Some (phys_byte (pmem s) (f + (u AND 0xFFF)))"
    "phys_byte (pmem s') (f + (u AND 0xFFF)) = phys_byte (pmem s) (f + (u AND 0xFFF))"
    if "stack_frame e ?va P s u f" for u f
  proof -
    have f: "frame_of P s u = Some f" and "ALIGN_DOWN u \<le> ?va" using that by (simp_all add: stack_frame_def)
    then have "unat u < 2 ^ 47" by (intro page_below [OF _ va e(2)])
    then show "frame_of P s' u = Some f" using s'(4) f by simp
    show "vload8 u s = Some (phys_byte (pmem s) (f + (u AND 0xFFF)))" using f cr3 by (simp add: vload8_def vtrans_def)
    show "phys_byte (pmem s') (f + (u AND 0xFFF)) = phys_byte (pmem s) (f + (u AND 0xFFF))"
      by (rule data_kept_byte [OF s'(3) stack [OF that] frame_aligned [OF al(1) f]])
  qed
  show ?thesis
  proof (rule exI [of _ s'], intro conjI allI impI)
    fix u f assume f: "stack_frame e ?va P s u f"
    obtain g where g: "frame_of C s' u = Some g" "user_frame P C g s'" "\<not> user_frame P C g s"
      "\<And>x. phys_byte (pmem s') (g + (x AND 0xFFF)) = phys_byte (pmem s) (f + (x AND 0xFFF))"
      using s'(5) [OF f] unfolding own_copy_def by blast
    show "vload8 u (write_cr3 C s') = vload8 u s"
      using g(1,4) parent(2) [OF f] by (simp add: vload8_def vtrans_def write_cr3_def frame_of_def)
    show "vload8 u s' = vload8 u s" using parent [OF f] cr3 by (simp add: vload8_def vtrans_def)
    fix b
    obtain s1 where s1: "vstore8 u b (write_cr3 C s') = Some s1" "vload8 u s1 = Some b"
      "\<And>w h. frame_of P s' w = Some h \<Longrightarrow> h \<noteq> g \<Longrightarrow> vload8 w (write_cr3 P s1) = Some (phys_byte (pmem s') (h + (w AND 0xFFF)))"
      using child_store [OF al g(1,2)] by blast
    have "vload8 w (write_cr3 P s1) = vload8 w s" if "stack_frame e ?va P s w h" for w h
      using s1(3) [OF parent(1) [OF that]] parent(2,3) [OF that] stack [OF that] g(3) by auto
    then show "\<exists>s1. vstore8 u b (write_cr3 C s') = Some s1 \<and> vload8 u s1 = Some b \<and>
        (\<forall>w h. stack_frame e ?va P s w h \<longrightarrow> vload8 w (write_cr3 P s1) = vload8 w s)"
      using s1(1,2) by blast
  qed (use s' in simp_all)
qed

lemma ex_copy_ready: "copy_ready 2 0x1000 0x8000 0xFFFFFF8000000000 0xFFFFFF8000001000 ex_fork"
proof -
  have top: "frame_of 0x1000 ex_fork (page_at (virtual_top ex_fork) 0) = None" "frame_of 0x1000 ex_fork (page_at (virtual_top ex_fork) 1) = None"
    "page_aligned (virtual_top ex_fork)" "walk (pmem ex_fork) 0x1000 [511] \<noteq> None"
    by code_simp+
  have "frame_of 0x1000 ex_fork (page_at (virtual_top ex_fork) k) = None" if "k < 2" for k
  proof -
    have "k = 0 \<or> k = 1" using that by linarith
    then show ?thesis using top(1,2) by blast
  qed
  then have "heap_room 2 0x1000 ex_fork" using top(3,4) by (simp add: heap_room_def) (simp add: ex_fork_mem)
  then show ?thesis using ex_fork_spaces ex_shared_spaces by (simp add: copy_ready_def)
qed

lemma fork_copies_stack_witness:
  "\<exists>s' s1. copy_stack_pages 0xFFFFFF8000000000 0xFFFFFF8000001000 0x401000 0x400000 ex_fork = Some s' \<and>
     vload8 0x401008 (write_cr3 0x8000 s') = Some 42 \<and> frame_of 0x8000 s' 0x400000 = None \<and>
     vstore8 0x401008 7 (write_cr3 0x8000 s') = Some s1 \<and> vload8 0x401008 s1 = Some 7 \<and>
     vload8 0x401008 (write_cr3 0x1000 s1) = Some 42"
proof -
  let ?c = "0xFFFFFF8000000000" and ?p = "0xFFFFFF8000001000"
  have va: "ALIGN_UP 0x402000 - 4096 = 0x401000" by code_simp
  have base: "frame_of 0x1000 ex_fork 0x401000 = Some 0x5000" "frame_of 0x1000 ex_fork 0x400000 = None"
    "frame_of 0x8000 ex_fork 0x400000 = None" "ALIGN_DOWN 0x401008 = 0x401000" "ALIGN_DOWN 0x401000 = 0x401000"
    "ALIGN_DOWN 0x400000 = 0x400000" "frame_of 0x1000 ex_fork 0x401008 = Some 0x5000" "vload8 0x401008 ex_fork = Some 42"
    by code_simp+
  have stack: "user_frame 0x1000 0x8000 f ex_fork" if f: "stack_frame 0x400000 (ALIGN_UP 0x402000 - 4096) 0x1000 ex_fork u f" for u f
  proof -
    have r: "0x400000 \<le> ALIGN_DOWN u" "ALIGN_DOWN u \<le> 0x401000" "frame_of 0x1000 ex_fork u = Some f"
      using f unfolding va by (simp_all add: stack_frame_def)
    have "page_aligned 0x401000" by code_simp
    then have "ALIGN_DOWN u \<le> 0x400000 \<or> ALIGN_DOWN u = 0x401000" using page_or_below [of "0x401000" u] r(2) by simp
    then have u: "ALIGN_DOWN u = 0x400000 \<or> ALIGN_DOWN u = 0x401000" using r(1) by auto
    have "frame_of 0x1000 ex_fork u = frame_of 0x1000 ex_fork (ALIGN_DOWN u)"
      using ALIGN_DOWN_same_page [of u "ALIGN_DOWN u"] by (simp add: frame_of_def same_page_def)
    then show ?thesis using u base r(3) ex_fork_frame by auto
  qed
  have "can_alloc (7 * 2) ex_fork" unfolding can_alloc_def by code_simp
  with fork_copies_stack [OF ex_copy_ready, of "0x400000" "0x402000"] stack
  obtain s' where s': "copy_stack_pages ?c ?p 0x401000 0x400000 ex_fork = Some s'"
    "\<forall>u. unat u < 2 ^ 47 \<and> (\<forall>f. \<not> stack_frame 0x400000 0x401000 0x1000 ex_fork u f) \<longrightarrow> frame_of 0x8000 s' u = frame_of 0x8000 ex_fork u"
    "\<forall>u f. stack_frame 0x400000 0x401000 0x1000 ex_fork u f \<longrightarrow>
       vload8 u (write_cr3 0x8000 s') = vload8 u ex_fork \<and> vload8 u s' = vload8 u ex_fork \<and>
       (\<forall>b. \<exists>s1. vstore8 u b (write_cr3 0x8000 s') = Some s1 \<and> vload8 u s1 = Some b \<and>
          (\<forall>w h. stack_frame 0x400000 0x401000 0x1000 ex_fork w h \<longrightarrow> vload8 w (write_cr3 0x1000 s1) = vload8 w ex_fork))"
    unfolding va by auto
  have "stack_frame 0x400000 0x401000 0x1000 ex_fork 0x401008 0x5000" by (simp add: stack_frame_def base)
  moreover have "\<not> stack_frame 0x400000 0x401000 0x1000 ex_fork 0x400000 f" for f by (simp add: stack_frame_def base)
  then have "frame_of 0x8000 s' 0x400000 = None" using s'(2) base(3) by simp
  ultimately show ?thesis using s'(1,3) base(8) by metis
qed

end
