(* ===== verification/SchedLive.thy ===== *)
theory SchedLive
  imports Sched
begin

section \<open>Progress of the scheduler\<close>

text \<open>
  A run of timer interrupts, and what it guarantees: the interrupt always returns, the chosen task comes
  from the rotation of the list behind the current one, and so every runnable task gets the processor.
\<close>

text \<open>The registers at each interrupt are those of the program that was running: any list of them.\<close>

fun timer_run :: "regs list \<Rightarrow> 'z time_state_scheme \<Rightarrow> 'z time_state_scheme option" where
  "timer_run [] s = Some s"
| "timer_run (r # rs) s = do { (_, s) \<leftarrow> timer_handler r s; timer_run rs s }"

text \<open>The tasks of the list can be entered: each has its memory description.\<close>

definition tasks_ready :: "'z proc_state_scheme \<Rightarrow> u64 list \<Rightarrow> bool" where
  "tasks_ready s as \<longleftrightarrow> task_seq s (task_list s) as \<and> (\<forall>b \<in> set as. deref (mms s) (t_mm (node_at (tasks s) b)) \<noteq> None)"

abbreviation is_runnable :: "'z proc_state_scheme \<Rightarrow> u64 \<Rightarrow> bool" where
  "is_runnable s a \<equiv> t_state (node_at (tasks s) a) = TASK_RUNNABLE"

subsection \<open>An interrupt returns\<close>

lemma timer_entry_returns:
  assumes seq: "task_seq s (task_list s) as" and cur: "current_task s = 0 \<or> current_task s \<in> set as"
  obtains s1 where "timer_entry r s = Some s1"
proof -
  define u where "u = (if current_task s = 0 then s\<lparr>timer_ticks := timer_ticks s + 1\<rparr>
    else s\<lparr>tasks := (tasks s)(current_task s \<mapsto> (node_at (tasks s) (current_task s))\<lparr>t_r := r\<rparr>), timer_ticks := timer_ticks s + 1\<rparr>)"
  have d: "current_task s \<noteq> 0 \<Longrightarrow> deref (tasks s) (current_task s) = Some (node_at (tasks s) (current_task s))"
    using cur llist_deref [OF seq] by blast
  have u: "task_seq u (task_list u) as"
    using seq llist_upd_same_next [OF d, of "(node_at (tasks s) (current_task s))\<lparr>t_r := r\<rparr>"] by (simp add: u_def)
  have "\<exists>s'. (if sint (timer_ticks u) mod 18 = 0
      then let secs = word_of_int (cdiv (sint (timer_ticks u)) 100)
           in if prev_secs u \<noteq> secs then second_elapsed secs u else Some u
      else Some u) = Some s'"
    by (simp add: Let_def second_elapsed_def update_time_slices_seq [OF u])
  then obtain s' where "(if sint (timer_ticks u) mod 18 = 0
      then let secs = word_of_int (cdiv (sint (timer_ticks u)) 100)
           in if prev_secs u \<noteq> secs then second_elapsed secs u else Some u
      else Some u) = Some s'" by blast
  moreover have "timer_entry r s = ((if sint (timer_ticks u) mod 18 = 0
      then let secs = word_of_int (cdiv (sint (timer_ticks u)) 100)
           in if prev_secs u \<noteq> secs then second_elapsed secs u else Some u
      else Some u) \<bind> (\<lambda>s. Some (outportb 0x20 0x20 s)))"
    using d by (simp add: timer_entry_def get_current_task_def upd_task_def hupd_def u_def Let_def)
  ultimately have "timer_entry r s = Some (outportb 0x20 0x20 s')" by simp
  then show thesis by (rule that)
qed

lemma age_task_mm [simp]: "t_mm (age_task t) = t_mm t"
  by (simp add: age_task_def)

lemma age_task_runnable: "t_state t = TASK_RUNNABLE \<Longrightarrow> age_task t = t"
  by (simp add: age_task_def)

lemma timer_entry_ready:
  assumes ready: "tasks_ready s as" and te: "timer_entry r s = Some s1"
  shows "tasks_ready s1 as" and "current_task s1 = current_task s"
    and "a \<in> set as \<Longrightarrow> is_runnable s a \<Longrightarrow> is_runnable s1 a"
proof -
  have seq: "task_seq s (task_list s) as" using ready by (simp add: tasks_ready_def)
  obtain f where f: "f = age_task \<or> f = (\<lambda>t. t)"
    "tasks s1 = (\<lambda>a. (if a \<in> set as then map_option f else (\<lambda>x. x))
       (if a = current_task s \<and> a \<noteq> 0 then map_option (\<lambda>t. t\<lparr>t_r := r\<rparr>) (tasks s a) else tasks s a))"
    "current_task s1 = current_task s" "mms s1 = mms s"
    by (rule timer_entry_effect [OF seq te])
  have node: "node_at (tasks s1) b = f (if b = current_task s then (node_at (tasks s) b)\<lparr>t_r := r\<rparr> else node_at (tasks s) b)"
    if b: "b \<in> set as" for b
  proof -
    obtain x where "tasks s b = Some x" and "b \<noteq> 0"
      using llist_deref [OF seq b] by (auto simp: deref_def split: if_splits)
    then show ?thesis using b by (auto simp: f(2) node_at_def)
  qed
  show "tasks_ready s1 as"
    using ready f(1) timer_entry_seq(1) [OF seq te] by (auto simp: tasks_ready_def node f(4))
  show "current_task s1 = current_task s" by (rule f(3))
  show "a \<in> set as \<Longrightarrow> is_runnable s a \<Longrightarrow> is_runnable s1 a"
    using f(1) by (auto simp: node age_task_runnable)
qed

lemma dispatch_returns:
  assumes "deref (tasks s) a = Some t" and "deref (mms s) (t_mm t) \<noteq> None"
  obtains s' where "dispatch a s = Some s'" and "mms s' = mms s"
proof -
  obtain m where m: "deref (mms s) (t_mm t) = Some m" using assms(2) by auto
  have "a \<noteq> 0 \<and> tasks s a = Some t" and "t_mm t \<noteq> 0 \<and> mms s (t_mm t) = Some m"
    using assms(1) m by (auto simp: deref_def split: if_splits)
  then have "\<exists>s'. dispatch a s = Some s' \<and> mms s' = mms s"
    by (simp add: dispatch_def start_process_def upd_task_def hupd_def write_cr3_def set_tss_rsp0_def Let_def deref_def)
  then show thesis using that by blast
qed

text \<open>Without a current task nothing is saved, and the head of the list is entered, whatever its state.\<close>

lemma timer_handler_enters_head:
  assumes ready: "tasks_ready s (h # as)" and cur: "current_task s = 0"
  obtains s' where "timer_handler r s = Some (enter_regs (t_r (node_at (tasks s) h)), s')" "current_task s' = h"
    "t_state (node_at (tasks s') h) = TASK_RUNNING"
    "\<And>b. b \<in> set as \<Longrightarrow> t_r (node_at (tasks s') b) = t_r (node_at (tasks s) b)"
proof -
  have seq: "task_seq s (task_list s) (h # as)" using ready by (simp add: tasks_ready_def)
  have "current_task s = 0 \<or> current_task s \<in> set (h # as)" using cur by simp
  then obtain s1 where te: "timer_entry r s = Some s1" by (rule timer_entry_returns [OF seq])
  note r1 = timer_entry_ready [OF ready te]
  have seq1: "task_seq s1 (task_list s1) (h # as)" using r1(1) by (simp add: tasks_ready_def)
  have regs: "t_r (node_at (tasks s1) b) = t_r (node_at (tasks s) b)" if b: "b \<in> set (h # as)" for b
  proof -
    obtain t where t: "deref (tasks s) b = Some t" "t_r (node_at (tasks s1) b) = (if b = current_task s then r else t_r t)"
      by (rule timer_entry_deref [OF seq te llist_deref [OF seq1 b]])
    moreover have "b \<noteq> 0" using t(1) by (auto simp: deref_def)
    ultimately show ?thesis using cur by (simp add: node_at_def deref_def split: if_splits)
  qed
  have dh: "deref (tasks s1) h = Some (node_at (tasks s1) h)" by (rule llist_deref [OF seq1]) simp
  have mm: "deref (mms s1) (t_mm (node_at (tasks s1) h)) \<noteq> None" using r1(1) by (simp add: tasks_ready_def)
  obtain s' where d: "dispatch h s1 = Some s'" by (rule dispatch_returns [OF dh mm])
  obtain t where t: "deref (tasks s1) h = Some t"
    "tasks s' = (tasks s1)(h \<mapsto> t\<lparr>t_state := TASK_RUNNING, t_r := enter_regs (t_r t)\<rparr>)" "current_task s' = h"
    by (rule dispatch_effect [OF d])
  have nz: "h \<noteq> 0" using dh by (auto simp: deref_def)
  have hd: "task_list s1 = h" using seq1 by simp
  have "schedule_process s1 = Some s'"
    using r1(2) cur nz d hd by (simp add: schedule_process_def get_next_task_def)
  then have "timer_handler r s = Some (enter_regs (t_r t), s')"
    using te nz t by (simp add: timer_handler_def get_current_task_def deref_def)
  moreover have "t_r t = t_r (node_at (tasks s) h)" using regs [of h] t(1) dh by simp
  moreover have "t_r (node_at (tasks s') b) = t_r (node_at (tasks s) b)" if "b \<in> set as" for b
    using regs [of b] that llist_distinct [OF seq1] by (auto simp: t(2) node_at_def)
  ultimately show thesis using that t(2,3) by (simp add: node_at_def)
qed

subsection \<open>The rotation\<close>

text \<open>Choosing the first element of the rotation that qualifies passes no other that does.\<close>

lemma find_before:
  assumes "P a" and "xs = ys @ a # zs"
  obtains us c vs where "xs = us @ c # vs" "find P xs = Some c" "P c" "c = a \<or> (\<exists>ys'. vs = ys' @ a # zs \<and> length ys' < length ys)"
proof -
  have "\<exists>us c vs. xs = us @ c # vs \<and> find P xs = Some c \<and> P c \<and> (c = a \<or> (\<exists>ys'. vs = ys' @ a # zs \<and> length ys' < length ys))"
    using assms(2)
  proof (induction ys arbitrary: xs)
    case Nil
    then show ?case using assms(1) by (intro exI [of _ "[]"]) auto
  next
    case (Cons y ys)
    show ?case
    proof (cases "P y")
      case True
      then show ?thesis using Cons.prems by (intro exI [of _ "[]"] exI [of _ y] exI [of _ "ys @ a # zs"]) auto
    next
      case False
      obtain us c vs where "ys @ a # zs = us @ c # vs" "find P (ys @ a # zs) = Some c" "P c"
        "c = a \<or> (\<exists>ys'. vs = ys' @ a # zs \<and> length ys' < length ys)"
        using Cons.IH [of "ys @ a # zs"] by blast
      then show ?thesis using False Cons.prems
        by (intro exI [of _ "y # us"] exI [of _ c] exI [of _ vs]) auto
    qed
  qed
  then show thesis using that by blast
qed

text \<open>The list as seen from an element of the rotation behind \<open>cur\<close>.\<close>

lemma rotate_split:
  assumes "cs @ bs = us @ c # vs"
  obtains bs' cs' where "bs @ cur # cs = bs' @ c # cs'" and "cs' @ bs' = vs @ cur # us"
proof -
  have "(\<exists>ds. cs = us @ c # ds \<and> vs = ds @ bs) \<or> (\<exists>ds. us = cs @ ds \<and> bs = ds @ c # vs)"
    using assms by (fastforce simp: append_eq_append_conv2 append_eq_Cons_conv)
  then show thesis
  proof (elim disjE exE conjE)
    fix ds assume "cs = us @ c # ds" "vs = ds @ bs"
    then show thesis using that [of "bs @ cur # us" ds] by simp
  next
    fix ds assume "us = cs @ ds" "bs = ds @ c # vs"
    then show thesis using that [of ds "vs @ cur # cs"] by simp
  qed
qed

subsection \<open>One interrupt\<close>

text \<open>When a task \<open>a\<close> of the rotation is runnable, the interrupt returns, keeps the list ready, and
  either \<open>a\<close> runs, or it is still runnable and closer behind the new current task.\<close>

lemma timer_step:
  assumes ready: "tasks_ready s (bs @ cur # cs)" and cur: "current_task s = cur"
    and run: "is_runnable s a" and rot: "cs @ bs = ys @ a # zs"
  obtains r' s' where "timer_handler r s = Some (r', s')" "tasks_ready s' (bs @ cur # cs)" "current_task s' = a"
  | r' s' bs' c cs' ys' zs' where "timer_handler r s = Some (r', s')" "tasks_ready s' (bs @ cur # cs)"
      "bs @ cur # cs = bs' @ c # cs'" "current_task s' = c" "is_runnable s' a" "cs' @ bs' = ys' @ a # zs'"
      "length ys' < length ys"
proof -
  let ?as = "bs @ cur # cs"
  have seq: "task_seq s (task_list s) ?as" using ready by (simp add: tasks_ready_def)
  have "current_task s = 0 \<or> current_task s \<in> set ?as" using cur by simp
  then obtain s1 where te: "timer_entry r s = Some s1" by (rule timer_entry_returns [OF seq])
  note r1 = timer_entry_ready [OF ready te]
  have seq1: "task_seq s1 (task_list s1) ?as" using r1(1) by (simp add: tasks_ready_def)
  have aas: "a \<in> set ?as" using rot by (metis Un_iff in_set_conv_decomp list.set_intros(2) set_append)
  have run1: "is_runnable s1 a" by (rule r1(3) [OF aas run])
  obtain us c vs where sp: "cs @ bs = us @ c # vs"
    and fnd: "find (\<lambda>a. t_state (node_at (tasks s1) a) = TASK_RUNNABLE) (cs @ bs) = Some c"
    and ca: "c = a \<or> (\<exists>ys'. vs = ys' @ a # zs \<and> length ys' < length ys)"
    by (rule find_before [of "\<lambda>a. is_runnable s1 a" a, OF run1 rot]) blast
  have "c \<in> set (cs @ bs)" using sp by simp
  then have cas: "c \<in> set ?as" and cb: "c \<in> set cs \<union> set bs" by auto
  have ccur: "c \<noteq> cur" using cb llist_distinct [OF seq1] by auto
  note dc = llist_deref [OF seq1 cas]
  have dcur: "deref (tasks s1) cur = Some (node_at (tasks s1) cur)" by (rule llist_deref [OF seq1]) simp
  define s2 where "s2 = s1\<lparr>tasks := (tasks s1)(cur \<mapsto> (node_at (tasks s1) cur)\<lparr>t_state := TASK_RUNNABLE\<rparr>)\<rparr>"
  have nz: "cur \<noteq> 0" "c \<noteq> 0" using dcur dc by (auto simp: deref_def split: if_splits)
  have dc2: "deref (tasks s2) c = Some (node_at (tasks s1) c)"
    using dc ccur by (simp add: s2_def deref_def split: if_splits)
  have mm: "deref (mms s2) (t_mm (node_at (tasks s1) c)) \<noteq> None"
    using r1(1) cas by (auto simp: tasks_ready_def s2_def)
  obtain s' where d: "dispatch c s2 = Some s'" and mms: "mms s' = mms s2"
    by (rule dispatch_returns [OF dc2 mm])
  obtain t where t: "deref (tasks s2) c = Some t"
    "tasks s' = (tasks s2)(c \<mapsto> t\<lparr>t_state := TASK_RUNNING, t_r := enter_regs (t_r t)\<rparr>)" "current_task s' = c"
    by (rule dispatch_effect [OF d])
  have "schedule_process s1 = Some s'"
    using r1(2) cur nz d get_next_task_rotation [OF seq1] fnd dcur
    by (simp add: schedule_process_def upd_task_def hupd_def s2_def)
  then have th: "timer_handler r s = Some (t_r (node_at (tasks s') c), s')"
    using te nz t by (simp add: timer_handler_def get_current_task_def node_at_def deref_def)
  have node: "t_mm (node_at (tasks s') b) = t_mm (node_at (tasks s1) b)" for b
    using t(1) dc2 by (auto simp: t(2) s2_def node_at_def)
  have "task_seq s' (task_list s') ?as"
  proof -
    have "llist t_next (tasks s2) p ?as = llist t_next (tasks s1) p ?as" for p
      unfolding s2_def using llist_upd_same_next [OF dcur] by simp
    then show ?thesis using dispatch_seq [OF d] seq1 by (simp add: s2_def)
  qed
  then have ready': "tasks_ready s' ?as" using r1(1) mms by (simp add: tasks_ready_def node s2_def)
  from ca show thesis
  proof (elim disjE exE conjE)
    assume "c = a"
    then show thesis using that(1) [OF th ready'] t(3) by simp
  next
    fix ys' assume vs: "vs = ys' @ a # zs" and len: "length ys' < length ys"
    have "distinct (cs @ bs)" using llist_distinct [OF seq1] by auto
    then have "distinct (us @ c # vs)" unfolding sp .
    then have ac: "a \<noteq> c" using vs by auto
    have run': "is_runnable s' a" using run1 ac by (simp add: t(2) s2_def node_at_def)
    obtain bs' cs' where "?as = bs' @ c # cs'" "cs' @ bs' = vs @ cur # us"
      by (rule rotate_split [OF sp])
    then show thesis using that(2) [OF th ready' _ t(3) run' _ len] vs by simp
  qed
qed

text \<open>So after as many interrupts as the task has others before it, at most, it runs.\<close>

lemma timer_run_reaches:
  assumes "tasks_ready s (bs @ cur # cs)" and "current_task s = cur" and "is_runnable s a"
    and "cs @ bs = ys @ a # zs" and "length ys < length rs"
  shows "\<exists>k s'. k \<le> length ys + 1 \<and> timer_run (take k rs) s = Some s' \<and> current_task s' = a"
  using assms
proof (induction "length ys" arbitrary: s bs cur cs ys zs rs rule: less_induct)
  case less
  obtain r rs' where rs: "rs = r # rs'" using less.prems(5) by (cases rs) auto
  from timer_step [OF less.prems(1-4), of r] show ?case
  proof cases
    case (1 r' s')
    then show ?thesis by (intro exI [of _ "Suc 0"] exI [of _ s']) (simp add: rs)
  next
    case (2 r' s' bs' c cs' ys' zs')
    have "length ys' < length rs'" using 2(7) less.prems(5) rs by simp
    then obtain k s'' where "k \<le> length ys' + 1" "timer_run (take k rs') s' = Some s''" "current_task s'' = a"
      using less.hyps [OF 2(7) _ 2(4,5,6)] 2(2,3) by metis
    then show ?thesis using 2(1,7) by (intro exI [of _ "Suc k"] exI [of _ s'']) (simp add: rs)
  qed
qed

text \<open>C17: no runnable task starves: while only timer interrupts arrive, each of them returns, and a runnable
  task of the list is the current one after at most as many interrupts as there are other tasks.\<close>

lemma timer_no_starvation:
  assumes "tasks_ready s as" and "current_task s \<in> set as" and "a \<in> set as" and "a \<noteq> current_task s"
    and "is_runnable s a" and "length as \<le> length rs + 1"
  shows "\<exists>k s'. k < length as \<and> timer_run (take k rs) s = Some s' \<and> current_task s' = a"
proof -
  obtain bs cs where as: "as = bs @ current_task s # cs" using assms(2) by (auto dest: split_list)
  then have "a \<in> set (cs @ bs)" using assms(3,4) by auto
  then obtain ys zs where rot: "cs @ bs = ys @ a # zs" using split_list [of a "cs @ bs"] by blast
  from arg_cong [OF rot, of length] have "length cs + length bs = length ys + (length zs + 1)" by simp
  then have len: "length as = length ys + length zs + 2"
    by (subst as) simp
  have "\<exists>k s'. k \<le> length ys + 1 \<and> timer_run (take k rs) s = Some s' \<and> current_task s' = a"
    by (rule timer_run_reaches [OF _ refl assms(5) rot]) (use assms(1,6) as len in simp_all)
  then obtain k s' where k: "k \<le> length ys + 1" and run: "timer_run (take k rs) s = Some s' \<and> current_task s' = a" by blast
  have "k < length as" using k len by simp
  with run show ?thesis by blast
qed

lemma timer_no_starvation_witness:
  "\<exists>k s'. k < 3 \<and> timer_run (take k [zero_regs, zero_regs]) ex_time = Some s' \<and> current_task s' = 16"
proof -
  have ready: "tasks_ready ex_time [16, 32, 48]" "current_task ex_time \<in> set [16, 32, 48]"
    "is_runnable ex_time 16" "16 \<noteq> current_task ex_time"
    using ex_time_seq
    by (simp_all add: tasks_ready_def ex_time_def ex_proc_def proc_state.defs mmu_state.defs mk_task_def node_at_def deref_def)
  have "(16 :: u64) \<in> set [16, 32, 48]" and "length [16 :: u64, 32, 48] \<le> length [zero_regs, zero_regs] + 1"
    by simp_all
  from timer_no_starvation [OF ready(1,2) this(1) ready(4,3) this(2)] show ?thesis by (simp add: eval_nat_numeral)
qed

end
