(* ===== verification/Blocking.thy ===== *)
theory Blocking
  imports Syscall SchedLive
begin

section \<open>System calls that give up the processor\<close>

text \<open>
  What a program sees when \<open>int 0x80\<close> ends in a reschedule: which task the kernel resumes, with which
  registers, and what the registers of the caller will be when its turn comes.
\<close>

lemma tasks_ready_upd:
  assumes ready: "tasks_ready s as" and t: "deref (tasks s) a = Some t"
    and same: "t_next (f t) = t_next t" "t_mm (f t) = t_mm t"
    and s': "tasks s' = (tasks s)(a \<mapsto> f t)" "task_list s' = task_list s" "mms s' = mms s"
  shows "tasks_ready s' as"
proof -
  have "llist t_next (tasks s') (task_list s') as"
    using ready llist_upd_same_next [of "tasks s" a t "f t", OF t same(1)] by (simp add: s' tasks_ready_def)
  moreover have "t_mm (node_at (tasks s') b) = t_mm (node_at (tasks s) b)" for b
    using t same(2) by (auto simp: s'(1) node_at_def deref_def split: if_splits)
  ultimately show ?thesis using ready by (simp add: tasks_ready_def s'(3))
qed

text \<open>A handler that only changes the caller's own entry and then gives up the processor.\<close>

lemma resched_enters_head:
  assumes ready: "tasks_ready s (h # as)" and cur: "cur \<in> set (h # as)" "current_task s = cur"
    and call: "switch_handler (r_rax r) (r_rbx r) (r_rcx r) (r_rdx r)
        (s\<lparr>tasks := (tasks s)(cur \<mapsto> (node_at (tasks s) cur)\<lparr>t_r := r\<rparr>)\<rparr>) = Some (Resched s1)"
    and s1: "tasks s1 = (tasks s)(cur \<mapsto> t1)" "t_r t1 = r" "t_next t1 = t_next (node_at (tasks s) cur)"
      "t_mm t1 = t_mm (node_at (tasks s) cur)" "task_list s1 = task_list s" "mms s1 = mms s" "current_task s1 = 0"
  shows "\<exists>s'. syscall_handler r s = Some (enter_regs (if h = cur then r else t_r (node_at (tasks s) h)), s') \<and>
    current_task s' = h \<and> t_state (node_at (tasks s') h) = TASK_RUNNING \<and>
    (cur \<noteq> h \<longrightarrow> t_r (node_at (tasks s') cur) = r)"
proof -
  have seq: "task_seq s (task_list s) (h # as)" using ready by (simp add: tasks_ready_def)
  note t = llist_deref [OF seq cur(1)]
  have nz: "cur \<noteq> 0" "h \<noteq> 0" using t seq by (auto simp: deref_def)
  have "tasks_ready s1 (h # as)"
    by (rule tasks_ready_upd [OF ready t, of "\<lambda>_. t1"]) (use s1 in simp_all)
  then obtain s' where th: "timer_handler r s1 = Some (enter_regs (t_r (node_at (tasks s1) h)), s')" "current_task s' = h"
    "t_state (node_at (tasks s') h) = TASK_RUNNING"
    "\<And>b. b \<in> set as \<Longrightarrow> t_r (node_at (tasks s') b) = t_r (node_at (tasks s1) b)"
    using timer_handler_enters_head [OF _ s1(7)] by blast
  have rh: "t_r (node_at (tasks s1) h) = (if h = cur then r else t_r (node_at (tasks s) h))"
    and rc: "t_r (node_at (tasks s1) cur) = r"
    by (simp_all add: s1(1,2) node_at_def)
  have "syscall_handler r s = Some (enter_regs (t_r (node_at (tasks s1) h)), s')"
    using call th(1,2) t cur(2) nz
    by (simp add: syscall_handler_def get_current_task_def upd_task_def hupd_def deref_def Let_def)
  then show ?thesis using th(2,3) th(4) [of cur] cur(1) rh rc by auto
qed

text \<open>C26: a program that sleeps, or waits for a child, does not necessarily stop: the kernel resumes the
  \<^emph>\<open>head\<close> of the task list, whatever its state.  When the caller is the head it goes on at once; in every
  case its saved registers are those of the call, so that both calls return the number of the call.\<close>

lemma blocking_call_enters_head:
  assumes "tasks_ready s (h # as)" and "current_task s \<in> set (h # as)"
    and "r_rax r = 35 \<or> (r_rax r = 61 \<and> t_child_count (node_at (tasks s) (current_task s)) \<noteq> 0)"
  shows "\<exists>s'. syscall_handler r s =
      Some (enter_regs (if h = current_task s then r else t_r (node_at (tasks s) h)), s') \<and>
    current_task s' = h \<and> t_state (node_at (tasks s') h) = TASK_RUNNING \<and>
    (current_task s \<noteq> h \<longrightarrow> t_r (node_at (tasks s') (current_task s)) = r)"
proof -
  let ?cur = "current_task s" and ?t = "node_at (tasks s) (current_task s)"
  have seq: "task_seq s (task_list s) (h # as)" using assms(1) by (simp add: tasks_ready_def)
  have nz: "?cur \<noteq> 0" using llist_deref [OF seq assms(2)] by (auto simp: deref_def)
  from assms(3) show ?thesis
  proof
    assume "r_rax r = 35"
    then show ?thesis
      by (intro resched_enters_head [OF assms(1,2) refl, where ?t1.0 = "?t\<lparr>t_r := r, t_state := TASK_SLEEP, t_sleep_time := r_rbx r - 1\<rparr>"
          and ?s1.0 = "s\<lparr>tasks := (tasks s)(?cur \<mapsto> ?t\<lparr>t_r := r, t_state := TASK_SLEEP, t_sleep_time := r_rbx r - 1\<rparr>), current_task := 0\<rparr>"])
        (use nz in \<open>simp_all add: switch_handler_def system_sleep_def upd_task_def hupd_def deref_def
           get_current_task_def set_current_task_def\<close>)
  next
    assume "r_rax r = 61 \<and> t_child_count ?t \<noteq> 0"
    then show ?thesis
      by (intro resched_enters_head [OF assms(1,2) refl, where ?t1.0 = "?t\<lparr>t_r := r, t_state := TASK_WAITING, t_wait_for_child_pid := r_rbx r\<rparr>"
          and ?s1.0 = "s\<lparr>tasks := (tasks s)(?cur \<mapsto> ?t\<lparr>t_r := r, t_state := TASK_WAITING, t_wait_for_child_pid := r_rbx r\<rparr>), current_task := 0\<rparr>"])
        (use nz in \<open>simp_all add: switch_handler_def system_waitpid_def upd_task_def hupd_def deref_def
           get_current_task_def set_current_task_def Let_def\<close>)
  qed
qed

lemma blocking_call_enters_head_witness:
  "\<exists>s'. syscall_handler (zero_regs\<lparr>r_rax := 35, r_rbx := 10\<rparr>) (ex_sys\<lparr>task_list := 32\<rparr>) =
      Some (enter_regs (zero_regs\<lparr>r_rax := 35, r_rbx := 10\<rparr>), s') \<and> current_task s' = 32 \<and>
     t_state (node_at (tasks s') 32) = TASK_RUNNING"
proof -
  let ?s = "ex_sys\<lparr>task_list := 32\<rparr>"
  have cur: "current_task ?s = 32"
    by (simp add: ex_sys_def ex_kb_def ex_con_def ex_fs_def ex_time_def ex_proc_def kb_state.defs con_state.defs
        fs_state.defs time_state.defs proc_state.defs mmu_state.defs)
  have "tasks_ready ?s [32, 48]"
    by (simp add: tasks_ready_def ex_sys_def ex_kb_def ex_con_def ex_fs_def ex_time_def ex_proc_def kb_state.defs con_state.defs
        fs_state.defs time_state.defs proc_state.defs mmu_state.defs node_at_def deref_def mk_task_def)
  from blocking_call_enters_head [OF this, of "zero_regs\<lparr>r_rax := 35, r_rbx := 10\<rparr>"]
  show ?thesis by (simp add: cur)
qed

end
