(* ===== verification/Pipes.thy ===== *)
theory Pipes
  imports Syscall FlatMem
begin

section \<open>What goes into a pipe comes out\<close>

text \<open>
  A pipe has two ends, each a \<open>struct file\<close> of the task with a position of its own in the page they share.
  When the reader's position is where the writer's was, it gets what was written.
\<close>

subsection \<open>The part of the state a pipe operation uses\<close>

lemma memory_cong:
  assumes "pmem s' = pmem s" and "cr3 s' = cr3 s"
  shows "data_region A s' = data_region A s" and "vload8 a s' = vload8 a s"
    and "vload_bytes n a s' = vload_bytes n a s"
proof -
  have t: "vtrans v s' = vtrans v s" for v using assms by (simp add: vtrans_def frame_of_def)
  show "data_region A s' = data_region A s" by (simp add: data_region_def frame_of_def t assms)
  have l: "vload8 a s' = vload8 a s" for a by (simp add: vload8_def t assms)
  show "vload8 a s' = vload8 a s" by (rule l)
  show "vload_bytes n a s' = vload_bytes n a s"
    by (induction n arbitrary: a) (simp_all add: l)
qed

text \<open>Both loops of a pipe visit the list and transfer at the nodes with the descriptor.\<close>

lemma pipe_loop_skip:
  assumes L: "\<And>p s. L p s = (if p = 0 then Some s else do {
        x \<leftarrow> deref (files s) p;
        s \<leftarrow> (if fl_fd x = fd then f p x s else Some s);
        L (fl_next x) s })"
    and "llist fl_next (files s) p as" and "\<forall>a \<in> set as. fl_fd (node_at (files s) a) \<noteq> fd"
  shows "L p s = Some s"
  using assms(2,3)
proof (induction as arbitrary: p)
  case (Cons a as)
  then obtain x where x: "p = a" "deref (files s) a = Some x" "llist fl_next (files s) (fl_next x) as" by auto
  then have "fl_fd x \<noteq> fd" "p \<noteq> 0" using Cons.prems(2) by (auto simp: node_at_def deref_def split: if_splits)
  then show ?case using x Cons.IH [OF x(3)] Cons.prems(2) by (subst L) simp
qed (simp add: L)

lemma pipe_loop_hit:
  assumes L: "\<And>p s. L p s = (if p = 0 then Some s else do {
        x \<leftarrow> deref (files s) p;
        s \<leftarrow> (if fl_fd x = fd then f p x s else Some s);
        L (fl_next x) s })"
    and seq: "llist fl_next (files s) p as" and w: "w \<in> set as"
    and fd: "\<forall>a \<in> set as. fl_fd (node_at (files s) a) = fd \<longleftrightarrow> a = w"
    and f: "f w (node_at (files s) w) s = Some s'"
    and s': "files s' = (files s)(w \<mapsto> y)" "fl_next y = fl_next (node_at (files s) w)"
  shows "L p s = Some s'"
  using seq w fd
proof (induction as arbitrary: p)
  case (Cons a as)
  then obtain x where x: "p = a" "deref (files s) a = Some x" "llist fl_next (files s) (fl_next x) as" by auto
  then have nz: "p \<noteq> 0" and na: "node_at (files s) a = x" by (auto simp: node_at_def deref_def split: if_splits)
  have as: "a \<notin> set as" using llist_distinct [OF Cons.prems(1)] by simp
  show ?case
  proof (cases "a = w")
    case True
    have fw: "f p x s = Some s'" using f na x(1) True by simp
    have fdx: "fl_fd x = fd" using Cons.prems(3) na True by auto
    have seq': "llist fl_next (files s') (fl_next x) as"
      using x(3) as True by (subst llist_cong [of as fl_next _ "files s"]) (auto simp: s')
    have "L (fl_next x) s' = Some s'"
      by (rule pipe_loop_skip [OF L seq']) (use Cons.prems(3) as True in \<open>auto simp: s' node_at_def\<close>)
    then show ?thesis using x nz fw fdx by (subst L) simp
  next
    case False
    then have "fl_fd x \<noteq> fd" using Cons.prems(3) na by auto
    moreover have "L (fl_next x) s = Some s'" using Cons.IH [OF x(3)] Cons.prems(2,3) False by simp
    ultimately show ?thesis using x nz by (subst L) simp
  qed
qed simp

lemma vmemcpy_pmem: "vmemcpy n d a s = Some s' \<Longrightarrow> s' = s\<lparr>pmem := pmem s'\<rparr>"
proof (induction n arbitrary: d a s)
  case (Suc n)
  then obtain b t where t: "vstore8 d b s = Some t" "vmemcpy n (d + 1) (a + 1) t = Some s'"
    by (auto split: bind_splits)
  from vstore8_pmem [OF t(1)] Suc.IH [OF t(2)] show ?case by auto
qed simp

subsection \<open>Writing and reading\<close>

definition pipes_of :: "u64 \<Rightarrow> u64 list \<Rightarrow> 'z fs_state_scheme \<Rightarrow> bool" where
  "pipes_of task as s \<longleftrightarrow> (\<exists>t. deref (tasks s) task = Some t \<and> llist fl_next (files s) (t_pipe t) as) \<and>
     inj_on (\<lambda>a. fl_fd (node_at (files s) a)) (set as)"

abbreviation moved :: "nat \<Rightarrow> fs_file \<Rightarrow> fs_file" where
  "moved n x \<equiv> x\<lparr>fl_offset := fl_offset x + of_nat n\<rparr>"

lemma int_size_small: "n < 2 ^ 31 \<Longrightarrow> int_size (of_nat n) = n \<and> (scast (of_nat n :: u32) :: u64) = of_nat n"
proof -
  assume n: "n < 2 ^ 31"
  have "sint (of_nat n :: u32) = int n" by (rule sint_of_nat_small) (use n in simp)
  then have "(scast (of_nat n :: u32) :: u64) = of_nat n" by (simp add: scast_eq)
  then show ?thesis using n by (simp add: int_size_def unat_of_nat take_bit_nat_eq_self)
qed

lemma write_to_pipe_effect:
  assumes p: "pipes_of task as s" and w: "w \<in> set as" and n: "n < 2 ^ 31"
    and cp: "vmemcpy n (fl_addr (node_at (files s) w) + fl_offset (node_at (files s) w)) buf s = Some s1"
  shows "write_to_pipe task (fl_fd (node_at (files s) w)) buf (of_nat n) s =
    Some (s1\<lparr>files := (files s)(w \<mapsto> moved n (node_at (files s) w))\<rparr>)"
proof -
  let ?x = "node_at (files s) w"
  obtain t where t: "deref (tasks s) task = Some t" "llist fl_next (files s) (t_pipe t) as"
    and inj: "inj_on (\<lambda>a. fl_fd (node_at (files s) a)) (set as)" using p by (auto simp: pipes_of_def)
  have f1: "files s1 = files s" using arg_cong [OF vmemcpy_pmem [OF cp], of files] by simp
  have x: "deref (files s) w = Some ?x"
    using llist_nonzero [OF t(2) w] by (auto simp: deref_def node_at_def)
  have "write_to_pipe_loop (fl_fd ?x) buf (of_nat n) (t_pipe t) s = Some (s1\<lparr>files := (files s)(w \<mapsto> moved n ?x)\<rparr>)"
  proof (rule pipe_loop_hit [where L = "write_to_pipe_loop (fl_fd ?x) buf (of_nat n)" and fd = "fl_fd ?x" and w = w and as = as and y = "moved n ?x"
        and f = "\<lambda>p x s. do { s \<leftarrow> vmemcpy (int_size (of_nat n)) (fl_addr x + fl_offset x) buf s;
             upd_file p (\<lambda>x. x\<lparr>fl_offset := fl_offset x + scast (of_nat n :: u32)\<rparr>) s }"])
    show "\<forall>a \<in> set as. fl_fd (node_at (files s) a) = fl_fd ?x \<longleftrightarrow> a = w"
      using inj w by (auto dest: inj_onD)
  qed (use t w cp x f1 int_size_small [OF n] in \<open>simp_all add: write_to_pipe_loop.simps [of "fl_fd ?x" buf "of_nat n"]
      upd_file_def hupd_def\<close>)
  then show ?thesis using t by (simp add: write_to_pipe_def)
qed

lemma read_from_pipe_effect:
  assumes p: "pipes_of task as s" and w: "w \<in> set as" and n: "n < 2 ^ 31"
    and cp: "vmemcpy n out (fl_addr (node_at (files s) w) + fl_offset (node_at (files s) w)) s = Some s1"
  shows "read_from_pipe task (fl_fd (node_at (files s) w)) out (of_nat n) s =
    Some (s1\<lparr>files := (files s)(w \<mapsto> moved n (node_at (files s) w))\<rparr>)"
proof -
  let ?x = "node_at (files s) w"
  obtain t where t: "deref (tasks s) task = Some t" "llist fl_next (files s) (t_pipe t) as"
    and inj: "inj_on (\<lambda>a. fl_fd (node_at (files s) a)) (set as)" using p by (auto simp: pipes_of_def)
  have f1: "files s1 = files s" using arg_cong [OF vmemcpy_pmem [OF cp], of files] by simp
  have x: "deref (files s) w = Some ?x"
    using llist_nonzero [OF t(2) w] by (auto simp: deref_def node_at_def)
  have "read_from_pipe_loop (fl_fd ?x) out (of_nat n) (t_pipe t) s = Some (s1\<lparr>files := (files s)(w \<mapsto> moved n ?x)\<rparr>)"
  proof (rule pipe_loop_hit [where L = "read_from_pipe_loop (fl_fd ?x) out (of_nat n)" and fd = "fl_fd ?x" and w = w and as = as and y = "moved n ?x"
        and f = "\<lambda>p x s. do { s \<leftarrow> vmemcpy (int_size (of_nat n)) out (fl_addr x + fl_offset x) s;
             upd_file p (\<lambda>x. x\<lparr>fl_offset := fl_offset x + scast (of_nat n :: u32)\<rparr>) s }"])
    show "\<forall>a \<in> set as. fl_fd (node_at (files s) a) = fl_fd ?x \<longleftrightarrow> a = w"
      using inj w by (auto dest: inj_onD)
  qed (use t w cp x f1 int_size_small [OF n] in \<open>simp_all add: read_from_pipe_loop.simps [of "fl_fd ?x" out "of_nat n"]
      upd_file_def hupd_def\<close>)
  then show ?thesis using t by (simp add: read_from_pipe_def)
qed

subsection \<open>Properties\<close>

text \<open>A copy within a region between separate blocks: it returns, and delivers the bytes.\<close>

lemma vmemcpy_delivers:
  assumes "data_region A s" and "set (block dst n) \<subseteq> A" and "set (block src n) \<subseteq> A"
    and "set (block dst n) \<inter> set (block src n) = {}" and "vload_bytes n src s = Some bs" and "n < 2 ^ 64"
  obtains s' where "vmemcpy n dst src s = Some s'" "data_region A s'" "vload_bytes n dst s' = Some bs"
    "\<And>c. c \<in> A \<Longrightarrow> c \<notin> set (block dst n) \<Longrightarrow> vload8 c s' = vload8 c s" "s' = s\<lparr>pmem := pmem s'\<rparr>"
proof -
  have len: "length bs = n" using assms(5) by (simp add: vmem.loads_iff)
  have cp: "vmemcpy n dst src s = vstore_bytes bs dst s" by (rule vmem.copy_stores [OF assms(1-5)])
  obtain s' where s': "vstore_bytes bs dst s = Some s'" "data_region A s'"
    "\<forall>c \<in> A. vload8 c s' = (if c \<in> set (block dst (length bs)) then Some (bs ! unat (c - dst)) else vload8 c s)"
    using vmem.stores_valid [OF assms(1), of dst bs] assms(2,6) len by auto
  moreover have "vload_bytes n dst s' = Some bs"
    using vmem.loads_stores [OF assms(1) _ _ s'(1)] assms(2,6) len by simp
  moreover have "s' = s\<lparr>pmem := pmem s'\<rparr>" by (rule vmemcpy_pmem [of n dst src]) (simp add: cp s'(1))
  ultimately show thesis using that [of s'] cp len by auto
qed

text \<open>C25: a round trip through a pipe: when the reading end stands where the writing end stood, a read of
  as many bytes as were written puts exactly these bytes into the reader's buffer; both ends move on by
  that number, so that they meet again, and no memory but the pipe's page and the buffer has changed.\<close>

lemma pipe_roundtrip:
  assumes "pipes_of task as s" and "w \<in> set as" and "r \<in> set as" and "w \<noteq> r"
    and "fl_addr (node_at (files s) w) + fl_offset (node_at (files s) w) = p"
    and "fl_addr (node_at (files s) r) + fl_offset (node_at (files s) r) = p"
    and "n < 2 ^ 31" and "data_region A s"
    and "set (block p n) \<subseteq> A" and "set (block buf n) \<subseteq> A" and "set (block out n) \<subseteq> A"
    and "set (block p n) \<inter> set (block buf n) = {}" and "set (block p n) \<inter> set (block out n) = {}"
    and "vload_bytes n buf s = Some bs"
  shows "\<exists>s1 s2. write_to_pipe task (fl_fd (node_at (files s) w)) buf (of_nat n) s = Some s1 \<and>
    read_from_pipe task (fl_fd (node_at (files s) r)) out (of_nat n) s1 = Some s2 \<and>
    vload_bytes n out s2 = Some bs \<and>
    node_at (files s2) w = moved n (node_at (files s) w) \<and> node_at (files s2) r = moved n (node_at (files s) r) \<and>
    (\<forall>c \<in> A. c \<notin> set (block p n) \<union> set (block out n) \<longrightarrow> vload8 c s2 = vload8 c s)"
proof -
  let ?w = "node_at (files s) w" and ?r = "node_at (files s) r"
  have n: "n < 2 ^ 64" using assms(7) by simp
  obtain m1 where m1: "vmemcpy n p buf s = Some m1" "data_region A m1" "vload_bytes n p m1 = Some bs"
    "\<And>c. c \<in> A \<Longrightarrow> c \<notin> set (block p n) \<Longrightarrow> vload8 c m1 = vload8 c s" "m1 = s\<lparr>pmem := pmem m1\<rparr>"
    by (rule vmemcpy_delivers [OF assms(8,9,10,12,14) n]) (rule that)
  define s1 where "s1 = m1\<lparr>files := (files s)(w \<mapsto> moved n ?w)\<rparr>"
  have wr: "write_to_pipe task (fl_fd ?w) buf (of_nat n) s = Some s1"
    unfolding s1_def by (rule write_to_pipe_effect [OF assms(1,2,7)]) (simp add: assms(5) m1(1))
  have t1: "tasks s1 = tasks s" unfolding s1_def by (subst m1(5)) simp
  have nr: "node_at (files s1) r = ?r" using assms(4) by (simp add: s1_def node_at_def)
  have wnz: "files s w \<noteq> None" using assms(1,2) llist_nonzero unfolding pipes_of_def by blast
  have seq: "llist fl_next (files s1) q as = llist fl_next (files s) q as" for q
  proof (rule llist_cong)
    fix a assume a: "a \<in> set as"
    show "map_option fl_next (files s1 a) = map_option fl_next (files s a)"
      using wnz by (auto simp: s1_def node_at_def)
  qed
  have p1: "pipes_of task as s1"
  proof -
    have "fl_fd (node_at (files s1) a) = fl_fd (node_at (files s) a)" for a by (simp add: s1_def node_at_def)
    then show ?thesis using assms(1) by (simp only: pipes_of_def t1 seq)
  qed
  have "pmem s1 = pmem m1" "cr3 s1 = cr3 m1" by (simp_all add: s1_def)
  note same1 = memory_cong [OF this]
  obtain m2 where m2: "vmemcpy n out p s1 = Some m2" "vload_bytes n out m2 = Some bs"
    "\<And>c. c \<in> A \<Longrightarrow> c \<notin> set (block out n) \<Longrightarrow> vload8 c m2 = vload8 c s1"
    by (rule vmemcpy_delivers [of A s1 out n p bs]) (use assms(9,11,13) m1(2,3) n same1 in \<open>auto\<close>)
  define s2 where "s2 = m2\<lparr>files := (files s1)(r \<mapsto> moved n ?r)\<rparr>"
  have rd: "read_from_pipe task (fl_fd ?r) out (of_nat n) s1 = Some s2"
    using read_from_pipe_effect [OF p1 assms(3,7), of out m2] m2(1) by (simp add: nr assms(6) s2_def)
  have "pmem s2 = pmem m2" "cr3 s2 = cr3 m2" by (simp_all add: s2_def)
  note same2 = memory_cong [OF this]
  have "node_at (files s2) w = moved n ?w" "node_at (files s2) r = moved n ?r"
    using assms(4) by (simp_all add: s2_def s1_def node_at_def)
  then show ?thesis using wr rd m2 m1(4) same1(2) same2 by (intro exI [of _ s1] exI [of _ s2]) auto
qed

text \<open>An example: task 32 has the two ends at 96 and 128 of a pipe at 0x401000, and text at 0x401010.\<close>

definition ex_end :: "u64 \<Rightarrow> u64 \<Rightarrow> fs_file" where
  "ex_end fd nx = \<lparr>fl_name = [], fl_fd = fd, fl_addr = 0x401000, fl_type = 0, fl_size = 4096, fl_offset = 2, fl_next = nx\<rparr>"

definition ex_pipe :: sys_state where
  "ex_pipe = ex_sys\<lparr>pmem := (pmem ex_sys)(0x5010 := 0x636261),
     tasks := [32 \<mapsto> (mk_task 2 TASK_RUNNING 0 80)\<lparr>t_pipe := 96\<rparr>],
     files := [96 \<mapsto> ex_end 7 128, 128 \<mapsto> ex_end 8 0]\<rparr>"

lemma ex_pipe_memory: "cr3 ex_pipe = 0x1000" "a < 0x5000 \<Longrightarrow> pmem ex_pipe a = ex_chain a" "pmem ex_pipe 0x5010 = 0x636261"
  by (auto simp: ex_pipe_def ex_sys_def ex_kb_def ex_con_def ex_fs_def ex_time_def ex_proc_def kb_state.defs con_state.defs
      fs_state.defs time_state.defs proc_state.defs mmu_state.defs ex_chain_def)

lemma pipe_roundtrip_witness:
  "\<exists>s1 s2. write_to_pipe 32 8 0x401010 3 ex_pipe = Some s1 \<and> read_from_pipe 32 7 0x401020 3 s1 = Some s2 \<and>
     vload_bytes 3 0x401020 s2 = Some [0x61, 0x62, 0x63]"
proof -
  let ?A = "set (block 0x401000 64)"
  have files: "files ex_pipe = [96 \<mapsto> ex_end 7 128, 128 \<mapsto> ex_end 8 0]"
    and task: "tasks ex_pipe = [32 \<mapsto> (mk_task 2 TASK_RUNNING 0 80)\<lparr>t_pipe := 96\<rparr>]" by (simp_all add: ex_pipe_def)
  have p: "pipes_of 32 [96, 128] ex_pipe"
    by (simp add: pipes_of_def files task deref_def node_at_def ex_end_def)
  have ends: "node_at (files ex_pipe) 128 = ex_end 8 0" "node_at (files ex_pipe) 96 = ex_end 7 128"
    by (simp_all add: files node_at_def)
  have "\<forall>v \<in> ?A. ALIGN_DOWN v = 0x401000" by code_simp
  then have r: "data_region ?A ex_pipe"
    by (intro ex_chain_region ex_pipe_memory) auto
  have blk: "set (block 0x401002 3) \<subseteq> ?A" "set (block 0x401010 3) \<subseteq> ?A" "set (block 0x401020 3) \<subseteq> ?A"
    "set (block 0x401002 3) \<inter> set (block 0x401010 3) = {}" "set (block 0x401002 3) \<inter> set (block 0x401020 3) = {}"
    by code_simp+
  have "path 0x401010 = [0, 0, 2, 1]" "path 0x401011 = [0, 0, 2, 1]" "path 0x401012 = [0, 0, 2, 1]" by code_simp+
  then have data: "vload_bytes 3 0x401010 ex_pipe = Some [0x61, 0x62, 0x63]"
    by (simp add: numeral_3_eq_3 vload8_def vtrans_def frame_of_def ex_pipe_memory slot_def ex_chain_def isPresent_def
        PT_PRESENT_FLAG_def ALIGN_DOWN_def phys_byte_def)
  have fds: "fl_fd (ex_end 8 0) = 8" "fl_fd (ex_end 7 128) = 7" by (simp_all add: ex_end_def)
  have "\<exists>s1 s2. write_to_pipe 32 (fl_fd (node_at (files ex_pipe) 128)) 0x401010 (of_nat 3) ex_pipe = Some s1 \<and>
    read_from_pipe 32 (fl_fd (node_at (files ex_pipe) 96)) 0x401020 (of_nat 3) s1 = Some s2 \<and>
    vload_bytes 3 0x401020 s2 = Some [0x61, 0x62, 0x63] \<and>
    node_at (files s2) 128 = moved 3 (node_at (files ex_pipe) 128) \<and> node_at (files s2) 96 = moved 3 (node_at (files ex_pipe) 96) \<and>
    (\<forall>c \<in> ?A. c \<notin> set (block 0x401002 3) \<union> set (block 0x401020 3) \<longrightarrow> vload8 c s2 = vload8 c ex_pipe)"
    by (rule pipe_roundtrip [OF p _ _ _ _ _ _ r blk data]) (simp_all add: ends ex_end_def)
  then show ?thesis unfolding ends fds by (simp only: of_nat_numeral) blast
qed

end
