(* ===== verification/ProgStart.thy ===== *)
theory ProgStart
  imports Elf FlatMem
begin

section \<open>From the arguments of \<open>execve\<close> to those of \<open>main\<close>\<close>

text \<open>
  \<open>setup_stack\<close> in the kernel and \<open>_start\<close> in the program agree on a layout of the first stack page.  The
  proof follows the stack pointer down: each push leaves what is above it alone.
\<close>

subsection \<open>Pushing\<close>

lemma sub_add_of_nat: "p - of_nat (m + n) = p - of_nat m - (of_nat n :: u64)"
  by simp

lemma block_below: "block (p - of_nat m - of_nat n) (m + n) = block (p - of_nat m - of_nat n) n @ block (p - of_nat m) m"
  using block_add [of "p - of_nat m - of_nat n" n m] by (simp add: add.commute)

lemma block_below_disjoint:
  assumes "m + n < 2 ^ 64"
  shows "set (block (p - of_nat m - of_nat n) n) \<inter> set (block (p - of_nat m) m) = {}"
  using block_distinct [OF assms, of "p - of_nat m - of_nat n"] unfolding block_below by simp

text \<open>\<open>n\<close> bytes have been pushed: nothing of the region outside them has changed.\<close>

definition pushed :: "u64 set \<Rightarrow> nat \<Rightarrow> u64 \<Rightarrow> 'z mmu_state_scheme \<Rightarrow> u64 \<Rightarrow> 'z mmu_state_scheme \<Rightarrow> bool" where
  "pushed A n p s p' s' \<longleftrightarrow> p' = p - of_nat n \<and> data_region A s' \<and>
     (\<forall>c \<in> A. c \<notin> set (block p' n) \<longrightarrow> vload8 c s' = vload8 c s)"

lemma pushed_trans:
  assumes "pushed A m p s p1 s1" and "pushed A n p1 s1 p2 s2"
  shows "pushed A (m + n) p s p2 s2"
proof -
  have "set (block p2 (m + n)) = set (block p2 n) \<union> set (block p1 m)"
    using block_below [of p m n] assms by (simp add: pushed_def)
  then show ?thesis using assms by (simp add: pushed_def)
qed

lemma pushed_keeps:
  assumes "pushed A n p1 s1 p2 s2" and "p1 = p - of_nat m" and "m + n < 2 ^ 64" and "c \<in> A" and "c \<in> set (block p1 m)"
  shows "vload8 c s2 = vload8 c s1"
  using assms block_below_disjoint [OF assms(3), of p] by (auto simp: pushed_def)

lemma pushed_keeps_above:
  assumes "pushed A n p1 s1 p2 s2" and "p1 = p - of_nat m" and "m + n < 2 ^ 64" and "set (block p1 m) \<subseteq> A"
    and "set (block a k) \<subseteq> set (block p1 m)"
  shows "vload_bytes k a s2 = vload_bytes k a s1"
  by (rule vmem.loads_same) (use pushed_keeps [OF assms(1-3)] assms(4,5) in blast)

lemma push_bytes:
  assumes r: "data_region A s" and room: "set (block (p - of_nat (length bs)) (length bs)) \<subseteq> A" and n: "length bs < 2 ^ 64"
  obtains s' where "vstore_bytes bs (p - of_nat (length bs)) s = Some s'" "pushed A (length bs) p s (p - of_nat (length bs)) s'"
    "vload_bytes (length bs) (p - of_nat (length bs)) s' = Some bs"
proof -
  obtain s' where s': "vstore_bytes bs (p - of_nat (length bs)) s = Some s'" "data_region A s'"
    "\<forall>c \<in> A. vload8 c s' = (if c \<in> set (block (p - of_nat (length bs)) (length bs)) then Some (bs ! unat (c - (p - of_nat (length bs)))) else vload8 c s)"
    using vmem.stores_valid [OF r room n] by blast
  then show thesis
    using that [of s'] vmem.loads_stores [OF r room n s'(1)] by (simp add: pushed_def)
qed

lemma push_word:
  assumes r: "data_region A s" and room: "set (block (p - 8) 8) \<subseteq> A"
  obtains s' where "vstore64 (p - 8) w s = Some s'" "pushed A 8 p s (p - 8) s'"
    "vload_bytes 8 (p - 8) s' = Some (bytes_of_word w)"
proof -
  obtain s' where s': "vstore64 (p - 8) w s = Some s'" "data_region A s'"
    "\<forall>c \<in> A. vload8 c s' = (if c \<in> set (block (p - 8) 8) then Some (bytes_of_word w ! unat (c - (p - 8))) else vload8 c s)"
    using vstore64_data [OF r room, of w] by blast
  have "vload8 (p - 8 + of_nat i) s' = Some (bytes_of_word w ! i)" if i: "i < 8" for i
  proof -
    have m: "p - 8 + of_nat i \<in> set (block (p - 8) 8)" using i by (auto simp: block_conv simp del: block.simps)
    have "unat (p - 8 + of_nat i - (p - 8)) = i" using i by (simp add: unat_of_nat take_bit_nat_eq_self)
    then show ?thesis using s'(3) m room by auto
  qed
  then have "vload_bytes 8 (p - 8) s' = Some (bytes_of_word w)" by (subst vmem.loads_iff) simp
  then show thesis using that [of s'] s' by (simp add: pushed_def)
qed

subsection \<open>The strings and the words\<close>

definition string_at :: "u64 set \<Rightarrow> 'z mmu_state_scheme \<Rightarrow> u64 \<Rightarrow> bytes \<Rightarrow> bool" where
  "string_at B s a x \<longleftrightarrow> set (block a (Suc (length x))) \<subseteq> B \<and> vload_bytes (Suc (length x)) a s = Some (x @ [0])"

definition words_at :: "u64 \<Rightarrow> u64 list \<Rightarrow> 'z mmu_state_scheme \<Rightarrow> bool" where
  "words_at q ws s \<longleftrightarrow> (\<forall>i < length ws. vload_bytes 8 (q + of_nat (8 * i)) s = Some (bytes_of_word (ws ! i)))"

definition strings_size :: "bytes list \<Rightarrow> nat" where
  "strings_size xs = sum_list (map (\<lambda>x. Suc (length x)) xs)"

lemma strings_size_simps [simp]: "strings_size [] = 0" "strings_size (x # xs) = Suc (length x) + strings_size xs"
  by (simp_all add: strings_size_def)

lemma strings_at_later:
  assumes "list_all2 (string_at (set (block p1 m)) s1) addr xs"
    and "pushed A n p1 s1 p2 s2" and "p1 = p - of_nat m" and "m + n < 2 ^ 64" and "set (block p1 m) \<subseteq> A"
  shows "list_all2 (string_at (set (block p2 (m + n))) s2) addr xs"
proof -
  have "set (block p2 (m + n)) = set (block p2 n) \<union> set (block p1 m)"
    using block_below [of p m n] assms(2,3) by (simp add: pushed_def)
  then have "string_at (set (block p2 (m + n))) s2 a x" if "string_at (set (block p1 m)) s1 a x" for a x
    using that pushed_keeps_above [OF assms(2-5)] by (auto simp: string_at_def simp del: vload_bytes.simps block.simps)
  then show ?thesis using assms(1) by (rule list_all2_mono [rotated])
qed

text \<open>What pushing strings and words achieves.\<close>

lemma push_strings_effect:
  assumes "data_region A s" and "set (block (p - of_nat (strings_size xs)) (strings_size xs)) \<subseteq> A"
    and "strings_size xs < 2 ^ 64"
  shows "\<exists>addr p' s'. push_strings xs p s = Some (addr, p', s') \<and> pushed A (strings_size xs) p s p' s' \<and>
    list_all2 (string_at (set (block p' (strings_size xs))) s') addr xs"
  using assms
proof (induction xs)
  case Nil
  then show ?case by (simp add: pushed_def)
next
  case (Cons x xs)
  let ?m = "strings_size xs" and ?n = "Suc (length x)"
  have sz: "strings_size (x # xs) = ?m + ?n" by simp
  have room: "set (block (p - of_nat ?m - of_nat ?n) ?n) \<subseteq> A" "set (block (p - of_nat ?m) ?m) \<subseteq> A"
    using Cons.prems(2) unfolding sz sub_add_of_nat block_below by auto
  obtain addr p1 s1 where 1: "push_strings xs p s = Some (addr, p1, s1)" "pushed A ?m p s p1 s1"
    "list_all2 (string_at (set (block p1 ?m)) s1) addr xs"
    using Cons.IH [OF Cons.prems(1) room(2)] Cons.prems(3) by auto
  have p1: "p1 = p - of_nat ?m" "data_region A s1" using 1(2) by (simp_all add: pushed_def)
  have len: "length (x @ [0]) = ?n" by simp
  obtain s2 where 2: "vstore_bytes (x @ [0]) (p1 - of_nat ?n) s1 = Some s2" "pushed A ?n p1 s1 (p1 - of_nat ?n) s2"
    "vload_bytes ?n (p1 - of_nat ?n) s2 = Some (x @ [0])"
    using push_bytes [OF p1(2), of p1 "x @ [0]"] room(1) Cons.prems(3) unfolding len p1(1) by auto
  have lt: "?m + ?n < 2 ^ 64" using Cons.prems(3) sz by simp
  have "list_all2 (string_at (set (block (p1 - of_nat ?n) (?m + ?n))) s2) addr xs"
    by (rule strings_at_later [OF 1(3) 2(2) p1(1) lt]) (use room(2) p1(1) in simp)
  moreover have "string_at (set (block (p1 - of_nat ?n) (?m + ?n))) s2 (p1 - of_nat ?n) x"
    using 2(3) unfolding string_at_def p1(1) block_below by (simp del: block.simps vload_bytes.simps of_nat_Suc)
  moreover have "push_strings (x # xs) p s = Some ((p1 - of_nat ?n) # addr, p1 - of_nat ?n, s2)"
    using 1(1) 2(1) by (simp add: Let_def add.commute del: vstore_bytes.simps)
  moreover have "pushed A (?m + ?n) p s (p1 - of_nat ?n) s2" by (rule pushed_trans [OF 1(2) 2(2)])
  ultimately show ?case unfolding sz by (simp add: add.commute del: vstore_bytes.simps)
qed

lemma push_words_effect:
  assumes "data_region A s" and "set (block (p - of_nat (8 * length ws)) (8 * length ws)) \<subseteq> A"
    and "8 * length ws < 2 ^ 64"
  shows "\<exists>p' s'. push_words ws p s = Some (p', s') \<and> pushed A (8 * length ws) p s p' s' \<and> words_at p' ws s'"
  using assms
proof (induction ws)
  case Nil
  then show ?case by (simp add: pushed_def words_at_def)
next
  case (Cons w ws)
  let ?m = "8 * length ws"
  have sz: "8 * length (w # ws) = ?m + 8" by simp
  have room: "set (block (p - of_nat ?m - of_nat 8) 8) \<subseteq> A" "set (block (p - of_nat ?m) ?m) \<subseteq> A"
    using Cons.prems(2) unfolding sz sub_add_of_nat block_below by auto
  obtain p1 s1 where 1: "push_words ws p s = Some (p1, s1)" "pushed A ?m p s p1 s1" "words_at p1 ws s1"
    using Cons.IH [OF Cons.prems(1) room(2)] Cons.prems(3) by auto
  have p1: "p1 = p - of_nat ?m" "data_region A s1" using 1(2) by (simp_all add: pushed_def)
  obtain s2 where 2: "vstore64 (p1 - 8) w s1 = Some s2" "pushed A 8 p1 s1 (p1 - 8) s2"
    "vload_bytes 8 (p1 - 8) s2 = Some (bytes_of_word w)"
    by (rule push_word [OF p1(2), of p1 w]) (use room(1) p1(1) in simp)
  have lt: "?m + 8 < 2 ^ 64" using Cons.prems(3) sz by simp
  have old: "vload_bytes 8 (p1 + of_nat (8 * i)) s2 = Some (bytes_of_word (ws ! i))" if i: "i < length ws" for i
  proof -
    have "8 * length ws = 8 * i + (8 + 8 * (length ws - Suc i))" using i by simp
    then have "set (block (p1 + of_nat (8 * i)) 8) \<subseteq> set (block p1 ?m)"
      by (simp only: block_add) auto
    then show ?thesis
      using pushed_keeps_above [OF 2(2) p1(1) lt] room(2) p1(1) 1(3) i by (simp add: words_at_def)
  qed
  have "words_at (p1 - 8) (w # ws) s2"
    unfolding words_at_def
  proof (intro allI impI)
    fix i assume "i < length (w # ws)"
    then show "vload_bytes 8 (p1 - 8 + of_nat (8 * i)) s2 = Some (bytes_of_word ((w # ws) ! i))"
      using 2(3) old by (cases i) (simp_all add: algebra_simps)
  qed
  moreover have "pushed A (?m + 8) p s (p1 - 8) s2" by (rule pushed_trans [OF 1(2) 2(2)])
  ultimately show ?case using 1(1) 2(1) by (simp add: Let_def add.commute)
qed

subsection \<open>Properties\<close>

text \<open>A null-free array of pointers to terminated strings, and the bytes \<open>fill_stack\<close> uses.\<close>

definition args_at :: "u64 \<Rightarrow> bytes list \<Rightarrow> 'z mmu_state_scheme \<Rightarrow> bool" where
  "args_at q xs s \<longleftrightarrow> (\<forall>i < length xs. \<exists>a. vload64 (q + of_nat (8 * i)) s = Some a \<and>
     vload_bytes (Suc (length (xs ! i))) a s = Some (xs ! i @ [0]))"

definition stack_size :: "bytes list \<Rightarrow> bytes list \<Rightarrow> nat" where
  "stack_size argv envp = strings_size envp + (strings_size argv + (8 * length envp + (16 + (8 * length argv + 8))))"

lemma stage_room:
  assumes "set (block (p - of_nat N) N) \<subseteq> A" and "k + n \<le> N"
  shows "set (block (p - of_nat k - of_nat n) n) \<subseteq> A"
proof -
  have "N = (k + n) + (N - (k + n))" using assms(2) by simp
  then have "set (block (p - of_nat (k + n)) (k + n)) \<subseteq> A"
    using assms(1) block_below [of p "k + n" "N - (k + n)"] by (metis sub_add_of_nat le_sup_iff set_append)
  then show ?thesis unfolding sub_add_of_nat block_below by simp
qed

lemma pushed_gap: "data_region A s \<Longrightarrow> pushed A n p s (p - of_nat n) s"
  by (simp add: pushed_def)

lemma args_at_words:
  assumes r: "data_region A s" and w: "words_at q addr s" and sub: "set (block q (8 * length addr)) \<subseteq> A"
    and st: "list_all2 (string_at B s) addr xs"
  shows "args_at q xs s"
  unfolding args_at_def
proof (intro allI impI)
  fix i assume "i < length xs"
  then have i: "i < length addr" using st by (simp add: list_all2_lengthD)
  have "8 * length addr = 8 * i + (8 + 8 * (length addr - Suc i))" using i by simp
  then have "set (block (q + of_nat (8 * i)) 8) \<subseteq> A" using sub by (simp only: block_add) auto
  then have "vload64 (q + of_nat (8 * i)) s = Some (addr ! i)"
    using vload64_data [OF r] w i by (simp add: words_at_def)
  moreover have "vload_bytes (Suc (length (xs ! i))) (addr ! i) s = Some (xs ! i @ [0])"
    using list_all2_nthD [OF st i] by (simp add: string_at_def)
  ultimately show "\<exists>a. vload64 (q + of_nat (8 * i)) s = Some a \<and> vload_bytes (Suc (length (xs ! i))) a s = Some (xs ! i @ [0])"
    by blast
qed

text \<open>Words pushed earlier are still there.\<close>

lemma words_at_later:
  assumes "words_at p1 ws s1" and "pushed A n p1 s1 p2 s2" and "p1 = p - of_nat (8 * length ws)"
    and "8 * length ws + n < 2 ^ 64" and "set (block p1 (8 * length ws)) \<subseteq> A"
  shows "words_at p1 ws s2"
  unfolding words_at_def
proof (intro allI impI)
  fix i assume i: "i < length ws"
  then have "8 * length ws = 8 * i + (8 + 8 * (length ws - Suc i))" by simp
  then have "set (block (p1 + of_nat (8 * i)) 8) \<subseteq> set (block p1 (8 * length ws))" by (simp only: block_add) auto
  then show "vload_bytes 8 (p1 + of_nat (8 * i)) s2 = Some (bytes_of_word (ws ! i))"
    using pushed_keeps_above [OF assms(2-5)] assms(1) i by (simp add: words_at_def)
qed

text \<open>The layout, from the top: the environment strings, the argument strings, the pointers to the
  former, the pointers to the latter and the count; the gap keeps room for the two null pointers.\<close>

lemma fill_stack_effect:
  fixes p :: u64
  defines "gap argv \<equiv> (if length argv > 0 then 8 else (16 :: nat))"
  assumes r: "data_region A s" and room: "set (block (p - of_nat (stack_size argv envp)) (stack_size argv envp)) \<subseteq> A"
    and N: "stack_size argv envp < 2 ^ 64"
  shows "\<exists>sp s' addr addr1 B B'. fill_stack argv envp p s = Some (sp, s') \<and> data_region A s' \<and>
    words_at sp [of_nat (length argv)] s' \<and> set (block sp 8) \<subseteq> A \<and>
    words_at (sp + 8) addr s' \<and> set (block (sp + 8) (8 * length addr)) \<subseteq> A \<and>
    words_at (sp + 8 + of_nat (8 * length argv + gap argv)) addr1 s' \<and>
    set (block (sp + 8 + of_nat (8 * length argv + gap argv)) (8 * length addr1)) \<subseteq> A \<and>
    list_all2 (string_at B s') addr argv \<and> list_all2 (string_at B' s') addr1 envp"
proof -
  let ?n1 = "strings_size envp" and ?n2 = "strings_size argv" and ?g1 = "if length argv > 0 then 8 else (0 :: nat)"
    and ?n3 = "8 * length envp" and ?g2 = "gap argv" and ?n4 = "8 * length argv"
  have size: "?n1 + ?n2 + ?g1 + ?n3 + ?g2 + ?n4 + 8 = stack_size argv envp" by (simp add: stack_size_def gap_def)
  note rm = stage_room [OF room, unfolded size [symmetric]]
  have "set (block (p - of_nat ?n1) ?n1) \<subseteq> A" using rm [of 0 ?n1] by simp
  then obtain addr1 p1 s1 where 1: "push_strings envp p s = Some (addr1, p1, s1)" "pushed A ?n1 p s p1 s1"
    "list_all2 (string_at (set (block p1 ?n1)) s1) addr1 envp"
    using push_strings_effect [OF r, of p envp] N size by auto
  have p1: "p1 = p - of_nat ?n1" "data_region A s1" using 1(2) by (simp_all add: pushed_def)
  have "set (block (p1 - of_nat ?n2) ?n2) \<subseteq> A" using rm [of ?n1 ?n2] p1(1) by simp
  then obtain addr p2 s2 where 2: "push_strings argv p1 s1 = Some (addr, p2, s2)" "pushed A ?n2 p1 s1 p2 s2"
    "list_all2 (string_at (set (block p2 ?n2)) s2) addr argv"
    using push_strings_effect [OF p1(2), of p1 argv] N size by auto
  define q2 where "q2 = p2 - of_nat ?g1"
  have p2: "p2 = p - of_nat (?n1 + ?n2)" "data_region A s2" using 2(2) p1(1) by (simp_all add: pushed_def)
  have g1: "pushed A (?n1 + ?n2 + ?g1) p s q2 s2"
    unfolding q2_def by (rule pushed_trans [OF pushed_trans [OF 1(2) 2(2)] pushed_gap [OF p2(2)]])
  have l1: "length addr1 = length envp" using 1(3) by (simp add: list_all2_lengthD)
  have l2: "length addr = length argv" using 2(3) by (simp add: list_all2_lengthD)
  have q2: "q2 = p - of_nat (?n1 + ?n2 + ?g1)" using g1 by (simp add: pushed_def)
  have R3: "set (block (q2 - of_nat ?n3) ?n3) \<subseteq> A" unfolding q2 by (rule rm) simp
  from R3 obtain p3 s3 where 3: "push_words addr1 q2 s2 = Some (p3, s3)" "pushed A ?n3 q2 s2 p3 s3" "words_at p3 addr1 s3"
    using push_words_effect [OF p2(2), of q2 addr1] N size l1 by auto
  define q3 where "q3 = p3 - of_nat ?g2"
  have p3: "data_region A s3" "p3 = q2 - of_nat ?n3" using 3(2) by (simp_all add: pushed_def)
  have g2: "pushed A (?n3 + ?g2) q2 s2 q3 s3"
    unfolding q3_def by (rule pushed_trans [OF 3(2) pushed_gap [OF p3(1)]])
  have q3: "q3 = p - of_nat (?n1 + ?n2 + ?g1 + ?n3 + ?g2)" using p3(2) q2 by (simp add: q3_def)
  have R4: "set (block (q3 - of_nat ?n4) ?n4) \<subseteq> A" unfolding q3 by (rule rm) simp
  from R4 obtain p4 s4 where 4: "push_words addr q3 s3 = Some (p4, s4)" "pushed A ?n4 q3 s3 p4 s4" "words_at p4 addr s4"
    using push_words_effect [OF p3(1), of q3 addr] N size l2 by auto
  have p4: "data_region A s4" "p4 = p - of_nat (?n1 + ?n2 + ?g1 + ?n3 + ?g2 + ?n4)" using 4(2) q3 by (simp_all add: pushed_def)
  have R5: "set (block (p4 - of_nat 8) 8) \<subseteq> A" unfolding p4(2) by (rule rm) simp
  from R5 obtain sp s5 where 5: "push_words [of_nat (length argv)] p4 s4 = Some (sp, s5)" "pushed A 8 p4 s4 sp s5"
    "words_at sp [of_nat (length argv)] s5"
    using push_words_effect [OF p4(1), of p4 "[of_nat (length argv)]"] by auto
  have sp: "data_region A s5" "p4 = sp + 8" "p3 = sp + 8 + of_nat (?n4 + ?g2)"
    using 5(2) 4(2) q3_def by (simp_all add: pushed_def)
  have t4: "pushed A (?n4 + 8) q3 s3 sp s5" by (rule pushed_trans [OF 4(2) 5(2)])
  have t3: "pushed A (?g2 + (?n4 + 8)) p3 s3 sp s5"
    by (rule pushed_trans [OF pushed_gap [OF p3(1)] t4 [unfolded q3_def]])
  have t2: "pushed A (?g1 + (?n3 + (?g2 + (?n4 + 8)))) p2 s2 sp s5"
    by (rule pushed_trans [OF pushed_gap [OF p2(2)] pushed_trans [OF 3(2) t3, unfolded q2_def]])
  have t1: "pushed A (?n2 + (?g1 + (?n3 + (?g2 + (?n4 + 8))))) p1 s1 sp s5" by (rule pushed_trans [OF 2(2) t2])
  have lt: "?n1 + (?n2 + (?g1 + (?n3 + (?g2 + (?n4 + 8))))) < 2 ^ 64" using N size by simp
  have s1: "list_all2 (string_at (set (block sp (?n1 + (?n2 + (?g1 + (?n3 + (?g2 + (?n4 + 8)))))))) s5) addr1 envp"
    by (rule strings_at_later [OF 1(3) t1 p1(1) lt]) (use rm [of 0 ?n1] p1(1) in simp)
  have s2: "list_all2 (string_at (set (block sp (?n2 + (?g1 + (?n3 + (?g2 + (?n4 + 8))))))) s5) addr argv"
    by (rule strings_at_later [OF 2(3) t2, of p1]) (use rm [of ?n1 ?n2] p1(1) lt 2(2) in \<open>simp_all add: pushed_def\<close>)
  have fs: "fill_stack argv envp p s = Some (sp, s5)"
    using 1(1) 2(1) 3(1) 4(1) 5(1) by (cases "argv = []") (auto simp: fill_stack_def Let_def q2_def q3_def gap_def)
  have ps: "p3 = q2 - of_nat (8 * length addr1)" "p4 = q3 - of_nat (8 * length addr)" "sp = p4 - of_nat 8"
    using p3(2) 4(2) 5(2) l1 l2 by (simp_all add: pushed_def)
  have sub: "set (block p3 (8 * length addr1)) \<subseteq> A" "set (block p4 (8 * length addr)) \<subseteq> A" "set (block sp 8) \<subseteq> A"
    using R3 R4 R5 unfolding ps l1 l2 by simp_all
  have w4: "words_at p4 addr s5"
    by (rule words_at_later [OF 4(3) 5(2) ps(2) _ sub(2)]) (use lt l2 in simp)
  have w3: "words_at p3 addr1 s5"
    by (rule words_at_later [OF 3(3) t3 ps(1) _ sub(1)]) (use lt l1 in simp)
  show ?thesis
    using fs sp(1) 5(3) sub(3) w4 [unfolded sp(2)] sub(2) [unfolded sp(2)] w3 [unfolded sp(3)] sub(1) [unfolded sp(3)] s1 s2
    by blast
qed

text \<open>C24: the kernel's stack layout and the program's reading of it fit together: after \<open>setup_stack\<close> has
  filled a stack with room for them, \<open>_start\<close> passes to \<open>main\<close> the number of arguments and arrays
  whose entries point to exactly the argument and environment strings given to \<open>execve\<close>, for every
  number of arguments, none included.\<close>

lemma program_arguments:
  assumes r: "data_region A s" and room: "set (block (p - of_nat (stack_size argv envp)) (stack_size argv envp)) \<subseteq> A"
    and N: "stack_size argv envp < 2 ^ 64"
  shows "\<exists>sp s' av ev. fill_stack argv envp p s = Some (sp, s') \<and>
    start_args (sp - 8) s' = Some (of_nat (length argv), av, ev) \<and> args_at av argv s' \<and> args_at ev envp s'"
proof -
  obtain sp s' addr addr1 B B' where f: "fill_stack argv envp p s = Some (sp, s')" "data_region A s'"
    "words_at sp [of_nat (length argv)] s'" "set (block sp 8) \<subseteq> A"
    "words_at (sp + 8) addr s'" "set (block (sp + 8) (8 * length addr)) \<subseteq> A"
    "words_at (sp + 8 + of_nat (8 * length argv + (if length argv > 0 then 8 else 16))) addr1 s'"
    "set (block (sp + 8 + of_nat (8 * length argv + (if length argv > 0 then 8 else 16))) (8 * length addr1)) \<subseteq> A"
    "list_all2 (string_at B s') addr argv" "list_all2 (string_at B' s') addr1 envp"
    using fill_stack_effect [OF assms] by metis
  let ?argc = "of_nat (length argv) :: u64" and ?ev = "sp + 8 + of_nat (8 * length argv + (if length argv > 0 then 8 else 16))"
  have "vload64 sp s' = Some ?argc"
    using vload64_data [OF f(2,4)] f(3) by (simp add: words_at_def)
  moreover have "length argv < 2 ^ 64" using N by (simp add: stack_size_def)
  then have "?argc > 1 \<longleftrightarrow> length argv > 1"
    by (simp add: word_less_nat_alt unat_of_nat take_bit_nat_eq_self)
  moreover have "length argv > 1 \<Longrightarrow> sp - 8 + 0x2 * 8 + (?argc - 1) * 8 + 0x2 * 8 = ?ev"
    by (cases argv) (simp_all add: algebra_simps)
  moreover have "\<not> length argv > 1 \<Longrightarrow> sp - 8 + 0x2 * 8 + 0x2 * 8 = ?ev"
    by (cases argv) auto
  ultimately have "start_args (sp - 8) s' = Some (?argc, sp + 8, ?ev)"
    by (simp add: start_args_def Let_def)
  moreover have "args_at (sp + 8) argv s'" by (rule args_at_words [OF f(2,5,6,9)])
  moreover have "args_at ?ev envp s'" by (rule args_at_words [OF f(2,7,8,10)])
  ultimately show ?thesis using f(1) by blast
qed

definition ex_page :: mmu_state where
  "ex_page = ex_mmu\<lparr>pmem := (\<lambda>a. if a < 0x5000 then ex_chain a else 0), cr3 := 0x1000\<rparr>"

lemma program_arguments_witness:
  "\<exists>sp s' av ev. fill_stack [str_bytes ''ls'', str_bytes ''x''] [str_bytes ''P=b''] 0x401FF8 ex_page = Some (sp, s') \<and>
     start_args (sp - 8) s' = Some (2, av, ev) \<and> args_at av [str_bytes ''ls'', str_bytes ''x''] s' \<and> args_at ev [str_bytes ''P=b''] s'"
proof -
  let ?argv = "[str_bytes ''ls'', str_bytes ''x'']" and ?envp = "[str_bytes ''P=b'']"
  let ?A = "set (block (0x401FF8 - of_nat 57) 57)"
  have N: "stack_size ?argv ?envp = 57" by code_simp
  have "\<forall>v \<in> ?A. ALIGN_DOWN v = 0x401000" by code_simp
  then have r: "data_region ?A ex_page" by (intro ex_chain_region) (auto simp: ex_page_def)
  show ?thesis
    using program_arguments [OF r, of "0x401FF8" ?argv ?envp] unfolding N by (simp del: block.simps)
qed

end
