(* ===== verification/Libc.thy ===== *)
theory Libc
  imports Elf Printf
begin

section \<open>The C library (\<open>w2/libc/stdlib.c\<close>, \<open>malloc.c\<close>, \<open>scanf.c\<close>, \<open>printf.c\<close>)\<close>

text \<open>
  A program's side of a system call: its byte memory, \<open>errno\<close>, the head of its heap and what the kernel
  keeps for it.  The kernel behind \<open>int $0x80\<close> is the argument \<open>K\<close> of every wrapper: it takes the call
  number and three arguments, and may read and change the program's memory.  An argument that a wrapper does
  not pass is 0 here.
\<close>

record 'k user_state =
  umem :: cmem
  errno :: u32
  heap_head :: u64
  kern :: 'k

type_synonym 'k kernel = "u64 \<Rightarrow> u64 \<Rightarrow> u64 \<Rightarrow> u64 \<Rightarrow> 'k user_state \<Rightarrow> (u64 \<times> 'k user_state) option"

definition ustore :: "nat \<Rightarrow> u64 \<Rightarrow> u64 \<Rightarrow> 'k user_state \<Rightarrow> 'k user_state" where
  "ustore n p v s = s\<lparr>umem := store_le n p v (umem s)\<rparr>"

definition uload :: "nat \<Rightarrow> u64 \<Rightarrow> 'k user_state \<Rightarrow> u64" where
  "uload n p s = kload n p (umem s)"

definition uclear :: "u64 \<Rightarrow> u64 \<Rightarrow> 'k user_state \<Rightarrow> 'k user_state" where
  "uclear p n s = s\<lparr>umem := memset p 0 n (umem s)\<rparr>"

subsection \<open>Results and \<open>errno\<close>\<close>

text \<open>\<open>if ((int)res < 0) { errno = -res; return -1; } return res;\<close> for an \<open>int\<close> and a 64-bit result.\<close>

definition ret_int :: "(u64 \<times> 'k user_state) option \<Rightarrow> (u32 \<times> 'k user_state) option" where
  "ret_int r = map_option (\<lambda>(res, s). let v = (ucast res :: u32)
     in if sint v < 0 then (- 1, s\<lparr>errno := - v\<rparr>) else (v, s)) r"

definition ret_long :: "(u64 \<times> 'k user_state) option \<Rightarrow> (u64 \<times> 'k user_state) option" where
  "ret_long r = map_option (\<lambda>(res, s). let v = (ucast res :: u32)
     in if sint v < 0 then (- 1, s\<lparr>errno := - v\<rparr>) else (res, s)) r"

definition ret_plain :: "(u64 \<times> 'k user_state) option \<Rightarrow> (u32 \<times> 'k user_state) option" where
  "ret_plain r = map_option (\<lambda>(res, s). (ucast res, s)) r"

subsection \<open>Wrappers\<close>

definition exit :: "'k kernel \<Rightarrow> u32 \<Rightarrow> 'k user_state \<Rightarrow> (u64 \<times> 'k user_state) option" where
  "exit K status s = K 60 (scast status) 0 0 s"

definition kill :: "'k kernel \<Rightarrow> u64 \<Rightarrow> 'k user_state \<Rightarrow> (u64 \<times> 'k user_state) option" where
  "kill K pid s = do { (res, s) \<leftarrow> K 84 pid 0 0 s; Some (scast (ucast res :: u32), s) }"

definition brk :: "'k kernel \<Rightarrow> u64 \<Rightarrow> 'k user_state \<Rightarrow> (u64 \<times> 'k user_state) option" where
  "brk K end_data_segment s = K 12 end_data_segment 0 0 s"

definition sbrk :: "'k kernel \<Rightarrow> u64 \<Rightarrow> 'k user_state \<Rightarrow> (u64 \<times> 'k user_state) option" where
  "sbrk K increment s = do {
     (breakPtr, s) \<leftarrow> brk K 0 s;
     if increment = 0 then Some (breakPtr, s)
     else do {
       let startAddr = breakPtr;
       (_, s) \<leftarrow> brk K (breakPtr + increment) s;
       Some (startAddr, s)
     }
   }"

definition fork :: "'k kernel \<Rightarrow> 'k user_state \<Rightarrow> (u32 \<times> 'k user_state) option" where
  "fork K s = ret_int (K 57 0 0 0 s)"

definition getpid :: "'k kernel \<Rightarrow> 'k user_state \<Rightarrow> (u32 \<times> 'k user_state) option" where
  "getpid K s = ret_plain (K 39 0 0 0 s)"

definition getppid :: "'k kernel \<Rightarrow> 'k user_state \<Rightarrow> (u32 \<times> 'k user_state) option" where
  "getppid K s = ret_plain (K 110 0 0 0 s)"

definition execve :: "'k kernel \<Rightarrow> u64 \<Rightarrow> u64 \<Rightarrow> u64 \<Rightarrow> 'k user_state \<Rightarrow> (u32 \<times> 'k user_state) option" where
  "execve K filename argv envp s = ret_int (K 59 filename argv envp s)"

definition listprocess :: "'k kernel \<Rightarrow> 'k user_state \<Rightarrow> 'k user_state option" where
  "listprocess K s = map_option snd (K 82 0 0 0 s)"

definition cls :: "'k kernel \<Rightarrow> 'k user_state \<Rightarrow> 'k user_state option" where
  "cls K s = map_option snd (K 83 0 0 0 s)"

definition sleep :: "'k kernel \<Rightarrow> u32 \<Rightarrow> 'k user_state \<Rightarrow> (u32 \<times> 'k user_state) option" where
  "sleep K seconds s = ret_plain (K 35 (ucast seconds) 0 0 s)"

definition alarm :: "'k kernel \<Rightarrow> u32 \<Rightarrow> 'k user_state \<Rightarrow> (u32 \<times> 'k user_state) option" where
  "alarm K seconds s = ret_plain (K 37 (ucast seconds) 0 0 s)"

definition EFAULT :: u32 where "EFAULT = 14"

definition getcwd :: "'k kernel \<Rightarrow> u64 \<Rightarrow> u64 \<Rightarrow> 'k user_state \<Rightarrow> (u64 \<times> 'k user_state) option" where
  "getcwd K buf sz s = do {
     (res, s) \<leftarrow> K 79 buf sz 0 (uclear buf sz s);
     Some (res, if res = 0 then s\<lparr>errno := EFAULT\<rparr> else s)
   }"

definition chdir :: "'k kernel \<Rightarrow> u64 \<Rightarrow> 'k user_state \<Rightarrow> (u32 \<times> 'k user_state) option" where
  "chdir K dpath s = ret_int (K 80 dpath 0 0 s)"

definition O_DIRECTORY :: u32 where "O_DIRECTORY = 0x10000"

definition open_file :: "'k kernel \<Rightarrow> u64 \<Rightarrow> u32 \<Rightarrow> 'k user_state \<Rightarrow> (u32 \<times> 'k user_state) option" where
  "open_file K pathname flags s = ret_int (K 2 pathname (scast flags) 0 s)"

definition read_fd :: "'k kernel \<Rightarrow> u32 \<Rightarrow> u64 \<Rightarrow> u64 \<Rightarrow> 'k user_state \<Rightarrow> (u64 \<times> 'k user_state) option" where
  "read_fd K fd buf count s = ret_long (K 0 (scast fd) buf count (uclear buf count s))"

definition write_fd :: "'k kernel \<Rightarrow> u32 \<Rightarrow> u64 \<Rightarrow> u64 \<Rightarrow> 'k user_state \<Rightarrow> (u64 \<times> 'k user_state) option" where
  "write_fd K fd buf count s = ret_long (K 1 (scast fd) buf count s)"

definition lseek :: "'k kernel \<Rightarrow> u32 \<Rightarrow> u64 \<Rightarrow> u32 \<Rightarrow> 'k user_state \<Rightarrow> (u64 \<times> 'k user_state) option" where
  "lseek K fildes offset whence s = ret_long (K 8 (scast fildes) offset (scast whence) s)"

definition close :: "'k kernel \<Rightarrow> u32 \<Rightarrow> 'k user_state \<Rightarrow> (u32 \<times> 'k user_state) option" where
  "close K fd s = ret_int (K 3 (scast fd) 0 0 s)"

definition pipe :: "'k kernel \<Rightarrow> u64 \<Rightarrow> 'k user_state \<Rightarrow> (u32 \<times> 'k user_state) option" where
  "pipe K filedes s = ret_int (K 22 filedes 0 0 (ustore 4 (filedes + 4) (- 1) (ustore 4 filedes (- 1) s)))"

definition dup :: "'k kernel \<Rightarrow> u32 \<Rightarrow> 'k user_state \<Rightarrow> (u32 \<times> 'k user_state) option" where
  "dup K oldfd s = ret_int (K 32 (scast oldfd) 0 0 s)"

definition dup2 :: "'k kernel \<Rightarrow> u32 \<Rightarrow> u32 \<Rightarrow> 'k user_state \<Rightarrow> (u32 \<times> 'k user_state) option" where
  "dup2 K oldfd newfd s = ret_int (K 33 (scast oldfd) (scast newfd) 0 s)"

definition waitpid :: "'k kernel \<Rightarrow> u32 \<Rightarrow> u64 \<Rightarrow> u32 \<Rightarrow> 'k user_state \<Rightarrow> (u32 \<times> 'k user_state) option" where
  "waitpid K pid status options s = ret_int (K 61 (ucast pid) status (scast options) (ustore 4 status (- 1) s))"

text \<open>\<open>printf\<close>: the text is in a buffer of the stack, at the address \<open>printf_buf\<close>.\<close>

definition printf :: "'k kernel \<Rightarrow> u64 \<Rightarrow> bytes \<Rightarrow> u64 list \<Rightarrow> 'k user_state \<Rightarrow> (u32 \<times> 'k user_state) option" where
  "printf K printf_buf fmt args s = do {
     (str, m) \<leftarrow> vsprintf fmt args (umem s);
     let s = s\<lparr>umem := store_bytes (str @ [0]) printf_buf m\<rparr>;
     (_, s) \<leftarrow> write_fd K 1 printf_buf (scast (of_nat (length str) :: u32)) s;
     Some (of_nat (length str), s)
   }"

text \<open>The messages of \<open>serror\<close>.\<close>

definition error_messages :: "(u32 \<times> string) list" where
  "error_messages =
     [(1, ''operation is not permitted ''),
      (2, ''No Such File or directory''),
      (4, ''Interrupted system call ''),
      (5, ''Input outpur error ''),
      (7, ''Argument list too long ''),
      (8, ''Exec format error ''),
      (9, ''Bad File number ''),
      (10, ''No child process ''),
      (11, ''error: try again ''),
      (12, ''Out of memory''),
      (13, ''Permission denied''),
      (14, ''Bad address ''),
      (16, ''Device or resource busy ''),
      (17, ''File exists ''),
      (20, ''Not a directory ''),
      (21, ''is a directory ''),
      (22, ''Invalid Argument ''),
      (23, ''File table overflow ''),
      (24, ''Too many open files ''),
      (27, ''File too large ''),
      (30, ''Read-only file system''),
      (40, ''Too many symbolic links encountered ''),
      (32, ''Broken pipe ''),
      (36, ''File name too long '')]"

definition serror :: "'k kernel \<Rightarrow> u64 \<Rightarrow> u32 \<Rightarrow> 'k user_state \<Rightarrow> 'k user_state option" where
  "serror K printf_buf error s =
     (let text = (case map_of error_messages error of Some t \<Rightarrow> t | None \<Rightarrow> ''Error in Opening or Executing'')
      in map_option snd (printf K printf_buf (str_bytes text @ [0x0A]) [] s))"

subsection \<open>The heap\<close>

text \<open>\<open>struct mem_block\<close>: the size at 0, the flag \<open>free\<close> (an \<open>int\<close>) at 8, the next block at 16; the
  payload starts at 24.\<close>

definition BLOCK_SIZE :: u64 where "BLOCK_SIZE = 24"
definition USED :: u64 where "USED = 0"
definition FREE :: u64 where "FREE = 1"

definition b_size :: "u64 \<Rightarrow> 'k user_state \<Rightarrow> u64" where "b_size b s = uload 8 b s"
definition b_free :: "u64 \<Rightarrow> 'k user_state \<Rightarrow> u64" where "b_free b s = uload 4 (b + 8) s"
definition b_next :: "u64 \<Rightarrow> 'k user_state \<Rightarrow> u64" where "b_next b s = uload 8 (b + 16) s"
definition set_b_size :: "u64 \<Rightarrow> u64 \<Rightarrow> 'k user_state \<Rightarrow> 'k user_state" where "set_b_size b v s = ustore 8 b v s"
definition set_b_free :: "u64 \<Rightarrow> u64 \<Rightarrow> 'k user_state \<Rightarrow> 'k user_state" where "set_b_free b v s = ustore 4 (b + 8) v s"
definition set_b_next :: "u64 \<Rightarrow> u64 \<Rightarrow> 'k user_state \<Rightarrow> 'k user_state" where "set_b_next b v s = ustore 8 (b + 16) v s"

text \<open>The search returns the block found, or NULL, and the last block it passed.\<close>

partial_function (option) find_free_mem_block :: "u64 \<Rightarrow> u64 \<Rightarrow> u64 \<Rightarrow> 'k user_state \<Rightarrow> (u64 \<times> u64) option" where
  "find_free_mem_block temp lastb sz s =
     (if temp \<noteq> 0 \<and> \<not> (b_free temp s = FREE \<and> b_size temp s \<ge> sz)
      then find_free_mem_block (b_next temp s) temp sz s
      else Some (temp, lastb))"

declare find_free_mem_block.simps [code]

definition allocateMemory :: "'k kernel \<Rightarrow> u64 \<Rightarrow> 'k user_state \<Rightarrow> (u64 \<times> 'k user_state) option" where
  "allocateMemory K sz s = do {
     (current, s) \<leftarrow> sbrk K 0 s;
     (addr, s) \<leftarrow> sbrk K (sz + BLOCK_SIZE) s;
     if addr = - 1 then Some (0, s)
     else Some (current, set_b_free current USED (set_b_next current 0 (set_b_size current sz s)))
   }"

definition malloc :: "'k kernel \<Rightarrow> u64 \<Rightarrow> 'k user_state \<Rightarrow> (u64 \<times> 'k user_state) option" where
  "malloc K sz s =
     (if sz = 0 then Some (0, s)
      else if heap_head s = 0 then do {
        (block, s) \<leftarrow> allocateMemory K sz s;
        if block = 0 then Some (0, s) else Some (block + BLOCK_SIZE, s\<lparr>heap_head := block\<rparr>)
      }
      else do {
        (block, lastb) \<leftarrow> find_free_mem_block (heap_head s) (heap_head s) sz s;
        if block = 0 then do {
          (block, s) \<leftarrow> allocateMemory K sz s;
          if block = 0 then Some (0, s) else Some (block + BLOCK_SIZE, set_b_next lastb block s)
        }
        else Some (block + BLOCK_SIZE, set_b_free block USED s)
      })"

definition free :: "u64 \<Rightarrow> 'k user_state \<Rightarrow> 'k user_state" where
  "free ptr s = (if ptr = 0 then s else set_b_free (ptr - BLOCK_SIZE) FREE s)"

subsection \<open>Directories\<close>

definition SIZEOF_USER_DIRENT :: u64 where "SIZEOF_USER_DIRENT = 1048"

text \<open>\<open>res < 0\<close> never holds, as \<open>res\<close> is unsigned.\<close>

definition opendir :: "'k kernel \<Rightarrow> u64 \<Rightarrow> 'k user_state \<Rightarrow> (u64 \<times> 'k user_state) option" where
  "opendir K name s = do {
     (fd, s) \<leftarrow> open_file K name O_DIRECTORY s;
     (buf, s) \<leftarrow> malloc K SIZEOF_USER_DIRENT s;
     (_, s) \<leftarrow> K 78 (scast fd) buf SIZEOF_USER_DIRENT (uclear buf SIZEOF_USER_DIRENT s);
     Some (buf, s)
   }"

definition readdir :: "'k kernel \<Rightarrow> u64 \<Rightarrow> 'k user_state \<Rightarrow> (u64 \<times> 'k user_state) option" where
  "readdir K dir s = do {
     (buf, s) \<leftarrow> malloc K SIZEOF_USER_DIRENT s;
     (_, s) \<leftarrow> K 81 dir buf 0 (uclear buf SIZEOF_USER_DIRENT s);
     n \<leftarrow> strlen (buf + 18) (umem s);
     Some (if n = 0 then 0 else buf, s)
   }"

definition closedir :: "'k kernel \<Rightarrow> u64 \<Rightarrow> 'k user_state \<Rightarrow> (u32 \<times> 'k user_state) option" where
  "closedir K dir s =
     (if dir \<noteq> 0 then do { (res, s) \<leftarrow> close K (ucast (uload 4 dir s)) s; Some (res, free dir s) }
      else Some (- 1, s))"

subsection \<open>\<open>scanf\<close>\<close>

text \<open>The static buffer of 1024 bytes is at the address \<open>data\<close>.  The arguments are addresses.\<close>

definition scan_read :: "'k kernel \<Rightarrow> u64 \<Rightarrow> u64 \<Rightarrow> 'k user_state \<Rightarrow> (u32 \<times> 'k user_state) option" where
  "scan_read K data n s = do { (res, s) \<leftarrow> read_fd K 0 data n s; Some (ucast res, s) }"

fun scanf_loop :: "'k kernel \<Rightarrow> u64 \<Rightarrow> bytes \<Rightarrow> u64 list \<Rightarrow> u32 \<Rightarrow> 'k user_state \<Rightarrow> (u32 \<times> 'k user_state) option" where
  "scanf_loop K data [] args sz s = Some (sz, s)"
| "scanf_loop K data [c] args sz s = (if c = ch_percent then None else Some (sz, s))"
| "scanf_loop K data (c # d # fmt) args sz s =
     (if c \<noteq> ch_percent then scanf_loop K data (d # fmt) args sz s
      else if d = 0x73 then do {
        (sz, s) \<leftarrow> scan_read K data 1024 s;
        if sz \<noteq> - 1 then do {
          (a, args) \<leftarrow> va_arg args;
          m \<leftarrow> kstrcpy a data (umem s);
          scanf_loop K data fmt args (sz - 1) (s\<lparr>umem := m\<rparr>)
        }
        else scanf_loop K data fmt args sz s
      }
      else if d = 0x64 then do {
        (sz, s) \<leftarrow> scan_read K data 1024 s;
        if sz = - 1 then Some (sz, s)
        else do {
          let sz = sz - 1;
          let s = ustore 1 (data + scast sz) 0 s;
          (a, args) \<leftarrow> va_arg args;
          v \<leftarrow> atoi data (umem s);
          scanf_loop K data fmt args sz (ustore 8 a (word_of_int v) s)
        }
      }
      else if d = 0x63 then do {
        (sz, s) \<leftarrow> scan_read K data 1 s;
        if sz = - 1 then Some (sz, s)
        else do {
          (a, args) \<leftarrow> va_arg args;
          scanf_loop K data fmt args sz (ustore 1 a (ucast (umem s data)) s)
        }
      }
      else if d = 0x78 then do {
        (sz, s) \<leftarrow> scan_read K data 1 s;
        scanf_loop K data fmt args sz s
      }
      else scanf_loop K data fmt args sz s)"

definition scanf :: "'k kernel \<Rightarrow> u64 \<Rightarrow> bytes \<Rightarrow> u64 list \<Rightarrow> 'k user_state \<Rightarrow> (u32 \<times> 'k user_state) option" where
  "scanf K data fmt args s = scanf_loop K data fmt args (- 1) (s\<lparr>umem := reset data 1024 (umem s)\<rparr>)"

end
