(* ===== verification/UserHeap.thy ===== *)
theory UserHeap
  imports Libc Syscall FlatMem
begin

section \<open>The heap of a program: \<open>malloc\<close> over \<open>brk\<close>\<close>

text \<open>
  The C library's allocator keeps a list of blocks in the program's memory and grows it with \<open>brk\<close>.  What it
  needs of the kernel is a contract, the locale \<open>brk_kernel\<close>, under which \<open>malloc\<close> and \<open>free\<close> refine an
  abstract first-fit allocator; the kernel's \<open>system_brk\<close> is an instance.
\<close>

subsection \<open>Fields in the byte memory\<close>

lemma kmem_bytes_Suc: "kmem_bytes m a (Suc n) = m a # kmem_bytes m (a + 1) n"
proof -
  have "[0..<Suc n] = 0 # map Suc [0..<n]" by (simp add: map_Suc_upt upt_conv_Cons del: upt_Suc)
  then show ?thesis by (simp add: kmem_bytes_def add.assoc del: upt_Suc)
qed

interpretation image: byte_memory "\<lambda>A m. True" "\<lambda>a m. Some (m a)" "\<lambda>a b m. Some (m(a := b))"
  "\<lambda>n a m. Some (kmem_bytes m a n)" "\<lambda>bs a m. Some (store_bytes bs a m)"
  by unfold_locales (auto simp: kmem_bytes_Suc, simp_all add: kmem_bytes_def)

definition le_bytes :: "nat \<Rightarrow> u64 \<Rightarrow> bytes" where
  "le_bytes n v = map (\<lambda>i. ucast (drop_bit (8 * i) v)) [0..<n]"

lemma length_le_bytes [simp]: "length (le_bytes n v) = n"
  by (simp add: le_bytes_def)

lemma store_le_store_bytes: "store_le n p v m = store_bytes (le_bytes n v) p m"
proof (induction n arbitrary: p v m)
  case (Suc n)
  have "le_bytes (Suc n) v = ucast v # le_bytes n (drop_bit 8 v)"
    unfolding le_bytes_def by (simp add: map_upt_Suc drop_bit_drop_bit algebra_simps del: upt_Suc)
  then show ?case using Suc.IH by (simp del: fun_upd_apply)
qed (simp add: le_bytes_def)

lemma word_of_le_bytes: "n \<le> 8 \<Longrightarrow> word_of_bytes (le_bytes n v) = take_bit (8 * n) v"
proof (rule bit_word_eqI)
  fix k assume n: "n \<le> 8" and k: "k < LENGTH(64)"
  show "bit (word_of_bytes (le_bytes n v)) k \<longleftrightarrow> bit (take_bit (8 * n) v) k"
  proof (cases "k div 8 < n")
    case True
    then have "le_bytes n v ! (k div 8) = ucast (drop_bit (8 * (k div 8)) v)" by (simp add: le_bytes_def)
    moreover have "k < 8 * n" using True by auto
    ultimately show ?thesis using k True
      by (simp add: bit_word_of_bytes le_bytes_def bit_simps)
  next
    case False
    then show ?thesis using k by (auto simp: bit_word_of_bytes le_bytes_def bit_simps)
  qed
qed

lemma kload_store_same: "n \<le> 8 \<Longrightarrow> kload n p (store_le n p v m) = take_bit (8 * n) v"
proof -
  assume n: "n \<le> 8"
  have "kmem_bytes (store_bytes (le_bytes n v) p m) p (length (le_bytes n v)) = le_bytes n v"
    using image.loads_stores [where A = UNIV and a = p and bs = "le_bytes n v" and s = m] n by simp
  then show ?thesis using n by (simp add: kload_def store_le_store_bytes word_of_le_bytes)
qed

lemma store_le_other: "a \<notin> set (block p n) \<Longrightarrow> store_le n p v m a = m a"
  using store_bytes_other [of a p "le_bytes n v" m] by (simp add: store_le_store_bytes)

lemma kload_cong: "(\<And>a. a \<in> set (block p n) \<Longrightarrow> m a = m' a) \<Longrightarrow> kload n p m = kload n p m'"
  using image.loads_same [of p n m m'] by (simp add: kload_def)

lemma kload_store_other: "set (block q k) \<inter> set (block p n) = {} \<Longrightarrow> kload k q (store_le n p v m) = kload k q m"
  by (rule kload_cong, rule store_le_other) auto

subsection \<open>Headers\<close>

lemma block_range: "unat b + k \<le> 2 ^ 64 \<Longrightarrow> a \<in> set (block b k) \<longleftrightarrow> unat b \<le> unat a \<and> unat a < unat b + k"
proof
  assume k: "unat b + k \<le> 2 ^ 64" and "a \<in> set (block b k)"
  then obtain i where i: "i < k" "a = b + of_nat i" by (auto simp: block_conv)
  then have "unat a = unat b + i" using k by (simp add: unat_word_ariths unat_of_nat)
  then show "unat b \<le> unat a \<and> unat a < unat b + k" using i by simp
next
  assume a: "unat b \<le> unat a \<and> unat a < unat b + k"
  then have "a = b + of_nat (unat a - unat b)" by (simp add: word_unat_eq_iff unat_word_ariths unat_of_nat)
  then show "a \<in> set (block b k)"
    unfolding block_conv set_map by (rule image_eqI) (use a in \<open>simp, linarith\<close>)
qed

lemma header_split: "block b 24 = block b 8 @ block (b + 8) 4 @ block (b + 12) 4 @ block (b + 16) 8"
proof -
  have "(24 :: nat) = 8 + (4 + (4 + 8))" by simp
  then show ?thesis by (simp only: block_add of_nat_numeral add.assoc) simp
qed

text \<open>What a store into a field of a header leaves alone: the other fields, and the headers elsewhere.\<close>

lemma header_disjoint:
  "set (block b 8) \<inter> set (block (b + 8) 4) = {}" "set (block b 8) \<inter> set (block (b + 16) 8) = {}"
  "set (block (b + 8) 4) \<inter> set (block (b + 16) 8) = {}"
  "set (block b 8) \<subseteq> set (block b 24)" "set (block (b + 8) 4) \<subseteq> set (block b 24)" "set (block (b + 16) 8) \<subseteq> set (block b 24)"
  using block_distinct [of 24 b] unfolding header_split by auto

subsection \<open>The list of blocks\<close>

type_synonym hblock = "u64 \<times> u64 \<times> bool"

fun heap_chain :: "'k user_state \<Rightarrow> u64 \<Rightarrow> hblock list \<Rightarrow> bool" where
  "heap_chain s p [] \<longleftrightarrow> p = 0"
| "heap_chain s p ((b, n, f) # bs) \<longleftrightarrow> p = b \<and> b \<noteq> 0 \<and> b_size b s = n \<and> b_free b s = (if f then FREE else USED) \<and>
     heap_chain s (b_next b s) bs"

text \<open>The blocks follow each other without a gap from \<open>p\<close> to \<open>t\<close>.\<close>

fun laid_out :: "nat \<Rightarrow> hblock list \<Rightarrow> nat \<Rightarrow> bool" where
  "laid_out p [] t \<longleftrightarrow> p = t"
| "laid_out p ((b, n, f) # bs) t \<longleftrightarrow> unat b = p \<and> laid_out (p + 24 + unat n) bs t"

lemma laid_out_append: "laid_out p (bs @ cs) t \<longleftrightarrow> (\<exists>q. laid_out p bs q \<and> laid_out q cs t)"
  by (induction p bs t rule: laid_out.induct) auto

lemma laid_out_le: "laid_out p bs t \<Longrightarrow> p \<le> t"
  by (induction p bs t rule: laid_out.induct) auto

lemma laid_out_bounds: "laid_out p bs t \<Longrightarrow> (b, n, f) \<in> set bs \<Longrightarrow> p \<le> unat b \<and> unat b + 24 + unat n \<le> t"
  by (induction p bs t rule: laid_out.induct) (auto dest: laid_out_le)

lemma laid_out_apart:
  "laid_out p bs t \<Longrightarrow> (b, n, f) \<in> set bs \<Longrightarrow> (c, m, g) \<in> set bs \<Longrightarrow> b \<noteq> c \<Longrightarrow>
   unat b + 24 + unat n \<le> unat c \<or> unat c + 24 + unat m \<le> unat b"
  by (induction p bs t rule: laid_out.induct) (auto dest: laid_out_bounds)

text \<open>Different blocks, headers included, share no byte.\<close>

lemma blocks_disjoint:
  assumes "laid_out p bs t" and "t < 2 ^ 64" and "(b, n, f) \<in> set bs" and "(c, m, g) \<in> set bs" and "b \<noteq> c"
  shows "set (block b (24 + unat n)) \<inter> set (block c (24 + unat m)) = {}"
proof -
  have "unat b + (24 + unat n) \<le> 2 ^ 64" "unat c + (24 + unat m) \<le> 2 ^ 64"
    using laid_out_bounds [OF assms(1,3)] laid_out_bounds [OF assms(1,4)] assms(2) by auto
  then show ?thesis using laid_out_apart [OF assms(1,3,4,5)] by (auto simp: block_range)
qed

lemma header_in_block: "set (block b 24) \<subseteq> set (block b (24 + k))"
  by (simp only: block_add set_append Un_upper1)

lemma laid_out_distinct: "laid_out p bs t \<Longrightarrow> distinct (map fst bs)"
proof (induction p bs t rule: laid_out.induct)
  case (2 p b n f bs t)
  have "b \<notin> fst ` set bs"
  proof
    assume "b \<in> fst ` set bs"
    then obtain m g where "(b, m, g) \<in> set bs" by auto
    then have "p + 24 + unat n \<le> unat b" using 2(2) laid_out_bounds by fastforce
    then show False using 2(2) by simp
  qed
  then show ?case using 2 by simp
qed simp

text \<open>The chain depends only on the headers.\<close>

lemma header_fields_cong:
  assumes "\<And>a. a \<in> set (block b 24) \<Longrightarrow> umem s' a = umem s a"
  shows "b_size b s' = b_size b s" and "b_free b s' = b_free b s" and "b_next b s' = b_next b s"
  unfolding b_size_def b_free_def b_next_def uload_def
  by (rule kload_cong; use assms header_disjoint(4-6) [of b] in blast)+

lemma heap_chain_cong:
  "(\<And>b n f a. (b, n, f) \<in> set bs \<Longrightarrow> a \<in> set (block b 24) \<Longrightarrow> umem s' a = umem s a) \<Longrightarrow>
   heap_chain s' p bs \<longleftrightarrow> heap_chain s p bs"
proof (induction bs arbitrary: p)
  case (Cons x bs)
  obtain b n f where x: "x = (b, n, f)" by (cases x)
  have "umem s' a = umem s a" if "a \<in> set (block b 24)" for a using Cons.prems [of b n f a] that x by simp
  note h = header_fields_cong [OF this]
  have "heap_chain s' q bs \<longleftrightarrow> heap_chain s q bs" for q by (rule Cons.IH) (use Cons.prems in auto)
  then show ?case using h by (simp add: x)
qed simp

subsection \<open>Stores into a header\<close>

lemma umem_set [simp]:
  "umem (set_b_size b v s) = store_le 8 b v (umem s)" "umem (set_b_free b v s) = store_le 4 (b + 8) v (umem s)"
  "umem (set_b_next b v s) = store_le 8 (b + 16) v (umem s)"
  "kern (set_b_size b v s) = kern s" "kern (set_b_free b v s) = kern s" "kern (set_b_next b v s) = kern s"
  "heap_head (set_b_size b v s) = heap_head s" "heap_head (set_b_free b v s) = heap_head s" "heap_head (set_b_next b v s) = heap_head s"
  by (simp_all add: set_b_size_def set_b_free_def set_b_next_def ustore_def)

lemma header_store_other:
  assumes "a \<notin> set (block b 24)"
  shows "store_le 8 b v m a = m a" "store_le 4 (b + 8) v m a = m a" "store_le 8 (b + 16) v m a = m a"
  by (rule store_le_other; use assms header_disjoint(4-6) [of b] in blast)+

lemma header_fields_set:
  "b_size b (set_b_free b v s) = b_size b s" "b_next b (set_b_free b v s) = b_next b s"
  "b_size b (set_b_next b v s) = b_size b s" "b_free b (set_b_next b v s) = b_free b s"
  "b_next b (set_b_size b v s) = b_next b s" "b_free b (set_b_size b v s) = b_free b s"
  "b_next b (set_b_next b v s) = v" "b_size b (set_b_size b v s) = v" "b_free b (set_b_free b v s) = take_bit 32 v"
  using header_disjoint(1-3) [of b]
  by (simp_all add: b_size_def b_free_def b_next_def uload_def kload_store_other kload_store_same Int_commute take_bit_length_eq [where 'a = 64, simplified])

abbreviation flag :: "bool \<Rightarrow> u64" where
  "flag f \<equiv> if f then FREE else USED"

definition marked :: "u64 \<Rightarrow> bool \<Rightarrow> hblock list \<Rightarrow> hblock list" where
  "marked b f bs = map (\<lambda>(c, m, g). if c = b then (c, m, f) else (c, m, g)) bs"

lemma chain_set_free:
  assumes "heap_chain s p bs" and "\<And>c m g. (c, m, g) \<in> set bs \<Longrightarrow> c \<noteq> b \<Longrightarrow> set (block c 24) \<inter> set (block b 24) = {}"
  shows "heap_chain (set_b_free b (flag f) s) p (marked b f bs)"
  using assms
proof (induction bs arbitrary: p)
  case (Cons x bs)
  obtain c m g where x: "x = (c, m, g)" by (cases x)
  let ?s = "set_b_free b (flag f) s"
  have tl: "heap_chain ?s (b_next c s) (marked b f bs)"
    by (rule Cons.IH) (use Cons.prems x in auto)
  show ?case
  proof (cases "c = b")
    case True
    have "take_bit 32 (flag f) = flag f" by (simp add: FREE_def USED_def)
    then show ?thesis using tl Cons.prems(1) True x by (simp add: marked_def header_fields_set)
  next
    case False
    have "umem ?s a = umem s a" if "a \<in> set (block c 24)" for a
      using Cons.prems(2) [of c m g] x False that header_store_other(2) [of a b] by auto
    note h = header_fields_cong [OF this]
    show ?thesis using tl Cons.prems(1) False x h by (simp add: marked_def)
  qed
qed (simp add: marked_def)

lemma chain_append:
  assumes "heap_chain s p bs" and "bs \<noteq> []" and "l = fst (last bs)" and "distinct (map fst bs)"
    and "\<And>c m g. (c, m, g) \<in> set (bs @ cs) \<Longrightarrow> c \<noteq> l \<Longrightarrow> set (block c 24) \<inter> set (block l 24) = {}"
    and "heap_chain s nb cs" and "l \<notin> fst ` set cs"
  shows "heap_chain (set_b_next l nb s) p (bs @ cs)"
  using assms(1-5)
proof (induction bs arbitrary: p)
  case (Cons x bs)
  obtain c m g where x: "x = (c, m, g)" by (cases x)
  let ?s = "set_b_next l nb s"
  show ?case
  proof (cases "bs = []")
    case True
    then have l: "l = c" using Cons.prems(3) x by simp
    have "heap_chain ?s nb cs \<longleftrightarrow> heap_chain s nb cs"
    proof (rule heap_chain_cong)
      fix d n f a assume d: "(d, n, f) \<in> set cs" "a \<in> set (block d 24)"
      then have "d \<noteq> l" using assms(7) by force
      then show "umem ?s a = umem s a" using Cons.prems(5) [of d n f] d header_store_other(3) [of a l] by auto
    qed
    then show ?thesis using Cons.prems(1) x True l assms(6) by (simp add: header_fields_set)
  next
    case False
    then have ll: "l = fst (last bs)" "c \<noteq> l"
      using Cons.prems(3,4) x last_in_set [OF False] by auto
    have "umem ?s a = umem s a" if "a \<in> set (block c 24)" for a
      using Cons.prems(5) [of c m g] x ll(2) that header_store_other(3) [of a l] by auto
    note h = header_fields_cong [OF this]
    have "heap_chain ?s (b_next c s) (bs @ cs)"
      by (rule Cons.IH) (use Cons.prems x False ll(1) in auto)
    then show ?thesis using Cons.prems(1) x h by simp
  qed
qed simp

text \<open>A payload meets no header.\<close>

lemma payload_no_header:
  assumes "laid_out p bs t" and "t < 2 ^ 64" and "(c, m, g) \<in> set bs" and "(b, n, f) \<in> set bs"
    and a: "a \<in> set (block (c + 24) (unat m))"
  shows "a \<notin> set (block b 24)"
proof -
  have sp: "block c (24 + unat m) = block c 24 @ block (c + 24) (unat m)" using block_add [of c 24 "unat m"] by simp
  show ?thesis
  proof (cases "b = c")
    case True
    have "24 + unat m < 2 ^ 64" using laid_out_bounds [OF assms(1,3)] assms(2) by simp
    then have "distinct (block c 24 @ block (c + 24) (unat m))" using block_distinct [of "24 + unat m" c] sp by simp
    then show ?thesis using a True by auto
  next
    case False
    then have "set (block b 24) \<inter> set (block c (24 + unat m)) = {}"
      using blocks_disjoint [OF assms(1,2,4,3)] header_in_block [of b "unat n"] by blast
    then show ?thesis using a sp by auto
  qed
qed

lemma headers_disjoint:
  "laid_out p bs t \<Longrightarrow> t < 2 ^ 64 \<Longrightarrow> (b, n, f) \<in> set bs \<Longrightarrow> (c, m, g) \<in> set bs \<Longrightarrow> b \<noteq> c \<Longrightarrow>
   set (block b 24) \<inter> set (block c 24) = {}"
  using blocks_disjoint header_in_block [of b "unat n"] header_in_block [of c "unat m"] by blast

lemma laid_out_marked: "laid_out p (marked b f bs) t = laid_out p bs t"
  by (induction p bs t rule: laid_out.induct) (simp_all add: marked_def)

lemma heap_chain_nonzero: "heap_chain s p bs \<Longrightarrow> (b, n, f) \<in> set bs \<Longrightarrow> p \<noteq> 0 \<and> b \<noteq> 0"
  by (induction bs arbitrary: p) auto

subsection \<open>The abstract allocator\<close>

text \<open>First fit over the blocks in the order of their addresses; a new block goes to the top.\<close>

definition fits :: "u64 \<Rightarrow> hblock \<Rightarrow> bool" where
  "fits sz x \<longleftrightarrow> (case x of (b, n, f) \<Rightarrow> f \<and> sz \<le> n)"

definition first_fit :: "u64 \<Rightarrow> hblock list \<Rightarrow> u64 \<Rightarrow> u64 \<times> hblock list \<times> u64" where
  "first_fit sz bs t =
     (case find (fits sz) bs of
        Some (b, n, f) \<Rightarrow> (b, marked b False bs, t)
      | None \<Rightarrow> (t, bs @ [(t, sz, False)], t + 24 + sz))"

lemma b_free_flag: "(flag f = FREE) = f"
  by (simp add: FREE_def USED_def)

lemma find_free_refines:
  "heap_chain s p bs \<Longrightarrow> \<exists>l'. find_free_mem_block p l sz s =
     Some (case find (fits sz) bs of Some (b, n, f) \<Rightarrow> b | None \<Rightarrow> 0, l') \<and>
     (find (fits sz) bs = None \<longrightarrow> l' = last (l # map fst bs))"
proof (induction bs arbitrary: p l)
  case Nil
  then show ?case by (simp add: find_free_mem_block.simps)
next
  case (Cons x bs)
  obtain b n f where x: "x = (b, n, f)" by (cases x)
  have h: "p = b" "b \<noteq> 0" "b_size b s = n" "b_free b s = flag f" "heap_chain s (b_next b s) bs"
    using Cons.prems by (simp_all add: x)
  show ?case
  proof (cases "f \<and> sz \<le> n")
    case True
    then show ?thesis using h by (subst find_free_mem_block.simps) (simp add: x fits_def b_free_flag)
  next
    case False
    then have "find_free_mem_block p l sz s = find_free_mem_block (b_next b s) b sz s"
      using h b_free_flag [of f] by (subst find_free_mem_block.simps) auto
    moreover have nf: "\<not> fits sz (b, n, f)" using False by (simp add: fits_def)
    ultimately show ?thesis using Cons.IH [OF h(5), of b] by (simp add: x)
  qed
qed

subsection \<open>The contract of \<open>brk\<close>\<close>

locale brk_kernel =
  fixes K :: "'k kernel" and ready :: "'k \<Rightarrow> bool" and brk_of :: "'k \<Rightarrow> u64"
  assumes brk_get: "ready (kern s) \<Longrightarrow> K 12 0 0 0 s = Some (brk_of (kern s), s)"
    and brk_set: "ready (kern s) \<Longrightarrow> v \<noteq> 0 \<Longrightarrow>
      \<exists>k. K 12 v 0 0 s = Some (v, s\<lparr>kern := k\<rparr>) \<and> ready k \<and> brk_of k = v"

definition heap_rep :: "('k \<Rightarrow> u64) \<Rightarrow> hblock list \<Rightarrow> 'k user_state \<Rightarrow> bool" where
  "heap_rep brk_of bs s \<longleftrightarrow> heap_chain s (heap_head s) bs \<and> (\<exists>p. laid_out p bs (unat (brk_of (kern s)))) \<and> brk_of (kern s) \<noteq> 0"

text \<open>No byte of a payload has changed.\<close>

abbreviation payloads_kept :: "hblock list \<Rightarrow> 'k user_state \<Rightarrow> 'k user_state \<Rightarrow> bool" where
  "payloads_kept bs s s' \<equiv> \<forall>c m g a. (c, m, g) \<in> set bs \<longrightarrow> a \<in> set (block (c + 24) (unat m)) \<longrightarrow> umem s' a = umem s a"

context brk_kernel
begin

lemma sbrk_grows:
  assumes "ready (kern s)" and "v \<noteq> 0" and "brk_of (kern s) + v \<noteq> 0"
  shows "\<exists>k. sbrk K v s = Some (brk_of (kern s), s\<lparr>kern := k\<rparr>) \<and> ready k \<and> brk_of k = brk_of (kern s) + v"
  using brk_get [OF assms(1)] brk_set [OF assms(1,3)] assms(2) by (auto simp: sbrk_def brk_def)

lemma allocateMemory_block:
  assumes r: "ready (kern s)" and sz: "unat (brk_of (kern s)) + 24 + unat sz < 2 ^ 64" and t: "brk_of (kern s) \<noteq> 0"
  obtains k s' where "allocateMemory K sz s = Some (brk_of (kern s), s')" "kern s' = k" "ready k"
    "brk_of k = brk_of (kern s) + 24 + sz" "heap_head s' = heap_head s" "heap_chain s' (brk_of (kern s)) [(brk_of (kern s), sz, False)]"
    "\<And>a. a \<notin> set (block (brk_of (kern s)) 24) \<Longrightarrow> umem s' a = umem s a"
proof -
  let ?t = "brk_of (kern s)"
  have v: "sz + BLOCK_SIZE \<noteq> 0" "?t + (sz + BLOCK_SIZE) \<noteq> 0" "?t \<noteq> - 1"
  proof -
    have "unat (sz + BLOCK_SIZE) = unat sz + 24" using sz by (simp add: BLOCK_SIZE_def unat_word_ariths)
    then show "sz + BLOCK_SIZE \<noteq> 0" by (metis add_is_0 unat_0 zero_neq_numeral)
    have "unat (?t + (sz + BLOCK_SIZE)) = unat ?t + (unat sz + 24)" using sz by (simp add: BLOCK_SIZE_def unat_word_ariths)
    then show "?t + (sz + BLOCK_SIZE) \<noteq> 0" by (metis add_is_0 unat_0 zero_neq_numeral)
    show "?t \<noteq> - 1" using sz by (auto simp: unsigned_minus_1_eq_mask mask_eq_exp_minus_1)
  qed
  have "sbrk K 0 s = Some (?t, s)" using brk_get [OF r] by (simp add: sbrk_def brk_def)
  moreover obtain k where k: "sbrk K (sz + BLOCK_SIZE) s = Some (?t, s\<lparr>kern := k\<rparr>)" "ready k" "brk_of k = ?t + (sz + BLOCK_SIZE)"
    using sbrk_grows [OF r v(1,2)] by auto
  define s' where "s' = set_b_free ?t USED (set_b_next ?t 0 (set_b_size ?t sz (s\<lparr>kern := k\<rparr>)))"
  ultimately have "allocateMemory K sz s = Some (?t, s')" using v(3) k(1) by (simp add: allocateMemory_def s'_def)
  moreover have "heap_chain s' ?t [(?t, sz, False)]"
    using t by (simp add: s'_def header_fields_set) (simp add: USED_def)
  moreover have "umem s' a = umem s a" if "a \<notin> set (block ?t 24)" for a
    using header_store_other [OF that] by (simp add: s'_def)
  moreover have "brk_of k = ?t + 24 + sz" using k(3) by (simp add: BLOCK_SIZE_def algebra_simps)
  ultimately show thesis using that [of s' k] k(2) by (simp add: s'_def)
qed

text \<open>The three cases of \<open>malloc\<close>: an empty heap, a block that fits, and none.\<close>

lemma malloc_reuses:
  assumes rep: "heap_rep brk_of bs s" and "ready (kern s)" and "sz \<noteq> 0" and fnd: "find (fits sz) bs = Some (b, n, f)"
  shows "\<exists>s'. malloc K sz s = Some (b + 24, s') \<and> kern s' = kern s \<and> heap_rep brk_of (marked b False bs) s' \<and> payloads_kept bs s s'"
proof -
  obtain p where ch: "heap_chain s (heap_head s) bs" and lay: "laid_out p bs (unat (brk_of (kern s)))" and t: "brk_of (kern s) \<noteq> 0"
    using rep by (auto simp: heap_rep_def)
  have T: "unat (brk_of (kern s)) < 2 ^ 64" using unat_u64 by simp
  have b: "(b, n, f) \<in> set bs" using find_mem [OF fnd] by simp
  have hd: "heap_head s \<noteq> 0" "b \<noteq> 0" using heap_chain_nonzero [OF ch b] by simp_all
  define s' where "s' = set_b_free b USED s"
  obtain l where "find_free_mem_block (heap_head s) (heap_head s) sz s = Some (b, l)"
    using find_free_refines [OF ch, of "heap_head s" sz] fnd by auto
  then have "malloc K sz s = Some (b + 24, s')"
    using assms(3) hd by (simp add: malloc_def s'_def BLOCK_SIZE_def)
  moreover have "heap_chain s' (heap_head s') (marked b False bs)"
    using chain_set_free [OF ch, of b False] headers_disjoint [OF lay T _ b] by (simp add: s'_def)
  then have "heap_rep brk_of (marked b False bs) s'"
    using lay t by (auto simp: heap_rep_def laid_out_marked s'_def)
  moreover have "payloads_kept bs s s'"
    using payload_no_header [OF lay T _ b] header_store_other(2) [of _ b] by (simp add: s'_def)
  ultimately show ?thesis by (auto simp: s'_def)
qed

lemma malloc_extends:
  assumes rep: "heap_rep brk_of bs s" and r: "ready (kern s)" and "sz \<noteq> 0" and fnd: "find (fits sz) bs = None"
    and sz: "unat (brk_of (kern s)) + 24 + unat sz < 2 ^ 64"
  shows "\<exists>s'. malloc K sz s = Some (brk_of (kern s) + 24, s') \<and> ready (kern s') \<and>
    brk_of (kern s') = brk_of (kern s) + 24 + sz \<and>
    heap_rep brk_of (bs @ [(brk_of (kern s), sz, False)]) s' \<and> payloads_kept bs s s' \<and>
    (\<forall>a. (\<forall>c \<in> fst ` set (bs @ [(brk_of (kern s), sz, False)]). a \<notin> set (block c 24)) \<longrightarrow> umem s' a = umem s a)"
proof -
  let ?t = "brk_of (kern s)"
  obtain p where ch: "heap_chain s (heap_head s) bs" and lay: "laid_out p bs (unat ?t)" and t: "?t \<noteq> 0"
    using rep by (auto simp: heap_rep_def)
  have T: "unat ?t < 2 ^ 64" using unat_u64 by simp
  obtain k s1 where s1: "allocateMemory K sz s = Some (?t, s1)" "kern s1 = k" "ready k" "brk_of k = ?t + 24 + sz"
    "heap_head s1 = heap_head s" "heap_chain s1 ?t [(?t, sz, False)]" "\<And>a. a \<notin> set (block ?t 24) \<Longrightarrow> umem s1 a = umem s a"
    by (rule allocateMemory_block [OF r sz t]) blast
  have top: "unat (?t + 24 + sz) = unat ?t + 24 + unat sz" using sz by (simp add: unat_word_ariths)
  have tn: "?t + 24 + sz \<noteq> 0" using top by (metis add_is_0 unat_0 zero_neq_numeral)
  have lay': "laid_out p (bs @ [(?t, sz, False)]) (unat (?t + 24 + sz))"
    using lay top by (auto simp: laid_out_append)
  have T': "unat (?t + 24 + sz) < 2 ^ 64" using unat_u64 by simp
  have new: "(?t, sz, False) \<in> set (bs @ [(?t, sz, False)])" by simp
  have dist: "distinct (map fst (bs @ [(?t, sz, False)]))" by (rule laid_out_distinct [OF lay'])
  have old: "heap_chain s1 (heap_head s) bs"
  proof (subst heap_chain_cong)
    fix b n f a assume b: "(b, n, f) \<in> set bs" "a \<in> set (block b 24)"
    then have "b \<noteq> ?t" using dist by force
    then show "umem s1 a = umem s a"
      using headers_disjoint [OF lay' T' _ new, of b n f] b s1(7) by auto
  qed (rule ch)
  have kept: "payloads_kept bs s s1"
  proof (intro allI impI)
    fix c m g a assume "(c, m, g) \<in> set bs" "a \<in> set (block (c + 24) (unat m))"
    then show "umem s1 a = umem s a" using payload_no_header [OF lay' T' _ new, of c m g a] s1(7) by simp
  qed
  show ?thesis
  proof (cases "bs = []")
    case True
    then have "malloc K sz s = Some (?t + 24, s1\<lparr>heap_head := ?t\<rparr>)"
      using assms(3) ch s1(1) t by (simp add: malloc_def BLOCK_SIZE_def)
    moreover have "heap_chain (s1\<lparr>heap_head := ?t\<rparr>) ?t [(?t, sz, False)]"
      using s1(6) by (subst heap_chain_cong [of _ _ s1]) simp_all
    moreover have "\<forall>a. a \<notin> set (block ?t 24) \<longrightarrow> umem (s1\<lparr>heap_head := ?t\<rparr>) a = umem s a" using s1(7) by simp
    ultimately show ?thesis
      using True s1(2-4) lay' tn by (auto simp: heap_rep_def)
  next
    case False
    define l where "l = fst (last bs)"
    obtain m g where l: "(l, m, g) \<in> set bs" using last_in_set [OF False] by (metis l_def prod.collapse)
    have lt: "l \<noteq> ?t" using l dist by force
    define s2 where "s2 = set_b_next l ?t s1"
    obtain l' where "find_free_mem_block (heap_head s) (heap_head s) sz s = Some (0, l')" "l' = last (heap_head s # map fst bs)"
      using find_free_refines [OF ch, of "heap_head s" sz] fnd by auto
    moreover have "last (heap_head s # map fst bs) = l" using False by (simp add: l_def last_map)
    moreover have "heap_head s \<noteq> 0" using heap_chain_nonzero [OF ch l] by simp
    ultimately have "malloc K sz s = Some (?t + 24, s2)"
      using assms(3) s1(1) t by (simp add: malloc_def BLOCK_SIZE_def s2_def)
    moreover have "heap_chain s2 (heap_head s2) (bs @ [(?t, sz, False)])"
      unfolding s2_def
      using chain_append [OF old False l_def _ _ s1(6)] dist lt headers_disjoint [OF lay' T' _ _] l s1(5) by (simp add: s2_def)
    moreover have "payloads_kept bs s s2"
    proof (intro allI impI)
      fix c m' g' a assume "(c, m', g') \<in> set bs" "a \<in> set (block (c + 24) (unat m'))"
      then have "umem s1 a = umem s a" "a \<notin> set (block l 24)"
        using kept payload_no_header [OF lay' T', of c m' g' l m g a] l by auto
      then show "umem s2 a = umem s a" using header_store_other(3) [of a l] by (simp add: s2_def)
    qed
    moreover have "\<forall>a. a \<notin> set (block ?t 24) \<longrightarrow> a \<notin> set (block l 24) \<longrightarrow> umem s2 a = umem s a"
      using s1(7) header_store_other(3) [of _ l] by (simp add: s2_def)
    moreover have "l \<in> fst ` set bs" using l by force
    ultimately show ?thesis using s1(2-4) lay' tn by (auto simp: heap_rep_def s2_def)
  qed
qed

text \<open>Together: \<open>malloc\<close> is the abstract first-fit allocation.\<close>

lemma malloc_refines:
  assumes rep: "heap_rep brk_of bs s" and r: "ready (kern s)" and "sz \<noteq> 0"
    and sz: "unat (brk_of (kern s)) + 24 + unat sz < 2 ^ 64" and ff: "first_fit sz bs (brk_of (kern s)) = (b, bs', t')"
  shows "\<exists>s'. malloc K sz s = Some (b + 24, s') \<and> ready (kern s') \<and> brk_of (kern s') = t' \<and>
    heap_rep brk_of bs' s' \<and> payloads_kept bs s s'"
proof (cases "find (fits sz) bs")
  case None
  then show ?thesis using malloc_extends [OF rep r assms(3) None sz] ff by (auto simp: first_fit_def)
next
  case (Some x)
  obtain b0 n f where x: "x = (b0, n, f)" by (cases x)
  have r': "b0 = b" "bs' = marked b False bs" "t' = brk_of (kern s)" using ff Some x by (auto simp: first_fit_def)
  then show ?thesis using malloc_reuses [OF rep r assms(3)] Some x r by fastforce
qed

end

subsection \<open>The kernel's \<open>brk\<close>\<close>

text \<open>The system call \<open>brk\<close> of the kernel as the program's kernel: the handler uses no memory of the program.\<close>

definition kernel_brk :: "sys_state kernel" where
  "kernel_brk n a b c s =
     (if n \<noteq> 12 then None
      else case switch_handler n a b c (kern s) of
        Some (Return v k) \<Rightarrow> Some (v, s\<lparr>kern := k\<rparr>)
      | _ \<Rightarrow> None)"

text \<open>The current task has its memory description, and a list of areas.\<close>

definition brk_ready :: "sys_state \<Rightarrow> bool" where
  "brk_ready k \<longleftrightarrow> (\<exists>t m as. deref (tasks k) (current_task k) = Some t \<and> deref (mms k) (t_mm t) = Some m \<and>
     vma_seq k (m_vma_list m) as)"

definition brk_end :: "sys_state \<Rightarrow> u64" where
  "brk_end k = m_brk_end (node_at (mms k) (t_mm (node_at (tasks k) (current_task k))))"

lemma system_brk_get:
  assumes "brk_ready k"
  shows "system_brk 0 k = Some (brk_end k, k)"
  using assms by (auto simp: brk_ready_def brk_end_def system_brk_def get_current_task_def node_at_def deref_def split: if_splits)

lemma system_brk_set:
  assumes r: "brk_ready k" and v: "v \<noteq> 0"
  shows "\<exists>k'. system_brk v k = Some (v, k') \<and> brk_ready k' \<and> brk_end k' = v"
proof -
  obtain t m as where t: "deref (tasks k) (current_task k) = Some t" and m: "deref (mms k) (t_mm t) = Some m"
    and as: "vma_seq k (m_vma_list m) as" using r by (auto simp: brk_ready_def)
  define k1 where "k1 = k\<lparr>mms := (mms k)(t_mm t \<mapsto> m\<lparr>m_brk_end := v\<rparr>)\<rparr>"
  have nz: "t_mm t \<noteq> 0" using m by (auto simp: deref_def)
  have m1: "deref (mms k1) (t_mm t) = Some (m\<lparr>m_brk_end := v\<rparr>)" using nz by (simp add: k1_def deref_def)
  define x where "x = (case find (\<lambda>a. v_vma_type (node_at (vmas k) a) = VMA_HEAP) as of Some a \<Rightarrow> a | None \<Rightarrow> 0)"
  have x: "list_find v_next (vmas k) (\<lambda>_ v. v_vma_type v = VMA_HEAP) (m_vma_list m) = Some x"
    using list_find_llist [OF as] by (simp add: x_def)
  define k2 where "k2 = (if x = 0 then k1 else k1\<lparr>vmas := (vmas k)(x \<mapsto> (node_at (vmas k) x)\<lparr>v_vm_end := v\<rparr>)\<rparr>)"
  have xd: "x \<noteq> 0 \<Longrightarrow> deref (vmas k) x = Some (node_at (vmas k) x)"
    using find_mem [of "\<lambda>a. v_vma_type (node_at (vmas k) a) = VMA_HEAP" as] llist_nonzero [OF as]
    by (auto simp: x_def deref_def node_at_def split: option.splits)
  have "increament_heap_vma (current_task k) v k1 = Some k2"
    using t m1 x xd by (simp add: increament_heap_vma_def k1_def k2_def upd_vma_def hupd_def)
  then have s: "system_brk v k = Some (v, k2)"
    using t m m1 v by (simp add: system_brk_def get_current_task_def upd_mm_def hupd_def k1_def [symmetric])
      (simp add: k2_def)
  have "vma_seq k2 (m_vma_list m) as"
  proof (cases "x = 0")
    case False
    then show ?thesis using as xd by (subst llist_cong [of as v_next _ "vmas k"]) (auto simp: k2_def deref_def)
  qed (use as in \<open>simp add: k2_def k1_def\<close>)
  moreover have "tasks k2 = tasks k" "current_task k2 = current_task k" "mms k2 = mms k1" by (simp_all add: k2_def k1_def)
  ultimately have "brk_ready k2" "brk_end k2 = v"
    using t m1 by (auto simp: brk_ready_def brk_end_def node_at_def deref_def split: if_splits)
  then show ?thesis using s by blast
qed

interpretation user: brk_kernel kernel_brk brk_ready brk_end
proof unfold_locales
  fix s :: "sys_state user_state" assume "brk_ready (kern s)"
  then show "kernel_brk 12 0 0 0 s = Some (brk_end (kern s), s)"
    by (simp add: kernel_brk_def switch_handler_def ret_val_def system_brk_get)
next
  fix s :: "sys_state user_state" and v :: u64
  assume "brk_ready (kern s)" and "v \<noteq> 0"
  then obtain k where "system_brk v (kern s) = Some (v, k)" "brk_ready k" "brk_end k = v"
    using system_brk_set by blast
  then show "\<exists>k. kernel_brk 12 v 0 0 s = Some (v, s\<lparr>kern := k\<rparr>) \<and> brk_ready k \<and> brk_end k = v"
    by (intro exI [of _ k]) (simp add: kernel_brk_def switch_handler_def ret_val_def)
qed

subsection \<open>Properties\<close>

lemma marked_member: "(c, m, g) \<in> set bs \<Longrightarrow> c \<noteq> b \<Longrightarrow> (c, m, g) \<in> set (marked b f bs)"
  by (force simp: marked_def)

lemma marked_has: "(c, m, g) \<in> set bs \<Longrightarrow> \<exists>g'. (c, m, g') \<in> set (marked b f bs)"
  unfolding marked_def set_map
  by (intro exI [of _ "if c = b then f else g"] image_eqI [of _ _ "(c, m, g)"]) simp_all

text \<open>A payload of \<open>sz\<close> bytes handed out meets no block in use.\<close>

lemma first_fit_separate:
  assumes lay: "laid_out p bs (unat t)" and sz: "unat t + 24 + unat sz < 2 ^ 64"
    and ff: "first_fit sz bs t = (b, bs', t')" and c: "(c, m, False) \<in> set bs"
  shows "set (block (b + 24) (unat sz)) \<inter> set (block c (24 + unat m)) = {}"
proof -
  have in_block: "set (block (b + 24) (unat sz)) \<subseteq> set (block b (24 + unat n))" if "unat sz \<le> unat n" for n :: u64
  proof -
    have "24 + unat n = 24 + (unat sz + (unat n - unat sz))" using that by simp
    then have "block b (24 + unat n) = block b 24 @ (block (b + 24) (unat sz) @ block (b + 24 + of_nat (unat sz)) (unat n - unat sz))"
      by (simp only: block_add of_nat_numeral)
    then show ?thesis by auto
  qed
  show ?thesis
  proof (cases "find (fits sz) bs")
    case None
    then have b: "b = t" using ff by (simp add: first_fit_def)
    have top: "unat (t + 24 + sz) = unat t + 24 + unat sz" using sz by (simp add: unat_word_ariths)
    have lay': "laid_out p (bs @ [(t, sz, False)]) (unat (t + 24 + sz))" using lay top by (auto simp: laid_out_append)
    have "t \<noteq> c" using laid_out_distinct [OF lay'] c by force
    then show ?thesis
      using blocks_disjoint [OF lay', of t sz False c m False] in_block [of sz] c b unat_u64 [of "t + 24 + sz"] by auto
  next
    case (Some x)
    obtain n f where x: "x = (b, n, f)" using ff Some by (cases x) (simp add: first_fit_def)
    have bn: "(b, n, f) \<in> set bs" "f" "sz \<le> n" using find_mem [OF Some] by (auto simp: x fits_def)
    have "b \<noteq> c" using laid_out_distinct [OF lay] bn(1,2) c by (metis eq_key_imp_eq_value prod.inject)
    then show ?thesis
      using blocks_disjoint [OF lay _ bn(1) c] in_block [of n] bn(3) unat_u64 [of t] by (auto simp: word_le_nat_alt)
  qed
qed

text \<open>The search of \<open>malloc\<close> is the library's \<open>find\<close> over the list of blocks: on a well-formed list it
  returns, and finds the first free block that is large enough, or NULL with the last block of the list.\<close>

lemma find_free_is_find:
  assumes "heap_chain s (heap_head s) bs"
  shows "\<exists>l. find_free_mem_block (heap_head s) (heap_head s) sz s =
      Some (case find (\<lambda>(b, n, f). f \<and> sz \<le> n) bs of Some (b, n, f) \<Rightarrow> b | None \<Rightarrow> 0, l) \<and>
    (bs \<noteq> [] \<and> find (\<lambda>(b, n, f). f \<and> sz \<le> n) bs = None \<longrightarrow> l = fst (last bs))"
  using find_free_refines [OF assms, of "heap_head s" sz] unfolding fits_def by (auto simp: last_map)

text \<open>C23: the heap of a program on the kernel's \<open>brk\<close>: \<open>malloc\<close> returns and refines first-fit allocation over
  the list of blocks, growing the heap only when nothing fits; the memory it hands out meets no block in
  use, header or payload, and no payload changes.\<close>

lemma malloc_first_fit:
  assumes "heap_rep brk_end bs s" and "brk_ready (kern s)" and "sz \<noteq> 0"
    and "unat (brk_end (kern s)) + 24 + unat sz < 2 ^ 64" and "first_fit sz bs (brk_end (kern s)) = (b, bs', t')"
  shows "\<exists>s'. malloc kernel_brk sz s = Some (b + 24, s') \<and> brk_ready (kern s') \<and> brk_end (kern s') = t' \<and>
    heap_rep brk_end bs' s' \<and> payloads_kept bs s s' \<and>
    (\<forall>c m. (c, m, False) \<in> set bs \<longrightarrow> set (block (b + 24) (unat sz)) \<inter> set (block c (24 + unat m)) = {})"
proof -
  obtain p where "laid_out p bs (unat (brk_end (kern s)))" using assms(1) by (auto simp: heap_rep_def)
  then show ?thesis
    using user.malloc_refines [OF assms] first_fit_separate [OF _ assms(4,5)] by blast
qed

text \<open>C33: \<open>free\<close> marks exactly the block of the given memory free; the heap stays well formed, and the next
  \<open>malloc\<close> of at most its size, when no earlier block fits, returns the same memory.\<close>

lemma free_then_malloc:
  assumes rep: "heap_rep brk_end bs s" and r: "brk_ready (kern s)" and b: "(b, n, False) \<in> set bs"
    and sz: "sz \<noteq> 0" "sz \<le> n" "unat (brk_end (kern s)) + 24 + unat sz < 2 ^ 64"
    and first: "\<And>x. x \<in> set bs \<Longrightarrow> \<not> fits sz x"
  shows "heap_rep brk_end (marked b True bs) (free (b + 24) s) \<and>
    (\<exists>s'. malloc kernel_brk sz (free (b + 24) s) = Some (b + 24, s') \<and> heap_rep brk_end bs s' \<and> payloads_kept bs s s')"
proof -
  obtain p where ch: "heap_chain s (heap_head s) bs" and lay: "laid_out p bs (unat (brk_end (kern s)))" and t: "brk_end (kern s) \<noteq> 0"
    using rep by (auto simp: heap_rep_def)
  have T: "unat (brk_end (kern s)) < 2 ^ 64" using unat_u64 by simp
  note dist = laid_out_distinct [OF lay]
  define s1 where "s1 = set_b_free b FREE s"
  have "unat (b + 24) = unat b + 24" using laid_out_bounds [OF lay b] T by (simp add: unat_word_ariths)
  then have "b + 24 \<noteq> 0" by (metis add_is_0 unat_0 zero_neq_numeral)
  then have fr: "free (b + 24) s = s1" by (simp add: free_def BLOCK_SIZE_def s1_def)
  have "heap_chain s1 (heap_head s1) (marked b True bs)"
    using chain_set_free [OF ch, of b True] headers_disjoint [OF lay T _ b] by (simp add: s1_def)
  then have rep1: "heap_rep brk_end (marked b True bs) s1" using lay t by (auto simp: heap_rep_def laid_out_marked s1_def)
  have uniq: "m = n \<and> g = False" if "(b, m, g) \<in> set bs" for m g
    using eq_key_imp_eq_value [OF dist that b] by simp
  have mem: "x \<in> set (marked b True bs) \<Longrightarrow> x = (b, n, True) \<or> x \<in> set bs" for x
    using uniq by (auto simp: marked_def split: if_splits)
  have "find (fits sz) (marked b True bs) = Some (b, n, True)"
  proof -
    have "(b, n, True) \<in> set (marked b True bs)" using b by (force simp: marked_def)
    moreover have "fits sz (b, n, True)" using sz(2) by (simp add: fits_def)
    ultimately have "find (fits sz) (marked b True bs) \<noteq> None" by (auto simp: find_None_iff)
    then obtain x where x: "find (fits sz) (marked b True bs) = Some x" by blast
    note fx = find_mem [OF x]
    then have "x = (b, n, True)" using mem [of x] first [of x] by blast
    with x show ?thesis by simp
  qed
  moreover have "brk_ready (kern s1)" using r by (simp add: s1_def)
  ultimately obtain s2 where s2: "malloc kernel_brk sz s1 = Some (b + 24, s2)" "kern s2 = kern s1"
    "heap_rep brk_end (marked b False (marked b True bs)) s2" "payloads_kept (marked b True bs) s1 s2"
    using user.malloc_reuses [OF rep1 _ sz(1)] by blast
  have "marked b False (marked b True bs) = bs"
    unfolding marked_def map_map
  proof (rule map_idI)
    fix x assume x: "x \<in> set bs"
    obtain c m g where c: "x = (c, m, g)" by (cases x)
    then have "c = b \<Longrightarrow> g = False" using x uniq [of m g] by simp
    then show "((\<lambda>(c, m, g). if c = b then (c, m, False) else (c, m, g)) \<circ> (\<lambda>(c, m, g). if c = b then (c, m, True) else (c, m, g))) x = x"
      by (simp add: c)
  qed
  moreover have "payloads_kept bs s s2"
  proof (intro allI impI)
    fix c m g a assume c: "(c, m, g) \<in> set bs" "a \<in> set (block (c + 24) (unat m))"
    have "\<exists>g'. (c, m, g') \<in> set (marked b True bs)" by (rule marked_has [OF c(1)])
    then have "umem s2 a = umem s1 a" using s2(4) c(2) by blast
    moreover have "umem s1 a = umem s a"
      using payload_no_header [OF lay T c(1) b c(2)] header_store_other(2) [of a b] by (simp add: s1_def)
    ultimately show "umem s2 a = umem s a" by simp
  qed
  ultimately show ?thesis using rep1 s2(1,3) fr by auto
qed

text \<open>An example: a program with two blocks, one of 16 bytes in use at 0x1000 and one of 8 bytes, freed, behind
  it; the top of its heap is at 0x1048.\<close>

definition ex_brk :: sys_state where
  "ex_brk = ex_sys\<lparr>mms := [80 \<mapsto> (mk_mm 8)\<lparr>m_brk_end := 0x1048\<rparr>]\<rparr>"

definition ex_user :: "sys_state user_state" where
  "ex_user = set_b_free 0x1028 FREE (set_b_next 0x1028 0 (set_b_size 0x1028 8
     (set_b_free 0x1000 USED (set_b_next 0x1000 0x1028 (set_b_size 0x1000 16
       \<lparr>umem = (\<lambda>_. 0), errno = 0, heap_head = 0x1000, kern = ex_brk\<rparr>)))))"

abbreviation ex_blocks :: "hblock list" where
  "ex_blocks \<equiv> [(0x1000, 16, False), (0x1028, 8, True)]"

lemma ex_user_ready: "brk_ready (kern ex_user)" "brk_end (kern ex_user) = 0x1048"
proof -
  have f: "tasks ex_brk = tasks ex_sys" "current_task ex_brk = 32" "vmas ex_brk = [8 \<mapsto> mk_vma 0 0 VMA_NORMAL 24, 24 \<mapsto> mk_vma 0 0 VMA_HEAP 0]"
    "tasks ex_sys 32 = Some ((mk_task 2 TASK_WAITING 48 80)\<lparr>t_pml4e := 0x400000\<rparr>)"
    by (simp_all add: ex_brk_def ex_sys_def ex_kb_def ex_con_def ex_fs_def ex_time_def ex_proc_def kb_state.defs con_state.defs
        fs_state.defs time_state.defs proc_state.defs mmu_state.defs)
  have m: "mms ex_brk = [80 \<mapsto> (mk_mm 8)\<lparr>m_brk_end := 0x1048\<rparr>]" by (simp add: ex_brk_def)
  have "vma_seq ex_brk 8 [8, 24]" by (simp add: f(3) deref_def mk_vma_def)
  then show "brk_ready (kern ex_user)"
    unfolding brk_ready_def by (intro exI [of _ "node_at (tasks ex_brk) 32"] exI [of _ "node_at (mms ex_brk) 80"] exI [of _ "[8, 24]"])
      (simp add: ex_user_def f m deref_def node_at_def mk_task_def mk_mm_def)
  show "brk_end (kern ex_user) = 0x1048"
    by (simp add: ex_user_def brk_end_def f m node_at_def mk_task_def mk_mm_def)
qed

lemma ex_user_rep: "heap_rep brk_end ex_blocks ex_user"
proof -
  have "heap_head ex_user = 0x1000" by (simp add: ex_user_def)
  moreover have "heap_chain ex_user 0x1000 ex_blocks" unfolding ex_user_def by code_simp
  ultimately show ?thesis using ex_user_ready by (auto simp: heap_rep_def)
qed

lemma find_free_is_find_witness:
  "map_option fst (find_free_mem_block (heap_head ex_user) (heap_head ex_user) 5 ex_user) = Some 0x1028"
proof -
  have "heap_chain ex_user (heap_head ex_user) ex_blocks" using ex_user_rep by (simp add: heap_rep_def)
  from find_free_is_find [OF this, of 5] show ?thesis by auto
qed

lemma malloc_first_fit_witness:
  "\<exists>s'. malloc kernel_brk 100 ex_user = Some (0x1060, s') \<and> brk_end (kern s') = 0x10C4"
proof -
  have ff: "first_fit 100 ex_blocks (brk_end (kern ex_user)) = (0x1048, ex_blocks @ [(0x1048, 100, False)], 0x10C4)"
    unfolding ex_user_ready by (simp add: first_fit_def fits_def)
  have room: "unat (brk_end (kern ex_user)) + 24 + unat (100 :: u64) < 2 ^ 64" by (simp add: ex_user_ready)
  from malloc_first_fit [OF ex_user_rep ex_user_ready(1) _ room ff] show ?thesis by auto
qed

lemma free_then_malloc_witness:
  "\<exists>s'. malloc kernel_brk 12 (free 0x1018 ex_user) = Some (0x1018, s') \<and> heap_rep brk_end ex_blocks s'"
proof -
  have b: "(0x1000, 16, False) \<in> set ex_blocks" by simp
  have room: "unat (brk_end (kern ex_user)) + 24 + unat (12 :: u64) < 2 ^ 64" by (simp add: ex_user_ready)
  have "\<not> fits 12 x" if "x \<in> set ex_blocks" for x using that by (auto simp: fits_def)
  from free_then_malloc [OF ex_user_rep ex_user_ready(1) b _ _ room this] show ?thesis by auto
qed

end
