(* ===== verification/Shell.thy ===== *)
theory Shell
  imports Libc
begin

section \<open>The shell (\<open>w2/bin/sbush/sbush.c\<close>)\<close>

text \<open>
  The shell works on the byte memory of its process through the C library; the kernel is the argument \<open>K\<close> of
  every function that makes a system call.  The addresses of the shell's variables, which the linker and the
  compiler choose, are parameters: \<open>G\<close> those of the globals and of the library's buffers, \<open>F n\<close> those of
  the local arrays of the functions that run at nesting depth \<open>n\<close> of scripts.  A string literal is the list
  of its characters.  Dereferencing NULL, which ends the program, is \<open>None\<close>.
\<close>

record shell_globals =
  sv_commands :: u64
  sv_PS1 :: u64
  sv_path :: u64
  sv_envp :: u64
  sv_cmdcount :: u64
  sv_printf_buf :: u64
  sv_scan_data :: u64

record shell_frame =
  l_input_line :: u64
  l_c :: u64
  l_script_cmd :: u64
  l_script_buf :: u64
  l_cmd :: u64
  l_status :: u64
  l_fd :: u64
  l_temp :: u64
  l_env_token :: u64
  l_env_before :: u64
  l_abs_before :: u64
  l_path_token :: u64
  l_path_before :: u64
  l_new :: u64

definition MAX_LEN :: u64 where "MAX_LEN = 1024"
definition MAX_ARG_COUNT :: nat where "MAX_ARG_COUNT = 64"

text \<open>\<open>commands[i][j]\<close> and an entry of an array of pointers.\<close>

definition cmd_slot :: "shell_globals \<Rightarrow> nat \<Rightarrow> nat \<Rightarrow> u64" where
  "cmd_slot G i j = sv_commands G + of_nat (8 * (MAX_ARG_COUNT * i + j))"

definition get_cmd :: "shell_globals \<Rightarrow> nat \<Rightarrow> nat \<Rightarrow> 'k user_state \<Rightarrow> u64" where
  "get_cmd G i j s = uload 8 (cmd_slot G i j) s"

definition set_cmd :: "shell_globals \<Rightarrow> nat \<Rightarrow> nat \<Rightarrow> u64 \<Rightarrow> 'k user_state \<Rightarrow> 'k user_state" where
  "set_cmd G i j p s = ustore 8 (cmd_slot G i j) p s"

text \<open>A memory routine on the memory of the state.\<close>

definition on_mem :: "(cmem \<Rightarrow> cmem option) \<Rightarrow> 'k user_state \<Rightarrow> 'k user_state option" where
  "on_mem f s = do { m \<leftarrow> f (umem s); Some (s\<lparr>umem := m\<rparr>) }"

text \<open>\<open>strcmp(lit, p) == 0\<close> and \<open>strstr(p, lit)\<close> for a literal without NUL.\<close>

fun lit_eq :: "bytes \<Rightarrow> u64 \<Rightarrow> cmem \<Rightarrow> bool" where
  "lit_eq [] p m = (m p = 0)"
| "lit_eq (x # xs) p m = (m p = x \<and> lit_eq xs (p + 1) m)"

fun lit_at :: "bytes \<Rightarrow> u64 \<Rightarrow> cmem \<Rightarrow> bool" where
  "lit_at [] p m = True"
| "lit_at (x # xs) p m = (m p = x \<and> lit_at xs (p + 1) m)"

fun find_lit :: "nat \<Rightarrow> bytes \<Rightarrow> u64 \<Rightarrow> cmem \<Rightarrow> u64" where
  "find_lit 0 lit s1 m = 0"
| "find_lit (Suc n) lit s1 m = (if lit_at lit s1 m then s1 else find_lit n lit (s1 + 1) m)"

definition strstr_lit :: "u64 \<Rightarrow> bytes \<Rightarrow> cmem \<Rightarrow> u64 option" where
  "strstr_lit s1 lit m = do { l1 \<leftarrow> strlen s1 m; Some (find_lit (unat l1 + 1 - length lit) lit s1 m) }"

definition strcat_lit :: "u64 \<Rightarrow> bytes \<Rightarrow> cmem \<Rightarrow> cmem option" where
  "strcat_lit dest lit m = do { d \<leftarrow> strlen_loop m dest; Some (store_bytes (lit @ [0]) d m) }"

definition print :: "'k kernel \<Rightarrow> shell_globals \<Rightarrow> bytes \<Rightarrow> u64 list \<Rightarrow> 'k user_state \<Rightarrow> 'k user_state option" where
  "print K G fmt args s = map_option snd (printf K (sv_printf_buf G) fmt args s)"

abbreviation nl :: bytes where "nl \<equiv> [0x0A]"

subsection \<open>Strings\<close>

definition isSpace :: "u8 \<Rightarrow> bool" where
  "isSpace c \<longleftrightarrow> c = 0x20 \<or> c = 0x09 \<or> c = 0x0A \<or> c = 0x0A"

partial_function (option) trim_start :: "u64 \<Rightarrow> cmem \<Rightarrow> u64 option" where
  "trim_start src m = (if isSpace (m src) then trim_start (src + 1) m else Some src)"

partial_function (option) trim_end :: "u64 \<Rightarrow> u64 \<Rightarrow> cmem \<Rightarrow> cmem option" where
  "trim_end src p m = (if p > src \<and> isSpace (m p) then trim_end src (p - 1) (m(p := 0)) else Some m)"

declare trim_start.simps [code] trim_end.simps [code]

definition trim :: "u64 \<Rightarrow> cmem \<Rightarrow> cmem option" where
  "trim input m = do {
     src \<leftarrow> trim_start input m;
     n \<leftarrow> strlen src m;
     m \<leftarrow> trim_end src (src + n - 1) m;
     if src \<noteq> input then kstrcpy_loop input src m else Some m
   }"

text \<open>The length of a string as the \<open>int\<close> that it is assigned to.\<close>

definition int_len :: "u64 \<Rightarrow> 'k user_state \<Rightarrow> u32 option" where
  "int_len p s = map_option ucast (strlen p (umem s))"

text \<open>The loop of \<open>tokenizeWithKey\<close> over what is left of \<open>len\<close>: where it stops, how many bytes it passed
  and whether it saw the key behind the first byte.\<close>

fun token_loop :: "nat \<Rightarrow> u8 \<Rightarrow> u64 \<Rightarrow> u64 \<Rightarrow> bool \<Rightarrow> cmem \<Rightarrow> u64 \<times> u64 \<times> bool" where
  "token_loop 0 key srcPtr count found m = (srcPtr, count, found)"
| "token_loop (Suc n) key srcPtr count found m =
     (if m srcPtr \<noteq> key
      then token_loop n key (srcPtr + 1) (count + 1) (found \<or> m (srcPtr + 1) = key) m
      else (srcPtr, count, found))"

text \<open>\<open>before\<close> is the address of the caller's pointer, which is written only when the string is not empty.\<close>

definition tokenizeWithKey ::
  "'k kernel \<Rightarrow> u64 \<Rightarrow> u8 \<Rightarrow> u64 \<Rightarrow> 'k user_state \<Rightarrow> (u64 \<times> 'k user_state) option" where
  "tokenizeWithKey K inputString key before s = do {
     len \<leftarrow> int_len inputString s;
     let (srcPtr, count, found) = token_loop (nat (sint len)) key inputString 0 False (umem s);
     s \<leftarrow> on_mem (trim inputString) s;
     len \<leftarrow> int_len inputString s;
     s \<leftarrow> (if sint len > 0 then do {
             (p, s) \<leftarrow> malloc K (scast len) s;
             let s = ustore 8 before p s;
             let s = uclear p (scast len) s;
             Some (s\<lparr>umem := kstrncpy p inputString count (umem s)\<rparr>)
           }
           else Some s);
     if found then do { s \<leftarrow> on_mem (trim (srcPtr + 1)) s; Some (srcPtr + 1, s) }
     else Some (0, s)
   }"

partial_function (option) getValue_loop :: "u64 \<Rightarrow> u64 \<Rightarrow> bool \<Rightarrow> cmem \<Rightarrow> (u64 \<times> cmem) option" where
  "getValue_loop keyvalue v found m =
     (if m keyvalue = 0 then Some (v, m)
      else let c = m (keyvalue + 1); found = (found \<or> c = 0x3D)
        in if found then getValue_loop (keyvalue + 1) (v + 1) found (m(v := c))
           else getValue_loop (keyvalue + 1) v found m)"

declare getValue_loop.simps [code]

text \<open>\<open>getValue\<close> returns the pointer behind what it has copied.\<close>

definition getValue :: "'k kernel \<Rightarrow> u64 \<Rightarrow> 'k user_state \<Rightarrow> (u64 \<times> 'k user_state) option" where
  "getValue K keyvalue s = do {
     n \<leftarrow> strlen keyvalue (umem s);
     (v, s) \<leftarrow> malloc K n s;
     let s = uclear v n s;
     (v, m) \<leftarrow> getValue_loop keyvalue v False (umem s);
     Some (v, s\<lparr>umem := m\<rparr>)
   }"

subsection \<open>The environment\<close>

definition getEnvironment ::
  "'k kernel \<Rightarrow> shell_frame \<Rightarrow> bytes \<Rightarrow> u64 \<Rightarrow> 'k user_state \<Rightarrow> (u64 \<times> 'k user_state) option" where
  "getEnvironment K F key env s = do {
     s \<leftarrow> on_mem (kstrcpy (l_env_token F) (uload 8 env s)) s;
     (res, s) \<leftarrow> tokenizeWithKey K (l_env_token F) 0x3D (l_env_before F) s;
     Some (if lit_eq key (uload 8 (l_env_before F) s) (umem s) then res else 0, s)
   }"

definition setPath :: "'k kernel \<Rightarrow> shell_globals \<Rightarrow> u64 \<Rightarrow> u64 \<Rightarrow> 'k user_state \<Rightarrow> 'k user_state option" where
  "setPath K G envp newval s = do {
     s \<leftarrow> print K G (str_bytes ''In setpath %s   %s'' @ nl) [newval, uload 8 envp s] s;
     s \<leftarrow> on_mem (trim (uload 8 envp s)) s;
     n1 \<leftarrow> strlen (uload 8 envp s) (umem s);
     n2 \<leftarrow> (if newval = 0 then None else strlen newval (umem s));
     let len = (ucast (n1 + n2 + 1) :: u32);
     (str, s) \<leftarrow> malloc K (scast len) s;
     let s = uclear str (scast len) s;
     s \<leftarrow> on_mem (kstrcpy str (uload 8 envp s)) s;
     s \<leftarrow> print K G (str_bytes ''str 1 %s'' @ nl) [str] s;
     let s = uclear (uload 8 envp s) 1024 s;
     s \<leftarrow> on_mem (strcat_lit str (str_bytes '':'')) s;
     s \<leftarrow> on_mem (strcat str newval) s;
     s \<leftarrow> print K G (str_bytes ''str 2 %s'' @ nl) [str] s;
     s \<leftarrow> on_mem (kstrcpy (uload 8 envp s) str) s;
     s \<leftarrow> print K G (str_bytes ''str 3 %s'' @ nl) [str] s;
     print K G (str_bytes ''new envp %s '' @ nl) [uload 8 envp s] s
   }"

definition printEnvironments :: "'k kernel \<Rightarrow> shell_globals \<Rightarrow> u64 \<Rightarrow> 'k user_state \<Rightarrow> 'k user_state option" where
  "printEnvironments K G envp s = do {
     s \<leftarrow> print K G (nl @ nl @ nl @ nl @ nl @ str_bytes '' environments are '' @ nl) [] s;
     print K G (str_bytes ''%s'' @ nl) [uload 8 envp s] s
   }"

text \<open>\<open>getPATH\<close> starts at the second entry and looks at the entry behind the one it has tested.\<close>

partial_function (option) getPATH ::
  "'k kernel \<Rightarrow> shell_globals \<Rightarrow> shell_frame \<Rightarrow> u64 \<Rightarrow> 'k user_state \<Rightarrow> 'k user_state option" where
  "getPATH K G F envp s =
     (if uload 8 envp s = 0 then Some s
      else do {
        let envp = envp + 8;
        k \<leftarrow> (if uload 8 envp s = 0 then None else strstr_lit (uload 8 envp s) (str_bytes ''PATH'') (umem s));
        s \<leftarrow> (if k \<noteq> 0 then do {
                s \<leftarrow> on_mem (kstrcpy (l_path_token F) (uload 8 envp s)) s;
                (v, s) \<leftarrow> tokenizeWithKey K (l_path_token F) 0x3D (l_path_before F) s;
                if v = 0 then None else on_mem (kstrcpy (sv_path G) v) s
              }
              else Some s);
        getPATH K G F envp s
      })"

declare getPATH.simps [code]

definition changeDirectory ::
  "'k kernel \<Rightarrow> shell_globals \<Rightarrow> shell_frame \<Rightarrow> u64 \<Rightarrow> u64 \<Rightarrow> 'k user_state \<Rightarrow> 'k user_state option" where
  "changeDirectory K G F newdir env s = do {
     s \<leftarrow> (if newdir = 0 then do {
             (v, s) \<leftarrow> getEnvironment K F (str_bytes ''HOME'') env s;
             if v = 0 then None else on_mem (kstrcpy (l_new F) v) s
           }
           else on_mem (kstrcpy (l_new F) newdir) s);
     (r, s) \<leftarrow> chdir K (l_new F) s;
     if r = - 1 then print K G (str_bytes '' %s: no such directory '' @ nl) [l_new F] s else Some s
   }"

text \<open>The path of a command: the first entry of \<open>PATH\<close> under which it can be opened.\<close>

partial_function (option) search_path ::
  "'k kernel \<Rightarrow> shell_frame \<Rightarrow> u64 \<Rightarrow> u64 \<Rightarrow> 'k user_state \<Rightarrow> (u64 \<times> 'k user_state) option" where
  "search_path K F cmd after s =
     (if after = 0 then Some (0, s)
      else do {
        (abspath, s) \<leftarrow> malloc K MAX_LEN s;
        let s = uclear abspath MAX_LEN s;
        (after, s) \<leftarrow> tokenizeWithKey K after 0x3A (l_abs_before F) s;
        s \<leftarrow> on_mem (kstrcpy abspath (uload 8 (l_abs_before F) s)) s;
        s \<leftarrow> on_mem (strcat_lit abspath (str_bytes ''/'')) s;
        s \<leftarrow> on_mem (strcat abspath cmd) s;
        s \<leftarrow> on_mem (trim abspath) s;
        (filedesc, s) \<leftarrow> open_file K abspath 0 s;
        if sint filedesc \<ge> 0 then do { (_, s) \<leftarrow> close K filedesc s; Some (abspath, s) }
        else search_path K F cmd after s
      })"

declare search_path.simps [code]

definition getAbsolutePath ::
  "'k kernel \<Rightarrow> shell_frame \<Rightarrow> u64 \<Rightarrow> u64 \<Rightarrow> 'k user_state \<Rightarrow> (u64 \<times> 'k user_state) option" where
  "getAbsolutePath K F cmd envp s =
     (if cmd = 0 then None
      else if lit_eq (str_bytes ''exit'') cmd (umem s) then Some (cmd, s)
      else do {
        k \<leftarrow> strstr_lit cmd (str_bytes ''/'') (umem s);
        if k \<noteq> 0 then Some (cmd, s)
        else do {
          (env_path, s) \<leftarrow> malloc K MAX_LEN s;
          let s = uclear env_path MAX_LEN s;
          (v, s) \<leftarrow> getEnvironment K F (str_bytes ''PATH'') envp s;
          s \<leftarrow> (if v = 0 then None else on_mem (kstrcpy env_path v) s);
          search_path K F cmd env_path s
        }
      })"

subsection \<open>Reading a line\<close>

definition printPrompt :: "'k kernel \<Rightarrow> shell_globals \<Rightarrow> 'k user_state \<Rightarrow> 'k user_state option" where
  "printPrompt K G s = do {
     n \<leftarrow> strlen (sv_PS1 G) (umem s);
     if n < 2 then print K G (str_bytes ''$ '') [] s else print K G (str_bytes ''%s$ '') [sv_PS1 G] s
   }"

definition welcome_banner :: "'k kernel \<Rightarrow> shell_globals \<Rightarrow> 'k user_state \<Rightarrow> 'k user_state option" where
  "welcome_banner K G s = do {
     s \<leftarrow> print K G (nl @ str_bytes ''-------------------------------------------------'' @ nl) [] s;
     s \<leftarrow> print K G ([0x09] @ str_bytes ''Welcome to SBUSH '' @ nl) [] s;
     s \<leftarrow> print K G (str_bytes ''-------------------------------------------------'' @ nl) [] s;
     print K G (nl @ nl) [] s
   }"

definition store_char :: "u64 \<Rightarrow> u32 \<Rightarrow> u8 \<Rightarrow> 'k user_state \<Rightarrow> 'k user_state" where
  "store_char p i c s = s\<lparr>umem := (umem s)(p + scast i := c)\<rparr>"

text \<open>The loop of \<open>readInput\<close>: the result is the value returned.\<close>

partial_function (option) read_loop ::
  "'k kernel \<Rightarrow> shell_globals \<Rightarrow> shell_frame \<Rightarrow> u64 \<Rightarrow> u32 \<Rightarrow> bool \<Rightarrow> 'k user_state \<Rightarrow> (u32 \<times> 'k user_state) option" where
  "read_loop K G F input_line i pipeFound s =
     (if umem s (l_c F) \<noteq> 0x0A \<or> pipeFound
      then do {
        (_, s) \<leftarrow> scanf K (sv_scan_data G) (str_bytes ''%c'') [l_c F] s;
        let c = umem s (l_c F);
        if pipeFound \<and> c = 0x7C then do {
          s \<leftarrow> print K G (str_bytes ''-bash: syntax error near unexpected token | '' @ nl) [] s;
          Some (0, s)
        }
        else do {
          s \<leftarrow> (if c = 0x0A \<and> pipeFound then print K G (str_bytes ''>'') [] s else Some s);
          let (i, s) = (if c = 0x08 then (i - 1, store_char input_line (i - 1) 0 s)
                        else if c \<noteq> 0x0A then (i + 1, store_char input_line i c s)
                        else (i, s));
          read_loop K G F input_line i (c = 0x7C \<or> (pipeFound \<and> \<not> (c \<noteq> 0x20 \<and> c \<noteq> 0x0A))) s
        }
      }
      else Some (if sint i < 1 then 0 else 1, store_char input_line i 0 s))"

declare read_loop.simps [code]

definition readInput ::
  "'k kernel \<Rightarrow> shell_globals \<Rightarrow> shell_frame \<Rightarrow> u64 \<Rightarrow> 'k user_state \<Rightarrow> (u32 \<times> 'k user_state) option" where
  "readInput K G F input_line s = read_loop K G F input_line 0 False (s\<lparr>umem := (umem s)(l_c F := 0x20)\<rparr>)"

subsection \<open>Splitting a line\<close>

text \<open>The inner loops: the number of bytes up to a space or a bar, and the erased spaces.\<close>

fun word_loop :: "nat \<Rightarrow> u64 \<Rightarrow> cmem \<Rightarrow> nat" where
  "word_loop 0 srcPtr m = 0"
| "word_loop (Suc n) srcPtr m =
     (if m srcPtr \<noteq> 0x20 \<and> m srcPtr \<noteq> 0x7C then Suc (word_loop n (srcPtr + 1) m) else 0)"

fun space_loop :: "nat \<Rightarrow> u64 \<Rightarrow> cmem \<Rightarrow> nat \<times> cmem" where
  "space_loop 0 srcPtr m = (0, m)"
| "space_loop (Suc n) srcPtr m =
     (if m srcPtr = 0x20 then let (k, m) = space_loop n (srcPtr + 1) (m(srcPtr := 0)) in (Suc k, m) else (0, m))"

text \<open>A word goes into a block of its own, \<open>len\<close> bytes of which 1024 are cleared; the result is the number
  of arguments.\<close>

definition store_word ::
  "'k kernel \<Rightarrow> shell_globals \<Rightarrow> u64 \<Rightarrow> nat \<Rightarrow> nat \<Rightarrow> nat \<Rightarrow> 'k user_state \<Rightarrow> (nat \<times> 'k user_state) option" where
  "store_word K G str count cmdcount argcount s = do {
     s \<leftarrow> on_mem (trim str) s;
     len \<leftarrow> int_len str s;
     if sint len > 0 \<and> count > 0 then do {
       (p, s) \<leftarrow> malloc K (scast len) s;
       let s = set_cmd G cmdcount argcount p s;
       let s = uclear (get_cmd G cmdcount argcount s) 1024 s;
       Some (argcount + 1, s\<lparr>umem := kstrncpy (get_cmd G cmdcount argcount s) str (of_nat count) (umem s)\<rparr>)
     }
     else Some (argcount, s)
   }"

text \<open>The rounds of \<open>parseCommand\<close>: \<open>n\<close> is \<open>len - i\<close>, which a bar does not lower.\<close>

partial_function (option) parse_loop ::
  "'k kernel \<Rightarrow> shell_globals \<Rightarrow> nat \<Rightarrow> u64 \<Rightarrow> u64 \<Rightarrow> nat \<Rightarrow> nat \<Rightarrow> 'k user_state \<Rightarrow> (nat \<times> 'k user_state) option" where
  "parse_loop K G n srcPtr str cmdcount argcount s =
     (if n = 0 then Some (cmdcount, s)
      else do {
        s \<leftarrow> (if str \<noteq> 0 then do { l \<leftarrow> strlen str (umem s); Some (uclear str l s) } else Some s);
        let str = srcPtr;
        let count = word_loop n srcPtr (umem s);
        let n = n - count;
        let srcPtr = srcPtr + of_nat count;
        let found = (umem s srcPtr = 0x7C);
        (argcount, s) \<leftarrow> store_word K G str count cmdcount argcount s;
        let (cmdcount, argcount, srcPtr) =
          (if found then (cmdcount + 1, 0, srcPtr + 1) else (cmdcount, argcount, srcPtr));
        let (k, m) = space_loop n srcPtr (umem s);
        parse_loop K G (n - k) (srcPtr + of_nat k) str cmdcount argcount (s\<lparr>umem := m\<rparr>)
      })"

declare parse_loop.simps [code]

definition parseCommand :: "'k kernel \<Rightarrow> shell_globals \<Rightarrow> u64 \<Rightarrow> 'k user_state \<Rightarrow> (nat \<times> 'k user_state) option" where
  "parseCommand K G inputString s = do {
     len \<leftarrow> int_len inputString s;
     (cmdcount, s) \<leftarrow> parse_loop K G (nat (sint len)) inputString 0 0 0 s;
     Some (cmdcount + 1, ustore 4 (sv_cmdcount G) (of_nat cmdcount) s)
   }"

subsection \<open>Commands\<close>

text \<open>\<open>strcmp(lit, cmd) == 0\<close> on a pointer that may be NULL.\<close>

definition is_cmd :: "string \<Rightarrow> u64 \<Rightarrow> 'k user_state \<Rightarrow> bool" where
  "is_cmd lit cmd s = lit_eq (str_bytes lit) cmd (umem s)"

partial_function (option) ps1_loop :: "shell_globals \<Rightarrow> u64 \<Rightarrow> nat \<Rightarrow> 'k user_state \<Rightarrow> 'k user_state option" where
  "ps1_loop G temp i s =
     (if get_cmd G 0 i s \<noteq> 0 then do {
        s \<leftarrow> on_mem (strcat temp (get_cmd G 0 i s)) s;
        s \<leftarrow> on_mem (strcat_lit temp (str_bytes '' '')) s;
        ps1_loop G temp (i + 1) s
      }
      else Some s)"

declare ps1_loop.simps [code]

definition set_PS1 :: "'k kernel \<Rightarrow> shell_globals \<Rightarrow> shell_frame \<Rightarrow> 'k user_state \<Rightarrow> 'k user_state option" where
  "set_PS1 K G F s = do {
     let s = uclear (l_temp F) MAX_LEN s;
     s \<leftarrow> (if get_cmd G 0 2 s = 0 then print K G (str_bytes ''Usage: set PS1 <prompt string>'' @ nl) [] s
          else Some s);
     s \<leftarrow> ps1_loop G (l_temp F) 2 s;
     on_mem (kstrcpy (sv_PS1 G) (l_temp F)) s
   }"

text \<open>The commands that the shell runs itself.  \<open>scr\<close> is \<open>executeScript\<close>; the result is 1 when the command
  has been handled.\<close>

definition builtin ::
  "'k kernel \<Rightarrow> shell_globals \<Rightarrow> (u64 \<Rightarrow> u64 \<Rightarrow> 'k user_state \<Rightarrow> 'k user_state option) \<Rightarrow>
    u64 \<Rightarrow> u64 \<Rightarrow> 'k user_state \<Rightarrow> (u32 \<times> 'k user_state) option" where
  "builtin K G scr cmd env s = do {
     k \<leftarrow> strstr_lit cmd (str_bytes ''.sbush'') (umem s);
     if k \<noteq> 0 then do { s \<leftarrow> scr cmd env s; Some (1, s) }
     else if is_cmd ''env'' cmd s then do { s \<leftarrow> printEnvironments K G env s; Some (1, s) }
     else if is_cmd ''$PATH'' cmd s then do { s \<leftarrow> print K G (str_bytes ''%s'' @ nl) [uload 8 env s] s; Some (1, s) }
     else do {
       s \<leftarrow> (if is_cmd ''exit'' cmd s
            then do { s \<leftarrow> print K G (str_bytes ''in exit'' @ nl) [] s; (_, s) \<leftarrow> exit K 1 s; Some s }
            else Some s);
       if is_cmd ''clear'' cmd s
       then do { s \<leftarrow> print K G (str_bytes ''clear '' @ nl) [] s; s \<leftarrow> cls K s; Some (1, s) }
       else if is_cmd ''pwd'' cmd s then do {
         (buf, s) \<leftarrow> malloc K 1024 s;
         (r, s) \<leftarrow> getcwd K buf 1024 s;
         s \<leftarrow> (if r \<noteq> 0 then print K G (str_bytes ''%s'' @ nl) [buf] s
              else print K G (str_bytes ''getcwd() error : '') [] s);
         Some (1, s)
       }
       else if is_cmd ''echo'' cmd s
       then do { s \<leftarrow> print K G (str_bytes ''%s'' @ nl) [get_cmd G 0 1 s] s; Some (1, s) }
       else Some (0, s)
     }
   }"

definition handleCommand ::
  "'k kernel \<Rightarrow> shell_globals \<Rightarrow> shell_frame \<Rightarrow> (u64 \<Rightarrow> u64 \<Rightarrow> 'k user_state \<Rightarrow> 'k user_state option) \<Rightarrow>
    u64 \<Rightarrow> u64 \<Rightarrow> u64 \<Rightarrow> 'k user_state \<Rightarrow> (u32 \<times> 'k user_state) option" where
  "handleCommand K G F scr cmd args env s =
     (if cmd = 0 then None
      else if is_cmd ''set'' cmd s \<and> args \<noteq> 0 then do {
        k \<leftarrow> strstr_lit args (str_bytes ''PS1'') (umem s);
        if k \<noteq> 0 then do { s \<leftarrow> set_PS1 K G F s; Some (1, s) }
        else do {
          k \<leftarrow> strstr_lit args (str_bytes ''PATH'') (umem s);
          if k \<noteq> 0 then do { s \<leftarrow> setPath K G env (get_cmd G 0 2 s) s; Some (1, s) }
          else builtin K G scr cmd env s
        }
      }
      else builtin K G scr cmd env s)"

subsection \<open>Running programs\<close>

text \<open>\<open>fork\<close> returns once in this model: the kernel decides whether the process is the parent or the
  child.  A call of \<open>exit\<close> or a successful \<open>execve\<close> that does not return is \<open>None\<close>.\<close>

definition exec_or_error :: "'k kernel \<Rightarrow> shell_globals \<Rightarrow> u64 \<Rightarrow> u64 \<Rightarrow> u64 \<Rightarrow> 'k user_state \<Rightarrow> 'k user_state option" where
  "exec_or_error K G cmd argv env s = do {
     (r, s) \<leftarrow> execve K cmd argv env s;
     if r = - 1 then serror K (sv_printf_buf G) (errno s) s else Some s
   }"

definition executeProcess ::
  "'k kernel \<Rightarrow> shell_globals \<Rightarrow> shell_frame \<Rightarrow> (u64 \<Rightarrow> u64 \<Rightarrow> 'k user_state \<Rightarrow> 'k user_state option) \<Rightarrow>
    u64 \<Rightarrow> 'k user_state \<Rightarrow> 'k user_state option" where
  "executeProcess K G F scr env s = do {
     let s = ustore 4 (l_status F) 0 s;
     (handled, s) \<leftarrow> handleCommand K G F scr (get_cmd G 0 0 s) (get_cmd G 0 1 s) env s;
     if handled = 1 then Some s
     else do {
       (p, s) \<leftarrow> getAbsolutePath K F (get_cmd G 0 0 s) env s;
       if p = 0 then print K G (str_bytes ''%s: Command not found. '' @ nl) [get_cmd G 0 0 s] s
       else do {
         (p, s) \<leftarrow> getAbsolutePath K F (get_cmd G 0 0 s) env s;
         s \<leftarrow> (if p = 0 then None else on_mem (kstrcpy (l_cmd F) p) s);
         (pid, s) \<leftarrow> fork K s;
         s \<leftarrow> (if pid = 0 then do {
                 s \<leftarrow> exec_or_error K G (l_cmd F) (cmd_slot G 0 0) env s;
                 (_, s) \<leftarrow> exit K 1 s;
                 Some s
               }
               else Some s);
         s \<leftarrow> (if get_cmd G 0 1 s \<noteq> 0 \<and> is_cmd ''&'' (get_cmd G 0 1 s) s then Some s
              else do { (_, s) \<leftarrow> waitpid K pid (l_status F) 0 s; Some s });
         Some (set_cmd G 0 1 0 s)
       }
     }
   }"

text \<open>A pipe: first every command is looked up, then a child starts one process per stage but the last,
  each with its input from the previous pipe and its output to its own, and runs the last stage itself.\<close>

fun find_commands ::
  "'k kernel \<Rightarrow> shell_globals \<Rightarrow> shell_frame \<Rightarrow> u64 \<Rightarrow> nat \<Rightarrow> nat \<Rightarrow> bool \<Rightarrow> 'k user_state \<Rightarrow> (bool \<times> 'k user_state) option" where
  "find_commands K G F env 0 i found s = Some (found, s)"
| "find_commands K G F env (Suc n) i found s = do {
     (p, s) \<leftarrow> getAbsolutePath K F (get_cmd G i 0 s) env s;
     if p = 0 then do {
       s \<leftarrow> print K G (str_bytes ''%s: Command not found. '' @ nl) [get_cmd G i 0 s] s;
       find_commands K G F env n (i + 1) True s
     }
     else find_commands K G F env n (i + 1) found s
   }"

text \<open>What a stage does once its input and output are in place.\<close>

definition run_stage ::
  "'k kernel \<Rightarrow> shell_globals \<Rightarrow> shell_frame \<Rightarrow> (u64 \<Rightarrow> u64 \<Rightarrow> 'k user_state \<Rightarrow> 'k user_state option) \<Rightarrow>
    u64 \<Rightarrow> nat \<Rightarrow> 'k user_state \<Rightarrow> 'k user_state option" where
  "run_stage K G F scr env i s = do {
     (handled, s) \<leftarrow> handleCommand K G F scr (l_cmd F) (get_cmd G i 1 s) env s;
     s \<leftarrow> (if handled = 0 then exec_or_error K G (l_cmd F) (cmd_slot G i 0) env s else Some s);
     (_, s) \<leftarrow> exit K 1 s;
     Some s
   }"

definition copy_command ::
  "'k kernel \<Rightarrow> shell_globals \<Rightarrow> shell_frame \<Rightarrow> u64 \<Rightarrow> nat \<Rightarrow> 'k user_state \<Rightarrow> 'k user_state option" where
  "copy_command K G F env i s = do {
     (p, s) \<leftarrow> getAbsolutePath K F (get_cmd G i 0 s) env s;
     if p = 0 then None else on_mem (kstrcpy (l_cmd F) p) s
   }"

fun pipe_stages ::
  "'k kernel \<Rightarrow> shell_globals \<Rightarrow> shell_frame \<Rightarrow> (u64 \<Rightarrow> u64 \<Rightarrow> 'k user_state \<Rightarrow> 'k user_state option) \<Rightarrow>
    u64 \<Rightarrow> nat \<Rightarrow> nat \<Rightarrow> u32 \<Rightarrow> 'k user_state \<Rightarrow> (u32 \<times> 'k user_state) option" where
  "pipe_stages K G F scr env 0 i prev s = Some (prev, s)"
| "pipe_stages K G F scr env (Suc n) i prev s = do {
     (_, s) \<leftarrow> pipe K (l_fd F) s;
     (pid, s) \<leftarrow> fork K s;
     s \<leftarrow> (if pid = 0 then do {
             s \<leftarrow> (if prev \<noteq> 0 then map_option snd (dup2 K prev 0 s) else Some s);
             let out = (ucast (uload 4 (l_fd F + 4) s) :: u32);
             s \<leftarrow> (if out \<noteq> 1 then map_option snd (dup2 K out 1 s) else Some s);
             s \<leftarrow> copy_command K G F env i s;
             run_stage K G F scr env i s
           }
           else Some s);
     pipe_stages K G F scr env n (i + 1) (ucast (uload 4 (l_fd F) s)) s
   }"

fun clear_args :: "shell_globals \<Rightarrow> nat \<Rightarrow> nat \<Rightarrow> 'k user_state \<Rightarrow> 'k user_state" where
  "clear_args G 0 i s = s"
| "clear_args G (Suc n) i s = clear_args G n (i + 1) (set_cmd G i 1 0 s)"

definition executeProcessPipe ::
  "'k kernel \<Rightarrow> shell_globals \<Rightarrow> shell_frame \<Rightarrow> (u64 \<Rightarrow> u64 \<Rightarrow> 'k user_state \<Rightarrow> 'k user_state option) \<Rightarrow>
    nat \<Rightarrow> u64 \<Rightarrow> 'k user_state \<Rightarrow> 'k user_state option" where
  "executeProcessPipe K G F scr n env s = do {
     (missing, s) \<leftarrow> find_commands K G F env n 0 False s;
     if missing then Some s
     else do {
       (pid, s) \<leftarrow> fork K s;
       s \<leftarrow> (if pid = 0 then do {
               (prev, s) \<leftarrow> pipe_stages K G F scr env (n - 1) 0 0 s;
               s \<leftarrow> (if prev \<noteq> 0 then map_option snd (dup2 K prev 0 s) else Some s);
               s \<leftarrow> copy_command K G F env (n - 1) s;
               (_, s) \<leftarrow> sleep K 1 s;
               run_stage K G F scr env (n - 1) s
             }
             else Some s);
       (_, s) \<leftarrow> waitpid K pid (l_status F) 0 s;
       Some (clear_args G n 0 s)
     }
   }"

subsection \<open>Scripts and the main loop\<close>

text \<open>The loop of \<open>executeScript\<close> over the bytes of the file: \<open>run\<close> executes a parsed line.\<close>

definition script_line ::
  "'k kernel \<Rightarrow> shell_globals \<Rightarrow> (nat \<Rightarrow> 'k user_state \<Rightarrow> 'k user_state option) \<Rightarrow> u64 \<Rightarrow> 'k user_state \<Rightarrow> 'k user_state option" where
  "script_line K G run cmd s = do {
     k \<leftarrow> strstr_lit cmd (str_bytes ''#!'') (umem s);
     if k = 0 then do { (num_args, s) \<leftarrow> parseCommand K G cmd s; run num_args s } else Some s
   }"

partial_function (option) script_loop ::
  "'k kernel \<Rightarrow> shell_globals \<Rightarrow> shell_frame \<Rightarrow> (nat \<Rightarrow> 'k user_state \<Rightarrow> 'k user_state option) \<Rightarrow>
    u32 \<Rightarrow> u32 \<Rightarrow> u32 \<Rightarrow> 'k user_state \<Rightarrow> 'k user_state option" where
  "script_loop K G F run fh sz i s =
     (if sint sz > 0 then do {
        let c = umem s (l_script_buf F + scast (sz - 1));
        (i, s) \<leftarrow> (if c \<noteq> 0x0A then Some (i + 1, store_char (l_script_cmd F) i c s)
                   else do {
                     s \<leftarrow> script_line K G run (l_script_cmd F) (store_char (l_script_cmd F) i 0 s);
                     Some (0, s)
                   });
        let s = store_char (l_script_buf F) sz 0 s;
        (r, s) \<leftarrow> read_fd K fh (l_script_buf F) 1 s;
        script_loop K G F run fh (ucast r) i s
      }
      else Some s)"

declare script_loop.simps [code]

text \<open>A script can run scripts; the first argument bounds the nesting, and \<open>None\<close> is the result beyond it.\<close>

fun executeScript ::
  "nat \<Rightarrow> 'k kernel \<Rightarrow> shell_globals \<Rightarrow> (nat \<Rightarrow> shell_frame) \<Rightarrow> u64 \<Rightarrow> u64 \<Rightarrow> 'k user_state \<Rightarrow> 'k user_state option" where
  "executeScript 0 K G F script env s = None"
| "executeScript (Suc n) K G F script env s = do {
     (fh, s) \<leftarrow> open_file K script 0 s;
     (r, s) \<leftarrow> read_fd K fh (l_script_buf (F n)) 1 s;
     script_loop K G (F n)
       (\<lambda>num_args. if num_args = 1 then executeProcess K G (F n) (executeScript n K G F) env
                   else executeProcessPipe K G (F n) (executeScript n K G F) num_args env)
       fh (ucast r) 0 s
   }"

text \<open>The start of \<open>main\<close> and one round of its loop; \<open>d\<close> is the depth to which scripts may nest.\<close>

definition main_start ::
  "nat \<Rightarrow> 'k kernel \<Rightarrow> shell_globals \<Rightarrow> (nat \<Rightarrow> shell_frame) \<Rightarrow> u32 \<Rightarrow> u64 \<Rightarrow> u64 \<Rightarrow> 'k user_state \<Rightarrow> 'k user_state option" where
  "main_start d K G F argc argv envP s = do {
     (p, s) \<leftarrow> malloc K 1024 s;
     let s = ustore 8 (sv_envp G) p s;
     let s = uclear (uload 8 (sv_envp G) s) 1024 s;
     s \<leftarrow> on_mem (kstrcpy (uload 8 (sv_envp G) s) (uload 8 envP s)) s;
     if argc = 2 then executeScript d K G F (uload 8 (argv + 8) s) (sv_envp G) s
     else welcome_banner K G s
   }"

definition run_line ::
  "nat \<Rightarrow> 'k kernel \<Rightarrow> shell_globals \<Rightarrow> (nat \<Rightarrow> shell_frame) \<Rightarrow> nat \<Rightarrow> 'k user_state \<Rightarrow> 'k user_state option" where
  "run_line d K G F num_args s =
     (if num_args = 1 then executeProcess K G (F d) (executeScript d K G F) (sv_envp G) s
      else if num_args = 2 \<or> num_args = 3
      then executeProcessPipe K G (F d) (executeScript d K G F) num_args (sv_envp G) s
      else print K G (str_bytes ''more than 2 pipes not supported '' @ nl) [] s)"

definition main_round ::
  "nat \<Rightarrow> 'k kernel \<Rightarrow> shell_globals \<Rightarrow> (nat \<Rightarrow> shell_frame) \<Rightarrow> 'k user_state \<Rightarrow> 'k user_state option" where
  "main_round d K G F s = do {
     s \<leftarrow> printPrompt K G s;
     (ok, s) \<leftarrow> readInput K G (F d) (l_input_line (F d)) s;
     if ok = 1 then do {
       len \<leftarrow> int_len (l_input_line (F d)) s;
       if sint len < 1 then Some s
       else do { (num_args, s) \<leftarrow> parseCommand K G (l_input_line (F d)) s; run_line d K G F num_args s }
     }
     else Some s
   }"

fun main_rounds ::
  "nat \<Rightarrow> nat \<Rightarrow> 'k kernel \<Rightarrow> shell_globals \<Rightarrow> (nat \<Rightarrow> shell_frame) \<Rightarrow> 'k user_state \<Rightarrow> 'k user_state option" where
  "main_rounds 0 d K G F s = Some s"
| "main_rounds (Suc n) d K G F s = do { s \<leftarrow> main_round d K G F s; main_rounds n d K G F s }"

subsection \<open>White space\<close>

lemma small_result:
  assumes "n < 2 ^ 31"
  shows "ucast (of_nat n :: u64) = (of_nat n :: u32)" "sint (of_nat n :: u32) = int n"
  using assms by (simp_all add: unsigned_of_nat signed_of_nat take_bit_nat_eq_self) (simp add: signed_take_bit_int_eq_self)

lemma ucast_scast_u32: "(ucast (scast (x :: u32) :: u64) :: u32) = x"
  by (rule bit_word_eqI) (simp add: bit_simps)

text \<open>\<open>strip_end\<close> is the string without the white space at its end.\<close>

definition strip_end :: "bytes \<Rightarrow> bytes" where
  "strip_end xs = rev (dropWhile isSpace (rev xs))"

lemma isSpace_0 [simp]: "\<not> isSpace 0"
  by (simp add: isSpace_def)

lemma cstr_stored:
  "0 \<notin> set c \<Longrightarrow> length c < 2 ^ 64 \<Longrightarrow> m (b + of_nat (length c)) = 0 \<Longrightarrow> cstr (store_bytes c b m) b c"
proof (induction c arbitrary: b m)
  case (Cons x c)
  have "(m(b := x)) (b + 1 + of_nat (length c)) = 0"
  proof -
    have "b + 1 + of_nat (length c) \<noteq> b"
      using block_head [of "Suc (length c)" b] Cons.prems(2) in_block [of b "b + 1" "Suc (length c)"] by auto
    then show ?thesis using Cons.prems(3) by (simp add: add.assoc)
  qed
  then have "cstr (store_bytes c (b + 1) (m(b := x))) (b + 1) c" using Cons by simp
  moreover have "store_bytes (x # c) b m b = x" using Cons.prems(2) by (intro store_bytes_first) simp
  ultimately show ?case using Cons.prems(1) by simp
qed simp

lemma trim_start_cstr:
  "cstr m p xs \<Longrightarrow> trim_start p m = Some (p + of_nat (length (takeWhile isSpace xs))) \<and>
     cstr m (p + of_nat (length (takeWhile isSpace xs))) (dropWhile isSpace xs)"
proof (induction xs arbitrary: p)
  case Nil
  then show ?case by (simp add: trim_start.simps [of p])
next
  case (Cons x xs)
  then show ?case using Cons.IH [of "p + 1"] by (simp add: trim_start.simps [of p] add.assoc)
qed

lemma strip_end_snoc: "strip_end (xs @ [x]) = (if isSpace x then strip_end xs else xs @ [x])"
  by (simp add: strip_end_def)

lemma cstr_snoc_cut:
  assumes "cstr m p (xs @ [x])" and "length xs < 2 ^ 64"
  shows "cstr (m(p + of_nat (length xs) := 0)) p xs"
proof -
  have n: "\<forall>i < length xs. p + of_nat i \<noteq> p + of_nat (length xs)"
    using assms(2) by (auto dest: word_of_nat_u64_inj)
  have c: "\<forall>i < length xs. m (p + of_nat i) = xs ! i \<and> xs ! i \<noteq> 0"
    using assms(1) by (simp add: cstr_append)
  have "cstr (m(p + of_nat (length xs) := 0)) p (xs @ [])"
    unfolding cstr_append using n c by auto
  then show ?thesis by simp
qed

lemma trim_end_cstr:
  assumes "cstr m src xs" and "src \<noteq> 0" and "unat src + length xs < 2 ^ 64" and "xs \<noteq> [] \<Longrightarrow> \<not> isSpace (hd xs)"
  shows "\<exists>m'. trim_end src (src + of_nat (length xs) - 1) m = Some m' \<and> cstr m' src (strip_end xs) \<and>
    (\<forall>i. length (strip_end xs) \<le> i \<longrightarrow> i \<le> length xs \<longrightarrow> m' (src + of_nat i) = 0) \<and>
    (\<forall>a. a \<notin> set (block src (length xs)) \<longrightarrow> m' a = m a)"
  using assms
proof (induction xs arbitrary: m rule: rev_induct)
  case Nil
  then have "\<not> src - 1 > src" by (simp add: not_less word_le_nat_alt unat_minus_one)
  then show ?case using Nil by (simp add: trim_end.simps [of src] strip_end_def)
next
  case (snoc x xs)
  let ?p = "src + of_nat (length xs)"
  have p: "src + of_nat (length (xs @ [x])) - 1 = ?p" by simp
  have n: "length xs < 2 ^ 64" using snoc.prems(3) by simp
  have mp: "m ?p = x" using snoc.prems(1) by (simp add: cstr_append)
  have gt: "?p > src \<longleftrightarrow> xs \<noteq> []"
  proof -
    have "unat ?p = unat src + length xs"
      using snoc.prems(3) by (simp add: unat_word_ariths unat_of_nat take_bit_nat_eq_self)
    then show ?thesis by (simp add: word_less_nat_alt)
  qed
  show ?case
  proof (cases "xs \<noteq> [] \<and> isSpace x")
    case True
    let ?m = "m(?p := 0)"
    have "\<exists>m'. trim_end src (src + of_nat (length xs) - 1) ?m = Some m' \<and> cstr m' src (strip_end xs) \<and>
        (\<forall>i. length (strip_end xs) \<le> i \<longrightarrow> i \<le> length xs \<longrightarrow> m' (src + of_nat i) = 0) \<and>
        (\<forall>a. a \<notin> set (block src (length xs)) \<longrightarrow> m' a = ?m a)"
      using snoc.prems True by (intro snoc.IH cstr_snoc_cut [OF _ n]) auto
    then obtain m' where m': "trim_end src (src + of_nat (length xs) - 1) ?m = Some m'" "cstr m' src (strip_end xs)"
      "\<forall>a. a \<notin> set (block src (length xs)) \<longrightarrow> m' a = ?m a"
      and z: "\<forall>i. length (strip_end xs) \<le> i \<longrightarrow> i \<le> length xs \<longrightarrow> m' (src + of_nat i) = 0" by blast
    have out: "src + of_nat (Suc (length xs)) \<notin> set (block src (length xs))" "src + of_nat (Suc (length xs)) \<noteq> ?p"
      unfolding in_block using snoc.prems(3) by (auto dest!: word_of_nat_u64_inj simp del: of_nat_Suc)
    have "m (src + of_nat (Suc (length xs))) = 0"
      using snoc.prems(1) by (simp add: cstr_append add.commute add.left_commute)
    then have "m' (src + of_nat (Suc (length xs))) = 0" using m'(3) out by (simp del: of_nat_Suc)
    then have z': "\<forall>i. length (strip_end xs) \<le> i \<longrightarrow> i \<le> Suc (length xs) \<longrightarrow> m' (src + of_nat i) = 0"
      using z by (metis le_Suc_eq)
    have "trim_end src ?p m = Some m'"
      using m'(1) True gt mp by (simp add: trim_end.simps [of src ?p])
    moreover have "m' a = m a" if a: "a \<notin> set (block src (length (xs @ [x])))" for a
    proof -
      have "a \<noteq> ?p" "a \<notin> set (block src (length xs))" using a by (auto simp: block_conv)
      then show ?thesis using m'(3) by simp
    qed
    ultimately show ?thesis using m'(2) True z' unfolding p by (simp add: strip_end_snoc)
  next
    case False
    then have "trim_end src ?p m = Some m" using gt mp by (auto simp: trim_end.simps [of src ?p])
    moreover have "\<not> isSpace x" using False snoc.prems(4) by (cases xs) auto
    moreover have "m (src + of_nat (Suc (length xs))) = 0"
      using snoc.prems(1) by (simp add: cstr_append add.commute add.left_commute)
    ultimately show ?thesis using snoc.prems(1) unfolding p by (simp add: strip_end_snoc del: of_nat_Suc)
  qed
qed

lemma kstrcpy_loop_down:
  assumes "cstr m src xs" and "dest < src" and "unat src + length xs < 2 ^ 64"
  shows "\<exists>m'. kstrcpy_loop dest src m = Some m' \<and> cstr m' dest xs \<and>
    (\<forall>a. a \<notin> set (block dest (Suc (length xs))) \<longrightarrow> m' a = m a)"
  using assms
proof (induction xs arbitrary: m src dest)
  case Nil
  then show ?case by (simp add: kstrcpy_loop.simps [of dest])
next
  case (Cons x xs)
  let ?m = "m(dest := x)"
  have u: "unat (src + 1) = unat src + 1" "unat (dest + 1) = unat dest + 1"
    using Cons.prems(2,3) by (simp_all add: unat_word_ariths word_less_nat_alt)
  have far: "dest \<notin> set (block (src + 1) (Suc (length xs)))"
  proof
    assume "dest \<in> set (block (src + 1) (Suc (length xs)))"
    then obtain i where i: "i < Suc (length xs)" "dest = src + 1 + of_nat i" unfolding in_block by blast
    then have "unat dest = unat src + 1 + i"
      using Cons.prems(3) u(1) by (simp add: unat_word_ariths unat_of_nat take_bit_nat_eq_self)
    then show False using Cons.prems(2) by (simp add: word_less_nat_alt)
  qed
  have "cstr ?m (src + 1) xs"
    using Cons.prems(1) far by (subst cstr_cong [of "src + 1" xs ?m m]) auto
  moreover have "dest + 1 < src + 1" using Cons.prems(2) u by (simp add: word_less_nat_alt)
  moreover have "unat (src + 1) + length xs < 2 ^ 64" using Cons.prems(3) u by simp
  ultimately obtain m' where m': "kstrcpy_loop (dest + 1) (src + 1) ?m = Some m'" "cstr m' (dest + 1) xs"
    "\<forall>a. a \<notin> set (block (dest + 1) (Suc (length xs))) \<longrightarrow> m' a = ?m a"
    using Cons.IH by blast
  have "dest \<notin> set (block (dest + 1) (Suc (length xs)))"
    using Cons.prems(3) by (intro block_head) simp
  then have "m' dest = x" using m'(3) by simp
  moreover have "kstrcpy_loop dest src m = Some m'"
    using m'(1) Cons.prems(1) by (simp add: kstrcpy_loop.simps [of dest])
  ultimately show ?case using m'(2,3) Cons.prems(1) by (intro exI [of _ m']) simp
qed

lemma trim_cstr:
  assumes s: "cstr m p xs" and p: "p \<noteq> 0" "unat p + length xs < 2 ^ 64"
  defines "c \<equiv> strip_end (dropWhile isSpace xs)" and "k \<equiv> length (takeWhile isSpace xs)"
  shows "\<exists>m'. trim p m = Some m' \<and> cstr m' p c \<and>
    (\<forall>i. k + length c \<le> i \<longrightarrow> i \<le> length xs \<longrightarrow> m' (p + of_nat i) = 0) \<and>
    (\<forall>i. length c < i \<longrightarrow> k \<le> i \<longrightarrow> i < k + length c \<longrightarrow> m' (p + of_nat i) = c ! (i - k)) \<and>
    (\<forall>a. a \<notin> set (block p (length xs)) \<longrightarrow> m' a = m a)"
proof -
  define ys where "ys = dropWhile isSpace xs"
  have c: "c = strip_end ys" by (simp add: c_def ys_def)
  let ?src = "p + of_nat k"
  have len: "k + length ys = length xs"
    unfolding k_def ys_def by (metis length_append takeWhile_dropWhile_id)
  have src: "trim_start p m = Some ?src" "cstr m ?src ys"
    using trim_start_cstr [OF s] by (simp_all add: k_def ys_def)
  have u: "unat ?src = unat p + k"
    using p(2) len by (simp add: unat_word_ariths unat_of_nat take_bit_nat_eq_self)
  have nz: "?src \<noteq> 0" using u p(1) by (metis add_is_0 unat_0 unat_eq_zero)
  have hd: "ys \<noteq> [] \<Longrightarrow> \<not> isSpace (hd ys)" unfolding ys_def by (rule hd_dropWhile)
  obtain m1 where m1: "trim_end ?src (?src + of_nat (length ys) - 1) m = Some m1" "cstr m1 ?src (strip_end ys)"
    "\<forall>i. length (strip_end ys) \<le> i \<longrightarrow> i \<le> length ys \<longrightarrow> m1 (?src + of_nat i) = 0"
    "\<forall>a. a \<notin> set (block ?src (length ys)) \<longrightarrow> m1 a = m a"
    using trim_end_cstr [OF src(2) nz _ hd] u p(2) len by auto
  have sub: "set (block ?src (length ys)) \<subseteq> set (block p (length xs))"
  proof
    fix a assume "a \<in> set (block ?src (length ys))"
    then obtain i where "i < length ys" "a = p + of_nat (k + i)" unfolding in_block by (auto simp: add.assoc)
    then show "a \<in> set (block p (length xs))" using len unfolding in_block by (intro exI [of _ "k + i"]) simp
  qed
  have keep: "\<forall>a. a \<notin> set (block p (length xs)) \<longrightarrow> m1 a = m a" using m1(4) sub by blast
  have tail: "m1 (p + of_nat i) = 0" if "k + length c \<le> i" "i \<le> length xs" for i
  proof -
    have "length (strip_end ys) \<le> i - k" "i - k \<le> length ys" using that len c by auto
    then have "m1 (?src + of_nat (i - k)) = 0" using m1(3) by blast
    then show ?thesis using that by (simp add: add.assoc flip: of_nat_add)
  qed
  have le: "length (strip_end ys) \<le> length ys"
    by (simp add: strip_end_def) (metis length_dropWhile_le length_rev)
  show ?thesis
  proof (cases "k = 0")
    case True
    then show ?thesis using src(1) m1(1,2) keep tail strlen_cstr [OF src(2)]
      by (intro exI [of _ m1]) (simp add: trim_def c)
  next
    case False
    have "p < ?src" using u False by (simp add: word_less_nat_alt)
    moreover have "unat ?src + length (strip_end ys) < 2 ^ 64" using u le len p(2) by simp
    ultimately obtain m2 where m2: "kstrcpy_loop p ?src m1 = Some m2" "cstr m2 p (strip_end ys)"
      "\<forall>a. a \<notin> set (block p (Suc (length (strip_end ys)))) \<longrightarrow> m2 a = m1 a"
      using kstrcpy_loop_down [OF m1(2)] by blast
    have "set (block p (Suc (length (strip_end ys)))) \<subseteq> set (block p (length xs))"
      using le len False by (intro block_mono) simp
    then have "\<forall>a. a \<notin> set (block p (length xs)) \<longrightarrow> m2 a = m a" using m2(3) keep by auto
    moreover have left: "m2 (p + of_nat i) = c ! (i - k)" if "length c < i" "k \<le> i" "i < k + length c" for i
    proof -
      have "p + of_nat i \<notin> set (block p (Suc (length (strip_end ys))))"
        unfolding in_block using that c le len p(2) by (auto dest!: word_of_nat_u64_inj)
      moreover have "\<forall>j < length c. m1 (?src + of_nat j) = c ! j" using m1(2) cstr_append [of m1 ?src c "[]"] by (simp add: c)
      moreover have "?src + of_nat (i - k) = p + of_nat i" "i - k < length c" using that by simp_all
      ultimately have "m1 (p + of_nat i) = c ! (i - k)" "p + of_nat i \<notin> set (block p (Suc (length (strip_end ys))))" by metis+
      then show ?thesis using m2(3) by simp
    qed
    moreover have tail2: "m2 (p + of_nat i) = 0" if "k + length c \<le> i" "i \<le> length xs" for i
    proof -
      have "p + of_nat i \<notin> set (block p (Suc (length (strip_end ys))))"
        unfolding in_block using that False c p(2) by (auto dest!: word_of_nat_u64_inj)
      then show ?thesis using m2(3) tail that by simp
    qed
    moreover have "(of_nat k :: u64) \<noteq> 0" using \<open>p < ?src\<close> by auto
    ultimately show ?thesis using src(1) m1(1) m2(1,2) strlen_cstr [OF src(2)] tail2 left
      by (intro exI [of _ m2]) (simp add: trim_def c)
  qed
qed

text \<open>\<open>trim\<close> removes the white space at both ends of a string and keeps what is between; it writes only
  to bytes of the string itself.\<close>

lemma trim_strips:
  assumes "cstr m p xs" and "p \<noteq> 0" "unat p + length xs < 2 ^ 64"
  shows "\<exists>m'. trim p m = Some m' \<and> cstr m' p (strip_end (dropWhile isSpace xs)) \<and>
    (\<forall>a. a \<notin> set (block p (length xs)) \<longrightarrow> m' a = m a)"
  using trim_cstr [OF assms] by blast

definition ex_line :: cmem where
  "ex_line = (\<lambda>_. 0)(100 := 0x20, 101 := 0x61, 102 := 0x20, 103 := 0x62, 104 := 0x20)"

lemma trim_strips_witness: "\<exists>m'. trim 100 ex_line = Some m' \<and> cstr m' 100 [0x61, 0x20, 0x62]"
proof -
  have "cstr ex_line 100 [0x20, 0x61, 0x20, 0x62, 0x20]" by (simp add: ex_line_def)
  from trim_strips [OF this] show ?thesis by (simp add: strip_end_def isSpace_def) blast
qed

end
