(* ===== verification/Programs.thy ===== *)
theory Programs
  imports Shell Keyboard
begin

section \<open>The small programs (\<open>w2/bin/cat\<close>, \<open>cd\<close>, \<open>ls\<close>, \<open>ps\<close>, \<open>scan\<close>)\<close>

text \<open>
  Each program is its \<open>main\<close> over the C library, with the kernel \<open>K\<close>, the address \<open>pb\<close> of printf's buffer and
  the addresses of its local arrays as parameters; the result is the exit value and the state.  \<open>cat\<close> copies a
  file to the standard output, chunk by chunk: for a kernel whose \<open>read\<close> delivers a file and whose \<open>write\<close>
  appends to an output, the loop is shown to end with the whole file written; the system calls of the kernel are
  shown to provide this in \<open>CatFile\<close>.
\<close>

definition put ::
  "'k kernel \<Rightarrow> u64 \<Rightarrow> bytes \<Rightarrow> u64 list \<Rightarrow> 'k user_state \<Rightarrow> 'k user_state option" where
  "put K pb fmt args s = map_option snd (printf K pb fmt args s)"

subsection \<open>\<open>cat\<close>\<close>

partial_function (option) cat_loop :: "'k kernel \<Rightarrow> u32 \<Rightarrow> u64 \<Rightarrow> 'k user_state \<Rightarrow> 'k user_state option" where
  "cat_loop K f buf s = do {
     (r, s) \<leftarrow> read_fd K f buf 80 s;
     let n = (ucast r :: u32);
     if sint n > 0 then do { (_, s) \<leftarrow> write_fd K 1 buf (scast n) s; cat_loop K f buf s } else Some s
   }"

declare cat_loop.simps [code]

definition cat_main ::
  "'k kernel \<Rightarrow> u64 \<Rightarrow> u64 \<Rightarrow> u32 \<Rightarrow> u64 \<Rightarrow> 'k user_state \<Rightarrow> (u32 \<times> 'k user_state) option" where
  "cat_main K pb buf argc argv s =
     (if sint argc < 2 then do {
        s \<leftarrow> put K pb (str_bytes ''Usage : cat <file-name> %d '' @ nl @ str_bytes '' '') [scast argc] s;
        Some (0, s)
      }
      else do {
        (f, s) \<leftarrow> open_file K (uload 8 (argv + 8) s) 0 s;
        s \<leftarrow> cat_loop K f buf s;
        (_, s) \<leftarrow> close K f s;
        Some (0, s)
      })"

subsection \<open>\<open>cd\<close>\<close>

text \<open>\<open>NAME_MAX\<close> bytes are allocated, \<open>NAME_MAX + 1\<close> are passed as the size.  \<open>up_loop\<close> is the search for the
  last slash but one; \<open>lit\<close> is the address of the literal \<open>rootfs/\<close> and \<open>temp_name\<close> a local array, which is not
  cleared: \<open>strncpy\<close> stores no terminator.\<close>

definition NAME_MAX :: u64 where "NAME_MAX = 1024"

partial_function (option) up_loop :: "u64 \<Rightarrow> u32 \<Rightarrow> cmem \<Rightarrow> u32 option" where
  "up_loop iter_name i m =
     (if m (iter_name + scast i) \<noteq> 0x2F \<and> sint i > 0 then up_loop iter_name (i - 1) m else Some i)"

declare up_loop.simps [code]

definition cd_up :: "'k kernel \<Rightarrow> u64 \<Rightarrow> u64 \<Rightarrow> 'k user_state \<Rightarrow> 'k user_state option" where
  "cd_up K pb temp_name s = do {
     (buf, s) \<leftarrow> malloc K NAME_MAX s;
     (_, s) \<leftarrow> getcwd K buf (NAME_MAX + 1) s;
     len \<leftarrow> int_len buf s;
     i \<leftarrow> up_loop buf (len - 2) (umem s);
     if i = 0 then put K pb (str_bytes ''This is root directory'' @ nl) [] s
     else do {
       let s = s\<lparr>umem := kstrncpy temp_name buf (scast (i + 1)) (umem s)\<rparr>;
       (_, s) \<leftarrow> chdir K temp_name s;
       Some s
     }
   }"

definition cd_main ::
  "'k kernel \<Rightarrow> u64 \<Rightarrow> u64 \<Rightarrow> u64 \<Rightarrow> u32 \<Rightarrow> u64 \<Rightarrow> 'k user_state \<Rightarrow> (u32 \<times> 'k user_state) option" where
  "cd_main K pb lit temp_name argc argv s =
     (if argc = 1 then do { (_, s) \<leftarrow> chdir K lit s; Some (0, s) }
      else do {
        let arg = uload 8 (argv + 8) s;
        if arg = 0 then None
        else if is_cmd ''..'' arg s then do { s \<leftarrow> cd_up K pb temp_name s; Some (0, s) }
        else if is_cmd ''.'' arg s then Some (0, s)
        else do {
          (res, s) \<leftarrow> chdir K arg s;
          s \<leftarrow> (if sint res < 0 then put K pb (str_bytes ''Path does not exist '' @ nl) [] s else Some s);
          Some (0, s)
        }
      })"

subsection \<open>\<open>ls\<close>, \<open>ps\<close> and \<open>scan\<close>\<close>

text \<open>The name of a directory entry is 18 bytes behind its start.\<close>

partial_function (option) ls_loop :: "'k kernel \<Rightarrow> u64 \<Rightarrow> u64 \<Rightarrow> 'k user_state \<Rightarrow> 'k user_state option" where
  "ls_loop K pb dip s =
     (if dip \<noteq> 0 then do {
        s \<leftarrow> put K pb (str_bytes ''%s '' @ nl) [dip + 18] s;
        (dip, s) \<leftarrow> readdir K dip s;
        ls_loop K pb dip s
      }
      else Some s)"

declare ls_loop.simps [code]

definition showFiles :: "'k kernel \<Rightarrow> u64 \<Rightarrow> 'k user_state \<Rightarrow> 'k user_state option" where
  "showFiles K pb s = do {
     (buf, s) \<leftarrow> malloc K NAME_MAX s;
     (_, s) \<leftarrow> getcwd K buf (NAME_MAX + 1) s;
     (dit, s) \<leftarrow> opendir K buf s;
     if dit = 0 then serror K pb (errno s) s
     else do {
       s \<leftarrow> put K pb (str_bytes ''%s '' @ nl) [dit + 18] s;
       (dip, s) \<leftarrow> readdir K dit s;
       s \<leftarrow> ls_loop K pb dip s;
       (r, s) \<leftarrow> closedir K dit s;
       if r = - 1 then serror K pb (errno s) s else Some s
     }
   }"

definition ps_main :: "'k kernel \<Rightarrow> u64 \<Rightarrow> 'k user_state \<Rightarrow> (u32 \<times> 'k user_state) option" where
  "ps_main K pb s = do {
     s \<leftarrow> put K pb (str_bytes ''inside ps '' @ nl) [] s;
     s \<leftarrow> listprocess K s;
     Some (0, s)
   }"

text \<open>\<open>scan\<close> echoes what it reads from its standard input.\<close>

definition scan_main :: "'k kernel \<Rightarrow> u64 \<Rightarrow> u64 \<Rightarrow> u64 \<Rightarrow> 'k user_state \<Rightarrow> (u32 \<times> 'k user_state) option" where
  "scan_main K pb data a s = do {
     (_, s) \<leftarrow> scanf K data (str_bytes ''%s'') [a] s;
     s \<leftarrow> put K pb (str_bytes ''read from pipe: %s '' @ nl) [a] s;
     Some (0, s)
   }"

subsection \<open>What \<open>cat\<close> needs of the kernel\<close>

text \<open>\<open>contents fd k w\<close>: \<open>w\<close> is what is left to read of the open file \<open>fd\<close>; \<open>mem\<close> are the addresses of the program;
  \<open>screen\<close> is what is observed of the kernel and \<open>emit\<close> the effect of a text on it.\<close>

locale file_io =
  fixes K :: "'k kernel" and opens :: "bytes \<Rightarrow> 'k \<Rightarrow> u32 \<Rightarrow> bytes \<Rightarrow> bool"
    and contents :: "u64 \<Rightarrow> 'k \<Rightarrow> bytes \<Rightarrow> bool" and mem :: "u64 set" and screen :: "'k \<Rightarrow> 'c" and emit :: "bytes \<Rightarrow> 'c \<Rightarrow> 'c"
  assumes open_law: "cstr (umem s) q nm \<Longrightarrow> set (block q (Suc (length nm))) \<subseteq> mem \<Longrightarrow> opens nm (kern s) f w \<Longrightarrow>
      \<exists>k. K 2 q 0 0 s = Some (scast f, s\<lparr>kern := k\<rparr>) \<and> 0 \<le> sint f \<and> contents (scast f) k w \<and> screen k = screen (kern s)"
    and read_law: "contents fd (kern s) w \<Longrightarrow> unat n < 2 ^ 31 \<Longrightarrow> set (block b (unat n)) \<subseteq> mem \<Longrightarrow>
      \<exists>k. K 0 fd b n s = Some (of_nat (length (take (unat n) w)),
          s\<lparr>umem := store_bytes (take (unat n) w) b (umem s), kern := k\<rparr>) \<and>
        contents fd k (drop (unat n) w) \<and> screen k = screen (kern s)"
    and write_law: "contents fd (kern s) w \<Longrightarrow> cstr (umem s) b t \<Longrightarrow> set (block b (Suc (length t))) \<subseteq> mem \<Longrightarrow>
      \<exists>k. K 1 1 b n s = Some (n, s\<lparr>kern := k\<rparr>) \<and> contents fd k w \<and> screen k = emit t (screen (kern s))"
    and close_law: "contents fd (kern s) w \<Longrightarrow> \<exists>v k. K 3 fd 0 0 s = Some (v, s\<lparr>kern := k\<rparr>) \<and> screen k = screen (kern s)"
    and emit_law: "emit [] c = c" "emit (t @ u) c = emit u (emit t c)"

text \<open>A chunk of the file, read into the cleared buffer, is a string if the byte behind the buffer is 0.\<close>

lemma cstr_chunk:
  assumes "0 \<notin> set c" and "length c \<le> 80" and "m (buf + 80) = 0"
  shows "cstr (store_bytes c buf (memset buf 0 80 m)) buf c"
proof (rule cstr_stored [OF assms(1)])
  show "memset buf 0 80 m (buf + of_nat (length c)) = 0"
  proof (cases "length c = 80")
    case True
    have "buf + 80 \<notin> set (block buf 80)"
      unfolding in_block by (auto dest!: word_of_nat_u64_inj [of 80, simplified])
    then show ?thesis using True assms(3) by (simp add: memset_def memset_loop_other)
  next
    case False
    then show ?thesis using assms(2) memset_loop_in [of "length c" 80] by (simp add: memset_def)
  qed
qed (use assms in simp)

context file_io
begin

lemma cat_loop_step:
  assumes c: "contents (scast f) (kern s) w" and z: "0 \<notin> set w" "umem s (buf + 80) = 0"
    and B: "set (block buf 81) \<subseteq> mem"
  shows "\<exists>s'. contents (scast f) (kern s') (drop 80 w) \<and> umem s' (buf + 80) = 0 \<and>
    screen (kern s') = emit (take 80 w) (screen (kern s)) \<and>
    cat_loop K f buf s = (if w = [] then Some s' else cat_loop K f buf s')"
proof -
  let ?c = "take 80 w"
  let ?m = "store_bytes ?c buf (memset buf 0 80 (umem s))"
  obtain k where k: "K 0 (scast f) buf 80 (uclear buf 80 s) = Some (of_nat (length ?c), s\<lparr>umem := ?m, kern := k\<rparr>)"
    "contents (scast f) k (drop 80 w)" "screen k = screen (kern s)"
    using read_law [of "scast f" "uclear buf 80 s" w 80 buf] c B block_mono [of 80 81 buf] by (auto simp: uclear_def)
  let ?s1 = "s\<lparr>umem := ?m, kern := k\<rparr>"
  have len: "length ?c < 2 ^ 31" by simp
  have rd: "read_fd K f buf 80 s = Some (of_nat (length ?c), ?s1)"
    using k(1) small_result [OF len] by (simp add: read_fd_def ret_long_def Let_def)
  have out: "buf + 80 \<notin> set (block buf 80)"
    unfolding in_block by (auto dest!: word_of_nat_u64_inj [of 80, simplified])
  have z1: "?m (buf + 80) = 0"
  proof -
    have "buf + 80 \<notin> set (block buf (length ?c))" using out block_mono [of "length ?c" 80 buf] by auto
    then show ?thesis using out z(2) by (simp add: store_bytes_other memset_def memset_loop_other)
  qed
  show ?thesis
  proof (cases "w = []")
    case True
    then have "cat_loop K f buf s = Some ?s1" using rd by (simp add: cat_loop.simps [of K f buf s] Let_def)
    then show ?thesis using True k z1 by (intro exI [of _ ?s1]) (simp add: emit_law)
  next
    case False
    have "cstr ?m buf ?c" using z by (intro cstr_chunk) (auto dest: in_set_takeD)
    moreover have "set (block buf (Suc (length ?c))) \<subseteq> mem" using B block_mono [of "Suc (length ?c)" 81 buf] by auto
    ultimately obtain k2 where k2: "K 1 1 buf (of_nat (length ?c)) ?s1 = Some (of_nat (length ?c), ?s1\<lparr>kern := k2\<rparr>)"
      "contents (scast f) k2 (drop 80 w)" "screen k2 = emit ?c (screen k)"
      using write_law [of "scast f" ?s1 "drop 80 w" buf ?c "of_nat (length ?c)"] k(2) by auto
    have sc: "scast (of_nat (length ?c) :: u32) = (of_nat (length ?c) :: u64)"
      using small_result(2) [OF len] by (simp add: scast_eq)
    have "write_fd K 1 buf (of_nat (length ?c)) ?s1 = Some (of_nat (length ?c), ?s1\<lparr>kern := k2\<rparr>)"
      using k2(1) small_result [OF len] by (simp add: write_fd_def ret_long_def Let_def)
    moreover have "sint (of_nat (length ?c) :: u32) > 0" using small_result(2) [OF len] False by simp
    ultimately have "cat_loop K f buf s = cat_loop K f buf (?s1\<lparr>kern := k2\<rparr>)"
      using rd sc small_result [OF len] by (simp add: cat_loop.simps [of K f buf s] Let_def)
    then show ?thesis using False k(3) k2 z1 by (intro exI [of _ "?s1\<lparr>kern := k2\<rparr>"]) simp
  qed
qed

lemma cat_loop_emits:
  "contents (scast f) (kern s) w \<Longrightarrow> 0 \<notin> set w \<Longrightarrow> umem s (buf + 80) = 0 \<Longrightarrow> set (block buf 81) \<subseteq> mem \<Longrightarrow>
   \<exists>s'. cat_loop K f buf s = Some s' \<and> contents (scast f) (kern s') [] \<and> screen (kern s') = emit w (screen (kern s))"
proof (induction "length w" arbitrary: w s rule: less_induct)
  case less
  obtain s1 where s1: "contents (scast f) (kern s1) (drop 80 w)" "umem s1 (buf + 80) = 0"
    "screen (kern s1) = emit (take 80 w) (screen (kern s))"
    "cat_loop K f buf s = (if w = [] then Some s1 else cat_loop K f buf s1)"
    using cat_loop_step [OF less.prems] by blast
  show ?case
  proof (cases "w = []")
    case True
    then show ?thesis using s1 by (intro exI [of _ s1]) simp
  next
    case False
    then have "length (drop 80 w) < length w" "0 \<notin> set (drop 80 w)"
      using less.prems(2) by (auto dest: in_set_dropD)
    then obtain s' where "cat_loop K f buf s1 = Some s'" "contents (scast f) (kern s') []"
      "screen (kern s') = emit (drop 80 w) (screen (kern s1))"
      using less.hyps s1(1,2) less.prems(4) by blast
    then show ?thesis using s1(3,4) False by (intro exI [of _ s']) (simp flip: emit_law(2))
  qed
qed

lemma cat_main_emits:
  assumes "2 \<le> sint argc" and "cstr (umem s) (uload 8 (argv + 8) s) nm" and "opens nm (kern s) f w"
    and "0 \<notin> set w" and "umem s (buf + 80) = 0"
    and mem: "set (block (uload 8 (argv + 8) s) (Suc (length nm))) \<subseteq> mem" "set (block buf 81) \<subseteq> mem"
  shows "\<exists>s'. cat_main K pb buf argc argv s = Some (0, s') \<and> screen (kern s') = emit w (screen (kern s))"
proof -
  obtain k0 where o: "K 2 (uload 8 (argv + 8) s) 0 0 s = Some (scast f, s\<lparr>kern := k0\<rparr>)" "0 \<le> sint f"
    "contents (scast f) k0 w" "screen k0 = screen (kern s)"
    using open_law [OF assms(2) mem(1) assms(3)] by blast
  have op: "open_file K (uload 8 (argv + 8) s) 0 s = Some (f, s\<lparr>kern := k0\<rparr>)"
    using o(1,2) by (simp add: open_file_def ret_int_def Let_def ucast_scast_u32)
  obtain s1 where s1: "cat_loop K f buf (s\<lparr>kern := k0\<rparr>) = Some s1" "contents (scast f) (kern s1) []"
    "screen (kern s1) = emit w (screen (kern s))"
    using cat_loop_emits [of f "s\<lparr>kern := k0\<rparr>" w buf] assms(4,5) mem(2) o(3,4) by auto
  obtain v k where "K 3 (scast f) 0 0 s1 = Some (v, s1\<lparr>kern := k\<rparr>)" "screen k = screen (kern s1)"
    using close_law [OF s1(2)] by blast
  then have "\<exists>v' s2. close K f s1 = Some (v', s2) \<and> screen (kern s2) = screen (kern s1)"
    by (simp add: close_def ret_int_def Let_def)
  then show ?thesis using assms(1) op s1 by (auto simp: cat_main_def)
qed

end

end
