(* ===== verification/CatFile.thy ===== *)
theory CatFile
  imports Programs Paging UserHeap
begin

section \<open>A file on the screen: \<open>cat\<close> over the system calls\<close>

text \<open>
  \<open>cat\<close> runs on the system calls of the kernel.  The memory of a program is its address space: \<open>user_kernel\<close>
  gives the bytes at the program's addresses to the kernel, enters the dispatcher \<open>switch_handler\<close> and takes the
  bytes back.  \<open>system_open\<close>, \<open>system_read\<close>, \<open>system_write\<close> and \<open>system_close\<close> read the path, store the bytes
  of the file and read the string to print through the page tables of the current task; they are shown to
  provide the interface \<open>file_io\<close> of \<open>Programs\<close>.
\<close>

subsection \<open>A program in its address space\<close>

text \<open>The bytes \<open>m\<close> of a program, at the addresses \<open>us\<close>, in the current address space.\<close>

fun store_all :: "u64 list \<Rightarrow> cmem \<Rightarrow> 'z mmu_state_scheme \<Rightarrow> 'z mmu_state_scheme option" where
  "store_all [] m k = Some k"
| "store_all (u # us) m k = do { k \<leftarrow> vstore8 u (m u) k; store_all us m k }"

fun load_all :: "u64 list \<Rightarrow> 'z mmu_state_scheme \<Rightarrow> cmem \<Rightarrow> cmem option" where
  "load_all [] k m = Some m"
| "load_all (u # us) k m = do { b \<leftarrow> vload8 u k; load_all us k (m(u := b)) }"

text \<open>A system call of a program with the addresses \<open>us\<close>; a call that gives up the processor has no result here.\<close>

definition user_kernel :: "u64 list \<Rightarrow> sys_state kernel" where
  "user_kernel us n a b c s = do {
     k \<leftarrow> store_all us (umem s) (kern s);
     out \<leftarrow> switch_handler n a b c k;
     (case out of
        Return v k \<Rightarrow> do { m \<leftarrow> load_all us k (umem s); Some (v, s\<lparr>umem := m, kern := k\<rparr>) }
      | Resched k \<Rightarrow> None)
   }"

text \<open>The addresses \<open>A\<close> are mapped to the frames \<open>F\<close>, each byte to a place of its own and none in a page table.\<close>

definition program_space :: "u64 set \<Rightarrow> u64 set \<Rightarrow> 'z mmu_state_scheme \<Rightarrow> bool" where
  "program_space A F k \<longleftrightarrow> data_region A k \<and> (\<forall>v \<in> A. \<exists>f \<in> F. frame_of (cr3 k) k v = Some f)"

text \<open>The bytes of the program are in its address space.\<close>

definition holds_bytes :: "u64 set \<Rightarrow> cmem \<Rightarrow> 'z mmu_state_scheme \<Rightarrow> bool" where
  "holds_bytes A m k \<longleftrightarrow> (\<forall>u \<in> A. vload8 u k = Some (m u))"

text \<open>A step that changes physical memory in the frames \<open>F\<close> at most, and keeps the space.\<close>

definition space_step :: "u64 set \<Rightarrow> u64 set \<Rightarrow> 'z mmu_state_scheme \<Rightarrow> 'z mmu_state_scheme \<Rightarrow> bool" where
  "space_step A F k k' \<longleftrightarrow> stores_in F k k' \<and> program_space A F k'"

lemma space_step_refl: "program_space A F k \<Longrightarrow> space_step A F k k"
  by (simp add: space_step_def)

lemma space_step_trans: "space_step A F k l \<Longrightarrow> space_step A F l n \<Longrightarrow> space_step A F k n"
  unfolding space_step_def using stores_in_trans by blast

lemma space_store8:
  assumes p: "program_space A F k" and u: "u \<in> A"
  obtains k' where "vstore8 u b k = Some k'" "space_step A F k k'"
    "\<And>w. w \<in> A \<Longrightarrow> vload8 w k' = (if w = u then Some b else vload8 w k)"
proof -
  have r: "data_region A k" using p by (simp add: program_space_def)
  obtain k' where k': "vstore8 u b k = Some k'" "data_region A k'"
    "\<And>w. w \<in> A \<Longrightarrow> vload8 w k' = (if w = u then Some b else vload8 w k)" by (rule vstore8_data [OF r u]) blast
  obtain f where "f \<in> F" "frame_of (cr3 k) k u = Some f" using p u by (auto simp: program_space_def)
  then have st: "stores_in F k k'" using vstore8_stores_in [OF r u _ _ k'(1)] by blast
  then have "\<forall>v \<in> A. \<exists>f \<in> F. frame_of (cr3 k') k' v = Some f"
    using p stores_in_cr3 [OF st] stores_in_tables(1) [OF st] by (simp add: program_space_def)
  then show thesis using that k' st by (simp add: space_step_def program_space_def)
qed

lemma store_all_holds:
  "program_space A F k \<Longrightarrow> set us \<subseteq> A \<Longrightarrow>
   \<exists>k'. store_all us m k = Some k' \<and> space_step A F k k' \<and>
     (\<forall>w \<in> A. vload8 w k' = (if w \<in> set us then Some (m w) else vload8 w k))"
proof (induction us arbitrary: k)
  case Nil
  then show ?case by (simp add: space_step_refl)
next
  case (Cons u us)
  obtain l where l: "vstore8 u (m u) k = Some l" "space_step A F k l"
    "\<And>w. w \<in> A \<Longrightarrow> vload8 w l = (if w = u then Some (m u) else vload8 w k)"
    by (rule space_store8 [OF Cons.prems(1)]) (use Cons.prems(2) in auto)
  then obtain k' where "store_all us m l = Some k'" "space_step A F l k'"
    "\<forall>w \<in> A. vload8 w k' = (if w \<in> set us then Some (m w) else vload8 w l)"
    using Cons.IH [of l] Cons.prems(2) by (auto simp: space_step_def)
  then show ?case using l space_step_trans [OF l(2)] by auto
qed

lemma space_store_bytes:
  "program_space A F k \<Longrightarrow> holds_bytes A m k \<Longrightarrow> set (block p (length bs)) \<subseteq> A \<Longrightarrow>
   \<exists>k'. vstore_bytes bs p k = Some k' \<and> space_step A F k k' \<and> holds_bytes A (store_bytes bs p m) k'"
proof (induction bs arbitrary: p m k)
  case Nil
  then show ?case by (simp add: space_step_refl)
next
  case (Cons b bs)
  obtain l where l: "vstore8 p b k = Some l" "space_step A F k l"
    "\<And>w. w \<in> A \<Longrightarrow> vload8 w l = (if w = p then Some b else vload8 w k)"
    by (rule space_store8 [OF Cons.prems(1)]) (use Cons.prems(3) in auto)
  then have "holds_bytes A (m(p := b)) l" "program_space A F l"
    using Cons.prems(2) by (auto simp: holds_bytes_def space_step_def)
  then obtain k' where "vstore_bytes bs (p + 1) l = Some k'" "space_step A F l k'"
    "holds_bytes A (store_bytes bs (p + 1) (m(p := b))) k'"
    using Cons.IH [of l "m(p := b)" "p + 1"] Cons.prems(3) by (auto simp del: fun_upd_apply)
  then show ?case using l(1) space_step_trans [OF l(2)] by (auto simp del: fun_upd_apply)
qed

lemma load_all_holds: "holds_bytes (set us) m k \<Longrightarrow> load_all us k m' = Some (\<lambda>a. if a \<in> set us then m a else m' a)"
proof (induction us arbitrary: m')
  case (Cons u us)
  then have "load_all us k (m'(u := m u)) = Some (\<lambda>a. if a \<in> set us then m a else (m'(u := m u)) a)"
    by (intro Cons.IH) (simp add: holds_bytes_def)
  moreover have "(\<lambda>a. if a \<in> set us then m a else (m'(u := m u)) a) = (\<lambda>a. if a \<in> set (u # us) then m a else m' a)"
    by auto
  ultimately show ?case using Cons.prems by (simp add: holds_bytes_def)
qed simp

lemma vread_cstr_holds:
  "holds_bytes A m k \<Longrightarrow> cstr m p t \<Longrightarrow> set (block p (Suc (length t))) \<subseteq> A \<Longrightarrow> vread_cstr p k = Some t"
proof (induction t arbitrary: p)
  case Nil
  then show ?case by (subst vread_cstr.simps) (simp add: holds_bytes_def)
next
  case (Cons x t)
  then have "vread_cstr (p + 1) k = Some t" "vload8 p k = Some x" "x \<noteq> 0" by (auto simp: holds_bytes_def)
  then show ?case by (subst vread_cstr.simps) simp
qed

text \<open>A call of the dispatcher as the program sees it: its bytes are in its space when the kernel runs.\<close>

lemma user_kernel_call:
  assumes p: "program_space (set us) F (kern s)"
    and run: "\<And>k. space_step (set us) F (kern s) k \<Longrightarrow> holds_bytes (set us) (umem s) k \<Longrightarrow>
      \<exists>k'. switch_handler n a b c k = Some (Return v k') \<and> holds_bytes (set us) m k' \<and> P k'"
    and out: "\<And>x. x \<notin> set us \<Longrightarrow> m x = umem s x"
  shows "\<exists>k'. user_kernel us n a b c s = Some (v, s\<lparr>umem := m, kern := k'\<rparr>) \<and> P k'"
proof -
  obtain k where k: "store_all us (umem s) (kern s) = Some k" "space_step (set us) F (kern s) k"
    "holds_bytes (set us) (umem s) k"
    using store_all_holds [OF p order_refl, of "umem s"] by (auto simp: holds_bytes_def)
  obtain k' where k': "switch_handler n a b c k = Some (Return v k')" "holds_bytes (set us) m k'" "P k'"
    using run [OF k(2,3)] by blast
  have "(\<lambda>a. if a \<in> set us then m a else umem s a) = m" using out by auto
  then show ?thesis using k(1) k' load_all_holds [OF k'(2), of "umem s"] by (intro exI [of _ k']) (simp add: user_kernel_def)
qed

subsection \<open>Open files\<close>

text \<open>The open file \<open>fd\<close>: its object in the list, its entry in the archive, its read position and what follows it.\<close>

definition file_rest :: "u64 \<Rightarrow> 'z fs_state_scheme \<Rightarrow> bytes \<Rightarrow> bool" where
  "file_rest fd k w \<longleftrightarrow> (\<exists>as a x dir fn pre post. file_seq k as \<and>
     find (\<lambda>a. fl_fd (node_at (files k) a) = fd) (butlast as) = Some a \<and> node_at (files k) a = x \<and>
     fl_name x = dir @ slash # fn \<and> slash \<notin> set dir \<and>
     archive (kmem k) (tarfs_start k) (pre @ (fn, fl_size x) # post) \<and> fn \<notin> fst ` set pre \<and>
     fl_size x < 2 ^ 31 \<and> fl_offset x \<le> fl_size x \<and>
     w = kmem_bytes (kmem k) (tarfs_start k + (entry_pos pre + 512) + fl_offset x) (unat (fl_size x - fl_offset x)))"

lemma file_rest_cong:
  "files k' = files k \<Longrightarrow> filelist k' = filelist k \<Longrightarrow> kmem k' = kmem k \<Longrightarrow> tarfs_start k' = tarfs_start k \<Longrightarrow>
   file_rest fd k' w = file_rest fd k w"
  by (simp add: file_rest_def)

text \<open>The file objects have kept their links and their descriptors.\<close>

definition same_nodes :: "fs_file heap \<Rightarrow> fs_file heap \<Rightarrow> bool" where
  "same_nodes h h' \<longleftrightarrow> (\<forall>b. map_option fl_next (h' b) = map_option fl_next (h b) \<and> map_option fl_fd (h' b) = map_option fl_fd (h b))"

lemma take_kmem_bytes: "take j (kmem_bytes m p n) = kmem_bytes m p (min j n)"
  by (simp add: kmem_bytes_def take_map min_def)

lemma drop_kmem_bytes: "drop j (kmem_bytes m p n) = kmem_bytes m (p + of_nat j) (n - j)"
  by (rule nth_equalityI) (simp_all add: kmem_bytes_def add.assoc less_diff_conv add.commute [of _ j])

lemma file_rest_read:
  assumes f: "file_rest fd k w"
  shows "\<exists>h nm. fread fd n k = Some (ucast (of_nat (length (take (unat n) w)) :: u64), take (unat n) w,
      k\<lparr>fname := nm, files := h\<rparr>) \<and> file_rest fd (k\<lparr>fname := nm, files := h\<rparr>) (drop (unat n) w) \<and> same_nodes (files k) h"
proof -
  obtain as a x dir fn pre post where r: "file_seq k as"
    "find (\<lambda>a. fl_fd (node_at (files k) a) = fd) (butlast as) = Some a" "node_at (files k) a = x"
    "fl_name x = dir @ slash # fn" "slash \<notin> set dir"
    "archive (kmem k) (tarfs_start k) (pre @ (fn, fl_size x) # post)" "fn \<notin> fst ` set pre"
    "fl_size x < 2 ^ 31" "fl_offset x \<le> fl_size x"
    and w: "w = kmem_bytes (kmem k) (tarfs_start k + (entry_pos pre + 512) + fl_offset x) (unat (fl_size x - fl_offset x))"
    using f unfolding file_rest_def by blast
  define j where "j = min n (fl_size x - fl_offset x)"
  let ?p = "tarfs_start k + (entry_pos pre + 512) + fl_offset x"
  let ?y = "x\<lparr>fl_offset := fl_offset x + j\<rparr>" and ?N = "unat (fl_size x - fl_offset x)"
  let ?h = "(files k)(a \<mapsto> ?y)"
  let ?k = "k\<lparr>fname := fn, files := ?h\<rparr>"
  have fr: "fread fd n k = Some (ucast j, kmem_bytes (kmem k) ?p (unat j), ?k)"
    "unat (fl_offset x + j) = unat (fl_offset x) + unat j" "fl_offset x + j \<le> fl_size x"
    using fread_within [OF r, of n] by (simp_all add: j_def)
  have uj: "unat j = min (unat n) ?N" by (simp add: j_def min_def word_le_nat_alt)
  have N: "?N = unat (fl_size x) - unat (fl_offset x)" using r(9) by (simp add: word_le_nat_alt unat_sub)
  have tk: "take (unat n) w = kmem_bytes (kmem k) ?p (unat j)" by (simp add: w take_kmem_bytes uj)
  then have len: "of_nat (length (take (unat n) w)) = j" by (simp add: kmem_bytes_def)
  have az: "a \<noteq> 0" "a \<in> set as" using find_butlast_nonzero [OF r(1,2)] by auto
  have na: "node_at ?h b = (if b = a then ?y else node_at (files k) b)" for b by (simp add: node_at_def)
  have nodes: "same_nodes (files k) ?h"
    using llist_deref [OF r(1) az(2)] r(3) az(1) by (auto simp: deref_def same_nodes_def)
  have "file_seq ?k as"
  proof -
    have "map_option fl_next (files k b) = map_option fl_next (?h b)" for b
      using nodes by (simp add: same_nodes_def)
    then have "llist fl_next (files k) (filelist k) as = llist fl_next ?h (filelist k) as" by (intro llist_cong)
    then show ?thesis using r(1) by simp
  qed
  moreover have "find (\<lambda>a. fl_fd (node_at (files ?k) a) = fd) (butlast as) = Some a"
  proof -
    have "(\<lambda>b. fl_fd (node_at ?h b) = fd) = (\<lambda>b. fl_fd (node_at (files k) b) = fd)"
      using r(3) by (intro ext) (simp add: na)
    then show ?thesis using r(2) by simp
  qed
  moreover have "drop (unat n) w = kmem_bytes (kmem ?k) (tarfs_start ?k + (entry_pos pre + 512) + fl_offset ?y)
      (unat (fl_size ?y - fl_offset ?y))"
  proof (cases "unat n \<le> ?N")
    case True
    then have "j = n" using uj by (simp add: word_unat_eq_iff)
    moreover have "unat (fl_size x - (fl_offset x + j)) = ?N - unat n"
      using fr(2,3) uj True N by (simp add: word_le_nat_alt unat_sub)
    ultimately show ?thesis by (simp add: w drop_kmem_bytes add.assoc)
  next
    case False
    then have "unat (fl_size x - (fl_offset x + j)) = 0"
      using fr(2,3) uj N by (simp add: word_le_nat_alt unat_sub)
    then show ?thesis using False by (simp add: w kmem_bytes_def)
  qed
  ultimately have "file_rest fd ?k (drop (unat n) w)"
    unfolding file_rest_def using r(4-8) fr(3)
    by (intro exI [of _ as] exI [of _ a] exI [of _ ?y] exI [of _ dir] exI [of _ fn] exI [of _ pre] exI [of _ post])
      (simp add: na)
  then show ?thesis using fr(1) tk len nodes by (intro exI [of _ ?h] exI [of _ fn]) simp
qed

lemma fclose_rest:
  assumes "file_rest fd k w"
  shows "\<exists>h. fclose fd k = Some (k\<lparr>files := h\<rparr>)"
proof -
  obtain as a where f: "file_seq k as" "find (\<lambda>a. fl_fd (node_at (files k) a) = fd) (butlast as) = Some a"
    using assms unfolding file_rest_def by blast
  then show ?thesis
    using scan_files_hit [OF f(1), of "\<lambda>x. fl_fd x = fd"] by (intro exI [of _ "(files k)(a \<mapsto> (node_at (files k) a)\<lparr>fl_offset := 0\<rparr>)"])
      (simp add: fclose_def upd_file_def hupd_def)
qed

text \<open>No pipe of the current task has the descriptor \<open>fd\<close>.\<close>

definition no_pipe :: "u64 \<Rightarrow> 'z fs_state_scheme \<Rightarrow> bool" where
  "no_pipe fd k \<longleftrightarrow> (\<exists>t ps. deref (tasks k) (current_task k) = Some t \<and> llist fl_next (files k) (t_pipe t) ps \<and>
     (\<forall>p \<in> set ps. fl_fd (node_at (files k) p) \<noteq> fd))"

lemma no_pipe_not_pipe: "no_pipe fd k \<Longrightarrow> is_file_pipe (current_task k) fd k = Some False"
  unfolding no_pipe_def is_file_pipe_def
proof (elim exE conjE)
  fix t ps
  assume t: "deref (tasks k) (current_task k) = Some t" "llist fl_next (files k) (t_pipe t) ps"
    "\<forall>p \<in> set ps. fl_fd (node_at (files k) p) \<noteq> fd"
  then have "find (\<lambda>a. fl_fd (node_at (files k) a) = fd) ps = None" by (simp add: find_None_iff)
  then show "do { t \<leftarrow> deref (tasks k) (current_task k);
      p \<leftarrow> list_find fl_next (files k) (\<lambda>_ x. fl_fd x = fd) (t_pipe t); Some (p \<noteq> 0) } = Some False"
    using t(1) list_find_llist [OF t(2), of "\<lambda>_ x. fl_fd x = fd"] by simp
qed

lemma no_pipe_same:
  assumes "no_pipe fd k" and "tasks k' = tasks k" "current_task k' = current_task k" and nodes: "same_nodes (files k) (files k')"
  shows "no_pipe fd k'"
proof -
  obtain t ps where t: "deref (tasks k) (current_task k) = Some t" "llist fl_next (files k) (t_pipe t) ps"
    "\<forall>p \<in> set ps. fl_fd (node_at (files k) p) \<noteq> fd"
    using assms(1) by (auto simp: no_pipe_def)
  have l: "llist fl_next (files k') (t_pipe t) ps"
    using t(2) nodes by (subst llist_cong [where h' = "files k"]) (simp_all add: same_nodes_def)
  have "fl_fd (node_at (files k') p) = fl_fd (node_at (files k) p)" if p: "p \<in> set ps" for p
  proof -
    obtain x y where "files k p = Some x" "files k' p = Some y"
      using llist_nonzero [OF t(2) p] llist_nonzero [OF l p] by auto
    moreover have "map_option fl_fd (files k' p) = map_option fl_fd (files k p)" using nodes by (simp add: same_nodes_def)
    ultimately show ?thesis by (simp add: node_at_def)
  qed
  then show ?thesis using t l assms(2,3) unfolding no_pipe_def by (intro exI [of _ t] exI [of _ ps]) simp
qed

lemma same_nodes_refl [simp]: "same_nodes h h"
  by (simp add: same_nodes_def)

subsection \<open>What is observed of the kernel\<close>

text \<open>The console and all else of the kernel, apart from the read positions and the program's own frames \<open>F\<close>.\<close>

definition apart_files :: "u64 set \<Rightarrow> 'z con_state_scheme \<Rightarrow> 'z con_state_scheme" where
  "apart_files F k = k\<lparr>files := Map.empty, fname := [], pmem := (\<lambda>a. if ALIGN_DOWN a \<in> F then 0 else pmem k a)\<rparr>"

lemma driver_files:
  fixes k :: "'z con_state_scheme" and h :: "fs_file heap" and nm :: bytes and m :: "u64 \<Rightarrow> u64"
  defines "g \<equiv> \<lambda>k :: 'z con_state_scheme. k\<lparr>files := h, fname := nm, pmem := m\<rparr>"
  shows "vga_store a b (g k) = g (vga_store a b k)" "move_csr (g k) = g (move_csr k)" "scroll (g k) = g (scroll k)"
    "handle_backspace (g k) = g (handle_backspace k)"
  by (simp_all add: g_def vga_store_def move_csr_def outportb_def scroll_def handle_backspace_def Let_def)

lemma putch_files:
  fixes k :: "'z con_state_scheme"
  shows "putch c (k\<lparr>files := h, fname := nm, pmem := m\<rparr>) = (putch c k)\<lparr>files := h, fname := nm, pmem := m\<rparr>"
proof -
  let ?g = "\<lambda>k :: 'z con_state_scheme. k\<lparr>files := h, fname := nm, pmem := m\<rparr>"
  define core where "core s = (if c = 0x0A then s\<lparr>cursor_x := 0, cursor_y := cursor_y s + 1\<rparr>
     else if c = 0x08 then handle_backspace s
     else if c = 0x09 then s\<lparr>cursor_x := (cursor_x s + 8) AND NOT (8 - 1)\<rparr>
     else if c = 0x0D then s\<lparr>cursor_x := 0\<rparr>
     else let dst_addr = vga_addr + (cursor_y s * 80 + cursor_x s) * 2;
              s = vga_store dst_addr c s; s = vga_store (dst_addr + 1) (ucast (attrib s)) s
          in s\<lparr>cursor_x := cursor_x s + 1\<rparr>)" for s :: "'z con_state_scheme"
  have p: "putch c s = move_csr (scroll (core s))" for s by (simp only: putch_def core_def Let_def)
  have "core (?g k) = ?g (core k)"
    unfolding core_def Let_def by (simp add: driver_files vga_store_def)
  then show ?thesis unfolding p by (simp only: driver_files)
qed

lemma puts_files:
  fixes k :: "'z con_state_scheme"
  shows "puts t (k\<lparr>files := h, fname := nm, pmem := m\<rparr>) = (puts t k)\<lparr>files := h, fname := nm, pmem := m\<rparr>"
  by (induction t arbitrary: k) (simp_all add: putch_files)

lemma puts_append: "puts (t @ u) s = puts u (puts t s)"
  by (induction t arbitrary: s) simp_all

lemma puts_fs [simp]:
  fixes k :: "'z con_state_scheme"
  shows "files (puts t k) = files k" "filelist (puts t k) = filelist k" "kmem (puts t k) = kmem k"
    "tarfs_start (puts t k) = tarfs_start k" "pmem (puts t k) = pmem k" "cr3 (puts t k) = cr3 k"
    "tasks (puts t k) = tasks k" "current_task (puts t k) = current_task k"
proof -
  have "f (off_screen (puts t k)) = f (off_screen k)" for f :: "'z con_state_scheme \<Rightarrow> 'b" by simp
  from this [of files] this [of filelist] this [of kmem] this [of tarfs_start] this [of pmem] this [of cr3] this [of tasks]
    this [of current_task]
  show "files (puts t k) = files k" "filelist (puts t k) = filelist k" "kmem (puts t k) = kmem k"
    "tarfs_start (puts t k) = tarfs_start k" "pmem (puts t k) = pmem k" "cr3 (puts t k) = cr3 k"
    "tasks (puts t k) = tasks k" "current_task (puts t k) = current_task k"
    by (simp_all add: off_screen_def)
qed

lemma apart_files_upd [simp]: "apart_files F (k\<lparr>files := h\<rparr>) = apart_files F k"
    "apart_files F (k\<lparr>fname := nm\<rparr>) = apart_files F k"
  by (simp_all add: apart_files_def cong: if_cong)

lemma apart_files_puts: "apart_files F (puts t k) = puts t (apart_files F k)"
  by (simp add: apart_files_def puts_files cong: if_cong)

lemma apart_files_stores: "stores_in F k k' \<Longrightarrow> apart_files F k' = apart_files F k"
proof -
  assume st: "stores_in F k k'"
  then have k: "k' = k\<lparr>pmem := pmem k'\<rparr>" by (simp only: stores_in_def)
  have "(\<lambda>a. if ALIGN_DOWN a \<in> F then 0 else pmem k' a) = (\<lambda>a. if ALIGN_DOWN a \<in> F then 0 else pmem k a)"
    using st by (auto simp: stores_in_def)
  then show ?thesis by (subst k) (simp add: apart_files_def cong: if_cong)
qed

subsection \<open>The system calls on a file and the screen\<close>

text \<open>The current task writes to the screen, and \<open>fd\<close> is not one of its pipes.\<close>

definition plain_output :: "u64 \<Rightarrow> 'z fs_state_scheme \<Rightarrow> bool" where
  "plain_output fd k \<longleftrightarrow> fd \<noteq> 0 \<and> no_pipe fd k \<and> no_pipe 1 k \<and> t_write_redirection_fd (node_at (tasks k) (current_task k)) = 0"

lemma plain_output_same:
  "plain_output fd k \<Longrightarrow> tasks k' = tasks k \<Longrightarrow> current_task k' = current_task k \<Longrightarrow> same_nodes (files k) (files k') \<Longrightarrow>
   plain_output fd k'"
  using no_pipe_same unfolding plain_output_def by metis

definition program_file :: "u64 set \<Rightarrow> u64 set \<Rightarrow> u64 \<Rightarrow> sys_state \<Rightarrow> bytes \<Rightarrow> bool" where
  "program_file A F fd k w \<longleftrightarrow> program_space A F k \<and> plain_output fd k \<and> file_rest fd k w"

lemma program_space_same: "pmem k' = pmem k \<Longrightarrow> cr3 k' = cr3 k \<Longrightarrow> program_space A F k' = program_space A F k"
  by (simp add: program_space_def data_region_def frame_of_def vtrans_def)

lemma holds_bytes_same: "pmem k' = pmem k \<Longrightarrow> cr3 k' = cr3 k \<Longrightarrow> holds_bytes A m k' = holds_bytes A m k"
  by (simp add: holds_bytes_def vload8_def frame_of_def vtrans_def)

lemma stores_in_same:
  assumes "stores_in F k k'"
  shows "files k' = files k" "filelist k' = filelist k" "kmem k' = kmem k" "tarfs_start k' = tarfs_start k"
    "tasks k' = tasks k" "current_task k' = current_task k"
proof -
  have k: "k' = k\<lparr>pmem := pmem k'\<rparr>" using assms by (simp only: stores_in_def)
  show "files k' = files k" "filelist k' = filelist k" "kmem k' = kmem k" "tarfs_start k' = tarfs_start k"
    "tasks k' = tasks k" "current_task k' = current_task k"
    by (subst k, simp)+
qed

lemma program_file_step: "space_step A F k k' \<Longrightarrow> program_file A F fd k w \<Longrightarrow> program_file A F fd k' w"
  using file_rest_cong [of k' k fd w] plain_output_same [of fd k k'] stores_in_same [of F k k']
  by (simp add: program_file_def space_step_def)

lemma system_read_file:
  assumes p: "program_file A F fd k w" and h: "holds_bytes A m k" and n: "unat n < 2 ^ 31" and b: "set (block b (unat n)) \<subseteq> A"
  shows "\<exists>k'. system_read fd b n k = Some (Return (of_nat (length (take (unat n) w))) k') \<and>
    holds_bytes A (store_bytes (take (unat n) w) b m) k' \<and> program_file A F fd k' (drop (unat n) w) \<and>
    apart_files F k' = apart_files F k"
proof -
  let ?d = "take (unat n) w"
  have f: "program_space A F k" "plain_output fd k" "file_rest fd k w" using p by (simp_all add: program_file_def)
  obtain h' nm where r: "fread fd n k = Some (ucast (of_nat (length ?d) :: u64), ?d, k\<lparr>fname := nm, files := h'\<rparr>)"
    "file_rest fd (k\<lparr>fname := nm, files := h'\<rparr>) (drop (unat n) w)" "same_nodes (files k) h'"
    using file_rest_read [OF f(3), of n] by blast
  let ?k = "k\<lparr>fname := nm, files := h'\<rparr>"
  have k: "program_space A F ?k" "holds_bytes A m ?k" "plain_output fd ?k"
    using f(1) h program_space_same [of ?k k] holds_bytes_same [of ?k k] plain_output_same [OF f(2), of ?k] r(3) by simp_all
  have "set (block b (length ?d)) \<subseteq> A" using b block_mono [of "length ?d" "unat n" b] by auto
  then obtain k' where k': "vstore_bytes ?d b ?k = Some k'" "space_step A F ?k k'" "holds_bytes A (store_bytes ?d b m) k'"
    using space_store_bytes [OF k(1,2), of b ?d] by blast
  have "length ?d < 2 ^ 31" using n by simp
  then have "scast (ucast (of_nat (length ?d) :: u64) :: u32) = (of_nat (length ?d) :: u64)"
    using small_result [of "length ?d"] by (simp add: scast_eq)
  then have "system_read fd b n k = Some (Return (of_nat (length ?d)) k')"
    using f(2) r(1) k'(1) no_pipe_not_pipe [of fd k] by (simp add: system_read_def get_current_task_def plain_output_def)
  moreover have "program_file A F fd k' (drop (unat n) w)"
    by (rule program_file_step [OF k'(2)]) (use k r(2) in \<open>simp add: program_file_def\<close>)
  moreover have "apart_files F k' = apart_files F k"
    using apart_files_stores [of F ?k k'] k'(2) by (simp add: space_step_def)
  ultimately show ?thesis using k'(3) by blast
qed

lemma system_write_screen:
  assumes p: "plain_output fd k" and h: "holds_bytes A m k" "cstr m b t" "set (block b (Suc (length t))) \<subseteq> A"
  shows "system_write 1 b n k = Some (Return n (puts t k))"
proof -
  have "is_file_pipe (current_task k) 1 k = Some False" using p no_pipe_not_pipe [of 1 k] by (simp add: plain_output_def)
  moreover obtain x where "deref (tasks k) (current_task k) = Some x" "t_write_redirection_fd x = 0"
    using p by (auto simp: plain_output_def no_pipe_def node_at_def deref_def split: if_splits)
  ultimately show ?thesis
    using vread_cstr_holds [OF h] by (simp add: system_write_def get_current_task_def)
qed

lemma system_close_file:
  assumes "program_file A F fd k w"
  shows "\<exists>h. system_close fd k = Some (k\<lparr>files := h\<rparr>)"
  using fclose_rest [of fd k w] assms no_pipe_not_pipe [of fd k]
  by (simp add: program_file_def plain_output_def system_close_def get_current_task_def)

definition opens_file :: "u64 set \<Rightarrow> u64 set \<Rightarrow> bytes \<Rightarrow> sys_state \<Rightarrow> u32 \<Rightarrow> bytes \<Rightarrow> bool" where
  "opens_file A F nm k f w \<longleftrightarrow> fopen nm k = Some f \<and> 0 \<le> sint f \<and> program_file A F (scast f) k w"

lemma fopen_stores: "stores_in F k k' \<Longrightarrow> fopen nm k' = fopen nm k"
  using stores_in_same [of F k k'] by (simp add: fopen_def cong: if_cong)

lemma user_open:
  assumes q: "cstr (umem s) q nm" "set (block q (Suc (length nm))) \<subseteq> set us" and o: "opens_file (set us) F nm (kern s) f w"
  shows "\<exists>k. user_kernel us 2 q 0 0 s = Some (scast f, s\<lparr>kern := k\<rparr>) \<and> 0 \<le> sint f \<and> program_file (set us) F (scast f) k w \<and>
    apart_files F k = apart_files F (kern s)"
proof -
  let ?P = "\<lambda>k. program_file (set us) F (scast f) k w \<and> apart_files F k = apart_files F (kern s)"
  have f: "fopen nm (kern s) = Some f" "0 \<le> sint f" "program_file (set us) F (scast f) (kern s) w"
    using o by (simp_all add: opens_file_def)
  have "\<exists>k'. user_kernel us 2 q 0 0 s = Some (scast f, s\<lparr>umem := umem s, kern := k'\<rparr>) \<and> ?P k'"
  proof (rule user_kernel_call)
    show "program_space (set us) F (kern s)" using f(3) by (simp add: program_file_def)
    fix k assume k: "space_step (set us) F (kern s) k" "holds_bytes (set us) (umem s) k"
    then have "stores_in F (kern s) k" by (simp add: space_step_def)
    then have "fopen nm k = Some f" "apart_files F k = apart_files F (kern s)" using f(1) fopen_stores [of F "kern s" k nm] apart_files_stores [of F "kern s" k] by simp_all
    moreover have "vread_cstr q k = Some nm" by (rule vread_cstr_holds [OF k(2) q])
    ultimately show "\<exists>k'. switch_handler 2 q 0 0 k = Some (Return (scast f) k') \<and> holds_bytes (set us) (umem s) k' \<and> ?P k'"
      using k(2) program_file_step [OF k(1) f(3)] by (intro exI [of _ k]) (simp add: switch_handler_def system_open_def)
  qed simp
  then show ?thesis using f(2) by simp
qed

lemma user_read:
  assumes f: "program_file (set us) F fd (kern s) w" and n: "unat n < 2 ^ 31" and b: "set (block b (unat n)) \<subseteq> set us"
  shows "\<exists>k. user_kernel us 0 fd b n s = Some (of_nat (length (take (unat n) w)),
      s\<lparr>umem := store_bytes (take (unat n) w) b (umem s), kern := k\<rparr>) \<and>
    program_file (set us) F fd k (drop (unat n) w) \<and> apart_files F k = apart_files F (kern s)"
proof (rule user_kernel_call)
  show "program_space (set us) F (kern s)" using f by (simp add: program_file_def)
  show "store_bytes (take (unat n) w) b (umem s) x = umem s x" if "x \<notin> set us" for x
    using that b block_mono [of "length (take (unat n) w)" "unat n" b] by (intro store_bytes_other) auto
  fix k assume k: "space_step (set us) F (kern s) k" "holds_bytes (set us) (umem s) k"
  then have "apart_files F k = apart_files F (kern s)" by (simp add: space_step_def apart_files_stores)
  then show "\<exists>k'. switch_handler 0 fd b n k = Some (Return (of_nat (length (take (unat n) w))) k') \<and>
      holds_bytes (set us) (store_bytes (take (unat n) w) b (umem s)) k' \<and>
      program_file (set us) F fd k' (drop (unat n) w) \<and> apart_files F k' = apart_files F (kern s)"
    using system_read_file [OF program_file_step [OF k(1) f] k(2) n b] by (simp add: switch_handler_def)
qed

lemma user_write:
  assumes f: "program_file (set us) F fd (kern s) w" and b: "cstr (umem s) b t" "set (block b (Suc (length t))) \<subseteq> set us"
  shows "\<exists>k. user_kernel us 1 1 b n s = Some (n, s\<lparr>kern := k\<rparr>) \<and> program_file (set us) F fd k w \<and>
    apart_files F k = puts t (apart_files F (kern s))"
proof -
  let ?P = "\<lambda>k. program_file (set us) F fd k w \<and> apart_files F k = puts t (apart_files F (kern s))"
  have "\<exists>k'. user_kernel us 1 1 b n s = Some (n, s\<lparr>umem := umem s, kern := k'\<rparr>) \<and> ?P k'"
  proof (rule user_kernel_call)
    show "program_space (set us) F (kern s)" using f by (simp add: program_file_def)
    fix k assume k: "space_step (set us) F (kern s) k" "holds_bytes (set us) (umem s) k"
    have p: "program_file (set us) F fd k w" by (rule program_file_step [OF k(1) f])
    have "apart_files F k = apart_files F (kern s)" using k(1) by (simp add: space_step_def apart_files_stores)
    then have a: "apart_files F (puts t k) = puts t (apart_files F (kern s))" by (simp add: apart_files_puts)
    have "program_file (set us) F fd (puts t k) w"
      using p file_rest_cong [of "puts t k" k fd w] plain_output_same [of fd k "puts t k"] program_space_same [of "puts t k" k]
      by (simp add: program_file_def)
    moreover have "holds_bytes (set us) (umem s) (puts t k)" using k(2) holds_bytes_same [of "puts t k" k] by simp
    moreover have "system_write 1 b n k = Some (Return n (puts t k))"
      by (rule system_write_screen [OF _ k(2) b, of fd]) (use p in \<open>simp add: program_file_def\<close>)
    ultimately show "\<exists>k'. switch_handler 1 1 b n k = Some (Return n k') \<and> holds_bytes (set us) (umem s) k' \<and> ?P k'"
      using a by (simp add: switch_handler_def)
  qed simp
  then show ?thesis by simp
qed

lemma user_close:
  assumes f: "program_file (set us) F fd (kern s) w"
  shows "\<exists>k. user_kernel us 3 fd 0 0 s = Some (0, s\<lparr>kern := k\<rparr>) \<and> apart_files F k = apart_files F (kern s)"
proof -
  have "\<exists>k'. user_kernel us 3 fd 0 0 s = Some (0, s\<lparr>umem := umem s, kern := k'\<rparr>) \<and> apart_files F k' = apart_files F (kern s)"
  proof (rule user_kernel_call)
    show "program_space (set us) F (kern s)" using f by (simp add: program_file_def)
    fix k assume k: "space_step (set us) F (kern s) k" "holds_bytes (set us) (umem s) k"
    obtain h where h: "system_close fd k = Some (k\<lparr>files := h\<rparr>)"
      using system_close_file [OF program_file_step [OF k(1) f]] by blast
    have "holds_bytes (set us) (umem s) (k\<lparr>files := h\<rparr>)" using k(2) holds_bytes_same [of "k\<lparr>files := h\<rparr>" k] by simp
    moreover have "apart_files F (k\<lparr>files := h\<rparr>) = apart_files F (kern s)"
      using k(1) by (simp add: space_step_def apart_files_stores)
    ultimately show "\<exists>k'. switch_handler 3 fd 0 0 k = Some (Return 0 k') \<and> holds_bytes (set us) (umem s) k' \<and>
        apart_files F k' = apart_files F (kern s)"
      using h by (intro exI [of _ "k\<lparr>files := h\<rparr>"]) (simp add: switch_handler_def ret_void_def)
  qed simp
  then show ?thesis by simp
qed

interpretation user_files: file_io "user_kernel us" "opens_file (set us) F" "program_file (set us) F" "set us" "apart_files F" puts
  for us :: "u64 list" and F :: "u64 set"
proof unfold_locales
  fix fd and s :: "sys_state user_state" and w
  assume "program_file (set us) F fd (kern s) w"
  then show "\<exists>v k. user_kernel us 3 fd 0 0 s = Some (v, s\<lparr>kern := k\<rparr>) \<and> apart_files F k = apart_files F (kern s)"
    using user_close by blast
next
  fix fd and n b :: u64 and s :: "sys_state user_state" and w
  assume "program_file (set us) F fd (kern s) w" "unat n < 2 ^ 31" "set (block b (unat n)) \<subseteq> set us"
  then show "\<exists>k. user_kernel us 0 fd b n s = Some (of_nat (length (take (unat n) w)),
        s\<lparr>umem := store_bytes (take (unat n) w) b (umem s), kern := k\<rparr>) \<and>
      program_file (set us) F fd k (drop (unat n) w) \<and> apart_files F k = apart_files F (kern s)"
    by (rule user_read)
qed (simp_all add: user_open user_write puts_append)

subsection \<open>Properties\<close>

text \<open>C19: \<open>cat\<close>, from the C library through the system calls to the tar file system and the console: given the path
  of a file without NUL bytes, and a zero byte behind its buffer of 80 bytes, with the path and the buffer on
  pages of its address space and its standard output not redirected, it returns 0 with the contents of the
  file printed on the screen, chunk by chunk, and apart from the read positions and the program's own frames
  nothing else of the kernel has changed.\<close>

lemma cat_prints_file:
  assumes "2 \<le> sint argc" and "cstr (umem s) (uload 8 (argv + 8) s) nm" and "fopen nm (kern s) = Some f" "0 \<le> sint f"
    and "file_rest (scast f) (kern s) w" and "0 \<notin> set w" and "umem s (buf + 80) = 0"
    and "program_space (set us) F (kern s)" and "plain_output (scast f) (kern s)"
    and "set (block (uload 8 (argv + 8) s) (Suc (length nm))) \<subseteq> set us" and "set (block buf 81) \<subseteq> set us"
  shows "\<exists>s'. cat_main (user_kernel us) pb buf argc argv s = Some (0, s') \<and>
    apart_files F (kern s') = puts w (apart_files F (kern s))"
proof (rule user_files.cat_main_emits)
  show "opens_file (set us) F nm (kern s) f w" using assms by (simp add: opens_file_def program_file_def)
qed (rule assms)+

text \<open>The file \<open>a\<close> of three bytes, for the task with the page 0x401000.\<close>

definition ex_cat :: "sys_state user_state" where
  "ex_cat = \<lparr>umem = store_bytes (str_bytes ''rootfs/a'') 0x401200 ((\<lambda>_. 0)(0x10A := 0x40, 0x109 := 0x12)), errno = 0, heap_head = 0,
     kern = ex_sys\<lparr>files := (files ex_files)(16 \<mapsto> (node_at (files ex_files) 16)\<lparr>fl_offset := 0\<rparr>), filelist := 16\<rparr>\<rparr>"

lemma ex_sys_fields: "cr3 ex_sys = 0x1000" "pmem ex_sys = ex_chain" "current_task ex_sys = 32"
  "tasks ex_sys 32 = Some ((mk_task 2 TASK_WAITING 48 80)\<lparr>t_pml4e := 0x400000\<rparr>)" "kmem ex_sys = ex_tar" "tarfs_start ex_sys = 0x1000"
  by (auto simp: ex_sys_def ex_kb_def ex_con_def ex_fs_def ex_time_def ex_proc_def kb_state.defs con_state.defs
      fs_state.defs time_state.defs proc_state.defs mmu_state.defs ex_chain_def fun_eq_iff)

lemma cat_prints_file_witness:
  "\<exists>s'. cat_main (user_kernel (block 0x401000 4096)) 0x5000 0x401300 2 0x100 ex_cat = Some (0, s') \<and>
     apart_files {0x5000} (kern s') = puts [0x78, 0x79, 0x7A] (apart_files {0x5000} (kern ex_cat))"
proof -
  let ?nm = "str_bytes ''rootfs/a''" and ?k = "kern ex_cat" and ?A = "set (block 0x401000 4096)"
  let ?x = "\<lparr>fl_name = ?nm, fl_fd = 3, fl_addr = 0x1000, fl_type = 0, fl_size = 3, fl_offset = 0, fl_next = 32\<rparr>"
  have k: "kmem ?k = ex_tar" "tarfs_start ?k = 0x1000" "filelist ?k = 16" "cr3 ?k = 0x1000" "pmem ?k = ex_chain" "current_task ?k = 32"
    by (simp_all add: ex_cat_def ex_sys_fields)
  have x: "node_at (files ?k) 16 = ?x" "node_at (files ?k) 32 = node_at (files ex_files) 32"
    by (simp_all add: ex_cat_def ex_files_def node_at_def)
  have seq: "file_seq ?k [16, 32]"
    by (simp add: k) (simp add: ex_cat_def ex_files_def deref_def node_at_def)
  have nm: "?nm = str_bytes ''rootfs'' @ slash # [0x61]" "slash \<notin> set (str_bytes ''rootfs'')" by code_simp+
  have "kmem_bytes ex_tar (0x1000 + (entry_pos [] + 512) + 0) 3 = [0x78, 0x79, 0x7A]" by code_simp
  then have rest: "file_rest 3 ?k [0x78, 0x79, 0x7A]"
    unfolding file_rest_def using seq x nm k ex_archive
    by (intro exI [of _ "[16, 32]"] exI [of _ 16] exI [of _ ?x] exI [of _ "str_bytes ''rootfs''"] exI [of _ "[0x61]"]
      exI [of _ "[]"] exI [of _ "[([0x62], 0)]"]) simp
  have page: "ALIGN_DOWN v = 0x401000" if "v \<in> ?A" for v
  proof -
    have "0x401000 \<le> unat v" "unat v < 0x402000" using that by (simp_all add: block_range)
    then have "unat v div 4096 = 0x401" by (simp add: div_nat_eqI)
    then have "unat (ALIGN_DOWN v) = 0x401 * 4096" by (simp only: unat_ALIGN_DOWN)
    moreover have "unat (0x401000 :: u64) = 0x401 * 4096" by simp
    ultimately show ?thesis by (simp only: word_unat_eq_iff)
  qed
  have argv: "uload 8 (0x100 + 8) ex_cat = 0x401200" by code_simp
  have "cstr (umem ex_cat) (uload 8 (0x100 + 8) ex_cat) ?nm" unfolding argv by code_simp
  moreover have "fopen ?nm ?k = Some 3"
    using scan_files_hit [OF seq, where P = "\<lambda>x. fl_name x = ?nm" and a = 16] x(1) by (simp add: fopen_def)
  moreover have "umem ex_cat (0x401300 + 80) = 0" by code_simp
  moreover have "program_space ?A {0x5000} ?k"
  proof -
    have r: "data_region ?A ?k" by (rule ex_chain_region) (simp_all add: k page)
    have "frame_of 0x1000 ?k v = Some 0x5000" if "v \<in> ?A" for v
    proof -
      have "same_page v 0x401000" by (rule ALIGN_DOWN_same_page) (simp only: page [OF that], code_simp)
      moreover have "path 0x401000 = [0, 0, 2, 1]" by code_simp
      ultimately have "path v = [0, 0, 2, 1]" by (simp add: same_page_def)
      then show ?thesis
        by (simp add: frame_of_def k slot_def ex_chain_def isPresent_def PT_PRESENT_FLAG_def ALIGN_DOWN_def)
    qed
    then show ?thesis using r by (simp add: program_space_def k)
  qed
  moreover have "plain_output 3 ?k"
  proof -
    have "tasks ?k 32 = Some ((mk_task 2 TASK_WAITING 48 80)\<lparr>t_pml4e := 0x400000\<rparr>)" by (simp add: ex_cat_def ex_sys_fields)
    then show ?thesis
      by (simp add: plain_output_def no_pipe_def k deref_def node_at_def mk_task_def exI [of _ "[]"])
  qed
  moreover have "set (block (uload 8 (0x100 + 8) ex_cat) (Suc (length ?nm))) \<subseteq> ?A" "set (block 0x401300 81) \<subseteq> ?A"
    unfolding argv by (auto simp: block_range str_bytes_def simp del: block.simps)
  ultimately show ?thesis
    using rest by (intro cat_prints_file [where f = 3 and nm = ?nm]) simp_all
qed

end
