(* ===== verification/ShellInput.thy ===== *)
theory ShellInput
  imports Shell UserHeap
begin

section \<open>A line typed at the shell (\<open>readInput\<close> over \<open>system_read\<close> and the keyboard driver)\<close>

text \<open>
  The shell reads its input one character at a time: \<open>scanf("%c")\<close> is a system call with a count of 1, for
  which the driver delivers every key at once, so that the line editing is the shell's own.  The first part
  follows the loop of \<open>readInput\<close> over any source of characters (locale \<open>char_input\<close>); the second shows
  that the system call, the keyboard interrupts and the copy into the address space of the reader are such a
  source; the property puts the two together.
\<close>

subsection \<open>Reference: the edited line\<close>

text \<open>A backspace takes the last character back.  On an empty line it would go left of the line, which the
  shell does not prevent; there is no result then.\<close>

fun line_edit :: "bytes \<Rightarrow> bytes \<Rightarrow> bytes option" where
  "line_edit line [] = Some line"
| "line_edit line (c # cs) =
     (if c = 0x08 then if line = [] then None else line_edit (butlast line) cs else line_edit (line @ [c]) cs)"

text \<open>The bytes of the line are at \<open>p\<close>.\<close>

definition line_at :: "cmem \<Rightarrow> u64 \<Rightarrow> bytes \<Rightarrow> bool" where
  "line_at m p line \<longleftrightarrow> (\<forall>i < length line. m (p + of_nat i) = line ! i)"

lemma ucast_up_down: "(ucast (ucast (c :: u8) :: u64) :: u8) = c"
  by (rule bit_word_eqI) (simp add: bit_simps)

lemma line_at_same: "line_at m p line \<Longrightarrow> (\<And>i. i < length line \<Longrightarrow> m' (p + of_nat i) = m (p + of_nat i)) \<Longrightarrow> line_at m' p line"
  by (simp add: line_at_def)

lemma line_at_update:
  assumes "line_at m p line" and "length line \<le> n" and "n < 2 ^ 64"
  shows "line_at (m(p + of_nat n := c)) p line"
proof (rule line_at_same [OF assms(1)])
  fix i assume "i < length line"
  then have "(of_nat i :: u64) \<noteq> of_nat n" using assms(2,3) by (auto dest!: word_of_nat_u64_inj)
  then show "(m(p + of_nat n := c)) (p + of_nat i) = m (p + of_nat i)" by simp
qed

lemma line_at_snoc:
  assumes "line_at m p line" and "length line < 2 ^ 64"
  shows "line_at (m(p + of_nat (length line) := c)) p (line @ [c])"
  using line_at_update [OF assms(1) order_refl assms(2), of c] unfolding line_at_def
  by (auto simp: nth_append less_Suc_eq simp del: fun_upd_apply) simp

lemma line_at_butlast: "line_at m p line \<Longrightarrow> line_at m p (butlast line)"
  by (simp add: line_at_def nth_butlast)

subsection \<open>The loop over a source of characters\<close>

text \<open>What the shell needs of the kernel: as long as characters are pending, a read of one byte stores the
  next one at the buffer \<open>b\<close>, changes nothing else of the program's memory and does not fail.  \<open>view\<close> is
  what else the program knows of the kernel.\<close>

locale char_input =
  fixes K :: "'k kernel" and ready :: "u64 \<Rightarrow> 'k \<Rightarrow> bool" and pending :: "'k \<Rightarrow> bytes" and view :: "'k \<Rightarrow> 'v"
  assumes read_law: "ready b (kern s) \<Longrightarrow> pending (kern s) = c # cs \<Longrightarrow>
    \<exists>v k. K 0 0 b 1 s = Some (v, s\<lparr>umem := (umem s)(b := c), kern := k\<rparr>) \<and> 0 \<le> sint (ucast v :: u32) \<and>
      ready b k \<and> pending k = cs \<and> view k = view (kern s)"

text \<open>The bytes that \<open>readInput\<close> uses.\<close>

abbreviation input_bytes :: "shell_frame \<Rightarrow> shell_globals \<Rightarrow> u64 \<Rightarrow> u64 set" where
  "input_bytes F G p \<equiv> set (block p 1024) \<union> insert (l_c F) (set (block (sv_scan_data G) 1024))"

text \<open>What the program's memory can have changed in.\<close>

definition changed_in :: "u64 set \<Rightarrow> 'k user_state \<Rightarrow> 'k user_state \<Rightarrow> bool" where
  "changed_in A s s' \<longleftrightarrow> heap_head s' = heap_head s \<and> (\<forall>a. a \<notin> A \<longrightarrow> umem s' a = umem s a)"

lemma changed_in_trans: "changed_in A s t \<Longrightarrow> changed_in A t u \<Longrightarrow> changed_in A s u"
  by (simp add: changed_in_def)

lemma changed_in_store_char:
  "changed_in A s t \<Longrightarrow> p + scast i \<in> A \<Longrightarrow> changed_in A s (store_char p i c t)"
  by (auto simp: changed_in_def store_char_def)

lemma changed_in_mono: "changed_in A s t \<Longrightarrow> A \<subseteq> B \<Longrightarrow> changed_in B s t"
  by (auto simp: changed_in_def)

context char_input
begin

text \<open>\<open>scanf("%c", a)\<close> gets the next character and, apart from its static buffer, changes nothing else.\<close>

lemma scanf_char:
  assumes "ready data (kern s)" and "pending (kern s) = c # cs" and a: "a \<notin> set (block data 1024)"
  shows "\<exists>sz s'. scanf K data (str_bytes ''%c'') [a] s = Some (sz, s') \<and> ready data (kern s') \<and> pending (kern s') = cs \<and>
    view (kern s') = view (kern s) \<and> umem s' a = c \<and> changed_in (insert a (set (block data 1024))) s s'"
proof -
  let ?s = "uclear data 1 (s\<lparr>umem := reset data 1024 (umem s)\<rparr>)"
  obtain v k where k: "K 0 0 data 1 ?s = Some (v, ?s\<lparr>umem := (umem ?s)(data := c), kern := k\<rparr>)"
    "0 \<le> sint (ucast v :: u32)" "ready data k" "pending k = cs" "view k = view (kern s)"
    using read_law [of data ?s c cs] assms by (auto simp: uclear_def)
  let ?s1 = "?s\<lparr>umem := (umem ?s)(data := c), kern := k\<rparr>"
  let ?s' = "?s1\<lparr>umem := (umem ?s1)(a := c)\<rparr>"
  have data: "data \<in> set (block data 1024)" unfolding in_block by (rule exI [of _ 0]) simp
  have "(ucast v :: u32) \<noteq> - 1" using k(2) by auto
  then have "scanf K data (str_bytes ''%c'') [a] s = Some (ucast v, ?s')"
    using k(1,2) by (simp add: scanf_def str_bytes_def scan_read_def read_fd_def ret_long_def ustore_def ucast_up_down Let_def)
  moreover have "umem ?s' p = umem s p" if "p \<notin> insert a (set (block data 1024))" for p
  proof -
    have "p \<noteq> data" "p \<noteq> a" "p \<notin> set (block data (Suc 0))" "p \<notin> set (block data (nat 1024))"
      using that data block_mono [of 1 1024 data] by auto
    then show ?thesis by (simp add: uclear_def memset_def reset_def memset_loop_other)
  qed
  ultimately show ?thesis
    using k(3-5) by (intro exI [of _ "ucast v"] exI [of _ ?s']) (simp add: changed_in_def, simp add: uclear_def)
qed

text \<open>A round of the loop on a character that is neither the end of the line nor a bar.\<close>

lemma read_loop_char:
  assumes apart: "l_c F \<notin> set (block (sv_scan_data G) 1024)"
    "set (block p 1024) \<inter> insert (l_c F) (set (block (sv_scan_data G) 1024)) = {}"
    and c: "c \<noteq> 0x0A" "c \<noteq> 0x7C" "c = 0x08 \<Longrightarrow> line \<noteq> []" and len: "length line < 1023"
    and s: "ready (sv_scan_data G) (kern s)" "pending (kern s) = c # cs" "umem s (l_c F) \<noteq> 0x0A" "line_at (umem s) p line"
  defines "line' \<equiv> if c = 0x08 then butlast line else line @ [c]"
  shows "\<exists>s'. read_loop K G F p (of_nat (length line)) False s = read_loop K G F p (of_nat (length line')) False s' \<and>
    ready (sv_scan_data G) (kern s') \<and> pending (kern s') = cs \<and> umem s' (l_c F) \<noteq> 0x0A \<and> line_at (umem s') p line' \<and>
    view (kern s') = view (kern s) \<and> changed_in (input_bytes F G p) s s'"
proof -
  let ?n = "length line"
  obtain sz s1 where s1: "scanf K (sv_scan_data G) (str_bytes ''%c'') [l_c F] s = Some (sz, s1)"
    "ready (sv_scan_data G) (kern s1)" "pending (kern s1) = cs" "umem s1 (l_c F) = c"
    "view (kern s1) = view (kern s)" "changed_in (insert (l_c F) (set (block (sv_scan_data G) 1024))) s s1"
    using scanf_char [of "sv_scan_data G" s c cs "l_c F"] s apart(1) by auto
  have same: "umem s1 q = umem s q" if "q \<notin> insert (l_c F) (set (block (sv_scan_data G) 1024))" for q
    using s1(6) that by (simp add: changed_in_def)
  have ch: "changed_in (input_bytes F G p) s s1" by (rule changed_in_mono [OF s1(6)]) auto
  have buf: "p + of_nat i \<in> input_bytes F G p" if "i < 1024" for i using that in_block by blast
  have out: "p + of_nat i \<notin> insert (l_c F) (set (block (sv_scan_data G) 1024))" if "i < 1024" for i
    using apart(2) that in_block by blast
  have line1: "line_at (umem s1) p line"
    by (rule line_at_same [OF s(4)]) (use same out len in simp)
  show ?thesis
  proof (cases "c = 0x08")
    case True
    then obtain k where k: "?n = Suc k" using c(3) by (cases line) auto
    then have i: "of_nat ?n - 1 = (of_nat k :: u32)" "scast (of_nat k :: u32) = (of_nat k :: u64)"
      using len small_result(2) [of k] by (simp_all add: scast_eq)
    let ?s' = "store_char p (of_nat k) 0 s1"
    have "read_loop K G F p (of_nat ?n) False s = read_loop K G F p (of_nat k) False ?s'"
      using s1(1,4) s(3) True i(1) by (simp add: read_loop.simps [of K G F p _ False s])
    moreover have "line_at (umem ?s') p (butlast line)"
      using line_at_update [OF line_at_butlast [OF line1], of k 0] k len i(2) by (simp add: store_char_def)
    moreover have "umem ?s' (l_c F) \<noteq> 0x0A" using s1(4) True out [of k] k len i(2) by (auto simp: store_char_def)
    moreover have "changed_in (input_bytes F G p) s ?s'" by (rule changed_in_store_char [OF ch]) (use buf k len i(2) in simp)
    ultimately show ?thesis using s1(2,3,5) True k by (intro exI [of _ ?s']) (simp add: line'_def store_char_def)
  next
    case False
    have i: "of_nat ?n + 1 = (of_nat (Suc ?n) :: u32)" "scast (of_nat ?n :: u32) = (of_nat ?n :: u64)"
      using len small_result(2) [of ?n] by (simp_all add: scast_eq)
    let ?s' = "store_char p (of_nat ?n) c s1"
    have "read_loop K G F p (of_nat ?n) False s = read_loop K G F p (of_nat (Suc ?n)) False ?s'"
      using s1(1,4) s(3) False c i(1) by (simp add: read_loop.simps [of K G F p _ False s] del: of_nat_Suc)
    moreover have "line_at (umem ?s') p (line @ [c])"
      using line_at_snoc [OF line1, of c] len i(2) by (simp add: store_char_def)
    moreover have "umem ?s' (l_c F) \<noteq> 0x0A" using s1(4) c out [of ?n] len i(2) by (auto simp: store_char_def)
    moreover have "changed_in (input_bytes F G p) s ?s'" by (rule changed_in_store_char [OF ch]) (use buf len i(2) in simp)
    ultimately show ?thesis using s1(2,3,5) False by (intro exI [of _ ?s']) (simp add: line'_def store_char_def)
  qed
qed

text \<open>The whole line: neither its end nor a bar is among \<open>cs\<close>.\<close>

lemma read_loop_line:
  assumes apart: "l_c F \<notin> set (block (sv_scan_data G) 1024)"
    "set (block p 1024) \<inter> insert (l_c F) (set (block (sv_scan_data G) 1024)) = {}"
  shows "line_edit line cs = Some r \<Longrightarrow> 0x0A \<notin> set cs \<Longrightarrow> 0x7C \<notin> set cs \<Longrightarrow> length line + length cs < 1024 \<Longrightarrow>
    ready (sv_scan_data G) (kern s) \<Longrightarrow> pending (kern s) = cs @ 0x0A # rest \<Longrightarrow> umem s (l_c F) \<noteq> 0x0A \<Longrightarrow>
    line_at (umem s) p line \<Longrightarrow>
    \<exists>s'. read_loop K G F p (of_nat (length line)) False s = Some (if r = [] then 0 else 1, s') \<and>
      line_at (umem s') p r \<and> umem s' (p + of_nat (length r)) = 0 \<and> ready (sv_scan_data G) (kern s') \<and> pending (kern s') = rest \<and>
      view (kern s') = view (kern s) \<and> changed_in (input_bytes F G p) s s'"
proof (induction cs arbitrary: line s)
  case Nil
  let ?n = "length line"
  obtain sz s1 where s1: "scanf K (sv_scan_data G) (str_bytes ''%c'') [l_c F] s = Some (sz, s1)"
    "ready (sv_scan_data G) (kern s1)" "pending (kern s1) = rest" "umem s1 (l_c F) = 0x0A"
    "view (kern s1) = view (kern s)" "changed_in (insert (l_c F) (set (block (sv_scan_data G) 1024))) s s1"
    using scanf_char [of "sv_scan_data G" s "0x0A" rest "l_c F"] Nil.prems apart(1) by auto
  have n: "sint (of_nat ?n :: u32) = int ?n" "scast (of_nat ?n :: u32) = (of_nat ?n :: u64)"
    using Nil.prems(4) small_result(2) [of ?n] by (simp_all add: scast_eq)
  let ?s' = "store_char p (of_nat ?n) 0 s1"
  have "read_loop K G F p (of_nat ?n) False s = read_loop K G F p (of_nat ?n) False s1"
    using s1(1,4) Nil.prems(7) by (subst read_loop.simps) simp
  also have "\<dots> = Some (if line = [] then 0 else 1, ?s')"
    using s1(4) n(1) by (subst read_loop.simps) auto
  finally have "read_loop K G F p (of_nat ?n) False s = Some (if line = [] then 0 else 1, ?s')" .
  moreover have "p + of_nat i \<notin> insert (l_c F) (set (block (sv_scan_data G) 1024))" if "i < 1024" for i
    using apart(2) that in_block by blast
  then have "line_at (umem s1) p line"
    using Nil.prems(4) s1(6) by (intro line_at_same [OF Nil.prems(8)]) (simp add: changed_in_def)
  then have "line_at (umem ?s') p line"
    using line_at_update [of "umem s1" p line ?n 0] Nil.prems(4) n(2) by (simp add: store_char_def)
  moreover have "changed_in (input_bytes F G p) s ?s'"
  proof (rule changed_in_store_char)
    show "changed_in (input_bytes F G p) s s1" by (rule changed_in_mono [OF s1(6)]) auto
    show "p + scast (of_nat ?n :: u32) \<in> input_bytes F G p" using Nil.prems(4) n(2) in_block by simp blast
  qed
  ultimately show ?case using s1(2,3,5) n(2) Nil.prems(1) by (intro exI [of _ ?s']) (simp add: store_char_def fun_upd_def)
next
  case (Cons c cs)
  let ?line = "if c = 0x08 then butlast line else line @ [c]"
  have e: "line_edit ?line cs = Some r" "c = 0x08 \<Longrightarrow> line \<noteq> []" using Cons.prems(1) by (auto split: if_splits)
  have len: "length line < 1023" "length ?line + length cs < 1024" using Cons.prems(4) by auto
  have "c \<noteq> 0x0A" "c \<noteq> 0x7C" "pending (kern s) = c # (cs @ 0x0A # rest)" using Cons.prems(2,3,6) by auto
  from read_loop_char [OF apart this(1,2) e(2) len(1) Cons.prems(5) this(3) Cons.prems(7,8)]
  obtain s1 where s1: "read_loop K G F p (of_nat (length line)) False s = read_loop K G F p (of_nat (length ?line)) False s1"
    "ready (sv_scan_data G) (kern s1)" "pending (kern s1) = cs @ 0x0A # rest" "umem s1 (l_c F) \<noteq> 0x0A"
    "line_at (umem s1) p ?line" "view (kern s1) = view (kern s)" "changed_in (input_bytes F G p) s s1" by blast
  have "0x0A \<notin> set cs" "0x7C \<notin> set cs" using Cons.prems(2,3) by auto
  from Cons.IH [OF e(1) this len(2) s1(2-5)] show ?case
    unfolding s1(1) using s1(6) changed_in_trans [OF s1(7)] by metis
qed

lemma readInput_line:
  assumes "l_c F \<notin> set (block (sv_scan_data G) 1024)"
    and "set (block p 1024) \<inter> insert (l_c F) (set (block (sv_scan_data G) 1024)) = {}"
    and "line_edit [] cs = Some r" "0x0A \<notin> set cs" "0x7C \<notin> set cs" "length cs < 1024"
    and "ready (sv_scan_data G) (kern s)" "pending (kern s) = cs @ 0x0A # rest"
  shows "\<exists>s'. readInput K G F p s = Some (if r = [] then 0 else 1, s') \<and> line_at (umem s') p r \<and>
      umem s' (p + of_nat (length r)) = 0 \<and> ready (sv_scan_data G) (kern s') \<and> pending (kern s') = rest \<and>
      view (kern s') = view (kern s) \<and> changed_in (input_bytes F G p) s s'"
proof -
  let ?s = "s\<lparr>umem := (umem s)(l_c F := 0x20)\<rparr>"
  have ch: "changed_in (input_bytes F G p) s ?s" by (simp add: changed_in_def)
  have "line_at (umem ?s) p []" by (simp add: line_at_def)
  then obtain s' where "read_loop K G F p (of_nat (length ([] :: bytes))) False ?s = Some (if r = [] then 0 else 1, s')"
    "line_at (umem s') p r" "umem s' (p + of_nat (length r)) = 0" "ready (sv_scan_data G) (kern s')" "pending (kern s') = rest"
    "view (kern s') = view (kern ?s)" "changed_in (input_bytes F G p) ?s s'"
    using read_loop_line [OF assms(1-5), of ?s rest] assms(6-8) by auto
  then show ?thesis using changed_in_trans [OF ch] by (simp add: readInput_def)
qed

end

subsection \<open>The keyboard behind the system call\<close>

text \<open>Keys are pressed until the driver has delivered.\<close>

fun press_until :: "u8 list \<Rightarrow> 'z kb_state_scheme \<Rightarrow> ('z kb_state_scheme \<times> u8 list) option" where
  "press_until [] s = None"
| "press_until (sc # scs) s = do {
     s \<leftarrow> press sc s;
     if kb_flag s = 0 then Some (s, scs) else press_until scs s
   }"

text \<open>The root of the page tables of a task.\<close>

definition task_root :: "u64 \<Rightarrow> 'z proc_state_scheme \<Rightarrow> u64" where
  "task_root a s = virt_to_phy (t_pml4e (node_at (tasks s) a)) 0 s"

text \<open>
  A read of the standard input as the program sees it.  \<open>system_read\<close> makes the caller wait and gives up the
  processor; the keys come; the program runs again when it is scheduled, with the number of the call as its
  result (see \<open>blocking_call_enters_head\<close>), and finds at the buffer what is there in its address space.
  The kernel state is that of the system calls and the scan codes of the keys to come.  \<open>brk\<close>, which uses no
  memory of the program, is the other call that is answered.
\<close>

definition keys_kernel :: "(sys_state \<times> u8 list) kernel" where
  "keys_kernel n fd buf cnt s = (let (k, scs) = kern s; task = get_current_task k in
     if n = 12 then
       (case switch_handler n fd buf cnt k of
          Some (Return v k) \<Rightarrow> Some (v, s\<lparr>kern := (k, scs)\<rparr>)
        | _ \<Rightarrow> None)
     else if n \<noteq> 0 then None
     else do {
       out \<leftarrow> system_read fd buf cnt k;
       (case out of
          Return v k \<Rightarrow> None
        | Resched k \<Rightarrow> do {
            (k, scs) \<leftarrow> press_until scs k;
            data \<leftarrow> vload_bytes (unat cnt) buf (write_cr3 (task_root task k) k);
            k \<leftarrow> upd_task task (\<lambda>t. t\<lparr>t_state := TASK_RUNNING\<rparr>) k;
            Some (n, s\<lparr>umem := store_bytes data buf (umem s), kern := (set_current_task task k, scs)\<rparr>)
          })
     })"

text \<open>With a count of 1 the driver delivers whatever the key is: also a new line or a backspace.\<close>

lemma accept_char_single:
  assumes s: "collecting [] s" and n: "kb_count s = 1"
  shows "accept_char s = deliver 1 (s\<lparr>kb_a := (kb_a s)[0 := current_char s], kb_i := 1\<rparr>)"
proof -
  have z: "kb_i s = 0" using s by (simp add: collecting_def)
  have "set_a 0 c s = Some (s\<lparr>kb_a := (kb_a s)[0 := c]\<rparr>)" for c
    using set_a_next [OF s] z by simp
  then show ?thesis using z n by (simp add: accept_char_def Let_def)
qed

lemma single_key:
  assumes s: "collecting [] s" and n: "kb_count s = 1" and m: "line_stored [key_char (current_control s) sc] s = Some m"
  shows "\<exists>s' w. handlekey sc s = Some s' \<and> deref (tasks s) (waiting_task s) = Some w \<and> kb_flag s' = 0 \<and> kb_i s' = 0 \<and>
    length (kb_a s') = 1024 \<and> current_control s' = NORMAL_KEY \<and>
    off_kb s' = (off_kb s)\<lparr>pmem := m, tasks := (tasks s)(waiting_task s \<mapsto> w\<lparr>t_state := TASK_RUNNABLE\<rparr>)\<rparr>"
proof -
  let ?c = "key_char (current_control s) sc"
  obtain vm x y ps where e: "handlekey sc s = map_option (\<lambda>s. s\<lparr>current_control := NORMAL_KEY\<rparr>)
      (accept_char (s\<lparr>vmem := vm, cursor_x := x, cursor_y := y, ports := ps, current_char := ?c\<rparr>))"
    using handlekey_echo [of s sc] s by (auto simp: collecting_def)
  let ?t = "s\<lparr>vmem := vm, cursor_x := x, cursor_y := y, ports := ps, current_char := ?c\<rparr>"
  let ?v = "?t\<lparr>kb_a := (kb_a ?t)[0 := ?c], kb_i := 1\<rparr>"
  have acc: "accept_char ?t = deliver 1 ?v"
    using accept_char_single [of ?t] s n by (simp add: collecting_def)
  have v: "off_kb ?v = off_kb s" by (simp add: off_kb_def off_screen_def)
  have len: "length (kb_a s) = 1024" using s by (simp add: collecting_def)
  then have "take 1 (kb_a ?v) = [?c]" by (cases "kb_a s") simp_all
  then have "line_stored (take 1 (kb_a ?v)) ?v = Some m" using m line_stored_cong [OF v] by simp
  then obtain s' w where "deliver 1 ?v = Some s'" "deref (tasks ?v) (waiting_task ?v) = Some w" "kb_flag s' = 0" "kb_i s' = 0"
    "length (kb_a s') = 1024"
    "off_kb s' = (off_kb ?v)\<lparr>pmem := m, tasks := (tasks ?v)(waiting_task ?v \<mapsto> w\<lparr>t_state := TASK_RUNNABLE\<rparr>)\<rparr>"
    using deliver_effect [of ?v 1 m] len by auto
  then show ?thesis using e acc v by (intro exI [of _ "s'\<lparr>current_control := NORMAL_KEY\<rparr>"] exI [of _ w]) simp
qed

lemma press_until_delivers:
  "collecting [] s \<Longrightarrow> kb_count s = 1 \<Longrightarrow> decode (current_control s) scs = c # cs \<Longrightarrow> line_stored [c] s = Some m \<Longrightarrow>
   \<exists>s' scs' w. press_until scs s = Some (s', scs') \<and> decode (current_control s') scs' = cs \<and>
     deref (tasks s) (waiting_task s) = Some w \<and> kb_i s' = 0 \<and> length (kb_a s') = 1024 \<and>
     off_kb s' = (off_kb s)\<lparr>pmem := m, tasks := (tasks s)(waiting_task s \<mapsto> w\<lparr>t_state := TASK_RUNNABLE\<rparr>)\<rparr>"
proof (induction scs arbitrary: s)
  case (Cons sc scs)
  let ?p = "s\<lparr>port_in := (port_in s)(0x60 := sc)\<rparr>"
  show ?case
  proof (cases rule: press_cases [of s sc scs])
    case (pass ctl)
    let ?q = "outportb 0x20 0x20 (?p\<lparr>current_control := ctl\<rparr>)"
    have q: "collecting [] ?q" "current_control ?q = ctl" "kb_count ?q = kb_count s" "off_kb ?q = off_kb s" "kb_flag ?q = 1"
      using Cons.prems(1) by (simp_all add: collecting_def outportb_def)
    have "line_stored [c] ?q = Some m" using Cons.prems(4) line_stored_cong [OF q(4)] by simp
    moreover have "decode ctl scs = c # cs" using Cons.prems(3) pass(1) by simp
    moreover have "tasks ?q = tasks s" "waiting_task ?q = waiting_task s" by (simp_all add: outportb_def)
    ultimately show ?thesis using Cons.IH [of ?q] q Cons.prems(2) pass(2) by simp
  next
    case key
    have e: "key_char (current_control ?p) sc = c" "decode NORMAL_KEY scs = cs" using Cons.prems(3) key(1) by simp_all
    have "collecting [] ?p" "off_kb ?p = off_kb s" using Cons.prems(1) by (simp_all add: collecting_def)
    then obtain s' w where s': "handlekey sc ?p = Some s'" "deref (tasks ?p) (waiting_task ?p) = Some w" "kb_flag s' = 0" "kb_i s' = 0"
      "length (kb_a s') = 1024" "current_control s' = NORMAL_KEY"
      "off_kb s' = (off_kb ?p)\<lparr>pmem := m, tasks := (tasks ?p)(waiting_task ?p \<mapsto> w\<lparr>t_state := TASK_RUNNABLE\<rparr>)\<rparr>"
      using single_key [of ?p sc m] Cons.prems(2,4) e(1) line_stored_cong [of ?p s "[c]"] by auto
    let ?q = "outportb 0x20 0x20 s'"
    have "press_until (sc # scs) s = Some (?q, scs)" using key(2) s'(1,3) by (simp add: outportb_def)
    then show ?thesis using s' e(2) by (intro exI [of _ ?q] exI [of _ scs] exI [of _ w]) (simp add: outportb_def fun_upd_def)
  qed
qed simp

subsection \<open>The byte in the address space of the reader\<close>

lemma same_memory:
  assumes "pmem s = pmem t" and "cr3 s = cr3 t"
  shows "frame_of b s v = frame_of b t v" and "virt_to_phy v 0 s = virt_to_phy v 0 t" and "vload8 v s = vload8 v t"
    and "data_region A s = data_region A t"
  using assms by (simp_all add: frame_of_def virt_to_phy_frame_of vload8_def vtrans_def data_region_def)

text \<open>A byte is stored in the space of the reader, outside the tables of both spaces.\<close>

definition reader_byte :: "u64 \<Rightarrow> u64 \<Rightarrow> 'z mmu_state_scheme \<Rightarrow> bool" where
  "reader_byte p b k \<longleftrightarrow> page_aligned (cr3 k) \<and> data_region {b} (write_cr3 p k) \<and>
     (\<forall>f. frame_of p k b = Some f \<longrightarrow> \<not> is_table (pmem k) (cr3 k) f)"

lemma reader_byte_same: "pmem s = pmem t \<Longrightarrow> cr3 s = cr3 t \<Longrightarrow> reader_byte p b s = reader_byte p b t"
  using same_memory(4) [of "write_cr3 p s" "write_cr3 p t"] same_memory(1) [of s t]
  by (simp add: reader_byte_def write_cr3_def)

lemma reader_store:
  assumes r: "reader_byte p b k"
  obtains m where "map_option pmem (vstore_bytes [c] b (write_cr3 p k)) = Some m"
    "reader_byte p b (k\<lparr>pmem := m\<rparr>)" "vload8 b (write_cr3 p (k\<lparr>pmem := m\<rparr>)) = Some c"
    "\<And>v. virt_to_phy v 0 (k\<lparr>pmem := m\<rparr>) = virt_to_phy v 0 k"
proof -
  let ?u = "write_cr3 p k"
  have reg: "data_region {b} ?u" and al: "page_aligned (cr3 k)" "page_aligned (cr3 ?u)"
    using r by (simp_all add: reader_byte_def data_region_def)
  then obtain f where f: "frame_of p ?u b = Some f" "\<not> is_table (pmem ?u) (cr3 ?u) f" "page_aligned f"
    using walk_aligned [of "cr3 ?u"] by (auto simp: data_region_def frame_of_def write_cr3_def)
  let ?a = "f + (b AND 0xFFF)"
  have frame: "ALIGN_DOWN (?a AND NOT 7) = f" by (rule ALIGN_DOWN_frame_offset(2) [OF f(3)])
  have b: "vtrans b ?u = Some ?a" using f(1) by (simp add: vtrans_def write_cr3_def)
  have nt: "\<not> is_table (pmem k) (cr3 k) f" using r f(1) by (simp add: reader_byte_def frame_of_def write_cr3_def)
  define m where "m = set_phys_byte ?a c (pmem k)"
  obtain x where x: "m = (pmem k)(?a AND NOT 7 := x)" by (auto simp: m_def set_phys_byte_def Let_def)
  let ?k = "k\<lparr>pmem := m\<rparr>"
  have "write_cr3 p ?k = ?u\<lparr>pmem := (pmem ?u)(?a AND NOT 7 := x)\<rparr>" by (simp add: write_cr3_def x)
  note sp = data_store_same [OF al(2) _ this, unfolded frame, OF f(2)]
  have "?k = k\<lparr>pmem := (pmem k)(?a AND NOT 7 := x)\<rparr>" by (simp add: x)
  note sk = data_store_same [OF al(1) _ this, unfolded frame, OF nt]
  show thesis
  proof (rule that)
    show "map_option pmem (vstore_bytes [c] b ?u) = Some m"
      using b by (simp add: vstore8_def m_def write_cr3_def)
    show "virt_to_phy v 0 ?k = virt_to_phy v 0 k" for v using sk(1) by (simp add: virt_to_phy_frame_of)
    show "vload8 b (write_cr3 p ?k) = Some c"
      using sp(2) [of b] b by (simp add: vload8_def phys_byte_set) (simp add: m_def write_cr3_def phys_byte_set)
    have "frame_of p ?k b = Some f" using sp(1) [of b] f(1) by (simp add: write_cr3_def frame_of_def)
    then show "reader_byte p b ?k" using reg al(1) sp(3) sk(4) nt by (simp add: reader_byte_def)
  qed
qed

subsection \<open>The keyboard is a source of characters\<close>

text \<open>Between two reads: the current task has no pipe as its standard input, the driver's buffer is empty, and
  the reader's byte can be stored.\<close>

definition keys_ready :: "u64 \<Rightarrow> sys_state \<times> u8 list \<Rightarrow> bool" where
  "keys_ready b ks \<longleftrightarrow> (let k = fst ks; task = current_task k; t = node_at (tasks k) task in
     deref (tasks k) task = Some t \<and> t_pipe t = 0 \<and> t_read_redirection_fd t = 0 \<and>
     kb_i k = 0 \<and> length (kb_a k) = 1024 \<and> reader_byte (task_root task k) b k)"

text \<open>The characters of the keys to come.\<close>

definition typed :: "sys_state \<times> u8 list \<Rightarrow> bytes" where
  "typed ks = decode (current_control (fst ks)) (snd ks)"

text \<open>What reading leaves: the program's heap.\<close>

definition heap_view :: "sys_state \<times> u8 list \<Rightarrow> bool \<times> u64" where
  "heap_view ks = (brk_ready (fst ks), brk_end (fst ks))"

lemma heap_view_same:
  assumes "current_task k' = current_task k" and "mms k' = mms k" and "vmas k' = vmas k"
    and t: "deref (tasks k) (current_task k) = Some t" "tasks k' = (tasks k)(current_task k \<mapsto> t')" "t_mm t' = t_mm t"
  shows "heap_view (k', scs') = heap_view (k, scs)"
proof -
  have "deref (tasks k') (current_task k) = Some t'" using t by (simp add: deref_def split: if_splits)
  moreover have "t_mm (node_at (tasks k') (current_task k)) = t_mm (node_at (tasks k) (current_task k))"
    using t by (simp add: node_at_def deref_def split: if_splits)
  ultimately show ?thesis using assms by (simp add: heap_view_def brk_ready_def brk_end_def)
qed

lemma keyboard_read:
  assumes k: "deref (tasks k) task = Some t" "current_task k = task" "t_pipe t = 0" "t_read_redirection_fd t = 0"
  shows "system_read 0 b 1 k = Some (Resched (k\<lparr>kb_flag := 1, tasks := (tasks k)(task \<mapsto> t\<lparr>t_state := TASK_WAITING\<rparr>),
    current_task := 0, waiting_task := task, kb_str := b, kb_count := 1\<rparr>))"
  using k by (simp add: system_read_def is_file_pipe_def list_find.simps [of _ _ _ 0] get_current_task_def set_current_task_def
      set_flag_def set_waiting_task_def gets_def upd_task_def hupd_def)

lemma keys_kernel_reads:
  assumes r: "keys_ready b (kern s)" and c: "typed (kern s) = c # cs"
  shows "\<exists>k'. keys_kernel 0 0 b 1 s = Some (0, s\<lparr>umem := (umem s)(b := c), kern := k'\<rparr>) \<and> keys_ready b k' \<and> typed k' = cs \<and>
    heap_view k' = heap_view (kern s)"
proof -
  obtain k scs where ks: "kern s = (k, scs)" by (cases "kern s")
  let ?a = "current_task k"
  define t where "t = node_at (tasks k) ?a"
  define p where "p = task_root ?a k"
  have t: "deref (tasks k) ?a = Some t" "t_pipe t = 0" "t_read_redirection_fd t = 0" "kb_i k = 0" "length (kb_a k) = 1024"
    "reader_byte p b k"
    using r by (simp_all add: keys_ready_def ks t_def p_def Let_def)
  have p: "p = virt_to_phy (t_pml4e t) 0 k" by (simp add: p_def task_root_def t_def)
  have a: "?a \<noteq> 0" using t(1) by (auto simp: deref_def)
  let ?k1 = "k\<lparr>kb_flag := 1, tasks := (tasks k)(?a \<mapsto> t\<lparr>t_state := TASK_WAITING\<rparr>),
    current_task := 0, waiting_task := ?a, kb_str := b, kb_count := 1\<rparr>"
  obtain m where m: "map_option pmem (vstore_bytes [c] b (write_cr3 p k)) = Some m" "reader_byte p b (k\<lparr>pmem := m\<rparr>)"
    "vload8 b (write_cr3 p (k\<lparr>pmem := m\<rparr>)) = Some c" "\<And>v. virt_to_phy v 0 (k\<lparr>pmem := m\<rparr>) = virt_to_phy v 0 k"
    by (rule reader_store [OF t(6), of c]) blast
  have "line_stored [c] ?k1 = Some m"
    using m(1) a same_memory(2) [of ?k1 k] vstore_bytes_same_memory [of "write_cr3 p ?k1" "write_cr3 p k" "[c]" b]
    by (simp add: line_stored_def deref_def p write_cr3_def del: vstore_bytes.simps)
  moreover have "collecting [] ?k1" using t(4,5) by (simp add: collecting_def)
  moreover have "decode (current_control ?k1) scs = c # cs" using c by (simp add: typed_def ks)
  ultimately obtain k2 scs' w where k2: "press_until scs ?k1 = Some (k2, scs')" "decode (current_control k2) scs' = cs"
    "deref (tasks ?k1) (waiting_task ?k1) = Some w" "kb_i k2 = 0" "length (kb_a k2) = 1024"
    "off_kb k2 = (off_kb ?k1)\<lparr>pmem := m, tasks := (tasks ?k1)(waiting_task ?k1 \<mapsto> w\<lparr>t_state := TASK_RUNNABLE\<rparr>)\<rparr>"
    using press_until_delivers [of ?k1 scs c cs m] by auto
  have w: "w = t\<lparr>t_state := TASK_WAITING\<rparr>" using k2(3) a by (simp add: deref_def)
  have mem: "pmem k2 = m" "cr3 k2 = cr3 k"
    using arg_cong [OF k2(6), of pmem] arg_cong [OF k2(6), of cr3] by (simp_all add: off_kb_def off_screen_def)
  have ts: "tasks k2 = (tasks k)(?a \<mapsto> t\<lparr>t_state := TASK_RUNNABLE\<rparr>)"
    using arg_cong [OF k2(6), of tasks] w by (simp add: off_kb_def off_screen_def)
  have proc: "mms k2 = mms k" "vmas k2 = vmas k"
    using arg_cong [OF k2(6), of mms] arg_cong [OF k2(6), of vmas] by (simp_all add: off_kb_def off_screen_def)
  have v: "virt_to_phy (t_pml4e t) 0 k2 = p" using m(4) same_memory(2) [of k2 "k\<lparr>pmem := m\<rparr>"] mem p by simp
  then have root: "task_root ?a k2 = p" using ts a by (simp add: task_root_def node_at_def)
  have load: "vload8 b (write_cr3 p k2) = Some c"
    using m(3) same_memory(3) [of "write_cr3 p k2" "write_cr3 p (k\<lparr>pmem := m\<rparr>)"] mem by (simp add: write_cr3_def)
  let ?k3 = "set_current_task ?a (k2\<lparr>tasks := (tasks k2)(?a \<mapsto> t\<lparr>t_state := TASK_RUNNING\<rparr>)\<rparr>)"
  have "keys_kernel 0 0 b 1 s = Some (0, s\<lparr>umem := (umem s)(b := c), kern := (?k3, scs')\<rparr>)"
    using keyboard_read [OF t(1) refl t(2,3)] k2(1) root load ts a
    by (simp add: keys_kernel_def ks get_current_task_def upd_task_def hupd_def deref_def Let_def)
  moreover have "keys_ready b (?k3, scs')"
  proof -
    have "task_root ?a ?k3 = p"
      using v a same_memory(2) [of ?k3 k2] by (simp add: task_root_def node_at_def set_current_task_def)
    moreover have "reader_byte p b ?k3"
      using m(2) reader_byte_same [of ?k3 "k\<lparr>pmem := m\<rparr>"] mem by (simp add: set_current_task_def)
    ultimately show ?thesis
      using k2(4,5) t(2,3) a by (simp add: keys_ready_def set_current_task_def node_at_def deref_def Let_def)
  qed
  moreover have "heap_view (?k3, scs') = heap_view (k, scs)"
    by (rule heap_view_same [OF _ _ _ t(1), where t' = "t\<lparr>t_state := TASK_RUNNING\<rparr>"])
      (use ts proc in \<open>simp_all add: set_current_task_def\<close>)
  moreover have "typed (?k3, scs') = cs" using k2(2) by (simp add: typed_def set_current_task_def)
  ultimately show ?thesis unfolding ks by blast
qed

interpretation keyboard: char_input keys_kernel keys_ready typed heap_view
proof unfold_locales
  fix b c cs and s :: "(sys_state \<times> u8 list) user_state"
  assume "keys_ready b (kern s)" "typed (kern s) = c # cs"
  then obtain k' where "keys_kernel 0 0 b 1 s = Some (0, s\<lparr>umem := (umem s)(b := c), kern := k'\<rparr>)" "keys_ready b k'" "typed k' = cs"
    "heap_view k' = heap_view (kern s)"
    using keys_kernel_reads by blast
  then show "\<exists>v k. keys_kernel 0 0 b 1 s = Some (v, s\<lparr>umem := (umem s)(b := c), kern := k\<rparr>) \<and> 0 \<le> sint (ucast v :: u32) \<and>
      keys_ready b k \<and> typed k = cs \<and> heap_view k = heap_view (kern s)"
    by (intro exI [of _ 0] exI [of _ k']) simp
qed

subsection \<open>Properties\<close>

text \<open>C21: a line typed at the shell: for keys that stand for fewer than 1024 characters without a bar up to the
  enter key, and with no backspace on an empty line, \<open>readInput\<close> returns with exactly the edited line and a
  terminator in its buffer, 1 when the line is not empty and 0 otherwise; the keys behind the enter key are
  left for the next line.\<close>

lemma shell_reads_line:
  assumes "l_c F \<notin> set (block (sv_scan_data G) 1024)"
    and "set (block p 1024) \<inter> insert (l_c F) (set (block (sv_scan_data G) 1024)) = {}"
    and "keys_ready (sv_scan_data G) (kern s)" and "typed (kern s) = cs @ 0x0A # rest"
    and "0x0A \<notin> set cs" "0x7C \<notin> set cs" "length cs < 1024" and "line_edit [] cs = Some r"
  shows "\<exists>s'. readInput keys_kernel G F p s = Some (if r = [] then 0 else 1, s') \<and> line_at (umem s') p r \<and>
    umem s' (p + of_nat (length r)) = 0 \<and> typed (kern s') = rest"
  using keyboard.readInput_line [OF assms(1,2,8,5,6,7,3,4)] by blast

text \<open>Keys: l, x, backspace, s, enter and p; the release of l is among them.\<close>

definition ex_keys :: "(sys_state \<times> u8 list) user_state" where
  "ex_keys = \<lparr>umem = (\<lambda>_. 0x55), errno = 0, heap_head = 0, kern = (ex_brk, [38, 166, 45, 14, 31, 28, 25])\<rparr>"

definition ex_vars :: shell_globals where
  "ex_vars = \<lparr>sv_commands = 0x410000, sv_PS1 = 0x420000, sv_path = 0x421000, sv_envp = 0x422000, sv_cmdcount = 0x423000,
     sv_printf_buf = 0x424000, sv_scan_data = 0x401000\<rparr>"

definition ex_locals :: shell_frame where
  "ex_locals = \<lparr>l_input_line = 0x403000, l_c = 0x402000, l_script_cmd = 0, l_script_buf = 0, l_cmd = 0, l_status = 0, l_fd = 0,
     l_temp = 0, l_env_token = 0, l_env_before = 0, l_abs_before = 0, l_path_token = 0, l_path_before = 0, l_new = 0\<rparr>"

lemma ex_brk_fields: "cr3 ex_brk = 0x1000" "a < 0x5000 \<Longrightarrow> pmem ex_brk a = ex_chain a" "current_task ex_brk = 32"
  "tasks ex_brk 32 = Some ((mk_task 2 TASK_WAITING 48 80)\<lparr>t_pml4e := 0x400000\<rparr>)" "kb_i ex_brk = 0"
  "kb_a ex_brk = replicate 1024 0" "current_control ex_brk = NORMAL_KEY"
  by (auto simp: ex_brk_def ex_sys_def ex_kb_def ex_con_def ex_fs_def ex_time_def ex_proc_def kb_state.defs con_state.defs
      fs_state.defs time_state.defs proc_state.defs mmu_state.defs ex_chain_def)

lemma ex_keys_ready: "keys_ready 0x401000 (ex_brk, scs)"
proof -
  have t: "node_at (tasks ex_brk) 32 = (mk_task 2 TASK_WAITING 48 80)\<lparr>t_pml4e := 0x400000\<rparr>"
    by (simp add: node_at_def ex_brk_fields)
  have pt: "path 0x400000 = [0, 0, 2, 0]" "path 0x401000 = [0, 0, 2, 1]" by code_simp+
  have root: "task_root 32 ex_brk = 0x1000"
    by (simp add: task_root_def t virt_to_phy_walk pt ex_brk_fields slot_def ex_chain_def isPresent_def PT_PRESENT_FLAG_def ALIGN_DOWN_def)
  have "frame_of 0x1000 ex_brk 0x401000 = Some 0x5000"
    by (simp add: frame_of_def pt ex_brk_fields slot_def ex_chain_def isPresent_def PT_PRESENT_FLAG_def ALIGN_DOWN_def)
  moreover have "\<not> is_table (pmem ex_brk) 0x1000 0x5000" by (rule ex_chain_not_table) (rule ex_brk_fields)
  moreover have "data_region {0x401000} (write_cr3 0x1000 ex_brk)"
    by (rule ex_chain_region) (simp_all add: write_cr3_def ex_brk_fields ALIGN_DOWN_def)
  ultimately show ?thesis
    by (simp add: keys_ready_def ex_keys_def ex_brk_fields t root reader_byte_def page_aligned_def deref_def mk_task_def Let_def)
qed

lemma shell_reads_line_witness:
  "\<exists>s'. readInput keys_kernel ex_vars ex_locals 0x403000 ex_keys = Some (1, s') \<and>
     line_at (umem s') 0x403000 (str_bytes ''ls'') \<and> umem s' 0x403002 = 0 \<and> typed (kern s') = [0x70]"
proof -
  have a: "0x402000 \<notin> set (block 0x401000 1024)"
    "set (block 0x403000 1024) \<inter> insert 0x402000 (set (block 0x401000 1024)) = {}"
    by (auto simp: block_range)
  have vars: "l_c ex_locals = 0x402000" "sv_scan_data ex_vars = 0x401000" by (simp_all add: ex_locals_def ex_vars_def)
  have "typed (kern ex_keys) = [0x6C, 0x78, 0x08, 0x73] @ 0x0A # [0x70]"
    by (simp add: typed_def ex_keys_def ex_brk_fields) code_simp
  moreover have "line_edit [] [0x6C, 0x78, 0x08, 0x73] = Some [0x6C, 0x73]" by simp
  moreover have "str_bytes ''ls'' = [0x6C, 0x73]" by (simp add: str_bytes_def)
  ultimately show ?thesis
    using shell_reads_line [of ex_locals ex_vars "0x403000" ex_keys "[0x6C, 0x78, 0x08, 0x73]" "[0x70]" "[0x6C, 0x73]"] a
      ex_keys_ready by (simp add: vars) (simp add: ex_keys_def)
qed

end
