(* ===== verification/ShellLines.thy ===== *)
theory ShellLines
  imports Shell UserHeap
begin

section \<open>How the shell splits a line\<close>

text \<open>
  What \<open>parseCommand\<close> does with a line, over the byte memory of the process.  An indented line
  is lost: the white space is stripped while the scan stays at the start, and the next round erases it.  A line of words with spaces between
  them is split as the reference \<open>split_words\<close> does, each word in a block that \<open>malloc\<close> takes from the top
  of the heap: the proof is one round (\<open>word_round\<close>) and an induction over the rest of the line.
\<close>

lemma int_len_cstr: "cstr (umem s) p xs \<Longrightarrow> int_len p s = Some (of_nat (length xs))"
  by (simp add: int_len_def strlen_cstr unsigned_of_nat word_of_nat_eq_iff)

lemma word_loop_all: "\<forall>i < n. m (q + of_nat i) \<noteq> 0x20 \<and> m (q + of_nat i) \<noteq> 0x7C \<Longrightarrow> word_loop n q m = n"
proof (induction n arbitrary: q)
  case (Suc n)
  have "\<forall>i < n. m (q + 1 + of_nat i) \<noteq> 0x20 \<and> m (q + 1 + of_nat i) \<noteq> 0x7C"
    using Suc.prems [rule_format, of "Suc i" for i] by (simp add: add.assoc)
  then show ?case using Suc.IH [of "q + 1"] Suc.prems [rule_format, of 0] by simp
qed simp

text \<open>A round that stores no word.\<close>

lemma store_word_none:
  assumes "trim str (umem s) = Some m" and "cstr m str c" and "count = 0 \<or> c = []"
  shows "store_word K G str count i j s = Some (j, s\<lparr>umem := m\<rparr>)"
  using assms int_len_cstr [of "s\<lparr>umem := m\<rparr>" str c] by (auto simp: store_word_def on_mem_def)

lemma indented_round:
  assumes "trim p (umem s) = Some m" and "cstr m p c" and "c \<noteq> []" and "umem s p = 0x20" and "m p \<noteq> 0x20"
  shows "parse_loop K G (Suc n) p 0 0 0 s = parse_loop K G (Suc n) p p 0 0 (s\<lparr>umem := m\<rparr>)"
  using assms store_word_none [OF assms(1,2), of 0 K G 0 0]
  by (subst parse_loop.simps) (simp add: Let_def)

lemma trim_empty: "m p = 0 \<Longrightarrow> p \<noteq> 0 \<Longrightarrow> trim p m = Some m"
proof -
  assume "m p = 0" "p \<noteq> 0"
  then obtain m' where "trim p m = Some m'" "\<forall>a. m' a = m a"
    using trim_cstr [of m p "[]"] unsigned_less [of p] by auto
  then show ?thesis by (metis ext)
qed

lemma cleared_round:
  assumes z: "m p = 0" "m (p + of_nat (Suc n)) = 0" "\<forall>i < Suc n. m (p + of_nat i) \<noteq> 0x20 \<and> m (p + of_nat i) \<noteq> 0x7C"
    and c: "cstr (umem s) p c" and p: "p \<noteq> 0"
    and m: "m = memset p 0 (of_nat (length c)) (umem s)"
  shows "parse_loop K G (Suc n) p p 0 0 s = Some (0, s\<lparr>umem := m\<rparr>)"
proof -
  let ?s = "s\<lparr>umem := m\<rparr>"
  have w: "word_loop (Suc n) p m = Suc n" by (rule word_loop_all [OF z(3)])
  have t: "trim p (umem ?s) = Some m" using trim_empty [of m p, OF z(1) p] by simp
  have st: "store_word K G p (Suc n) 0 0 ?s = Some (0, ?s)"
    using store_word_none [OF t, of "[]"] z(1) by simp
  have cl: "uclear p (of_nat (length c)) s = ?s" by (simp add: uclear_def m)
  show ?thesis
    using strlen_cstr [OF c] p
    by (subst parse_loop.simps, simp only: if_False nat.distinct option.simps bind.bind_lunit Let_def)
      (simp add: cl w z(2) st parse_loop.simps [of K G 0] del: word_loop.simps of_nat_Suc)
qed

lemma strip_end_head: "xs \<noteq> [] \<Longrightarrow> \<not> isSpace (hd xs) \<Longrightarrow> strip_end xs \<noteq> [] \<and> hd (strip_end xs) = hd xs"
proof (induction xs rule: rev_induct)
  case (snoc x xs)
  then show ?case by (cases "xs = []") (simp_all add: strip_end_snoc strip_end_def [of "[x]"])
qed simp

lemma length_strip_end: "length (strip_end xs) \<le> length xs"
  unfolding strip_end_def by (metis length_dropWhile_le length_rev)

lemma memset_zero: "n < 2 ^ 64 \<Longrightarrow> memset p 0 (of_nat n) m a = (if a \<in> set (block p n) then 0 else m a)"
  by (auto simp: memset_def unat_of_nat take_bit_nat_eq_self memset_loop_other in_block memset_loop_in)

text \<open>C35: an indented line is lost.  Let a line start with \<open>k > 0\<close> spaces, no more than one above the length of the
  rest without the white space at its end, and let the last \<open>k - 1\<close> bytes of that rest hold no space and no bar (for
  one space this says nothing).  \<open>parseCommand\<close> then stores no word of the line, leaves the list of words of
  the line before in place and returns 1, so that the shell runs the earlier command again.  Of the line only
  those last \<open>k - 1\<close> bytes are left, behind a terminator at its start; the rest of it is zero.\<close>

lemma indented_line_lost:
  assumes line: "cstr (umem s) p (replicate k 0x20 @ b)" and k: "0 < k" "k \<le> Suc (length (strip_end b))"
    and b: "b \<noteq> []" "\<not> isSpace (hd b)"
    and rest: "0x20 \<notin> set (drop (Suc (length (strip_end b)) - k) (strip_end b))"
      "0x7C \<notin> set (drop (Suc (length (strip_end b)) - k) (strip_end b))"
    and p: "p \<noteq> 0" "unat p + k + length b < 2 ^ 64" and len: "k + length b < 2 ^ 31"
  shows "\<exists>m. parseCommand K G p s = Some (1, ustore 4 (sv_cmdcount G) 0 (s\<lparr>umem := m\<rparr>)) \<and>
    (\<forall>i \<le> k + length b. m (p + of_nat i) =
      (if length (strip_end b) < i \<and> i < k + length (strip_end b) then strip_end b ! (i - k) else 0)) \<and>
    (\<forall>a. a \<notin> set (block p (k + length b)) \<longrightarrow> m a = umem s a)"
proof -
  let ?c = "strip_end b" and ?n = "k + length b" and ?xs = "replicate k 0x20 @ b"
  have sp: "isSpace 0x20" by (simp add: isSpace_def)
  have d: "dropWhile isSpace ?xs = b" "length (takeWhile isSpace ?xs) = k"
    using b sp by (induction k) (cases b; simp)+
  have lc: "length ?c \<le> length b" by (rule length_strip_end)
  obtain m1 where m1: "trim p (umem s) = Some m1" "cstr m1 p ?c"
    "\<forall>i. k + length ?c \<le> i \<longrightarrow> i \<le> ?n \<longrightarrow> m1 (p + of_nat i) = 0"
    "\<forall>i. length ?c < i \<longrightarrow> k \<le> i \<longrightarrow> i < k + length ?c \<longrightarrow> m1 (p + of_nat i) = ?c ! (i - k)"
    "\<forall>a. a \<notin> set (block p ?n) \<longrightarrow> m1 a = umem s a"
    using trim_cstr [OF line p(1)] p(2) unfolding d by (auto simp: add.assoc)
  have c: "?c \<noteq> []" "hd ?c = hd b" using strip_end_head [OF b] by simp_all
  have m1p: "m1 p = hd b" using m1(2) c by (cases ?c) auto
  let ?m = "memset p 0 (of_nat (length ?c)) m1"
  have ms: "?m a = (if a \<in> set (block p (length ?c)) then 0 else m1 a)" for a
    using lc len by (intro memset_zero) simp
  have e: "m1 (p + of_nat (length ?c)) = 0" using m1(2) cstr_append [of m1 p ?c "[]"] by simp
  have mem: "p + of_nat i \<in> set (block p (length ?c)) \<longleftrightarrow> i < length ?c" if "i \<le> ?n" for i
    unfolding in_block using that lc len by (auto dest!: word_of_nat_u64_inj)
  have z: "?m (p + of_nat i) = (if length ?c < i \<and> i < k + length ?c then ?c ! (i - k) else 0)" if "i \<le> ?n" for i
    using ms [of "p + of_nat i"] mem [OF that] m1(3,4) e that k(2) by (cases "i < length ?c"; cases "i = length ?c") auto
  have o: "?m a = umem s a" if "a \<notin> set (block p ?n)" for a
    using ms m1(5) that block_mono [of "length ?c" ?n p] lc by auto
  have left: "?m (p + of_nat i) \<noteq> 0x20 \<and> ?m (p + of_nat i) \<noteq> 0x7C" if i: "i < ?n" for i
  proof (cases "length ?c < i \<and> i < k + length ?c")
    case True
    then have "?c ! (i - k) \<in> set (drop (Suc (length ?c) - k) ?c)"
      using k by (auto simp: in_set_conv_nth intro!: exI [of _ "i - Suc (length ?c)"])
    then show ?thesis using z [of i] i True rest by auto
  qed (use z [of i] i in auto)
  obtain n where n: "?n = Suc n" using k(1) by (cases ?n) simp_all
  have hd20: "umem s p = 0x20" using line k(1) by (cases k) simp_all
  have "parse_loop K G (Suc n) p 0 0 0 s = parse_loop K G (Suc n) p p 0 0 (s\<lparr>umem := m1\<rparr>)"
    by (rule indented_round [OF m1(1,2) c(1) hd20]) (use m1p b(2) sp in auto)
  also have "\<dots> = Some (0, (s\<lparr>umem := m1\<rparr>)\<lparr>umem := ?m\<rparr>)"
    by (rule cleared_round [where c = ?c])
      (use z [of 0] z [of "Suc n"] left m1(2) p(1) n lc k(1) in \<open>simp_all del: of_nat_Suc\<close>)
  finally have r: "parse_loop K G ?n p 0 0 0 s = Some (0, s\<lparr>umem := ?m\<rparr>)" by (simp add: n)
  have i: "int_len p s = Some (of_nat ?n)" using int_len_cstr [OF line] by simp
  have "sint (of_nat ?n :: u32) = int ?n"
    using len by (simp only: signed_of_nat) (simp add: signed_take_bit_int_eq_self)
  then have "nat (sint (of_nat ?n :: u32)) = ?n" by simp
  then have "parseCommand K G p s = Some (1, ustore 4 (sv_cmdcount G) 0 (s\<lparr>umem := ?m\<rparr>))"
    using i r by (simp only: parseCommand_def option.simps bind.bind_lunit) simp
  then show ?thesis using z o by (intro exI [of _ ?m]) simp
qed

definition ex_shell :: "unit user_state" where
  "ex_shell = \<lparr>umem = store_bytes [0x20, 0x20, 0x6C, 0x73] 0x100 (\<lambda>_. 0), errno = 0, heap_head = 0, kern = ()\<rparr>"

definition ex_globals :: shell_globals where
  "ex_globals = \<lparr>sv_commands = 0x1000, sv_PS1 = 0x2000, sv_path = 0x2400, sv_envp = 0x2800, sv_cmdcount = 0x2850,
     sv_printf_buf = 0x2900, sv_scan_data = 0x2D00\<rparr>"

lemma indented_line_lost_witness:
  "\<exists>m. parseCommand (\<lambda>n a b c s. None) ex_globals 0x100 ex_shell =
     Some (1, ustore 4 0x2850 0 (ex_shell\<lparr>umem := m\<rparr>)) \<and> m 0x100 = 0 \<and> m 0x103 = 0x73 \<and> m 0x1000 = umem ex_shell 0x1000"
proof -
  let ?b = "[0x6C, 0x73] :: bytes"
  have l: "cstr (umem ex_shell) 0x100 (replicate 2 0x20 @ ?b)" by code_simp
  have c: "strip_end ?b = ?b" by code_simp
  obtain m where m: "parseCommand (\<lambda>n a b c s. None) ex_globals 0x100 ex_shell =
       Some (1, ustore 4 (sv_cmdcount ex_globals) 0 (ex_shell\<lparr>umem := m\<rparr>))"
    "\<forall>i \<le> 4. m (0x100 + of_nat i) = (if 2 < i \<and> i < 4 then ?b ! (i - 2) else 0)"
    "\<forall>a. a \<notin> set (block 0x100 4) \<longrightarrow> m a = umem ex_shell a"
    using indented_line_lost [OF l, of "\<lambda>n a b c s. None" ex_globals] unfolding c by (auto simp: isSpace_def)
  have "m 0x100 = 0" "m 0x103 = 0x73" using m(2) [rule_format, of 0] m(2) [rule_format, of 3] by simp_all
  moreover have "m 0x1000 = umem ex_shell 0x1000"
    by (rule m(3) [rule_format]) code_simp
  ultimately show ?thesis using m(1) by (intro exI [of _ m]) (simp add: ex_globals_def)
qed

subsection \<open>Regions\<close>

text \<open>Addresses from \<open>lo\<close> up to, not including, \<open>hi\<close>.\<close>

definition region :: "nat \<Rightarrow> nat \<Rightarrow> u64 set" where
  "region lo hi = {a. lo \<le> unat a \<and> unat a < hi}"

lemma block_region: "unat b + k \<le> 2 ^ 64 \<Longrightarrow> set (block b k) = region (unat b) (unat b + k)"
  by (auto simp: region_def block_range)

lemma region_subset: "lo' \<le> lo \<Longrightarrow> hi \<le> hi' \<Longrightarrow> region lo hi \<subseteq> region lo' hi'"
  by (auto simp: region_def)

lemma region_apart: "hi \<le> lo' \<Longrightarrow> region lo hi \<inter> region lo' hi' = {}"
  by (auto simp: region_def)

text \<open>Nothing to strip.\<close>

lemma strip_end_id: "xs \<noteq> [] \<Longrightarrow> \<not> isSpace (last xs) \<Longrightarrow> strip_end xs = xs"
  by (metis append_butlast_last_id strip_end_snoc)

lemma trim_id:
  assumes c: "cstr m p xs" and xs: "xs \<noteq> []" "\<not> isSpace (hd xs)" "\<not> isSpace (last xs)"
  shows "trim p m = Some m"
proof -
  have d: "takeWhile isSpace xs = []" "dropWhile isSpace xs = xs" using xs(1,2) by (cases xs; simp)+
  let ?l = "p + of_nat (length xs - 1)"
  have "m ?l = last xs"
    using c xs(1) cstr_append [of m p xs "[]"] by (simp add: last_conv_nth)
  then have "trim_end p ?l m = Some m" using xs(3) by (subst trim_end.simps) simp
  moreover have "p + of_nat (length xs) - 1 = ?l" using xs(1) by (cases xs) simp_all
  ultimately have "trim_end p (p + of_nat (length xs) - 1) m = Some m" by (simp only:)
  then show ?thesis using trim_start_cstr [OF c] strlen_cstr [OF c] d by (simp add: trim_def)
qed

text \<open>Copying a part of a string.\<close>

lemma kstrncpy_loop_take:
  assumes "cstr m q xs" and "n \<le> length xs" and "set (block q (Suc (length xs))) \<inter> set (block p n) = {}"
  shows "kstrncpy_loop n p q m = store_bytes (take n xs) p m"
  using assms
proof (induction n arbitrary: p q xs m)
  case (Suc n)
  obtain x ys where xs: "xs = x # ys" using Suc.prems(2) by (cases xs) auto
  have "cstr (m(p := x)) (q + 1) ys = cstr m (q + 1) ys"
    using Suc.prems(3) by (intro cstr_cong) (auto simp: xs)
  then have "cstr (m(p := x)) (q + 1) ys" using Suc.prems(1) by (simp add: xs del: fun_upd_apply)
  then have "kstrncpy_loop n (p + 1) (q + 1) (m(p := x)) = store_bytes (take n ys) (p + 1) (m(p := x))"
    by (rule Suc.IH) (use Suc.prems(2,3) xs in auto)
  then show ?case using Suc.prems(1) by (simp add: xs Let_def)
qed simp

text \<open>The inner loops on a string.\<close>

lemma word_loop_cstr:
  assumes "cstr m q xs" and "0x7C \<notin> set xs"
  shows "word_loop (length xs) q m = length (takeWhile (\<lambda>c. c \<noteq> 0x20) xs)"
  using assms by (induction xs arbitrary: q) auto

lemma space_loop_cstr:
  assumes "cstr m q xs" and "length xs < 2 ^ 64"
  shows "space_loop (length xs) q m =
    (length (takeWhile (\<lambda>c. c = 0x20) xs), memset q 0 (of_nat (length (takeWhile (\<lambda>c. c = 0x20) xs))) m)"
proof -
  have "space_loop (length xs) q m = (let k = length (takeWhile (\<lambda>c. c = 0x20) xs) in (k, memset_loop k q 0 m))"
    using assms
  proof (induction xs arbitrary: q m)
    case (Cons x xs)
    have "cstr (m(q := 0)) (q + 1) xs = cstr m (q + 1) xs"
      using block_head [of "Suc (length xs)" q] Cons.prems(2) by (intro cstr_cong) auto
    then show ?case using Cons.IH [of "m(q := 0)" "q + 1"] Cons.prems by (auto simp: Let_def simp del: fun_upd_apply)
  qed simp
  moreover have "unat (of_nat (length (takeWhile (\<lambda>c. c = 0x20) xs)) :: u64) = length (takeWhile (\<lambda>c. c = 0x20) xs)"
    using assms(2) length_takeWhile_le [of "\<lambda>c. c = 0x20" xs] by (simp add: unat_of_nat take_bit_nat_eq_self)
  ultimately show ?thesis by (simp add: memset_def Let_def)
qed

subsection \<open>The words of a line\<close>

text \<open>The reference: maximal runs of characters other than spaces, for a line that does not start with one.\<close>

function split_words :: "bytes \<Rightarrow> bytes list" where
  "split_words xs =
     (if xs = [] \<or> hd xs = 0x20 then []
      else takeWhile (\<lambda>c. c \<noteq> 0x20) xs # split_words (dropWhile (\<lambda>c. c = 0x20) (dropWhile (\<lambda>c. c \<noteq> 0x20) xs)))"
  by pat_completeness auto

lemma split_rest_shorter:
  assumes "xs \<noteq> []" and "hd xs \<noteq> 0x20"
  shows "length (dropWhile (\<lambda>c. c = 0x20) (dropWhile (\<lambda>c. c \<noteq> 0x20) xs)) < length xs"
proof -
  have "length (dropWhile (\<lambda>c. c \<noteq> 0x20) xs) < length xs"
    using assms by (cases xs) (simp_all add: length_dropWhile_le less_Suc_eq_le)
  then show ?thesis using length_dropWhile_le le_less_trans by blast
qed

termination split_words
  by (relation "measure length") (use split_rest_shorter in auto)

declare split_words.simps [simp del]

text \<open>A line without bars whose white space is spaces, none at its ends.\<close>

definition plain_line :: "bytes \<Rightarrow> bool" where
  "plain_line xs \<longleftrightarrow> 0x7C \<notin> set xs \<and> (\<forall>x \<in> set xs. isSpace x \<longrightarrow> x = 0x20) \<and>
     (xs \<noteq> [] \<longrightarrow> hd xs \<noteq> 0x20 \<and> last xs \<noteq> 0x20)"

lemma plain_line_rest:
  assumes "plain_line xs" and "xs \<noteq> []"
  defines "r \<equiv> dropWhile (\<lambda>c. c \<noteq> 0x20) xs" and "ys \<equiv> dropWhile (\<lambda>c. c = 0x20) (dropWhile (\<lambda>c. c \<noteq> 0x20) xs)"
  shows "plain_line ys" and "r = [] \<longleftrightarrow> ys = []" and "takeWhile (\<lambda>c. c \<noteq> 0x20) xs \<noteq> []"
    and "\<not> isSpace (hd xs)" and "\<not> isSpace (last xs)" and "r \<noteq> [] \<Longrightarrow> hd r = 0x20"
proof -
  have sub: "set ys \<subseteq> set xs" unfolding ys_def by (meson set_dropWhileD subsetI)
  have lr: "r \<noteq> [] \<Longrightarrow> last r = last xs"
    unfolding r_def by (metis last_appendR takeWhile_dropWhile_id)
  have r0: "r = [] \<longleftrightarrow> ys = []"
  proof
    assume y: "ys = []"
    show "r = []"
    proof (rule ccontr)
      assume r: "r \<noteq> []"
      then have "last r = 0x20" using y last_in_set [OF r] unfolding ys_def r_def [symmetric] by (simp add: dropWhile_eq_Nil_conv)
      then show False using lr [OF r] assms(1,2) by (simp add: plain_line_def)
    qed
  next
    assume "r = []"
    then show "ys = []" unfolding ys_def r_def [symmetric] by simp
  qed
  then show "r = [] \<longleftrightarrow> ys = []" .
  have "hd ys \<noteq> 0x20" if "ys \<noteq> []" using that hd_dropWhile [of "\<lambda>c. c = 0x20" r] by (simp add: ys_def r_def)
  moreover have "last ys = last xs" if y: "ys \<noteq> []"
  proof -
    have "last ys = last r" using y unfolding ys_def r_def by (metis last_appendR takeWhile_dropWhile_id)
    then show ?thesis using lr r0 y by simp
  qed
  ultimately show "plain_line ys" using assms(1,2) sub by (auto simp: plain_line_def)
  show "takeWhile (\<lambda>c. c \<noteq> 0x20) xs \<noteq> []" using assms(1,2) by (cases xs) (simp_all add: plain_line_def)
  show "\<not> isSpace (hd xs)" "\<not> isSpace (last xs)" using assms(1,2) hd_in_set last_in_set by (auto simp: plain_line_def)
  show "r \<noteq> [] \<Longrightarrow> hd r = 0x20" using hd_dropWhile [of "\<lambda>c. c \<noteq> 0x20" xs] by (simp add: r_def)
qed

subsection \<open>Words in the heap\<close>

text \<open>A heap without free blocks, at or above the address \<open>lo\<close>.\<close>

definition used_heap :: "('k \<Rightarrow> u64) \<Rightarrow> ('k \<Rightarrow> bool) \<Rightarrow> nat \<Rightarrow> hblock list \<Rightarrow> 'k user_state \<Rightarrow> bool" where
  "used_heap brk_of ready lo bs s \<longleftrightarrow> heap_rep brk_of bs s \<and> ready (kern s) \<and>
     (\<forall>c n f. (c, n, f) \<in> set bs \<longrightarrow> \<not> f \<and> lo \<le> unat c) \<and> lo \<le> unat (brk_of (kern s))"

lemma used_heap_bounds:
  "used_heap brk_of ready lo bs s \<Longrightarrow> (c, n, f) \<in> set bs \<Longrightarrow> unat c + 24 + unat n \<le> unat (brk_of (kern s))"
  unfolding used_heap_def heap_rep_def using laid_out_bounds by blast

lemma word_block_region:
  assumes "lo \<le> unat t" and "unat t + 24 + n + 1024 \<le> hi" and "hi < 2 ^ 64" and "k \<le> n"
  shows "set (block (t + 24) (Suc k)) \<subseteq> region lo hi"
proof -
  have "unat (t + 24) = unat t + 24" using assms by (simp add: unat_word_ariths)
  then have "set (block (t + 24) (Suc k)) = region (unat t + 24) (unat t + 24 + Suc k)"
    using block_region [of "t + 24" "Suc k"] assms by (simp del: block.simps)
  then show ?thesis using assms by (auto simp: region_def)
qed

text \<open>Headers and payloads lie between \<open>lo\<close> and the break.\<close>

lemma used_heap_region:
  assumes h: "used_heap brk_of ready lo bs s" and b: "(c, n, f) \<in> set bs" and hi: "unat (brk_of (kern s)) \<le> hi" "hi < 2 ^ 64"
  shows "set (block c 24) \<subseteq> region lo hi" and "set (block (c + 24) (unat n)) \<subseteq> region lo hi"
proof -
  have l: "lo \<le> unat c" "unat c + 24 + unat n \<le> hi" using h used_heap_bounds [OF h b] b hi by (auto simp: used_heap_def)
  then have e: "unat (c + 24) = unat c + 24" using hi by (simp add: unat_word_ariths)
  show "set (block c 24) \<subseteq> region lo hi" using l hi by (subst block_region) (auto simp: region_def)
  show "set (block (c + 24) (unat n)) \<subseteq> region lo hi" using l hi e by (subst block_region) (auto simp: region_def)
qed

lemma used_heap_cong:
  assumes h: "used_heap brk_of ready lo bs s" and "kern s' = kern s" and "heap_head s' = heap_head s"
    and m: "\<And>c n f a. (c, n, f) \<in> set bs \<Longrightarrow> a \<in> set (block c 24) \<Longrightarrow> umem s' a = umem s a"
  shows "used_heap brk_of ready lo bs s'"
proof -
  have "heap_chain s' (heap_head s) bs \<longleftrightarrow> heap_chain s (heap_head s) bs" by (rule heap_chain_cong [OF m])
  then show ?thesis using h assms(2,3) unfolding used_heap_def heap_rep_def by simp blast
qed

text \<open>What does not touch the region of the heap keeps it and its payloads.\<close>

lemma used_heap_outside:
  assumes h: "used_heap brk_of ready lo bs s" and hi: "unat (brk_of (kern s)) \<le> hi" "hi < 2 ^ 64"
    and k: "kern s' = kern s" "heap_head s' = heap_head s" and m: "\<And>a. a \<in> region lo hi \<Longrightarrow> umem s' a = umem s a"
  shows "used_heap brk_of ready lo bs s'" and "payloads_kept bs s s'"
proof -
  note r = used_heap_region [OF h _ hi]
  show "used_heap brk_of ready lo bs s'" by (rule used_heap_cong [OF h k]) (use r(1) m in blast)
  show "payloads_kept bs s s'"
  proof (intro allI impI)
    fix c n f a assume "(c, n, f) \<in> set bs" "a \<in> set (block (c + 24) (unat n))"
    then show "umem s' a = umem s a" using r(2) m by blast
  qed
qed

text \<open>A word is copied into a cleared block and its address stored.\<close>

lemma word_stored:
  assumes c: "cstr (umem s) q xs" and k: "k \<le> length xs" "k < 1024"
    and apart: "set (block q (Suc (length xs))) \<inter> set (block b 1024) = {}"
      "set (block (cmd_slot G i j) 8) \<inter> set (block b 1024) = {}"
      "set (block (cmd_slot G i j) 8) \<inter> set (block q (Suc (length xs))) = {}"
  defines "s1 \<equiv> set_cmd G i j b s"
  defines "s2 \<equiv> uclear b 1024 s1"
  defines "s3 \<equiv> s2\<lparr>umem := kstrncpy b q (of_nat k) (umem s2)\<rparr>"
  shows "get_cmd G i j s1 = b" and "get_cmd G i j s2 = b" and "get_cmd G i j s3 = b" and "cstr (umem s3) b (take k xs)"
    and "kern s3 = kern s" and "heap_head s3 = heap_head s"
    and "a \<notin> set (block b 1024) \<Longrightarrow> a \<notin> set (block (cmd_slot G i j) 8) \<Longrightarrow> umem s3 a = umem s a"
proof -
  let ?S = "set (block (cmd_slot G i j) 8)" and ?B = "set (block b 1024)"
  have m1: "umem s1 a = umem s a" if "a \<notin> ?S" for a
    using that by (simp add: s1_def set_cmd_def ustore_def store_le_other)
  have m2: "umem s2 a = (if a \<in> ?B then 0 else umem s1 a)" for a
    using memset_zero [of 1024 b "umem s1" a] by (simp add: s2_def uclear_def)
  have line2: "cstr (umem s2) q xs"
    by (subst cstr_cong [where m' = "umem s"]) (use m1 m2 apart(1,3) c in auto)
  have ck: "unat (of_nat k :: u64) = k" using k by (simp add: unat_of_nat take_bit_nat_eq_self)
  have kB: "set (block b k) \<subseteq> ?B" using k by (intro block_mono) simp
  have u3: "umem s3 = store_bytes (take k xs) b (umem s2)"
    using kstrncpy_loop_take [OF line2 k(1), of b] kB apart(1) by (auto simp: s3_def kstrncpy_def ck)
  have m3: "umem s3 a = umem s2 a" if "a \<notin> ?B" for a
    using that kB k(1) store_bytes_other [of a b "take k xs" "umem s2"] by (auto simp: u3 min_absorb2)
  show g1: "get_cmd G i j s1 = b"
    by (simp add: s1_def set_cmd_def get_cmd_def uload_def ustore_def kload_store_same
      take_bit_length_eq [where 'a = 64, simplified])
  have "get_cmd G i j s2 = get_cmd G i j s1"
    unfolding get_cmd_def uload_def by (rule kload_cong) (use m2 apart(2) in auto)
  then show g2: "get_cmd G i j s2 = b" using g1 by simp
  have "get_cmd G i j s3 = get_cmd G i j s2"
    unfolding get_cmd_def uload_def by (rule kload_cong) (use m3 apart(2) in auto)
  then show "get_cmd G i j s3 = b" using g2 by simp
  show "cstr (umem s3) b (take k xs)"
    unfolding u3
  proof (rule cstr_stored)
    show "0 \<notin> set (take k xs)" using cstr_nonzero [OF c] by (auto dest: in_set_takeD)
    have "b + of_nat k \<in> ?B" unfolding in_block using k by (intro exI [of _ k]) simp
    then show "umem s2 (b + of_nat (length (take k xs))) = 0" using m2 k(1) by (simp add: min_def)
  qed (use k in simp)
  show "kern s3 = kern s" "heap_head s3 = heap_head s"
    by (simp_all add: s3_def s2_def s1_def uclear_def set_cmd_def ustore_def)
  show "a \<notin> ?B \<Longrightarrow> a \<notin> ?S \<Longrightarrow> umem s3 a = umem s a" using m1 m2 m3 by simp
qed

context brk_kernel
begin

lemma malloc_used:
  assumes h: "used_heap brk_of ready lo bs s" and n: "0 < n" "unat (brk_of (kern s)) + 24 + n < 2 ^ 64"
  shows "\<exists>s'. malloc K (of_nat n) s = Some (brk_of (kern s) + 24, s') \<and>
    unat (brk_of (kern s) + 24) = unat (brk_of (kern s)) + 24 \<and> unat (brk_of (kern s')) = unat (brk_of (kern s)) + 24 + n \<and>
    used_heap brk_of ready lo (bs @ [(brk_of (kern s), of_nat n, False)]) s' \<and> payloads_kept bs s s' \<and>
    (\<forall>a. a \<notin> region lo (unat (brk_of (kern s)) + 24) \<longrightarrow> umem s' a = umem s a)"
proof -
  let ?t = "brk_of (kern s)" and ?n = "of_nat n :: u64"
  let ?bs = "bs @ [(?t, ?n, False)]"
  have un: "unat ?n = n" using n(2) by (simp add: unat_of_nat take_bit_nat_eq_self)
  then have nz: "?n \<noteq> 0" using n(1) by (metis unat_0 neq0_conv)
  have fnd: "find (fits ?n) bs = None"
  proof -
    have "\<not> fits ?n x" if "x \<in> set bs" for x
      using h that by (cases x) (auto simp: fits_def used_heap_def)
    then show ?thesis by (auto simp: find_None_iff)
  qed
  obtain s' where s': "malloc K ?n s = Some (?t + 24, s')" "ready (kern s')" "brk_of (kern s') = ?t + 24 + ?n"
    "heap_rep brk_of ?bs s'" "payloads_kept bs s s'"
    "\<forall>a. (\<forall>c \<in> fst ` set ?bs. a \<notin> set (block c 24)) \<longrightarrow> umem s' a = umem s a"
    using malloc_extends [of bs s ?n] h nz fnd n(2) un by (auto simp: used_heap_def)
  have t24: "unat (?t + 24) = unat ?t + 24" using n(2) by (simp add: unat_word_ariths)
  have top: "unat (brk_of (kern s')) = unat ?t + 24 + n" using n(2) un by (simp add: s'(3) unat_word_ariths)
  have "umem s' a = umem s a" if a: "a \<notin> region lo (unat ?t + 24)" for a
  proof (rule s'(6) [rule_format])
    fix c assume "c \<in> fst ` set ?bs"
    then have c: "lo \<le> unat c" "unat c \<le> unat ?t"
      using h used_heap_bounds [OF h] by (force simp: used_heap_def)+
    then have "set (block c 24) \<subseteq> region lo (unat ?t + 24)"
      using n(2) by (subst block_region) (auto simp: region_def)
    then show "a \<notin> set (block c 24)" using a by auto
  qed
  moreover have "used_heap brk_of ready lo ?bs s'"
    using h s'(2,4) top by (auto simp: used_heap_def)
  ultimately show ?thesis using s'(1,5) t24 top by blast
qed

text \<open>A word of the line goes into a new block; outside the heap only the pointer to it is stored.\<close>

lemma store_word_fresh:
  assumes h: "used_heap brk_of ready lo bs s" and c: "cstr (umem s) q xs" "xs \<noteq> []" "\<not> isSpace (hd xs)" "\<not> isSpace (last xs)"
    and k: "0 < k" "k \<le> length xs" "length xs < 1024"
    and t: "unat (brk_of (kern s)) + 24 + length xs + 1024 \<le> hi" "hi < 2 ^ 64"
    and line: "set (block q (Suc (length xs))) \<inter> region lo hi = {}"
    and slot: "set (block (cmd_slot G i j) 8) \<inter> region lo hi = {}"
      "set (block (cmd_slot G i j) 8) \<inter> set (block q (Suc (length xs))) = {}"
  shows "\<exists>s'. store_word K G q k i j s = Some (Suc j, s') \<and> get_cmd G i j s' = brk_of (kern s) + 24 \<and>
    cstr (umem s') (brk_of (kern s) + 24) (take k xs) \<and>
    unat (brk_of (kern s')) = unat (brk_of (kern s)) + 24 + length xs \<and>
    used_heap brk_of ready lo (bs @ [(brk_of (kern s), of_nat (length xs), False)]) s' \<and> payloads_kept bs s s' \<and>
    (\<forall>a. a \<notin> region lo hi \<longrightarrow> a \<notin> set (block (cmd_slot G i j) 8) \<longrightarrow> umem s' a = umem s a)"
proof -
  let ?t = "brk_of (kern s)" and ?n = "length xs" and ?S = "set (block (cmd_slot G i j) 8)"
  let ?B = "?t + 24"
  have n: "0 < ?n" using c(2) by simp
  have lim: "unat ?t + 24 + ?n < 2 ^ 64" using t by simp
  obtain s0 where s0: "malloc K (of_nat ?n) s = Some (?B, s0)" "unat ?B = unat ?t + 24"
    "unat (brk_of (kern s0)) = unat ?t + 24 + ?n" "used_heap brk_of ready lo (bs @ [(?t, of_nat ?n, False)]) s0"
    "payloads_kept bs s s0" "\<forall>a. a \<notin> region lo (unat ?t + 24) \<longrightarrow> umem s0 a = umem s a"
    using malloc_used [OF h n lim] by blast
  have lo: "lo \<le> unat ?t" using h by (simp add: used_heap_def)
  have B: "set (block ?B 1024) = region (unat ?B) (unat ?B + 1024)" using s0(2) t by (intro block_region) simp
  have sub: "set (block ?B 1024) \<subseteq> region lo hi" unfolding B using s0(2) t lo by (intro region_subset) simp_all
  define s1 where "s1 = set_cmd G i j ?B s0"
  define s2 where "s2 = uclear ?B 1024 s1"
  define s3 where "s3 = s2\<lparr>umem := kstrncpy ?B q (of_nat k) (umem s2)\<rparr>"
  have same0: "umem s0 a = umem s a" if "a \<notin> region lo hi" for a
    using that s0(6) region_subset [of lo lo "unat ?t + 24" hi] t by auto
  have line0: "cstr (umem s0) q xs"
    by (subst cstr_cong [where m' = "umem s"]) (use same0 line c(1) in auto)
  have k1024: "k < 1024" using k by simp
  have d: "set (block q (Suc ?n)) \<inter> set (block ?B 1024) = {}" "?S \<inter> set (block ?B 1024) = {}"
    using sub line slot(1) by blast+
  note w = word_stored [OF line0 k(2) k1024 d slot(2), folded s1_def, folded s2_def, folded s3_def]
  have run: "store_word K G q k i j s = Some (Suc j, s3)"
  proof -
    have "on_mem (trim q) s = Some s" using trim_id [OF c] by (simp add: on_mem_def)
    moreover have "sint (of_nat ?n :: u32) = int ?n" "scast (of_nat ?n :: u32) = (of_nat ?n :: u64)"
      using small_result [of ?n] k(3) by (simp_all add: scast_eq)
    ultimately show ?thesis
      using int_len_cstr [OF c(1)] n k(1) s0(1) w(1,2)
      by (simp add: store_word_def s1_def [symmetric] s2_def [symmetric] s3_def)
  qed
  have low: "umem s3 a = umem s0 a" if "a \<in> region lo hi" "unat a < unat ?t + 24" for a
  proof -
    have "a \<notin> set (block ?B 1024)" using that s0(2) by (auto simp: B region_def)
    moreover have "a \<notin> ?S" using that(1) slot(1) by auto
    ultimately show ?thesis by (rule w(7))
  qed
  have heap: "used_heap brk_of ready lo (bs @ [(?t, of_nat ?n, False)]) s3"
  proof (rule used_heap_cong [OF s0(4) w(5,6)])
    fix c' n' f a assume c': "(c', n', f) \<in> set (bs @ [(?t, of_nat ?n, False)])" "a \<in> set (block c' 24)"
    then have l: "lo \<le> unat c'" "unat c' \<le> unat ?t"
      using h lo used_heap_bounds [OF h] by (force simp: used_heap_def)+
    then have "set (block c' 24) = region (unat c') (unat c' + 24)" using t by (intro block_region) simp
    then show "umem s3 a = umem s0 a" using c'(2) l t by (intro low) (auto simp: region_def)
  qed
  have kept: "payloads_kept bs s s3"
  proof (intro allI impI)
    fix c' n' f a assume c': "(c', n', f) \<in> set bs" "a \<in> set (block (c' + 24) (unat n'))"
    then have l: "lo \<le> unat c'" "unat c' + 24 + unat n' \<le> unat ?t"
      using h used_heap_bounds [OF h] by (auto simp: used_heap_def)
    then have e: "unat (c' + 24) = unat c' + 24" using t by (simp add: unat_word_ariths)
    then have "set (block (c' + 24) (unat n')) = region (unat c' + 24) (unat c' + 24 + unat n')"
      using block_region [of "c' + 24" "unat n'"] l t by simp
    then have "umem s3 a = umem s0 a" using c'(2) l t by (intro low) (auto simp: region_def)
    then show "umem s3 a = umem s a" using s0(5) c' by simp
  qed
  have "umem s3 a = umem s a" if "a \<notin> region lo hi" "a \<notin> ?S" for a
  proof -
    have "a \<notin> set (block ?B 1024)" using that(1) sub by blast
    then show ?thesis using w(7) [OF _ that(2)] same0 [OF that(1)] by simp
  qed
  then show ?thesis using run w(3,4,5) heap kept s0(3) by (intro exI [of _ s3]) simp
qed

end

text \<open>The spaces behind a word are erased: the word and the rest of the line are strings.\<close>

lemma erase_spaces:
  fixes r :: bytes and q :: u64
  assumes c: "cstr m q (w @ r)" and len: "length (w @ r) < 1024" and r: "r \<noteq> [] \<Longrightarrow> hd r = 0x20"
  defines "sp \<equiv> length (takeWhile (\<lambda>c. c = 0x20) r)" and "ys \<equiv> dropWhile (\<lambda>c. c = 0x20) r"
  defines "m' \<equiv> memset (q + of_nat (length w)) 0 (of_nat (length (takeWhile (\<lambda>c. c = 0x20) r))) m"
  shows "cstr m' q w" and "cstr m' (q + of_nat (length w + sp)) ys"
    and "a \<notin> set (block q (Suc (length (w @ r)))) \<Longrightarrow> m' a = m a"
proof -
  let ?q = "q + of_nat (length w)"
  have rr: "r = takeWhile (\<lambda>c. c = 0x20) r @ ys" by (simp add: ys_def)
  then have lr: "length r = sp + length ys" unfolding sp_def by (metis length_append)
  have cr: "cstr m ?q r" using c by (simp add: cstr_append)
  have m2: "m' a = (if a \<in> set (block ?q sp) then 0 else m a)" for a
    using len lr unfolding m'_def sp_def by (intro memset_zero) simp
  have apart: "q + of_nat i \<notin> set (block ?q sp)" if "i < length w \<or> length w + sp \<le> i" "i \<le> length (w @ r)" for i
  proof
    assume "q + of_nat i \<in> set (block ?q sp)"
    then obtain k where k: "k < sp" "q + of_nat i = q + of_nat (length w + k)" unfolding in_block by (auto simp: add.assoc)
    then have "i = length w + k" using that(2) lr len by (intro word_of_nat_u64_inj) simp_all
    then show False using k(1) that(1) by simp
  qed
  have "m' (q + of_nat i) = w ! i \<and> w ! i \<noteq> 0" if "i < length w" for i
    using c apart [of i] m2 that by (simp add: cstr_append)
  moreover have "m' ?q = 0"
  proof (cases r)
    case Nil
    then show ?thesis using cr m2 by simp
  next
    case (Cons x r')
    then have "0 < sp" using r by (simp add: sp_def)
    then have "?q \<in> set (block ?q sp)" unfolding in_block by (intro exI [of _ 0]) simp
    then show ?thesis using m2 by simp
  qed
  ultimately show "cstr m' q w" using cstr_append [of m' q w "[]"] by simp
  have "cstr m ?q (takeWhile (\<lambda>c. c = 0x20) r @ ys)" using cr rr by simp
  then have y: "cstr m (q + of_nat (length w + sp)) ys" unfolding cstr_append sp_def by (simp add: add.assoc)
  show "cstr m' (q + of_nat (length w + sp)) ys"
  proof (subst cstr_cong)
    fix a assume "a \<in> set (block (q + of_nat (length w + sp)) (Suc (length ys)))"
    then obtain k where "k \<le> length ys" "a = q + of_nat (length w + sp + k)"
      unfolding in_block by (auto simp: add.assoc less_Suc_eq_le)
    then show "m' a = m a" using apart [of "length w + sp + k"] m2 lr by simp
  qed (rule y)
  show "m' a = m a" if "a \<notin> set (block q (Suc (length (w @ r))))"
  proof -
    have "a \<notin> set (block ?q sp)"
    proof
      assume "a \<in> set (block ?q sp)"
      then obtain k where k: "k < sp" "a = q + of_nat (length w + k)" unfolding in_block by (auto simp: add.assoc)
      then have "a \<in> set (block q (Suc (length (w @ r))))"
        unfolding in_block using lr by (intro exI [of _ "length w + k"]) simp
      then show False using that by blast
    qed
    then show ?thesis using m2 by simp
  qed
qed

text \<open>One round as a step of the loop.\<close>

lemma parse_loop_step:
  assumes s0: "s0 = (if str \<noteq> 0 then uclear str (of_nat (length v)) s else s)" and v: "str \<noteq> 0 \<Longrightarrow> cstr (umem s) str v"
    and c: "cstr (umem s0) q (w @ r)" "w \<noteq> []" "0x20 \<notin> set w" "0x7C \<notin> set (w @ r)" "r \<noteq> [] \<Longrightarrow> hd r = 0x20"
    and s1: "store_word K G q (length w) 0 j s0 = Some (Suc j, s1)" "cstr (umem s1) q (w @ r)" "length (w @ r) < 1024"
  defines "sp \<equiv> length (takeWhile (\<lambda>c. c = 0x20) r)"
  shows "parse_loop K G (length (w @ r)) q str 0 j s =
    parse_loop K G (length (dropWhile (\<lambda>c. c = 0x20) r)) (q + of_nat (length w + sp)) q 0 (Suc j)
      (s1\<lparr>umem := memset (q + of_nat (length w)) 0 (of_nat sp) (umem s1)\<rparr>)"
proof -
  have e0: "(if str \<noteq> 0 then do { l \<leftarrow> strlen str (umem s); Some (uclear str l s) } else Some s) = Some s0"
    using v strlen_cstr by (auto simp: s0)
  have "takeWhile (\<lambda>c. c \<noteq> 0x20) (w @ r) = w"
    using c(3,5) by (cases r) (auto simp: takeWhile_append)
  then have wl: "word_loop (length (w @ r)) q (umem s0) = length w" using word_loop_cstr [OF c(1,4)] by simp
  have "cstr (umem s0) (q + of_nat (length w)) r" using c(1) by (simp add: cstr_append)
  then have nf: "umem s0 (q + of_nat (length w)) \<noteq> 0x7C" using c(5) by (cases r) simp_all
  have sl: "space_loop (length r) (q + of_nat (length w)) (umem s1) =
      (sp, memset (q + of_nat (length w)) 0 (of_nat sp) (umem s1))"
    using space_loop_cstr [of "umem s1" _ r] s1(2,3) by (simp add: cstr_append sp_def)
  have "length r = sp + length (dropWhile (\<lambda>c. c = 0x20) r)"
    unfolding sp_def by (metis length_append takeWhile_dropWhile_id)
  then have ar: "length (w @ r) - length w = length r" "length r - sp = length (dropWhile (\<lambda>c. c = 0x20) r)" by simp_all
  have ne: "length (w @ r) \<noteq> 0" using c(2) by simp
  show ?thesis
    by (subst parse_loop.simps)
      (simp only: ne if_False e0 bind.bind_lunit wl ar nf s1(1) sl Let_def prod.case of_nat_add add.assoc)
qed

context brk_kernel
begin

text \<open>One round: the word is stored, the spaces behind it are erased, and only the line, the heap and the
  pointer's slot change.\<close>

lemma cleared_first:
  assumes h: "used_heap brk_of ready lo bs s" and c: "cstr (umem s) q xs" and t: "unat (brk_of (kern s)) \<le> hi" "hi < 2 ^ 64"
    and str: "str \<noteq> 0 \<longrightarrow> length v < 2 ^ 64 \<and> set (block str (length v)) \<subseteq> L \<and>
      set (block str (length v)) \<inter> set (block q (Suc (length xs))) = {}"
    and L: "L \<inter> region lo hi = {}"
  defines "s0 \<equiv> if str \<noteq> 0 then uclear str (of_nat (length v)) s else s"
  shows "kern s0 = kern s" and "used_heap brk_of ready lo bs s0" and "cstr (umem s0) q xs" and "payloads_kept bs s s0"
    and "\<And>a. a \<notin> L \<Longrightarrow> umem s0 a = umem s a"
proof -
  have m: "umem s0 a = umem s a" if "a \<notin> L \<or> a \<in> set (block q (Suc (length xs)))" for a
    using that str memset_zero [of "length v" str "umem s" a] by (auto simp: s0_def uclear_def)
  then show "\<And>a. a \<notin> L \<Longrightarrow> umem s0 a = umem s a" by blast
  show k: "kern s0 = kern s" by (simp add: s0_def uclear_def)
  have hd: "heap_head s0 = heap_head s" by (simp add: s0_def uclear_def)
  have r: "umem s0 a = umem s a" if "a \<in> region lo hi" for a using that m L by blast
  show "used_heap brk_of ready lo bs s0" by (rule used_heap_outside(1) [OF h t k hd r])
  show "payloads_kept bs s s0" by (rule used_heap_outside(2) [OF h t k hd r])
  show "cstr (umem s0) q xs" by (subst cstr_cong [where m' = "umem s"]) (use m c in auto)
qed

lemma word_round:
  assumes h: "used_heap brk_of ready lo bs s" and c: "cstr (umem s) q xs" "xs \<noteq> []" "plain_line xs" "length xs < 1024"
    and t: "unat (brk_of (kern s)) + 24 + length xs + 1024 \<le> hi" "hi < 2 ^ 64"
    and str: "str \<noteq> 0 \<Longrightarrow> cstr (umem s) str v \<and> length v < 2 ^ 64 \<and> set (block str (length v)) \<subseteq> L \<and>
      set (block str (length v)) \<inter> set (block q (Suc (length xs))) = {}"
    and L: "set (block q (Suc (length xs))) \<subseteq> L" "L \<inter> region lo hi = {}"
    and slot: "set (block (cmd_slot G 0 j) 8) \<inter> (region lo hi \<union> L) = {}"
  defines "w \<equiv> takeWhile (\<lambda>c. c \<noteq> 0x20) xs" and "r \<equiv> dropWhile (\<lambda>c. c \<noteq> 0x20) xs"
  defines "ys \<equiv> dropWhile (\<lambda>c. c = 0x20) r" and "n \<equiv> length xs - length (dropWhile (\<lambda>c. c = 0x20) r)"
  shows "\<exists>s'. parse_loop K G (length xs) q str 0 j s = parse_loop K G (length ys) (q + of_nat n) q 0 (Suc j) s' \<and>
    get_cmd G 0 j s' = brk_of (kern s) + 24 \<and> cstr (umem s') (brk_of (kern s) + 24) w \<and>
    unat (brk_of (kern s')) = unat (brk_of (kern s)) + 24 + length xs \<and>
    used_heap brk_of ready lo (bs @ [(brk_of (kern s), of_nat (length xs), False)]) s' \<and> payloads_kept bs s s' \<and>
    cstr (umem s') q w \<and> cstr (umem s') (q + of_nat n) ys \<and>
    (\<forall>a. a \<notin> region lo hi \<longrightarrow> a \<notin> L \<longrightarrow> a \<notin> set (block (cmd_slot G 0 j) 8) \<longrightarrow> umem s' a = umem s a)"
proof -
  let ?S = "set (block (cmd_slot G 0 j) 8)" and ?X = "set (block q (Suc (length xs)))"
  note p = plain_line_rest [OF c(3,2)]
  define s0 where "s0 = (if str \<noteq> 0 then uclear str (of_nat (length v)) s else s)"
  have t0: "unat (brk_of (kern s)) \<le> hi" using t(1) by simp
  have v: "str \<noteq> 0 \<longrightarrow> length v < 2 ^ 64 \<and> set (block str (length v)) \<subseteq> L \<and> set (block str (length v)) \<inter> ?X = {}"
    using str by blast
  note z = cleared_first [OF h c(1) t0 t(2) v L(2), folded s0_def]
  have wr: "xs = w @ r" by (simp add: w_def r_def)
  have lw: "0 < length w" "length w \<le> length xs" using p(3) by (simp_all add: w_def length_takeWhile_le)
  have tk: "take (length w) xs = w" by (metis append_eq_conv_conj wr)
  have d: "?X \<inter> region lo hi = {}" "?S \<inter> region lo hi = {}" "?S \<inter> ?X = {}" using L slot by blast+
  note sw = store_word_fresh [OF z(2,3) c(2) p(4,5) lw c(4), unfolded z(1) tk, OF t d]
  obtain s1 where s1: "store_word K G q (length w) 0 j s0 = Some (Suc j, s1)" "get_cmd G 0 j s1 = brk_of (kern s) + 24"
    "cstr (umem s1) (brk_of (kern s) + 24) w" "unat (brk_of (kern s1)) = unat (brk_of (kern s)) + 24 + length xs"
    "used_heap brk_of ready lo (bs @ [(brk_of (kern s), of_nat (length xs), False)]) s1" "payloads_kept bs s0 s1"
    "\<forall>a. a \<notin> region lo hi \<longrightarrow> a \<notin> ?S \<longrightarrow> umem s1 a = umem s0 a"
    using sw by blast
  have c1: "cstr (umem s1) q (w @ r)" unfolding wr [symmetric]
    by (subst cstr_cong [where m' = "umem s0"]) (use s1(7) z(3) d in auto)
  have hr: "r \<noteq> [] \<Longrightarrow> hd r = 0x20" unfolding r_def by (rule p(6))
  have lx: "length (w @ r) < 1024" using c(4) wr by simp
  define sp where "sp = length (takeWhile (\<lambda>c. c = 0x20) r)"
  have len: "n = length w + sp"
  proof -
    have "length xs = length w + length r" using arg_cong [OF wr, of length] by simp
    moreover have "length r = sp + length ys" unfolding sp_def ys_def by (metis length_append takeWhile_dropWhile_id)
    moreover have "n = length xs - length ys" by (simp only: n_def ys_def)
    ultimately show ?thesis by linarith
  qed
  define s2 where "s2 = s1\<lparr>umem := memset (q + of_nat (length w)) 0 (of_nat sp) (umem s1)\<rparr>"
  have u2: "umem s2 = memset (q + of_nat (length w)) 0 (of_nat (length (takeWhile (\<lambda>c. c = 0x20) r))) (umem s1)"
    by (simp add: s2_def sp_def)
  note es = erase_spaces [OF c1 lx hr, folded u2 sp_def len, unfolded wr [symmetric]]
  have e: "cstr (umem s2) q w" "cstr (umem s2) (q + of_nat n) ys" "\<And>a. a \<notin> L \<Longrightarrow> umem s2 a = umem s1 a"
    using es L(1) unfolding ys_def by blast+
  have step: "parse_loop K G (length xs) q str 0 j s = parse_loop K G (length ys) (q + of_nat n) q 0 (Suc j) s2"
  proof -
    have ok1: "w \<noteq> []" using lw(1) by simp
    have ok2: "0x20 \<notin> set w" unfolding w_def by (auto dest: set_takeWhileD)
    have ok3: "0x7C \<notin> set (w @ r)" using c(3) unfolding wr [symmetric] plain_line_def by blast
    have st: "str \<noteq> 0 \<Longrightarrow> cstr (umem s) str v" using str by blast
    have c0': "cstr (umem s0) q (w @ r)" unfolding wr [symmetric] by (rule z(3))
    show ?thesis
      using parse_loop_step [OF s0_def st c0' ok1 ok2 ok3 hr s1(1) c1 lx]
      unfolding wr [symmetric] s2_def len sp_def ys_def .
  qed
  have slot2: "get_cmd G 0 j s2 = get_cmd G 0 j s1"
    unfolding get_cmd_def uload_def by (rule kload_cong) (use e(3) slot in auto)
  have region2: "umem s2 a = umem s1 a" if "a \<in> region lo hi" for a using e(3) that L(2) by blast
  have hi1: "unat (brk_of (kern s1)) \<le> hi" using s1(4) t(1) by simp
  have k2: "kern s2 = kern s1" "heap_head s2 = heap_head s1" by (simp_all add: s2_def)
  note h2 = used_heap_outside [OF s1(5) hi1 t(2) k2 region2]
  have word2: "cstr (umem s2) (brk_of (kern s) + 24) w"
  proof (subst cstr_cong)
    fix a assume "a \<in> set (block (brk_of (kern s) + 24) (Suc (length w)))"
    moreover have "lo \<le> unat (brk_of (kern s))" using h by (simp add: used_heap_def)
    ultimately have "a \<in> region lo hi" using word_block_region [OF _ t lw(2)] by blast
    then show "umem s2 a = umem s1 a" by (rule region2)
  qed (rule s1(3))
  have kept: "payloads_kept bs s s2" using z(4) s1(6) h2(2) by simp
  have same: "umem s2 a = umem s a" if "a \<notin> region lo hi" "a \<notin> L" "a \<notin> ?S" for a
    using that e(3) s1(7) z(5) by simp
  show ?thesis
    using k2 step slot2 s1(2,4) word2 h2(1) kept e(1,2) same by (intro exI [of _ s2]) simp
qed

end

lemma cmd_slot_Suc: "cmd_slot G i (Suc j) = cmd_slot G i j + 8"
  by (simp add: cmd_slot_def algebra_simps)

lemma slots_split:
  "block (cmd_slot G 0 j) (8 * Suc k) = block (cmd_slot G 0 j) 8 @ block (cmd_slot G 0 (Suc j)) (8 * k)"
proof -
  have "8 * Suc k = 8 + 8 * k" by simp
  then show ?thesis by (simp only: block_add cmd_slot_Suc of_nat_numeral)
qed

lemma slots_cons:
  assumes "Suc k < 2 ^ 60"
  shows "set (block (cmd_slot G 0 j) (8 * Suc k)) = set (block (cmd_slot G 0 j) 8) \<union> set (block (cmd_slot G 0 (Suc j)) (8 * k))"
    and "set (block (cmd_slot G 0 j) 8) \<inter> set (block (cmd_slot G 0 (Suc j)) (8 * k)) = {}"
proof -
  have "distinct (block (cmd_slot G 0 j) (8 * Suc k))" using assms by (intro block_distinct) simp
  then show "set (block (cmd_slot G 0 j) 8) \<inter> set (block (cmd_slot G 0 (Suc j)) (8 * k)) = {}"
    unfolding slots_split by simp
qed (simp only: slots_split set_append)

text \<open>The first word and the rest of a line as parts of it.\<close>

lemma word_and_rest:
  fixes q :: u64
  assumes "plain_line xs" and "xs \<noteq> []" and "length xs < 1024"
  defines "w \<equiv> takeWhile (\<lambda>c. c \<noteq> 0x20) xs"
    and "ys \<equiv> dropWhile (\<lambda>c. c = 0x20) (dropWhile (\<lambda>c. c \<noteq> 0x20) xs)"
  defines "n \<equiv> length xs - length ys"
  shows "length ys < length xs" and "length w \<le> length xs" and "ys \<noteq> [] \<Longrightarrow> Suc (length w) \<le> length xs"
    and "set (block (q + of_nat n) (Suc (length ys))) \<subseteq> set (block q (Suc (length xs)))"
    and "set (block q (length w)) \<subseteq> set (block q (Suc (length xs)))"
    and "set (block q (length w)) \<inter> set (block (q + of_nat n) (Suc (length ys))) = {}"
proof -
  let ?r = "dropWhile (\<lambda>c. c \<noteq> 0x20) xs"
  have lens: "length xs = length w + length ?r" "length ys \<le> length ?r"
    using arg_cong [OF takeWhile_dropWhile_id [of "\<lambda>c. c \<noteq> 0x20" xs], of length] length_dropWhile_le [of _ ?r]
    by (simp_all only: length_append ys_def w_def)
  show shorter: "length ys < length xs"
    unfolding ys_def by (rule split_rest_shorter) (use assms(1,2) in \<open>simp_all add: plain_line_def\<close>)
  show "length w \<le> length xs" using lens by simp
  show "ys \<noteq> [] \<Longrightarrow> Suc (length w) \<le> length xs"
    using lens plain_line_rest(2) [OF assms(1,2)] by (cases ?r) (simp_all add: ys_def)
  have "Suc (length xs) = n + Suc (length ys)" using shorter by (simp add: n_def)
  then have sp: "block q (Suc (length xs)) = block q n @ block (q + of_nat n) (Suc (length ys))"
    by (simp only: block_add)
  have w: "set (block q (length w)) \<subseteq> set (block q n)" using lens by (intro block_mono) (simp add: n_def)
  have "distinct (block q (Suc (length xs)))" using assms(3) by (intro block_distinct) simp
  then show "set (block q (length w)) \<inter> set (block (q + of_nat n) (Suc (length ys))) = {}" using w unfolding sp by auto
  show "set (block (q + of_nat n) (Suc (length ys))) \<subseteq> set (block q (Suc (length xs)))" unfolding sp by auto
  show "set (block q (length w)) \<subseteq> set (block q (Suc (length xs)))" using w unfolding sp by auto
qed

lemma slot_in_list: "i < k \<Longrightarrow> set (block (cmd_slot G 0 i) 8) \<subseteq> set (block (sv_commands G) (8 * k))"
proof
  fix a assume "i < k" "a \<in> set (block (cmd_slot G 0 i) 8)"
  then obtain d where "d < 8" "a = sv_commands G + of_nat (8 * i + d)"
    unfolding in_block by (auto simp: cmd_slot_def add.assoc)
  with \<open>i < k\<close> show "a \<in> set (block (sv_commands G) (8 * k))"
    unfolding in_block by (intro exI [of _ "8 * i + d"]) simp
qed

lemma length_split_words: "length (split_words xs) \<le> length xs"
proof (induction xs rule: split_words.induct)
  case (1 xs)
  show ?case
  proof (cases "xs = [] \<or> hd xs = 0x20")
    case True
    then show ?thesis by (simp add: split_words.simps [of xs])
  next
    case False
    then show ?thesis using 1 split_rest_shorter [of xs] by (simp add: split_words.simps [of xs])
  qed
qed

text \<open>The state at the head of a round: the heap blocks \<open>bs\<close>, the rest \<open>xs\<close> of the line at \<open>q\<close>, the piece of
  it that the round clears first at \<open>str\<close>, and room for the words in the heap and in the list.\<close>

definition parse_ready :: "('k \<Rightarrow> u64) \<Rightarrow> ('k \<Rightarrow> bool) \<Rightarrow> nat \<Rightarrow> nat \<Rightarrow> u64 set \<Rightarrow> shell_globals \<Rightarrow> hblock list \<Rightarrow>
    u64 \<Rightarrow> bytes \<Rightarrow> u64 \<Rightarrow> nat \<Rightarrow> 'k user_state \<Rightarrow> bool" where
  "parse_ready brk_of ready lo hi L G bs q xs str j s \<longleftrightarrow>
    used_heap brk_of ready lo bs s \<and> cstr (umem s) q xs \<and> plain_line xs \<and> length xs < 1024 \<and>
    unat (brk_of (kern s)) + length (split_words xs) * (24 + length xs) + 1024 \<le> hi \<and> hi < 2 ^ 64 \<and>
    (str \<noteq> 0 \<longrightarrow> (\<exists>v. cstr (umem s) str v \<and> length v < 2 ^ 64 \<and> set (block str (length v)) \<subseteq> L \<and>
      set (block str (length v)) \<inter> set (block q (Suc (length xs))) = {})) \<and>
    set (block q (Suc (length xs))) \<subseteq> L \<and> L \<inter> region lo hi = {} \<and>
    set (block (cmd_slot G 0 j) (8 * length (split_words xs))) \<inter> (region lo hi \<union> L) = {} \<and>
    length (split_words xs) < 2 ^ 60"

lemma parse_ready_split:
  assumes "parse_ready brk_of ready lo hi L G bs q xs str j s" and "xs \<noteq> []"
  defines "ys \<equiv> dropWhile (\<lambda>c. c = 0x20) (dropWhile (\<lambda>c. c \<noteq> 0x20) xs)"
  defines "S \<equiv> set (block (cmd_slot G 0 j) 8)" and "T \<equiv> set (block (cmd_slot G 0 (Suc j)) (8 * length (split_words ys)))"
  shows "split_words xs = takeWhile (\<lambda>c. c \<noteq> 0x20) xs # split_words ys"
    and "set (block (cmd_slot G 0 j) (8 * length (split_words xs))) = S \<union> T" and "S \<inter> T = {}"
    and "S \<inter> (region lo hi \<union> L) = {}" and "T \<inter> (region lo hi \<union> L) = {}"
    and "unat (brk_of (kern s)) + 24 + length xs + length (split_words ys) * (24 + length ys) + 1024 \<le> hi"
proof -
  have r: "plain_line xs" "length (split_words xs) < 2 ^ 60" "length xs < 1024"
    "unat (brk_of (kern s)) + length (split_words xs) * (24 + length xs) + 1024 \<le> hi"
    "set (block (cmd_slot G 0 j) (8 * length (split_words xs))) \<inter> (region lo hi \<union> L) = {}"
    using assms(1) by (simp_all add: parse_ready_def del: block.simps)
  have "hd xs \<noteq> 0x20" using r(1) assms(2) by (simp add: plain_line_def)
  then show sw: "split_words xs = takeWhile (\<lambda>c. c \<noteq> 0x20) xs # split_words ys"
    using assms(2) by (subst split_words.simps) (simp add: ys_def)
  have sl: "Suc (length (split_words ys)) < 2 ^ 60" using r(2) sw by simp
  show slots: "set (block (cmd_slot G 0 j) (8 * length (split_words xs))) = S \<union> T" and "S \<inter> T = {}"
    using slots_cons [OF sl] by (simp_all add: sw S_def T_def del: block.simps mult_Suc_right)
  show "S \<inter> (region lo hi \<union> L) = {}" "T \<inter> (region lo hi \<union> L) = {}" using r(5) unfolding slots by blast+
  have "length (split_words ys) * (24 + length ys) \<le> length (split_words ys) * (24 + length xs)"
    using word_and_rest(1) [OF r(1) assms(2) r(3)] by (intro mult_le_mono2) (simp add: ys_def)
  moreover have "length (split_words xs) = Suc (length (split_words ys))" by (simp add: sw)
  ultimately show "unat (brk_of (kern s)) + 24 + length xs + length (split_words ys) * (24 + length ys) + 1024 \<le> hi"
    using r(4) by (simp only: mult_Suc)
qed

context brk_kernel
begin

text \<open>One round, from the head of a round to the head of the next.\<close>

lemma parse_round:
  assumes r: "parse_ready brk_of ready lo hi L G bs q xs str j s" and ne: "xs \<noteq> []"
  defines "w \<equiv> takeWhile (\<lambda>c. c \<noteq> 0x20) xs"
    and "ys \<equiv> dropWhile (\<lambda>c. c = 0x20) (dropWhile (\<lambda>c. c \<noteq> 0x20) xs)"
  defines "n \<equiv> length xs - length ys" and "t \<equiv> brk_of (kern s)"
  shows "\<exists>s'. parse_loop K G (length xs) q str 0 j s = parse_loop K G (length ys) (q + of_nat n) q 0 (Suc j) s' \<and>
    parse_ready brk_of ready lo hi L G (bs @ [(t, of_nat (length xs), False)]) (q + of_nat n) ys q (Suc j) s' \<and>
    get_cmd G 0 j s' = t + 24 \<and> cstr (umem s') (t + 24) w \<and> payloads_kept bs s s' \<and>
    (\<forall>a. a \<notin> region lo hi \<longrightarrow> a \<notin> L \<longrightarrow> a \<notin> set (block (cmd_slot G 0 j) 8) \<longrightarrow> umem s' a = umem s a)"
proof -
  have p: "used_heap brk_of ready lo bs s" "cstr (umem s) q xs" "plain_line xs" "length xs < 1024" "hi < 2 ^ 64"
    "set (block q (Suc (length xs))) \<subseteq> L" "L \<inter> region lo hi = {}" "length (split_words xs) < 2 ^ 60"
    using r by (simp_all add: parse_ready_def del: block.simps)
  obtain v where v: "str \<noteq> 0 \<Longrightarrow> cstr (umem s) str v \<and> length v < 2 ^ 64 \<and> set (block str (length v)) \<subseteq> L \<and>
      set (block str (length v)) \<inter> set (block q (Suc (length xs))) = {}"
    using r unfolding parse_ready_def by blast
  note sp = parse_ready_split [OF r ne, folded ys_def t_def, folded w_def]
  note wr = word_and_rest [OF p(3) ne p(4), folded w_def ys_def, folded n_def]
  have t1: "unat t + 24 + length xs + 1024 \<le> hi" using sp(6) by simp
  obtain s' where s': "parse_loop K G (length xs) q str 0 j s = parse_loop K G (length ys) (q + of_nat n) q 0 (Suc j) s'"
    "get_cmd G 0 j s' = t + 24" "cstr (umem s') (t + 24) w" "unat (brk_of (kern s')) = unat t + 24 + length xs"
    "used_heap brk_of ready lo (bs @ [(t, of_nat (length xs), False)]) s'" "payloads_kept bs s s'"
    "cstr (umem s') q w" "cstr (umem s') (q + of_nat n) ys"
    "\<forall>a. a \<notin> region lo hi \<longrightarrow> a \<notin> L \<longrightarrow> a \<notin> set (block (cmd_slot G 0 j) 8) \<longrightarrow> umem s' a = umem s a"
    using word_round [OF p(1,2) ne p(3,4) t1 [unfolded t_def] p(5) v p(6,7) sp(4), folded ys_def t_def, folded w_def n_def] by blast
  have cleared: "cstr (umem s') q w \<and> length w < 2 ^ 64 \<and> set (block q (length w)) \<subseteq> L \<and>
      set (block q (length w)) \<inter> set (block (q + of_nat n) (Suc (length ys))) = {}"
    using s'(7) wr(2) wr(5,6) [of q] p(4,6) by auto
  have "set (block (q + of_nat n) (Suc (length ys))) \<subseteq> L" using p(6) wr(4) [of q] by blast
  moreover have "length ys < 1024" "length (split_words ys) < 2 ^ 60" using wr(1) p(4,8) sp(1) by simp_all
  moreover have "unat (brk_of (kern s')) + length (split_words ys) * (24 + length ys) + 1024 \<le> hi" using sp(6) s'(4) by simp
  moreover have "plain_line ys" using plain_line_rest(1) [OF p(3) ne] by (simp add: ys_def)
  ultimately have "parse_ready brk_of ready lo hi L G (bs @ [(t, of_nat (length xs), False)]) (q + of_nat n) ys q (Suc j) s'"
    unfolding parse_ready_def using s'(5,8) p(5,7) sp(5) cleared by blast
  then show ?thesis using s'(1,2,3,6,9) by blast
qed

text \<open>The rounds that follow keep the word of the first one: its slot is not theirs, and its block is in use.\<close>

lemma later_rounds_keep:
  assumes "parse_ready brk_of ready lo hi L G bs q xs str j s" and "xs \<noteq> []"
  defines "w \<equiv> takeWhile (\<lambda>c. c \<noteq> 0x20) xs"
    and "ys \<equiv> dropWhile (\<lambda>c. c = 0x20) (dropWhile (\<lambda>c. c \<noteq> 0x20) xs)"
  assumes "cstr (umem s1) (t + 24) w" and "payloads_kept (bs @ [(t, of_nat (length xs), False)]) s1 s'" and "ys = [] \<Longrightarrow> s' = s1"
    and "\<forall>a. a \<notin> region lo hi \<longrightarrow> a \<notin> L \<longrightarrow> a \<notin> set (block (cmd_slot G 0 (Suc j)) (8 * length (split_words ys))) \<longrightarrow> umem s' a = umem s1 a"
  shows "get_cmd G 0 j s' = get_cmd G 0 j s1" and "cstr (umem s') (t + 24) w"
proof -
  note sp = parse_ready_split [OF assms(1,2), folded ys_def]
  show "get_cmd G 0 j s' = get_cmd G 0 j s1"
    unfolding get_cmd_def uload_def by (rule kload_cong) (use assms(8) sp(3,4) in blast)
  have p: "plain_line xs" "length xs < 1024" using assms(1) by (simp_all add: parse_ready_def)
  show "cstr (umem s') (t + 24) w"
  proof (cases "ys = []")
    case False
    then have sub: "set (block (t + 24) (Suc (length w))) \<subseteq> set (block (t + 24) (length xs))"
      using word_and_rest(3) [OF p(1) assms(2) p(2)] by (intro block_mono) (simp add: w_def ys_def)
    have un: "unat (of_nat (length xs) :: u64) = length xs" using p(2) by (simp add: unat_of_nat take_bit_nat_eq_self)
    have "umem s' a = umem s1 a" if "a \<in> set (block (t + 24) (Suc (length w)))" for a
      using assms(6) [rule_format, of t "of_nat (length xs)" False a] that sub un by auto
    then show ?thesis using assms(5) by (subst cstr_cong [where m' = "umem s1"]) simp_all
  qed (use assms(5,7) in simp)
qed

text \<open>All rounds: the words of the line end up in the list, each in a block of its own.\<close>

lemma parse_loop_words:
  assumes "parse_ready brk_of ready lo hi L G bs q xs str j s"
  shows "\<exists>s'. parse_loop K G (length xs) q str 0 j s = Some (0, s') \<and>
    (\<forall>i < length (split_words xs). cstr (umem s') (get_cmd G 0 (j + i) s') (split_words xs ! i) \<and>
      set (block (get_cmd G 0 (j + i) s') (Suc (length (split_words xs ! i)))) \<subseteq> region lo hi) \<and> payloads_kept bs s s' \<and>
    (\<forall>a. a \<notin> region lo hi \<longrightarrow> a \<notin> L \<longrightarrow> a \<notin> set (block (cmd_slot G 0 j) (8 * length (split_words xs))) \<longrightarrow> umem s' a = umem s a)"
  using assms
proof (induction "length xs" arbitrary: xs q str j s bs rule: less_induct)
  case (less xs q str j s bs)
  show ?case
  proof (cases "xs = []")
    case True
    then show ?thesis by (simp add: parse_loop.simps [of K G 0] split_words.simps)
  next
    case False
    let ?w = "takeWhile (\<lambda>c. c \<noteq> 0x20) xs" and ?t = "brk_of (kern s)"
    define ys where "ys = dropWhile (\<lambda>c. c = 0x20) (dropWhile (\<lambda>c. c \<noteq> 0x20) xs)"
    let ?q = "q + of_nat (length xs - length ys)" and ?bs = "bs @ [(?t, of_nat (length xs), False)]"
    let ?T = "set (block (cmd_slot G 0 (Suc j)) (8 * length (split_words ys)))"
    note sp = parse_ready_split [OF less.prems False, folded ys_def]
    obtain s1 where s1: "parse_loop K G (length xs) q str 0 j s = parse_loop K G (length ys) ?q q 0 (Suc j) s1"
      "parse_ready brk_of ready lo hi L G ?bs ?q ys q (Suc j) s1" "get_cmd G 0 j s1 = ?t + 24" "cstr (umem s1) (?t + 24) ?w"
      "payloads_kept bs s s1"
      "\<forall>a. a \<notin> region lo hi \<longrightarrow> a \<notin> L \<longrightarrow> a \<notin> set (block (cmd_slot G 0 j) 8) \<longrightarrow> umem s1 a = umem s a"
      using parse_round [OF less.prems False, folded ys_def] by blast
    have p: "plain_line xs" "length xs < 1024" "used_heap brk_of ready lo bs s" "hi < 2 ^ 64"
      using less.prems by (simp_all add: parse_ready_def)
    note wr = word_and_rest [OF p(1) False p(2), folded ys_def]
    obtain s' where s': "parse_loop K G (length ys) ?q q 0 (Suc j) s1 = Some (0, s')"
      "\<forall>i < length (split_words ys). cstr (umem s') (get_cmd G 0 (Suc j + i) s') (split_words ys ! i) \<and>
        set (block (get_cmd G 0 (Suc j + i) s') (Suc (length (split_words ys ! i)))) \<subseteq> region lo hi" "payloads_kept ?bs s1 s'"
      "\<forall>a. a \<notin> region lo hi \<longrightarrow> a \<notin> L \<longrightarrow> a \<notin> ?T \<longrightarrow> umem s' a = umem s1 a"
      using less.hyps [OF wr(1) s1(2)] by blast
    have e: "ys = [] \<Longrightarrow> s' = s1" using s'(1) by (simp add: parse_loop.simps [of K G 0])
    note k = later_rounds_keep [OF less.prems False s1(4) s'(3), folded ys_def, OF e s'(4), unfolded s1(3)]
    have place: "set (block (?t + 24) (Suc (length ?w))) \<subseteq> region lo hi"
      using p(3,4) sp(6) wr(2) by (intro word_block_region [of _ _ "length xs"]) (simp_all add: used_heap_def)
    have "cstr (umem s') (get_cmd G 0 (j + i) s') (split_words xs ! i) \<and>
        set (block (get_cmd G 0 (j + i) s') (Suc (length (split_words xs ! i)))) \<subseteq> region lo hi" if "i < length (split_words xs)" for i
      using that k place s'(2) by (cases i) (simp_all add: sp(1) del: block.simps)
    moreover have "umem s' a = umem s a"
      if "a \<notin> region lo hi" "a \<notin> L" "a \<notin> set (block (cmd_slot G 0 j) (8 * length (split_words xs)))" for a
      using that s'(4) s1(6) unfolding sp(2) by simp
    ultimately show ?thesis using s1(1,5) s'(1,3) by (intro exI [of _ s']) (simp del: block.simps)
  qed
qed

lemma parseCommand_words:
  assumes h: "used_heap brk_of ready lo bs s" and line: "cstr (umem s) p xs" "plain_line xs" "length xs < 1024"
    and room: "unat (brk_of (kern s)) + length (split_words xs) * (24 + length xs) + 1024 \<le> hi" "hi < 2 ^ 64"
    and apart: "set (block p (Suc (length xs))) \<inter> region lo hi = {}"
      "set (block (sv_commands G) (8 * length (split_words xs))) \<inter> (region lo hi \<union> set (block p (Suc (length xs)))) = {}"
      "set (block (sv_cmdcount G) 4) \<inter> (region lo hi \<union> set (block (sv_commands G) (8 * length (split_words xs)))) = {}"
  shows "\<exists>s'. parseCommand K G p s = Some (1, s') \<and>
    (\<forall>i < length (split_words xs). cstr (umem s') (get_cmd G 0 i s') (split_words xs ! i))"
proof -
  let ?k = "length (split_words xs)" and ?L = "set (block p (Suc (length xs)))"
  have slot0: "cmd_slot G 0 0 = sv_commands G" by (simp add: cmd_slot_def)
  have k: "?k < 2 ^ 60" using length_split_words [of xs] line(3) by simp
  obtain s1 where s1: "parse_loop K G (length xs) p 0 0 0 s = Some (0, s1)"
    "\<forall>i < ?k. cstr (umem s1) (get_cmd G 0 i s1) (split_words xs ! i) \<and>
      set (block (get_cmd G 0 i s1) (Suc (length (split_words xs ! i)))) \<subseteq> region lo hi"
    using parse_loop_words [of lo hi ?L G bs p xs 0 0 s] h line room apart k slot0
    by (simp add: parse_ready_def Int_commute del: block.simps) blast
  let ?s = "ustore 4 (sv_cmdcount G) 0 s1"
  have m: "umem ?s a = umem s1 a" if "a \<notin> set (block (sv_cmdcount G) 4)" for a
    using that by (simp add: ustore_def store_le_other)
  have g: "get_cmd G 0 i ?s = get_cmd G 0 i s1" if "i < ?k" for i
  proof -
    have "set (block (cmd_slot G 0 i) 8) \<subseteq> set (block (sv_commands G) (8 * ?k))"
      using that by (rule slot_in_list)
    then show ?thesis unfolding get_cmd_def uload_def by (intro kload_cong m) (use apart(3) in auto)
  qed
  have "cstr (umem ?s) (get_cmd G 0 i ?s) (split_words xs ! i)" if "i < ?k" for i
    using s1(2) that g [OF that] m apart(3) by (subst cstr_cong [where m' = "umem s1"]) auto
  moreover have "int_len p s = Some (of_nat (length xs))" by (rule int_len_cstr [OF line(1)])
  moreover have "sint (of_nat (length xs) :: u32) = int (length xs)" using small_result(2) line(3) by simp
  ultimately show ?thesis using s1(1) by (intro exI [of _ ?s]) (simp add: parseCommand_def)
qed

end

subsection \<open>Properties\<close>

text \<open>C22: the parser of the shell on the program's heap and the kernel's \<open>brk\<close>: for a line without bars whose
  white space is spaces between words, \<open>parseCommand\<close> returns one command, and its list of arguments
  holds the words of the line in order, each a string of its own in the heap.\<close>

lemma parse_splits_words:
  assumes "used_heap brk_end brk_ready lo bs s" and "cstr (umem s) p xs" "plain_line xs" "length xs < 1024"
    and "unat (brk_end (kern s)) + length (split_words xs) * (24 + length xs) + 1024 \<le> hi" "hi < 2 ^ 64"
    and "set (block p (Suc (length xs))) \<inter> region lo hi = {}"
      "set (block (sv_commands G) (8 * length (split_words xs))) \<inter> (region lo hi \<union> set (block p (Suc (length xs)))) = {}"
      "set (block (sv_cmdcount G) 4) \<inter> (region lo hi \<union> set (block (sv_commands G) (8 * length (split_words xs)))) = {}"
  shows "\<exists>s'. parseCommand kernel_brk G p s = Some (1, s') \<and>
    (\<forall>i < length (split_words xs). cstr (umem s') (get_cmd G 0 i s') (split_words xs ! i))"
  by (rule user.parseCommand_words [OF assms])

definition ex_command :: "sys_state user_state" where
  "ex_command = \<lparr>umem = store_bytes (str_bytes ''ls  -l'') 0x100 (\<lambda>_. 0), errno = 0, heap_head = 0, kern = ex_brk\<rparr>"

lemma parse_splits_words_witness:
  "\<exists>s'. parseCommand kernel_brk (ex_globals\<lparr>sv_commands := 0x8000, sv_cmdcount := 0x9000\<rparr>) 0x100 ex_command = Some (1, s') \<and>
     cstr (umem s') (uload 8 0x8000 s') (str_bytes ''ls'') \<and> cstr (umem s') (uload 8 0x8008 s') (str_bytes ''-l'')"
proof -
  let ?G = "ex_globals\<lparr>sv_commands := 0x8000, sv_cmdcount := 0x9000\<rparr>" and ?xs = "str_bytes ''ls  -l''"
  have k: "brk_ready (kern ex_command)" "brk_end (kern ex_command) = 0x1048"
    using ex_user_ready by (simp_all add: ex_command_def ex_user_def set_b_free_def set_b_next_def set_b_size_def ustore_def)
  have "used_heap brk_end brk_ready 0x1048 [] ex_command"
    using k by (simp add: used_heap_def heap_rep_def) (simp add: ex_command_def)
  moreover have "cstr (umem ex_command) 0x100 ?xs" by code_simp
  moreover have "plain_line ?xs" by code_simp
  moreover have sw: "split_words ?xs = [str_bytes ''ls'', str_bytes ''-l'']" by code_simp
  moreover have "length ?xs = 6" by code_simp
  moreover have "set (block 0x100 7) = region 0x100 0x107" "set (block 0x8000 16) = region 0x8000 0x8010"
      "set (block 0x9000 4) = region 0x9000 0x9004"
    using block_region [of "0x100" 7] block_region [of "0x8000" 16] block_region [of "0x9000" 4] by (simp_all del: block.simps)
  moreover have "region 0x100 0x107 \<inter> region 0x1048 0x4000 = {}" "region 0x8000 0x8010 \<inter> (region 0x1048 0x4000 \<union> region 0x100 0x107) = {}"
      "region 0x9000 0x9004 \<inter> (region 0x1048 0x4000 \<union> region 0x8000 0x8010) = {}"
    by (auto simp: region_def)
  ultimately have "\<exists>s'. parseCommand kernel_brk ?G 0x100 ex_command = Some (1, s') \<and>
      (\<forall>i < length (split_words ?xs). cstr (umem s') (get_cmd ?G 0 i s') (split_words ?xs ! i))"
    using k by (intro parse_splits_words [where lo = "0x1048" and hi = "0x4000" and bs = "[]"]) (simp_all del: block.simps)
  then obtain s' where s': "parseCommand kernel_brk ?G 0x100 ex_command = Some (1, s')"
    "\<forall>i < length (split_words ?xs). cstr (umem s') (get_cmd ?G 0 i s') (split_words ?xs ! i)"
    by blast
  have "cstr (umem s') (get_cmd ?G 0 0 s') (str_bytes ''ls'')" "cstr (umem s') (get_cmd ?G 0 1 s') (str_bytes ''-l'')"
    using s'(2) [rule_format, of 0] s'(2) [rule_format, of 1] by (simp_all add: sw)
  then show ?thesis using s'(1) by (intro exI [of _ s']) (simp add: get_cmd_def cmd_slot_def)
qed

end
