(* ===== verification/TypedLine.thy ===== *)
theory TypedLine
  imports ShellInput ShellLines
begin

section \<open>From the keyboard to the list of arguments\<close>

text \<open>
  The two halves of a round of the shell's main loop over one kernel: the line typed at the keyboard (theory
  \<open>ShellInput\<close>) is the line that the parser splits (theory \<open>ShellLines\<close>).  Reading changes neither the
  program's heap nor what the kernel keeps of it.
\<close>

interpretation keys: brk_kernel keys_kernel "\<lambda>k. brk_ready (fst k)" "\<lambda>k. brk_end (fst k)"
proof unfold_locales
  fix s :: "(sys_state \<times> u8 list) user_state" assume "brk_ready (fst (kern s))"
  then show "keys_kernel 12 0 0 0 s = Some (brk_end (fst (kern s)), s)"
    by (cases "kern s") (simp add: keys_kernel_def switch_handler_def ret_val_def system_brk_get Let_def)
next
  fix s :: "(sys_state \<times> u8 list) user_state" and v :: u64
  assume "brk_ready (fst (kern s))" and "v \<noteq> 0"
  then obtain k where "system_brk v (fst (kern s)) = Some (v, k)" "brk_ready k" "brk_end k = v"
    using system_brk_set by blast
  moreover from this(1) have "keys_kernel 12 v 0 0 s = Some (v, s\<lparr>kern := (k, snd (kern s))\<rparr>)"
    by (cases "kern s") (simp add: keys_kernel_def switch_handler_def ret_val_def Let_def)
  ultimately show "\<exists>k. keys_kernel 12 v 0 0 s = Some (v, s\<lparr>kern := k\<rparr>) \<and> brk_ready (fst k) \<and> brk_end (fst k) = v"
    by (intro exI [of _ "(k, snd (kern s))"]) simp
qed

lemma line_at_cstr:
  "line_at m p r \<Longrightarrow> m (p + of_nat (length r)) = 0 \<Longrightarrow> 0 \<notin> set r \<Longrightarrow> cstr m p r"
proof (induction r arbitrary: p)
  case (Cons x r)
  have "m (p + 1 + of_nat i) = r ! i" if "i < length r" for i
    using Cons.prems(1) [unfolded line_at_def, rule_format, of "Suc i"] that by (simp add: add.assoc)
  moreover have "m p = x" using Cons.prems(1) [unfolded line_at_def, rule_format, of 0] by simp
  ultimately show ?case using Cons by (simp add: line_at_def add.assoc)
qed simp

lemma line_edit_length: "line_edit line cs = Some r \<Longrightarrow> length r \<le> length line + length cs"
  by (induction line cs rule: line_edit.induct) (fastforce split: if_splits)+

text \<open>A change outside the heap of the program, whatever becomes of the rest of the kernel's state.\<close>

lemma used_heap_after_input:
  assumes h: "used_heap brk_of ready lo bs s" and hi: "unat (brk_of (kern s)) \<le> hi" "hi < 2 ^ 64"
    and c: "changed_in A s s'" "A \<inter> region lo hi = {}"
    and k: "brk_of (kern s') = brk_of (kern s)" "ready (kern s') = ready (kern s)"
  shows "used_heap brk_of ready lo bs s'"
proof -
  have "heap_chain s' (heap_head s) bs \<longleftrightarrow> heap_chain s (heap_head s) bs"
    using used_heap_region(1) [OF h _ hi] c unfolding changed_in_def by (intro heap_chain_cong) blast
  then show ?thesis using h c(1) k unfolding used_heap_def heap_rep_def changed_in_def by simp blast
qed

subsection \<open>Properties\<close>

text \<open>C20: a command typed at the shell: the keys go through the driver, the system call, \<open>scanf\<close> and the line
  editing of \<open>readInput\<close>, and \<open>parseCommand\<close>, on the program's heap and the kernel's \<open>brk\<close>, leaves the
  words of the edited line in its list of arguments, each a string of its own.  The line has no bar and no
  white space but single or repeated spaces between words.\<close>

lemma typed_command_parsed:
  assumes "l_c F \<notin> set (block (sv_scan_data G) 1024)"
    and "set (block p 1024) \<inter> insert (l_c F) (set (block (sv_scan_data G) 1024)) = {}"
    and "keys_ready (sv_scan_data G) (kern s)" and "typed (kern s) = cs @ 0x0A # rest"
    and "0x0A \<notin> set cs" "0x7C \<notin> set cs" "length cs < 1024" and "line_edit [] cs = Some r"
    and r: "r \<noteq> []" "0 \<notin> set r" "plain_line r"
    and heap: "used_heap (\<lambda>k. brk_end (fst k)) (\<lambda>k. brk_ready (fst k)) lo bs s"
    and room: "unat (brk_end (fst (kern s))) + length (split_words r) * (24 + length r) + 1024 \<le> hi" "hi < 2 ^ 64"
    and apart: "input_bytes F G p \<inter> region lo hi = {}"
      "set (block (sv_commands G) (8 * length (split_words r))) \<inter> (region lo hi \<union> set (block p 1024)) = {}"
      "set (block (sv_cmdcount G) 4) \<inter> (region lo hi \<union> set (block (sv_commands G) (8 * length (split_words r)))) = {}"
  shows "\<exists>s1 s2. readInput keys_kernel G F p s = Some (1, s1) \<and> typed (kern s1) = rest \<and>
    parseCommand keys_kernel G p s1 = Some (1, s2) \<and>
    (\<forall>i < length (split_words r). cstr (umem s2) (get_cmd G 0 i s2) (split_words r ! i))"
proof -
  note rd = keyboard.readInput_line [OF assms(1,2,8,5,6,7,3,4)]
  obtain s1 where s1: "readInput keys_kernel G F p s = Some (if r = [] then 0 else 1, s1)" "line_at (umem s1) p r" "umem s1 (p + of_nat (length r)) = 0"
    "typed (kern s1) = rest" "heap_view (kern s1) = heap_view (kern s)" "changed_in (input_bytes F G p) s s1"
    using rd by (elim exE conjE) (rule that)
  have len: "length r < 1024" using line_edit_length [OF assms(8)] assms(7) by simp
  have k: "brk_end (fst (kern s1)) = brk_end (fst (kern s))" "brk_ready (fst (kern s1)) = brk_ready (fst (kern s))"
    using s1(5) by (simp_all add: heap_view_def)
  have h: "used_heap (\<lambda>k. brk_end (fst k)) (\<lambda>k. brk_ready (fst k)) lo bs s1"
    using room by (intro used_heap_after_input [OF heap _ room(2) s1(6) apart(1) k]) simp
  have line: "cstr (umem s1) p r" by (rule line_at_cstr [OF s1(2,3) r(2)])
  have sub: "set (block p (Suc (length r))) \<subseteq> set (block p 1024)" using len by (intro block_mono) simp
  have "\<exists>s2. parseCommand keys_kernel G p s1 = Some (1, s2) \<and>
      (\<forall>i < length (split_words r). cstr (umem s2) (get_cmd G 0 i s2) (split_words r ! i))"
  proof (rule keys.parseCommand_words [OF h line r(3) len _ room(2) _ _ apart(3)])
    show "unat (brk_end (fst (kern s1))) + length (split_words r) * (24 + length r) + 1024 \<le> hi" using room(1) k(1) by simp
    show "set (block p (Suc (length r))) \<inter> region lo hi = {}" using sub apart(1) by blast
    show "set (block (sv_commands G) (8 * length (split_words r))) \<inter> (region lo hi \<union> set (block p (Suc (length r)))) = {}"
      using sub apart(2) by blast
  qed
  then show ?thesis using s1(1,4) r(1) by auto
qed

text \<open>Keys: l, s, two spaces, a minus, x, backspace, l and enter.\<close>

definition ex_typed :: "(sys_state \<times> u8 list) user_state" where
  "ex_typed = ex_keys\<lparr>kern := (ex_brk, [38, 31, 57, 57, 12, 45, 14, 38, 28])\<rparr>"

lemma typed_command_parsed_witness:
  "\<exists>s1 s2. readInput keys_kernel ex_vars ex_locals 0x403000 ex_typed = Some (1, s1) \<and>
     parseCommand keys_kernel ex_vars 0x403000 s1 = Some (1, s2) \<and>
     cstr (umem s2) (uload 8 0x410000 s2) (str_bytes ''ls'') \<and> cstr (umem s2) (uload 8 0x410008 s2) (str_bytes ''-l'')"
proof -
  let ?r = "str_bytes ''ls  -l''" and ?cs = "str_bytes ''ls  -x'' @ [0x08] @ str_bytes ''l''"
  have vars: "l_c ex_locals = 0x402000" "sv_scan_data ex_vars = 0x401000" "sv_commands ex_vars = 0x410000" "sv_cmdcount ex_vars = 0x423000"
    by (simp_all add: ex_locals_def ex_vars_def)
  have k: "kern ex_typed = (ex_brk, [38, 31, 57, 57, 12, 45, 14, 38, 28])" "heap_head ex_typed = 0"
    by (simp_all add: ex_typed_def ex_keys_def)
  have b: "brk_ready ex_brk" "brk_end ex_brk = 0x1048" using ex_user_ready by (simp_all add: ex_user_def set_b_free_def set_b_next_def set_b_size_def ustore_def)
  have sw: "split_words ?r = [str_bytes ''ls'', str_bytes ''-l'']" by code_simp
  have words: "\<exists>s1 s2. readInput keys_kernel ex_vars ex_locals 0x403000 ex_typed = Some (1, s1) \<and> typed (kern s1) = [] \<and>
    parseCommand keys_kernel ex_vars 0x403000 s1 = Some (1, s2) \<and>
    (\<forall>i < length (split_words ?r). cstr (umem s2) (get_cmd ex_vars 0 i s2) (split_words ?r ! i))"
  proof (rule typed_command_parsed [where cs = ?cs and lo = "0x1048" and hi = "0x4000" and bs = "[]"])
    show "typed (kern ex_typed) = ?cs @ 0x0A # []" by (simp add: k typed_def ex_brk_fields) code_simp
    show "line_edit [] ?cs = Some ?r" "0x0A \<notin> set ?cs" "0x7C \<notin> set ?cs" "?r \<noteq> []" "0 \<notin> set ?r" "plain_line ?r"
      by code_simp+
    show "length ?cs < 1024" by code_simp
    show "keys_ready (sv_scan_data ex_vars) (kern ex_typed)" by (simp add: vars k ex_keys_ready)
    show "used_heap (\<lambda>k. brk_end (fst k)) (\<lambda>k. brk_ready (fst k)) 0x1048 [] ex_typed"
      using b by (simp add: used_heap_def heap_rep_def k)
    have "length ?r = 6" by code_simp
    then show "unat (brk_end (fst (kern ex_typed))) + length (split_words ?r) * (24 + length ?r) + 1024 \<le> 0x4000"
      using b sw by (simp add: k)
  qed (auto simp: vars sw block_range region_def simp del: block.simps)
  then obtain s1 s2 where s: "readInput keys_kernel ex_vars ex_locals 0x403000 ex_typed = Some (1, s1)"
    "parseCommand keys_kernel ex_vars 0x403000 s1 = Some (1, s2)"
    "\<forall>i < length (split_words ?r). cstr (umem s2) (get_cmd ex_vars 0 i s2) (split_words ?r ! i)"
    by blast
  have "cstr (umem s2) (get_cmd ex_vars 0 0 s2) (str_bytes ''ls'')" "cstr (umem s2) (get_cmd ex_vars 0 1 s2) (str_bytes ''-l'')"
    using s(3) [rule_format, of 0] s(3) [rule_format, of 1] by (simp_all add: sw)
  then show ?thesis using s(1,2) by (intro exI [of _ s1] exI [of _ s2]) (simp add: get_cmd_def cmd_slot_def vars)
qed

end
