(* ===== verification/WarmLibc.thy ===== *)
theory WarmLibc
  imports UserHeap
begin

section \<open>The C library of the warm-up project (\<open>w1/libc\<close>)\<close>

text \<open>
  The first version of the C library, for programs on Linux: \<open>K\<close> is that kernel.  What has the text of the
  later library (\<open>fork\<close>, \<open>open\<close>, \<open>write\<close>, \<open>strlen\<close>, \<open>free\<close> and others) is in the theories \<open>CString\<close>, \<open>Printf\<close> and
  \<open>Libc\<close>; the functions here differ.  The library keeps the break of the heap in the variable \<open>breakPtr\<close>, whose
  address is \<open>bp\<close>; its \<open>brk\<close> returns an \<open>int\<close>, so that of the break only the lower half survives, with its
  sign.  Static buffers are at addresses that are arguments.
\<close>

subsection \<open>The break (\<open>stdlib.c\<close>)\<close>

definition w1_brk :: "'k kernel \<Rightarrow> u64 \<Rightarrow> 'k user_state \<Rightarrow> (u32 \<times> 'k user_state) option" where
  "w1_brk K end_data_segment s = ret_plain (K 12 end_data_segment 0 0 s)"

definition w1_sbrk :: "'k kernel \<Rightarrow> u64 \<Rightarrow> u64 \<Rightarrow> 'k user_state \<Rightarrow> (u64 \<times> 'k user_state) option" where
  "w1_sbrk K bp increment s = do {
     s \<leftarrow> (if uload 8 bp s = 0 then do { (res, s) \<leftarrow> w1_brk K 0 s; Some (ustore 8 bp (scast res) s) }
          else Some s);
     let startAddr = uload 8 bp s;
     if increment = 0 then Some (startAddr, s)
     else do {
       let s = ustore 8 bp (startAddr + increment) s;
       (_, s) \<leftarrow> w1_brk K (startAddr + increment) s;
       Some (startAddr, s)
     }
   }"

subsection \<open>The heap (\<open>malloc.c\<close>)\<close>

definition w1_allocateMemory :: "'k kernel \<Rightarrow> u64 \<Rightarrow> u64 \<Rightarrow> 'k user_state \<Rightarrow> (u64 \<times> 'k user_state) option" where
  "w1_allocateMemory K bp sz s = do {
     (current, s) \<leftarrow> w1_sbrk K bp 0 s;
     (addr, s) \<leftarrow> w1_sbrk K bp (sz + BLOCK_SIZE) s;
     if addr = - 1 then Some (0, s)
     else Some (current, set_b_free current USED (set_b_next current 0 (set_b_size current sz s)))
   }"

definition w1_malloc :: "'k kernel \<Rightarrow> u64 \<Rightarrow> u64 \<Rightarrow> 'k user_state \<Rightarrow> (u64 \<times> 'k user_state) option" where
  "w1_malloc K bp sz s =
     (if sz = 0 then Some (0, s)
      else if heap_head s = 0 then do {
        (block, s) \<leftarrow> w1_allocateMemory K bp sz s;
        if block = 0 then Some (0, s) else Some (block + BLOCK_SIZE, s\<lparr>heap_head := block\<rparr>)
      }
      else do {
        (block, lastb) \<leftarrow> find_free_mem_block (heap_head s) (heap_head s) sz s;
        if block = 0 then do {
          (block, s) \<leftarrow> w1_allocateMemory K bp sz s;
          if block = 0 then Some (0, s) else Some (block + BLOCK_SIZE, set_b_next lastb block s)
        }
        else Some (block + BLOCK_SIZE, set_b_free block USED s)
      })"

subsection \<open>System calls (\<open>stdlib.c\<close>)\<close>

text \<open>\<open>nanosleep\<close> sets \<open>errno\<close> but returns the kernel's result.\<close>

definition nanosleep :: "'k kernel \<Rightarrow> u64 \<Rightarrow> u64 \<Rightarrow> 'k user_state \<Rightarrow> (u32 \<times> 'k user_state) option" where
  "nanosleep K req rem s = map_option (\<lambda>(res, s). let v = (ucast res :: u32)
     in (v, if sint v < 0 then s\<lparr>errno := - v\<rparr> else s)) (K 35 req rem 0 s)"

text \<open>\<open>struct timespec\<close>: seconds at 0, nanoseconds at 8.\<close>

definition SIZEOF_TIMESPEC :: u64 where "SIZEOF_TIMESPEC = 16"

definition w1_sleep :: "'k kernel \<Rightarrow> u64 \<Rightarrow> u32 \<Rightarrow> 'k user_state \<Rightarrow> (u32 \<times> 'k user_state) option" where
  "w1_sleep K bp seconds s = do {
     (req, s) \<leftarrow> w1_malloc K bp SIZEOF_TIMESPEC s;
     (rem, s) \<leftarrow> w1_malloc K bp SIZEOF_TIMESPEC s;
     if req = 0 then None
     else nanosleep K req rem (ustore 8 (req + 8) 0 (ustore 8 req (ucast seconds) s))
   }"

definition w1_getcwd :: "'k kernel \<Rightarrow> u64 \<Rightarrow> u64 \<Rightarrow> 'k user_state \<Rightarrow> (u64 \<times> 'k user_state) option" where
  "w1_getcwd K buf sz s = do {
     (res, s) \<leftarrow> K 79 buf sz 0 s;
     Some (res, if res = 0 then s\<lparr>errno := EFAULT\<rparr> else s)
   }"

definition w1_read :: "'k kernel \<Rightarrow> u32 \<Rightarrow> u64 \<Rightarrow> u64 \<Rightarrow> 'k user_state \<Rightarrow> (u64 \<times> 'k user_state) option" where
  "w1_read K fd buf count s = ret_long (K 0 (scast fd) buf count s)"

definition w1_pipe :: "'k kernel \<Rightarrow> u64 \<Rightarrow> 'k user_state \<Rightarrow> (u32 \<times> 'k user_state) option" where
  "w1_pipe K filedes s = ret_int (K 22 filedes 0 0 s)"

definition w1_waitpid :: "'k kernel \<Rightarrow> u32 \<Rightarrow> u64 \<Rightarrow> u32 \<Rightarrow> 'k user_state \<Rightarrow> (u32 \<times> 'k user_state) option" where
  "w1_waitpid K pid status options s = ret_int (K 61 (ucast pid) status (scast options) s)"

subsection \<open>Directories (\<open>stdlib.c\<close>)\<close>

text \<open>\<open>struct dirent\<close>: the length of the record (16 bits) at 16, the name at 18.  \<open>struct dir\<close>: the
  descriptor at 0, the address of the records at 8, the name at 16.  Both have 1048 bytes.  \<open>opendir\<close> reads the
  records into a local array of 1024 bytes at \<open>dbuf\<close> and returns its address in the structure.\<close>

definition SIZEOF_DIR :: u64 where "SIZEOF_DIR = 1048"

definition w1_opendir :: "'k kernel \<Rightarrow> u64 \<Rightarrow> u64 \<Rightarrow> u64 \<Rightarrow> 'k user_state \<Rightarrow> (u64 \<times> 'k user_state) option" where
  "w1_opendir K bp dbuf name s = do {
     (fd, s) \<leftarrow> open_file K name O_DIRECTORY s;
     if sint fd < 0 then Some (0, s)
     else do {
       (r, s) \<leftarrow> K 78 (scast fd) dbuf SIZEOF_USER_DIRENT s;
       let res = (ucast r :: u32);
       if sint res < 0 then Some (0, s\<lparr>errno := - res\<rparr>)
       else do {
         (d, s) \<leftarrow> w1_malloc K bp SIZEOF_DIR s;
         if d = 0 then None
         else do {
           let s = ustore 8 (d + 8) dbuf (ustore 4 d (scast fd) s);
           m \<leftarrow> kstrcpy (d + 16) name (umem s);
           Some (d, s\<lparr>umem := m\<rparr>)
         }
       }
     }
   }"

definition w1_readdir :: "u64 \<Rightarrow> 'k user_state \<Rightarrow> u64" where
  "w1_readdir dir s = (let nxt = dir + uload 2 (dir + 16) s in if uload 2 (nxt + 16) s = 0 then 0 else nxt)"

definition w1_closedir :: "'k kernel \<Rightarrow> u64 \<Rightarrow> 'k user_state \<Rightarrow> (u32 \<times> 'k user_state) option" where
  "w1_closedir K dir s =
     (if dir \<noteq> 0 then do { (res, s) \<leftarrow> close K (ucast (uload 4 dir s)) s; Some (res, free dir s) }
      else Some (- 1, s))"

subsection \<open>Hexadecimal numbers (\<open>string.c\<close>)\<close>

definition hex_digit :: "u8 \<Rightarrow> u64" where
  "hex_digit c =
     (if c = 0x61 then 10 else if c = 0x62 then 11 else if c = 0x63 then 12 else if c = 0x64 then 13
      else if c = 0x65 then 14 else if c = 0x66 then 15 else scast c - 0x30)"

partial_function (option) htol_loop :: "u64 \<Rightarrow> u64 \<Rightarrow> cmem \<Rightarrow> u64 option" where
  "htol_loop str res m = (if m str \<noteq> 0 then htol_loop (str + 1) (res * 16 + hex_digit (m str)) m else Some res)"

declare htol_loop.simps [code]

definition htol :: "u64 \<Rightarrow> cmem \<Rightarrow> u64 option" where
  "htol str m = htol_loop str 0 m"

subsection \<open>\<open>scanf\<close> and \<open>printf\<close>\<close>

text \<open>Every directive but \<open>%c\<close> asks for up to 2014 bytes, into the static buffer \<open>data\<close> of 1024.\<close>

definition MAXSIZE :: u64 where "MAXSIZE = 2014"

definition w1_scan_read :: "'k kernel \<Rightarrow> u64 \<Rightarrow> u64 \<Rightarrow> 'k user_state \<Rightarrow> (u32 \<times> 'k user_state) option" where
  "w1_scan_read K data n s = do { (res, s) \<leftarrow> w1_read K 0 data n s; Some (ucast res, s) }"

fun w1_scanf_loop :: "'k kernel \<Rightarrow> u64 \<Rightarrow> bytes \<Rightarrow> u64 list \<Rightarrow> u32 \<Rightarrow> 'k user_state \<Rightarrow> (u32 \<times> 'k user_state) option" where
  "w1_scanf_loop K data [] args sz s = Some (sz, s)"
| "w1_scanf_loop K data [c] args sz s = (if c = ch_percent then None else Some (sz, s))"
| "w1_scanf_loop K data (c # d # fmt) args sz s =
     (if c \<noteq> ch_percent then w1_scanf_loop K data (d # fmt) args sz s
      else if d = 0x73 then do {
        (sz, s) \<leftarrow> w1_scan_read K data MAXSIZE s;
        if sz \<noteq> - 1 then do {
          (a, args) \<leftarrow> va_arg args;
          w1_scanf_loop K data fmt args (sz - 1) (s\<lparr>umem := memcpy a data (scast (sz - 1)) (umem s)\<rparr>)
        }
        else w1_scanf_loop K data fmt args sz s
      }
      else if d = 0x64 then do {
        (sz, s) \<leftarrow> w1_scan_read K data MAXSIZE s;
        if sz = - 1 then Some (sz, s)
        else do {
          let sz = sz - 1;
          let s = ustore 1 (data + scast sz) 0 s;
          (a, args) \<leftarrow> va_arg args;
          v \<leftarrow> atoi data (umem s);
          w1_scanf_loop K data fmt args sz (ustore 8 a (word_of_int v) s)
        }
      }
      else if d = 0x63 then do {
        (sz, s) \<leftarrow> w1_scan_read K data 1 s;
        if sz = - 1 then Some (sz, s)
        else do {
          (a, args) \<leftarrow> va_arg args;
          w1_scanf_loop K data fmt args sz (ustore 1 a (ucast (umem s data)) s)
        }
      }
      else if d = 0x78 then do {
        (sz, s) \<leftarrow> w1_scan_read K data MAXSIZE s;
        if sz = - 1 then Some (sz, s)
        else do {
          let sz = sz - 1;
          let s = ustore 1 (data + scast sz) 0 s;
          (a, args) \<leftarrow> va_arg args;
          v \<leftarrow> htol data (umem s);
          w1_scanf_loop K data fmt args sz (ustore 8 a v s)
        }
      }
      else w1_scanf_loop K data fmt args sz s)"

definition w1_scanf :: "'k kernel \<Rightarrow> u64 \<Rightarrow> bytes \<Rightarrow> u64 list \<Rightarrow> 'k user_state \<Rightarrow> (u32 \<times> 'k user_state) option" where
  "w1_scanf K data fmt args s = w1_scanf_loop K data fmt args (- 1) (s\<lparr>umem := reset data 1024 (umem s)\<rparr>)"

definition w1_printf :: "'k kernel \<Rightarrow> u64 \<Rightarrow> bytes \<Rightarrow> u64 list \<Rightarrow> 'k user_state \<Rightarrow> (u32 \<times> 'k user_state) option" where
  "w1_printf K printf_buf fmt args s = do {
     (str, m) \<leftarrow> vsprintf fmt args (reset printf_buf 1024 (umem s));
     let s = s\<lparr>umem := store_bytes (str @ [0]) printf_buf m\<rparr>;
     (_, s) \<leftarrow> write_fd K 1 printf_buf (scast (of_nat (length str) :: u32)) s;
     Some (of_nat (length str), s)
   }"

text \<open>The messages are those of the later library but for the last.\<close>

definition w1_serror :: "'k kernel \<Rightarrow> u64 \<Rightarrow> u32 \<Rightarrow> 'k user_state \<Rightarrow> 'k user_state option" where
  "w1_serror K printf_buf error s =
     (let text = (case map_of error_messages error of Some t \<Rightarrow> t | None \<Rightarrow> ''Something went wrong '')
      in map_option snd (w1_printf K printf_buf (str_bytes text @ [0x0A]) [] s))"

subsection \<open>The break above 2 GB\<close>

text \<open>The first \<open>sbrk(0)\<close> gives the lower half of the kernel's break, with its sign: another address when the
  break is at or above \<open>2\<^sup>31\<close>.\<close>

lemma w1_sbrk_truncates:
  assumes "uload 8 bp s = 0" and "K 12 0 0 0 s = Some (b, s)"
  shows "\<exists>s'. w1_sbrk K bp 0 s = Some (scast (ucast b :: u32), s')"
    and "2 ^ 31 \<le> uint b \<Longrightarrow> uint b < 2 ^ 63 \<Longrightarrow> (scast (ucast b :: u32) :: u64) \<noteq> b"
proof -
  have "uload 8 p (ustore 8 p v s) = v" for p v by (simp add: uload_def ustore_def kload_store_same take_bit_length_eq [where 'a = 64, simplified])
  then show "\<exists>s'. w1_sbrk K bp 0 s = Some (scast (ucast b :: u32), s')"
    using assms by (simp add: w1_sbrk_def w1_brk_def ret_plain_def Let_def)
  show "(scast (ucast b :: u32) :: u64) \<noteq> b" if "2 ^ 31 \<le> uint b" "uint b < 2 ^ 63"
  proof
    define i where "i = sint (ucast b :: u32)"
    assume "scast (ucast b :: u32) = b"
    then have "word_of_int i = b" by (simp only: scast_eq i_def)
    then have e: "uint b = i mod 2 ^ 64" using uint_word_of_int [of i, where 'a = 64] by simp
    have r: "- (2 ^ 31) \<le> i" "i < 2 ^ 31"
      using sint_ge [of "ucast b :: u32"] sint_lt [of "ucast b :: u32"] by (simp_all add: i_def)
    show False
    proof (cases "i < 0")
      case True
      then have "(i + 2 ^ 64) mod 2 ^ 64 = i + 2 ^ 64" using r by (intro mod_pos_pos_trivial) simp_all
      then have "uint b = i + 2 ^ 64" using e by (simp only: mod_add_self2)
      then show ?thesis using r that(2) by simp
    next
      case False
      then have "i mod 2 ^ 64 = i" using r by (intro mod_pos_pos_trivial) simp_all
      then show ?thesis using e r that(1) by simp
    qed
  qed
qed

subsection \<open>Hexadecimal numbers are read back\<close>

text \<open>What the loop of \<open>htol\<close> makes of a text.\<close>

definition hex_value :: "u64 \<Rightarrow> bytes \<Rightarrow> u64" where
  "hex_value r cs = foldl (\<lambda>r c. r * 16 + hex_digit c) r cs"

lemma htol_loop_cstr: "cstr m p cs \<Longrightarrow> htol_loop p r m = Some (hex_value r cs)"
  by (induction cs arbitrary: p r) (simp_all add: htol_loop.simps [of p for p] hex_value_def)

lemma hex_digit_digits:
  assumes "d < 16"
  shows "hex_digit (digits d OR 0x20) = d"
proof -
  have "unat d < 16" using assms by (simp add: word_less_nat_alt)
  then have "unat d = 0 \<or> unat d = 1 \<or> unat d = 2 \<or> unat d = 3 \<or> unat d = 4 \<or> unat d = 5 \<or> unat d = 6 \<or> unat d = 7 \<or> unat d = 8 \<or> unat d = 9 \<or> unat d = 10 \<or> unat d = 11 \<or> unat d = 12 \<or> unat d = 13 \<or> unat d = 14 \<or> unat d = 15" by presburger
  then have "d = 0 \<or> d = 1 \<or> d = 2 \<or> d = 3 \<or> d = 4 \<or> d = 5 \<or> d = 6 \<or> d = 7 \<or> d = 8 \<or> d = 9 \<or> d = 10 \<or> d = 11 \<or> d = 12 \<or> d = 13 \<or> d = 14 \<or> d = 15"
    by (simp add: word_unat_eq_iff)
  then show ?thesis by (elim disjE) (simp_all add: hex_digit_def digits_def)
qed

lemma hex_value_digits: "hex_value 0 (rev (number_digits num 16 0x20)) = num"
proof (induction "unat num" arbitrary: num rule: less_induct)
  case less
  show ?case
  proof (cases "num = 0")
    case True
    then show ?thesis by (simp add: number_digits.simps hex_value_def)
  next
    case False
    have "unat (num mod 16) < 16" by (simp add: unat_mod)
    then have "num mod 16 < 16" by (simp add: word_less_nat_alt)
    then have "hex_digit (digits (num mod 16) OR 0x20) = num mod 16" by (rule hex_digit_digits)
    moreover have "hex_value 0 (rev (number_digits (num div 16) 16 0x20)) = num div 16"
      using less div_less_self [of num 16] False by simp
    ultimately have "hex_value 0 (rev (number_digits num 16 0x20)) = num div 16 * 16 + num mod 16"
      using False by (subst number_digits.simps) (simp add: hex_value_def)
    then show ?thesis by (simp only: word_mod_div_equality)
  qed
qed

lemma hex_value_zeros: "hex_value 0 (replicate n ch_0 @ cs) = hex_value 0 cs"
  by (induction n) (simp_all add: hex_value_def hex_digit_def)

text \<open>A number printed in base 16 with leading zeros, of any width and precision.\<close>

lemma number_hex:
  "\<exists>t. number [] num 16 sz precision (ZEROPAD OR SMALL) = Some t \<and> hex_value 0 t = num"
proof -
  let ?tmp = "number_tmp num 16 0x20"
  have tmp: "hex_value 0 (rev ?tmp) = num"
    by (simp add: number_tmp_def hex_value_digits) (simp add: hex_value_def hex_digit_def)
  let ?len = "int (length ?tmp)"
  let ?pr = "if ?len > precision then ?len else precision"
  have "number [] num 16 sz precision (ZEROPAD OR SMALL) =
      Some (replicate (nat (sz - ?pr) + nat (?pr - ?len)) ch_0 @ rev ?tmp)"
    by (simp add: number_def number_layout_def number_sign_def number_prefix_def pad_def Let_def
      flag_defs replicate_add)
  then show ?thesis using tmp hex_value_zeros by auto
qed

subsection \<open>Properties\<close>

text \<open>C31: printing and reading a hexadecimal number are inverse on all 64-bit values: what the formatter
  makes of \<open>%0*lx\<close>, with any field width that is not negative, is read back by \<open>htol\<close>.\<close>

lemma hex_roundtrip:
  assumes "0 \<le> sint (ucast w :: u32)"
  shows "\<exists>t. vsprintf (str_bytes ''%0*lx'') [w, num] m0 = Some (t, m0) \<and> (\<forall>m p. cstr m p t \<longrightarrow> htol p m = Some num)"
proof -
  obtain t where t: "number [] num 16 (sint (ucast w :: u32)) (- 1) (ZEROPAD OR SMALL) = Some t" "hex_value 0 t = num"
    using number_hex by blast
  have "vsprintf (str_bytes ''%0*lx'') [w, num] m0 = Some (t, m0)"
    using assms t(1) by (simp add: vsprintf_def format_int_def int_arg_def str_bytes_def directive_def parse_width_def parse_precision_def
      parse_qualifier_def is_digit_def va_int_def Let_def)
  then show ?thesis using t(2) htol_loop_cstr by (auto simp: htol_def)
qed

lemma hex_roundtrip_witness:
  "\<exists>t. vsprintf (str_bytes ''%0*lx'') [20, - 255] (\<lambda>_. 0) = Some (t, (\<lambda>_. 0)) \<and> t = str_bytes ''0000ffffffffffffff01'' \<and>
     (\<forall>m p. cstr m p t \<longrightarrow> htol p m = Some (- 255))"
proof -
  obtain t where t: "vsprintf (str_bytes ''%0*lx'') [20, - 255] (\<lambda>_. 0) = Some (t, (\<lambda>_. 0))" "\<forall>m p. cstr m p t \<longrightarrow> htol p m = Some (- 255)"
    using hex_roundtrip [of 20 "- 255" "\<lambda>_. 0"] by auto
  moreover have "map_option fst (vsprintf (str_bytes ''%0*lx'') [20, - 255] (\<lambda>_. 0)) = Some (str_bytes ''0000ffffffffffffff01'')"
    by code_simp
  ultimately show ?thesis by (intro exI [of _ t]) simp
qed

end
