(* ===== verification/WarmShell.thy ===== *)
theory WarmShell
  imports WarmLibc Shell
begin

section \<open>The warm-up shell and its programs (\<open>w1/bin\<close>)\<close>

text \<open>
  The first version of the shell, on Linux.  It uses the structures of theory \<open>Shell\<close>: \<open>G\<close> and \<open>F\<close> are the
  addresses of its variables, \<open>bp\<close> that of the library's \<open>breakPtr\<close>.  Unlike the later version it keeps no copy
  of the environment, does not edit the line it reads, and ends the list of arguments of a command with NULL.
  The list has room for two commands.
\<close>

definition w1_print :: "'k kernel \<Rightarrow> shell_globals \<Rightarrow> bytes \<Rightarrow> u64 list \<Rightarrow> 'k user_state \<Rightarrow> 'k user_state option" where
  "w1_print K G fmt args s = map_option snd (w1_printf K (sv_printf_buf G) fmt args s)"

subsection \<open>Strings\<close>

definition w1_tokenizeWithKey ::
  "'k kernel \<Rightarrow> u64 \<Rightarrow> u64 \<Rightarrow> u8 \<Rightarrow> u64 \<Rightarrow> 'k user_state \<Rightarrow> (u64 \<times> 'k user_state) option" where
  "w1_tokenizeWithKey K bp inputString key before s = do {
     len \<leftarrow> int_len inputString s;
     let (srcPtr, count, found) = token_loop (nat (sint len)) key inputString 0 False (umem s);
     s \<leftarrow> on_mem (trim inputString) s;
     len \<leftarrow> int_len inputString s;
     s \<leftarrow> (if sint len > 0 then do {
             (p, s) \<leftarrow> w1_malloc K bp (scast len) s;
             let s = ustore 8 before p s;
             Some (s\<lparr>umem := kstrncpy p inputString count (umem s)\<rparr>)
           }
           else Some s);
     if found then do { s \<leftarrow> on_mem (trim (srcPtr + 1)) s; Some (srcPtr + 1, s) }
     else Some (0, s)
   }"

definition w1_getValue :: "'k kernel \<Rightarrow> u64 \<Rightarrow> u64 \<Rightarrow> 'k user_state \<Rightarrow> (u64 \<times> 'k user_state) option" where
  "w1_getValue K bp keyvalue s = do {
     n \<leftarrow> strlen keyvalue (umem s);
     (v, s) \<leftarrow> w1_malloc K bp n s;
     (v, m) \<leftarrow> getValue_loop keyvalue v False (umem s);
     Some (v, s\<lparr>umem := m\<rparr>)
   }"

subsection \<open>The environment\<close>

text \<open>The loops start with the second entry, and look at the entry behind the one that they have tested: at the
  end of the list this is NULL.\<close>

definition env_has :: "u64 \<Rightarrow> bytes \<Rightarrow> 'k user_state \<Rightarrow> bool option" where
  "env_has envp key s =
     (if uload 8 envp s = 0 then None
      else map_option (\<lambda>k. k \<noteq> 0) (strstr_lit (uload 8 envp s) key (umem s)))"

partial_function (option) w1_getEnvironment ::
  "'k kernel \<Rightarrow> u64 \<Rightarrow> shell_frame \<Rightarrow> bytes \<Rightarrow> u64 \<Rightarrow> 'k user_state \<Rightarrow> (u64 \<times> 'k user_state) option" where
  "w1_getEnvironment K bp F key env s =
     (if uload 8 env s = 0 then Some (0, s)
      else do {
        let env = env + 8;
        hit \<leftarrow> env_has env key s;
        if hit then do {
          s \<leftarrow> on_mem (kstrcpy (l_env_token F) (uload 8 env s)) s;
          (res, s) \<leftarrow> w1_tokenizeWithKey K bp (l_env_token F) 0x3D (l_env_before F) s;
          if lit_eq key (uload 8 (l_env_before F) s) (umem s) then Some (res, s)
          else w1_getEnvironment K bp F key env s
        }
        else w1_getEnvironment K bp F key env s
      })"

partial_function (option) w1_setPath ::
  "'k kernel \<Rightarrow> u64 \<Rightarrow> u64 \<Rightarrow> u64 \<Rightarrow> 'k user_state \<Rightarrow> 'k user_state option" where
  "w1_setPath K bp envp newval s =
     (if uload 8 envp s = 0 then Some s
      else do {
        let envp = envp + 8;
        hit \<leftarrow> env_has envp (str_bytes ''PATH'') s;
        if hit then do {
          s \<leftarrow> on_mem (trim (uload 8 envp s)) s;
          n1 \<leftarrow> strlen (uload 8 envp s) (umem s);
          n2 \<leftarrow> (if newval = 0 then None else strlen newval (umem s));
          let len = (ucast (n1 + n2 + 1) :: u32);
          (str, s) \<leftarrow> w1_malloc K bp (scast len) s;
          s \<leftarrow> on_mem (kstrcpy str (uload 8 envp s)) s;
          (p, s) \<leftarrow> w1_malloc K bp (scast len) s;
          let s = ustore 8 envp p s;
          s \<leftarrow> on_mem (strcat_lit str (str_bytes '':'')) s;
          s \<leftarrow> on_mem (strcat str newval) s;
          on_mem (kstrcpy (uload 8 envp s) str) s
        }
        else w1_setPath K bp envp newval s
      })"

partial_function (option) w1_printEnvironments ::
  "'k kernel \<Rightarrow> shell_globals \<Rightarrow> u64 \<Rightarrow> 'k user_state \<Rightarrow> 'k user_state option" where
  "w1_printEnvironments K G envp s =
     (if uload 8 envp s = 0 then Some s
      else do {
        s \<leftarrow> w1_print K G (str_bytes ''%s'' @ nl) [uload 8 envp s] s;
        w1_printEnvironments K G (envp + 8) s
      })"

partial_function (option) w1_getPATH ::
  "'k kernel \<Rightarrow> u64 \<Rightarrow> shell_globals \<Rightarrow> shell_frame \<Rightarrow> u64 \<Rightarrow> 'k user_state \<Rightarrow> 'k user_state option" where
  "w1_getPATH K bp G F envp s =
     (if uload 8 envp s = 0 then Some s
      else do {
        let envp = envp + 8;
        hit \<leftarrow> env_has envp (str_bytes ''PATH'') s;
        s \<leftarrow> (if hit then do {
                s \<leftarrow> on_mem (kstrcpy (l_path_token F) (uload 8 envp s)) s;
                (v, s) \<leftarrow> w1_tokenizeWithKey K bp (l_path_token F) 0x3D (l_path_before F) s;
                if v = 0 then None else on_mem (kstrcpy (sv_path G) v) s
              }
              else Some s);
        w1_getPATH K bp G F envp s
      })"

declare w1_getEnvironment.simps [code] w1_setPath.simps [code] w1_printEnvironments.simps [code] w1_getPATH.simps [code]

text \<open>An environment: the pointers of the list in front of NULL.\<close>

fun env_list :: "'k user_state \<Rightarrow> u64 \<Rightarrow> u64 list \<Rightarrow> bool" where
  "env_list s e [] \<longleftrightarrow> uload 8 e s = 0"
| "env_list s e (p # ps) \<longleftrightarrow> uload 8 e s = p \<and> p \<noteq> 0 \<and> env_list s (e + 8) ps"

text \<open>A variable that no entry behind the first names is not reported as missing: the search ends with an access
  to NULL.\<close>

lemma w1_getEnvironment_runs_off:
  "env_list s env (p # ps) \<Longrightarrow> \<forall>q \<in> set ps. strstr_lit q key (umem s) = Some 0 \<Longrightarrow> w1_getEnvironment K bp F key env s = None"
proof (induction ps arbitrary: p env)
  case Nil
  then show ?case by (subst w1_getEnvironment.simps) (simp add: env_has_def Let_def)
next
  case (Cons q ps)
  then have "w1_getEnvironment K bp F key (env + 8) s = None" by simp
  then show ?case using Cons.prems by (subst w1_getEnvironment.simps) (simp add: env_has_def Let_def)
qed

definition w1_changeDirectory ::
  "'k kernel \<Rightarrow> u64 \<Rightarrow> shell_globals \<Rightarrow> shell_frame \<Rightarrow> u64 \<Rightarrow> u64 \<Rightarrow> 'k user_state \<Rightarrow> 'k user_state option" where
  "w1_changeDirectory K bp G F newdir env s = do {
     s \<leftarrow> (if newdir = 0 then do {
             (v, s) \<leftarrow> w1_getEnvironment K bp F (str_bytes ''HOME'') env s;
             if v = 0 then None else on_mem (kstrcpy (l_new F) v) s
           }
           else on_mem (kstrcpy (l_new F) newdir) s);
     (r, s) \<leftarrow> chdir K (l_new F) s;
     if r = - 1 then w1_print K G (str_bytes '' %s: no such directory '' @ nl) [l_new F] s else Some s
   }"

partial_function (option) w1_search_path ::
  "'k kernel \<Rightarrow> u64 \<Rightarrow> shell_frame \<Rightarrow> u64 \<Rightarrow> u64 \<Rightarrow> 'k user_state \<Rightarrow> (u64 \<times> 'k user_state) option" where
  "w1_search_path K bp F cmd after s =
     (if after = 0 then Some (0, s)
      else do {
        (abspath, s) \<leftarrow> w1_malloc K bp MAX_LEN s;
        (after, s) \<leftarrow> w1_tokenizeWithKey K bp after 0x3A (l_abs_before F) s;
        s \<leftarrow> on_mem (kstrcpy abspath (uload 8 (l_abs_before F) s)) s;
        s \<leftarrow> on_mem (strcat_lit abspath (str_bytes ''/'')) s;
        s \<leftarrow> on_mem (strcat abspath cmd) s;
        s \<leftarrow> on_mem (trim abspath) s;
        (filedesc, s) \<leftarrow> open_file K abspath 0 s;
        if sint filedesc \<ge> 0 then do { (_, s) \<leftarrow> close K filedesc s; Some (abspath, s) }
        else w1_search_path K bp F cmd after s
      })"

declare w1_search_path.simps [code]

definition w1_getAbsolutePath ::
  "'k kernel \<Rightarrow> u64 \<Rightarrow> shell_frame \<Rightarrow> u64 \<Rightarrow> u64 \<Rightarrow> 'k user_state \<Rightarrow> (u64 \<times> 'k user_state) option" where
  "w1_getAbsolutePath K bp F cmd envp s =
     (if cmd = 0 then None
      else if is_cmd ''cd'' cmd s \<or> is_cmd ''exit'' cmd s then Some (cmd, s)
      else do {
        k \<leftarrow> strstr_lit cmd (str_bytes ''/'') (umem s);
        if k \<noteq> 0 then Some (cmd, s)
        else do {
          (env_path, s) \<leftarrow> w1_malloc K bp MAX_LEN s;
          (v, s) \<leftarrow> w1_getEnvironment K bp F (str_bytes ''PATH'') envp s;
          s \<leftarrow> (if v = 0 then None else on_mem (kstrcpy env_path v) s);
          w1_search_path K bp F cmd env_path s
        }
      })"

subsection \<open>Reading and splitting a line\<close>

partial_function (option) w1_read_loop ::
  "'k kernel \<Rightarrow> shell_globals \<Rightarrow> shell_frame \<Rightarrow> u64 \<Rightarrow> u32 \<Rightarrow> bool \<Rightarrow> 'k user_state \<Rightarrow> (u32 \<times> 'k user_state) option" where
  "w1_read_loop K G F input_line i pipeFound s =
     (if umem s (l_c F) \<noteq> 0x0A \<or> pipeFound
      then do {
        (_, s) \<leftarrow> w1_scanf K (sv_scan_data G) (str_bytes ''%c'') [l_c F] s;
        let c = umem s (l_c F);
        if pipeFound \<and> c = 0x7C then do {
          s \<leftarrow> w1_print K G (str_bytes ''-bash: syntax error near unexpected token | '' @ nl) [] s;
          Some (0, s)
        }
        else do {
          s \<leftarrow> (if c = 0x0A \<and> pipeFound then w1_print K G (str_bytes ''>'') [] s else Some s);
          let (i, s) = (if c \<noteq> 0x0A then (i + 1, store_char input_line i c s) else (i, s));
          w1_read_loop K G F input_line i (c = 0x7C \<or> (pipeFound \<and> \<not> (c \<noteq> 0x20 \<and> c \<noteq> 0x0A))) s
        }
      }
      else Some (if sint i < 1 then 0 else 1, store_char input_line i 0 s))"

declare w1_read_loop.simps [code]

definition w1_readInput ::
  "'k kernel \<Rightarrow> shell_globals \<Rightarrow> shell_frame \<Rightarrow> u64 \<Rightarrow> 'k user_state \<Rightarrow> (u32 \<times> 'k user_state) option" where
  "w1_readInput K G F input_line s = w1_read_loop K G F input_line 0 False (s\<lparr>umem := (umem s)(l_c F := 0x20)\<rparr>)"

text \<open>A word goes into a block of \<open>len\<close> bytes.\<close>

definition w1_store_word ::
  "'k kernel \<Rightarrow> u64 \<Rightarrow> shell_globals \<Rightarrow> u64 \<Rightarrow> nat \<Rightarrow> nat \<Rightarrow> nat \<Rightarrow> 'k user_state \<Rightarrow> (nat \<times> 'k user_state) option" where
  "w1_store_word K bp G str count cmdcount argcount s = do {
     s \<leftarrow> on_mem (trim str) s;
     len \<leftarrow> int_len str s;
     if sint len > 0 \<and> count > 0 then do {
       (p, s) \<leftarrow> w1_malloc K bp (scast len) s;
       let s = set_cmd G cmdcount argcount p s;
       Some (argcount + 1, s\<lparr>umem := kstrncpy (get_cmd G cmdcount argcount s) str (of_nat count) (umem s)\<rparr>)
     }
     else Some (argcount, s)
   }"

partial_function (option) w1_parse_loop ::
  "'k kernel \<Rightarrow> u64 \<Rightarrow> shell_globals \<Rightarrow> nat \<Rightarrow> u64 \<Rightarrow> nat \<Rightarrow> nat \<Rightarrow> 'k user_state \<Rightarrow> (nat \<times> 'k user_state) option" where
  "w1_parse_loop K bp G n srcPtr cmdcount argcount s =
     (if n = 0 then Some (cmdcount, s)
      else do {
        let str = srcPtr;
        let count = word_loop n srcPtr (umem s);
        let n = n - count;
        let srcPtr = srcPtr + of_nat count;
        let found = (umem s srcPtr = 0x7C);
        (argcount, s) \<leftarrow> w1_store_word K bp G str count cmdcount argcount s;
        let (cmdcount, argcount, srcPtr) =
          (if found then (cmdcount + 1, 0, srcPtr + 1) else (cmdcount, argcount, srcPtr));
        let (k, m) = space_loop n srcPtr (umem s);
        let s = set_cmd G cmdcount argcount 0 (s\<lparr>umem := m\<rparr>);
        w1_parse_loop K bp G (n - k) (srcPtr + of_nat k) cmdcount argcount s
      })"

declare w1_parse_loop.simps [code]

definition w1_parseCommand ::
  "'k kernel \<Rightarrow> u64 \<Rightarrow> shell_globals \<Rightarrow> u64 \<Rightarrow> 'k user_state \<Rightarrow> (nat \<times> 'k user_state) option" where
  "w1_parseCommand K bp G inputString s = do {
     len \<leftarrow> int_len inputString s;
     (cmdcount, s) \<leftarrow> w1_parse_loop K bp G (nat (sint len)) inputString 0 0 s;
     Some (cmdcount + 1, ustore 4 (sv_cmdcount G) (of_nat cmdcount) s)
   }"

subsection \<open>Commands\<close>

definition w1_set_PS1 :: "'k kernel \<Rightarrow> shell_globals \<Rightarrow> shell_frame \<Rightarrow> 'k user_state \<Rightarrow> 'k user_state option" where
  "w1_set_PS1 K G F s = do {
     let s = uclear (l_temp F) MAX_LEN s;
     s \<leftarrow> (if get_cmd G 0 2 s = 0 then w1_print K G (str_bytes ''Usage: set PS1 <prompt string>'' @ nl) [] s
          else Some s);
     s \<leftarrow> ps1_loop G (l_temp F) 2 s;
     on_mem (kstrcpy (sv_PS1 G) (l_temp F)) s
   }"

definition w1_builtin ::
  "'k kernel \<Rightarrow> u64 \<Rightarrow> shell_globals \<Rightarrow> shell_frame \<Rightarrow> (u64 \<Rightarrow> u64 \<Rightarrow> 'k user_state \<Rightarrow> 'k user_state option) \<Rightarrow>
    u64 \<Rightarrow> u64 \<Rightarrow> u64 \<Rightarrow> 'k user_state \<Rightarrow> (u32 \<times> 'k user_state) option" where
  "w1_builtin K bp G F scr cmd args env s = do {
     k \<leftarrow> strstr_lit cmd (str_bytes ''.sbush'') (umem s);
     if k \<noteq> 0 then do { s \<leftarrow> scr cmd env s; Some (1, s) }
     else if is_cmd ''env'' cmd s then do { s \<leftarrow> w1_printEnvironments K G env s; Some (1, s) }
     else if is_cmd ''$PATH'' cmd s then do {
       (v, s) \<leftarrow> w1_getEnvironment K bp F (str_bytes ''PATH'') env s;
       s \<leftarrow> (if v = 0 then None else w1_print K G (str_bytes ''%s'' @ nl) [v] s);
       Some (1, s)
     }
     else do {
       s \<leftarrow> (if is_cmd ''exit'' cmd s then map_option snd (exit K 0 s) else Some s);
       if is_cmd ''cd'' cmd s then do { s \<leftarrow> w1_changeDirectory K bp G F args env s; Some (1, s) }
       else Some (0, s)
     }
   }"

definition w1_handleCommand ::
  "'k kernel \<Rightarrow> u64 \<Rightarrow> shell_globals \<Rightarrow> shell_frame \<Rightarrow> (u64 \<Rightarrow> u64 \<Rightarrow> 'k user_state \<Rightarrow> 'k user_state option) \<Rightarrow>
    u64 \<Rightarrow> u64 \<Rightarrow> u64 \<Rightarrow> 'k user_state \<Rightarrow> (u32 \<times> 'k user_state) option" where
  "w1_handleCommand K bp G F scr cmd args env s =
     (if cmd = 0 then None
      else if is_cmd ''set'' cmd s \<and> args \<noteq> 0 then do {
        k \<leftarrow> strstr_lit args (str_bytes ''PS1'') (umem s);
        if k \<noteq> 0 then do { s \<leftarrow> w1_set_PS1 K G F s; Some (1, s) }
        else do {
          k \<leftarrow> strstr_lit args (str_bytes ''PATH'') (umem s);
          if k \<noteq> 0 then do { s \<leftarrow> w1_setPath K bp env (get_cmd G 0 2 s) s; Some (1, s) }
          else w1_builtin K bp G F scr cmd args env s
        }
      }
      else w1_builtin K bp G F scr cmd args env s)"

subsection \<open>Running programs\<close>

definition w1_exec_or_error :: "'k kernel \<Rightarrow> shell_globals \<Rightarrow> u64 \<Rightarrow> u64 \<Rightarrow> u64 \<Rightarrow> 'k user_state \<Rightarrow> 'k user_state option" where
  "w1_exec_or_error K G cmd argv env s = do {
     (r, s) \<leftarrow> execve K cmd argv env s;
     if r = - 1 then w1_serror K (sv_printf_buf G) (errno s) s else Some s
   }"

definition w1_executeProcess ::
  "'k kernel \<Rightarrow> u64 \<Rightarrow> shell_globals \<Rightarrow> shell_frame \<Rightarrow> (u64 \<Rightarrow> u64 \<Rightarrow> 'k user_state \<Rightarrow> 'k user_state option) \<Rightarrow>
    u64 \<Rightarrow> 'k user_state \<Rightarrow> 'k user_state option" where
  "w1_executeProcess K bp G F scr env s = do {
     (handled, s) \<leftarrow> w1_handleCommand K bp G F scr (get_cmd G 0 0 s) (get_cmd G 0 1 s) env s;
     if handled = 1 then Some s
     else do {
       (p, s) \<leftarrow> w1_getAbsolutePath K bp F (get_cmd G 0 0 s) env s;
       if p = 0 then w1_print K G (str_bytes ''%s: Command not found. '' @ nl) [get_cmd G 0 0 s] s
       else do {
         (p, s) \<leftarrow> w1_getAbsolutePath K bp F (get_cmd G 0 0 s) env s;
         s \<leftarrow> (if p = 0 then None else on_mem (kstrcpy (l_cmd F) p) s);
         (pid, s) \<leftarrow> fork K s;
         s \<leftarrow> (if pid = 0 then do {
                 s \<leftarrow> w1_exec_or_error K G (l_cmd F) (cmd_slot G 0 0) env s;
                 (_, s) \<leftarrow> exit K 1 s;
                 Some s
               }
               else Some s);
         (_, s) \<leftarrow> w1_waitpid K pid (l_status F) 0 s;
         Some (set_cmd G 0 1 0 s)
       }
     }
   }"

fun w1_find_commands ::
  "'k kernel \<Rightarrow> u64 \<Rightarrow> shell_globals \<Rightarrow> shell_frame \<Rightarrow> u64 \<Rightarrow> nat \<Rightarrow> nat \<Rightarrow> bool \<Rightarrow> 'k user_state \<Rightarrow> (bool \<times> 'k user_state) option" where
  "w1_find_commands K bp G F env 0 i found s = Some (found, s)"
| "w1_find_commands K bp G F env (Suc n) i found s = do {
     (p, s) \<leftarrow> w1_getAbsolutePath K bp F (get_cmd G i 0 s) env s;
     if p = 0 then do {
       s \<leftarrow> w1_print K G (str_bytes ''%s: Command not found. '' @ nl) [get_cmd G i 0 s] s;
       w1_find_commands K bp G F env n (i + 1) True s
     }
     else w1_find_commands K bp G F env n (i + 1) found s
   }"

text \<open>A stage: its command is looked up, handled or executed, and the process ends.\<close>

definition w1_run_stage ::
  "'k kernel \<Rightarrow> u64 \<Rightarrow> shell_globals \<Rightarrow> shell_frame \<Rightarrow> (u64 \<Rightarrow> u64 \<Rightarrow> 'k user_state \<Rightarrow> 'k user_state option) \<Rightarrow>
    u64 \<Rightarrow> nat \<Rightarrow> 'k user_state \<Rightarrow> 'k user_state option" where
  "w1_run_stage K bp G F scr env i s = do {
     (p, s) \<leftarrow> w1_getAbsolutePath K bp F (get_cmd G i 0 s) env s;
     s \<leftarrow> (if p = 0 then None else on_mem (kstrcpy (l_cmd F) p) s);
     (handled, s) \<leftarrow> w1_handleCommand K bp G F scr (l_cmd F) (get_cmd G i 1 s) env s;
     s \<leftarrow> (if handled = 0 then w1_exec_or_error K G (l_cmd F) (cmd_slot G i 0) env s else Some s);
     (_, s) \<leftarrow> exit K 1 s;
     Some s
   }"

text \<open>\<open>dup2(from, to); close(from)\<close>\<close>

definition w1_redirect :: "'k kernel \<Rightarrow> u32 \<Rightarrow> u32 \<Rightarrow> 'k user_state \<Rightarrow> 'k user_state option" where
  "w1_redirect K oldfd newfd s = do { (_, s) \<leftarrow> dup2 K oldfd newfd s; (_, s) \<leftarrow> close K oldfd s; Some s }"

fun w1_pipe_stages ::
  "'k kernel \<Rightarrow> u64 \<Rightarrow> shell_globals \<Rightarrow> shell_frame \<Rightarrow> (u64 \<Rightarrow> u64 \<Rightarrow> 'k user_state \<Rightarrow> 'k user_state option) \<Rightarrow>
    u64 \<Rightarrow> nat \<Rightarrow> nat \<Rightarrow> u32 \<Rightarrow> 'k user_state \<Rightarrow> (u32 \<times> 'k user_state) option" where
  "w1_pipe_stages K bp G F scr env 0 i prev s = Some (prev, s)"
| "w1_pipe_stages K bp G F scr env (Suc n) i prev s = do {
     (_, s) \<leftarrow> w1_pipe K (l_fd F) s;
     (pid, s) \<leftarrow> fork K s;
     s \<leftarrow> (if pid = 0 then do {
             s \<leftarrow> (if prev \<noteq> 0 then w1_redirect K prev 0 s else Some s);
             let out = (ucast (uload 4 (l_fd F + 4) s) :: u32);
             s \<leftarrow> (if out \<noteq> 1 then w1_redirect K out 1 s else Some s);
             w1_run_stage K bp G F scr env i s
           }
           else Some s);
     (_, s) \<leftarrow> close K (ucast (uload 4 (l_fd F + 4) s)) s;
     w1_pipe_stages K bp G F scr env n (i + 1) (ucast (uload 4 (l_fd F) s)) s
   }"

definition w1_executeProcessPipe ::
  "'k kernel \<Rightarrow> u64 \<Rightarrow> shell_globals \<Rightarrow> shell_frame \<Rightarrow> (u64 \<Rightarrow> u64 \<Rightarrow> 'k user_state \<Rightarrow> 'k user_state option) \<Rightarrow>
    nat \<Rightarrow> u64 \<Rightarrow> 'k user_state \<Rightarrow> 'k user_state option" where
  "w1_executeProcessPipe K bp G F scr n env s = do {
     (missing, s) \<leftarrow> w1_find_commands K bp G F env n 0 False s;
     if missing then Some s
     else do {
       (pid, s) \<leftarrow> fork K s;
       s \<leftarrow> (if pid = 0 then do {
               (prev, s) \<leftarrow> w1_pipe_stages K bp G F scr env (n - 1) 0 0 s;
               s \<leftarrow> (if prev \<noteq> 0 then map_option snd (dup2 K prev 0 s) else Some s);
               w1_run_stage K bp G F scr env (n - 1) s
             }
             else Some s);
       (_, s) \<leftarrow> w1_waitpid K pid (l_status F) 0 s;
       Some (clear_args G n 0 s)
     }
   }"

subsection \<open>Scripts and the main loop\<close>

text \<open>A parsed command line is run as a program or as a pipe.\<close>

definition w1_run_line ::
  "'k kernel \<Rightarrow> u64 \<Rightarrow> shell_globals \<Rightarrow> shell_frame \<Rightarrow> (u64 \<Rightarrow> u64 \<Rightarrow> 'k user_state \<Rightarrow> 'k user_state option) \<Rightarrow>
    u64 \<Rightarrow> nat \<Rightarrow> 'k user_state \<Rightarrow> 'k user_state option" where
  "w1_run_line K bp G F scr env num_args s =
     (if num_args = 1 then w1_executeProcess K bp G F scr env s
      else w1_executeProcessPipe K bp G F scr num_args env s)"

definition w1_script_line ::
  "'k kernel \<Rightarrow> u64 \<Rightarrow> shell_globals \<Rightarrow> (nat \<Rightarrow> 'k user_state \<Rightarrow> 'k user_state option) \<Rightarrow> u64 \<Rightarrow> 'k user_state \<Rightarrow> 'k user_state option" where
  "w1_script_line K bp G run cmd s = do {
     k \<leftarrow> strstr_lit cmd (str_bytes ''#!'') (umem s);
     if k = 0 then do { (num_args, s) \<leftarrow> w1_parseCommand K bp G cmd s; run num_args s } else Some s
   }"

partial_function (option) w1_script_loop ::
  "'k kernel \<Rightarrow> u64 \<Rightarrow> shell_globals \<Rightarrow> shell_frame \<Rightarrow> (nat \<Rightarrow> 'k user_state \<Rightarrow> 'k user_state option) \<Rightarrow>
    u32 \<Rightarrow> u32 \<Rightarrow> u32 \<Rightarrow> 'k user_state \<Rightarrow> 'k user_state option" where
  "w1_script_loop K bp G F run fh sz i s =
     (if sint sz > 0 then do {
        let c = umem s (l_script_buf F + scast (sz - 1));
        (i, s) \<leftarrow> (if c \<noteq> 0x0A then Some (i + 1, store_char (l_script_cmd F) i c s)
                   else do {
                     s \<leftarrow> w1_script_line K bp G run (l_script_cmd F) (store_char (l_script_cmd F) i 0 s);
                     Some (0, s)
                   });
        let s = store_char (l_script_buf F) sz 0 s;
        (r, s) \<leftarrow> w1_read K fh (l_script_buf F) 1 s;
        w1_script_loop K bp G F run fh (ucast r) i s
      }
      else Some s)"

declare w1_script_loop.simps [code]

text \<open>The first argument bounds the nesting of scripts.\<close>

fun w1_executeScript ::
  "nat \<Rightarrow> 'k kernel \<Rightarrow> u64 \<Rightarrow> shell_globals \<Rightarrow> (nat \<Rightarrow> shell_frame) \<Rightarrow> u64 \<Rightarrow> u64 \<Rightarrow> 'k user_state \<Rightarrow> 'k user_state option" where
  "w1_executeScript 0 K bp G F script env s = None"
| "w1_executeScript (Suc n) K bp G F script env s = do {
     (fh, s) \<leftarrow> open_file K script 0 s;
     (r, s) \<leftarrow> w1_read K fh (l_script_buf (F n)) 1 s;
     w1_script_loop K bp G (F n) (w1_run_line K bp G (F n) (w1_executeScript n K bp G F) env) fh (ucast r) 0 s
   }"

definition w1_printPrompt :: "'k kernel \<Rightarrow> shell_globals \<Rightarrow> 'k user_state \<Rightarrow> 'k user_state option" where
  "w1_printPrompt K G s = do {
     n \<leftarrow> strlen (sv_PS1 G) (umem s);
     if n < 2 then w1_print K G (str_bytes ''$ '') [] s else w1_print K G (str_bytes ''%s$ '') [sv_PS1 G] s
   }"

definition w1_welcome :: "'k kernel \<Rightarrow> shell_globals \<Rightarrow> 'k user_state \<Rightarrow> 'k user_state option" where
  "w1_welcome K G s = do {
     s \<leftarrow> w1_print K G (nl @ str_bytes ''-------------------------------------------------'' @ nl) [] s;
     s \<leftarrow> w1_print K G ([0x09] @ str_bytes ''Welcome to SBUSH '' @ nl) [] s;
     s \<leftarrow> w1_print K G (str_bytes ''-------------------------------------------------'' @ nl) [] s;
     w1_print K G (nl @ nl) [] s
   }"

text \<open>The start of \<open>main\<close> and one round of its loop, which follows also when a script was given.\<close>

definition w1_main_start ::
  "nat \<Rightarrow> 'k kernel \<Rightarrow> u64 \<Rightarrow> shell_globals \<Rightarrow> (nat \<Rightarrow> shell_frame) \<Rightarrow> u32 \<Rightarrow> u64 \<Rightarrow> u64 \<Rightarrow> 'k user_state \<Rightarrow> 'k user_state option" where
  "w1_main_start d K bp G F argc argv envp s =
     (if argc = 2 then w1_executeScript d K bp G F (uload 8 (argv + 8) s) envp s else w1_welcome K G s)"

definition w1_main_round ::
  "nat \<Rightarrow> 'k kernel \<Rightarrow> u64 \<Rightarrow> shell_globals \<Rightarrow> (nat \<Rightarrow> shell_frame) \<Rightarrow> u64 \<Rightarrow> 'k user_state \<Rightarrow> 'k user_state option" where
  "w1_main_round d K bp G F envp s = do {
     s \<leftarrow> w1_printPrompt K G s;
     (ok, s) \<leftarrow> w1_readInput K G (F d) (l_input_line (F d)) s;
     if ok = 1 then do {
       len \<leftarrow> int_len (l_input_line (F d)) s;
       if sint len < 1 then Some s
       else do {
         (num_args, s) \<leftarrow> w1_parseCommand K bp G (l_input_line (F d)) s;
         w1_run_line K bp G (F d) (w1_executeScript d K bp G F) envp num_args s
       }
     }
     else Some s
   }"

subsection \<open>\<open>cat\<close> and \<open>ls\<close>\<close>

partial_function (option) w1_cat_loop :: "'k kernel \<Rightarrow> u32 \<Rightarrow> u64 \<Rightarrow> 'k user_state \<Rightarrow> 'k user_state option" where
  "w1_cat_loop K f buf s = do {
     (r, s) \<leftarrow> w1_read K f buf 80 s;
     let n = (ucast r :: u32);
     if sint n > 0 then do { (_, s) \<leftarrow> write_fd K 1 buf (scast n) s; w1_cat_loop K f buf s } else Some s
   }"

declare w1_cat_loop.simps [code]

definition w1_cat_main :: "'k kernel \<Rightarrow> u64 \<Rightarrow> u64 \<Rightarrow> u32 \<Rightarrow> u64 \<Rightarrow> 'k user_state \<Rightarrow> (u32 \<times> 'k user_state) option" where
  "w1_cat_main K printf_buf buf argc argv s = do {
     s \<leftarrow> (if argc \<noteq> 2
          then map_option snd (w1_printf K printf_buf (str_bytes ''Usage : cat <file-name> %d '' @ nl @ str_bytes '' '') [scast argc] s)
          else Some s);
     (f, s) \<leftarrow> open_file K (uload 8 (argv + 8) s) 0 s;
     s \<leftarrow> w1_cat_loop K f buf s;
     Some (0, s)
   }"

definition w1_NAME_MAX :: u64 where "w1_NAME_MAX = 1024"

partial_function (option) w1_show_loop :: "'k kernel \<Rightarrow> u64 \<Rightarrow> u64 \<Rightarrow> 'k user_state \<Rightarrow> 'k user_state option" where
  "w1_show_loop K printf_buf dit s =
     (if dit = 0 then Some s
      else do {
        (_, s) \<leftarrow> w1_printf K printf_buf (str_bytes ''%s '' @ nl) [dit + 18] s;
        w1_show_loop K printf_buf (w1_readdir dit s) s
      })"

declare w1_show_loop.simps [code]

definition w1_showFiles :: "'k kernel \<Rightarrow> u64 \<Rightarrow> u64 \<Rightarrow> u64 \<Rightarrow> 'k user_state \<Rightarrow> 'k user_state option" where
  "w1_showFiles K bp dbuf printf_buf s = do {
     (buf, s) \<leftarrow> w1_malloc K bp w1_NAME_MAX s;
     (_, s) \<leftarrow> w1_getcwd K buf (w1_NAME_MAX + 1) s;
     (dip, s) \<leftarrow> w1_opendir K bp dbuf buf s;
     if dip = 0 then w1_serror K printf_buf (errno s) s
     else do {
       let d = uload 8 (dip + 8) s;
       (_, s) \<leftarrow> w1_printf K printf_buf (str_bytes ''%s '' @ nl) [d + 18] s;
       s \<leftarrow> w1_show_loop K printf_buf (w1_readdir (uload 8 (dip + 8) s) s) s;
       (r, s) \<leftarrow> w1_closedir K dip (free buf s);
       if r = - 1 then w1_serror K printf_buf (errno s) s else Some s
     }
   }"

definition w1_ls_main :: "'k kernel \<Rightarrow> u64 \<Rightarrow> u64 \<Rightarrow> u64 \<Rightarrow> 'k user_state \<Rightarrow> (u32 \<times> 'k user_state) option" where
  "w1_ls_main K bp dbuf printf_buf s = do { s \<leftarrow> w1_showFiles K bp dbuf printf_buf s; Some (0, s) }"

end
