(* ===== verification/Spec2Isabelle.thy ===== *)
theory Spec2Isabelle
  imports Interrupts Fork ForkStack Blocking Pipes ProgStart UserHeap CatFile TypedLine WarmShell
begin

text \<open>
  \<^bold>\<open>A verification library for the kernel under \<open>w2/\<close> and the shell under \<open>w1/\<close>.\<close>

  The program is a small 64-bit operating system: a kernel (\<open>w2/sys\<close>), a C library (\<open>w2/libc\<close>) and user
  programs (\<open>w2/bin\<close>).  The boot loader enters \<open>boot\<close> (\<open>main.c\<close>), which sets up the descriptor tables, the
  interrupt controller and the timer, and calls \<open>start\<close>: it builds the frame allocator from the memory map,
  the kernel's page tables and the list of files of the archive linked into the kernel, loads two programs
  and waits for the first timer interrupt.  From then on the kernel runs in handlers: timer interrupts
  switch tasks, keyboard interrupts edit and deliver a line, \<open>int 0x80\<close> is a system call, and page faults
  bring in pages of the heap and the stack.

  \<^bold>\<open>Theories, in the order of the imports.\<close>

  \<^item> \<open>Prelude\<close>: widths of machine integers, byte order, checked heaps (partial maps from addresses to
    objects; address 0 is NULL), and the lemmas on words, lists and options that the others share.
  \<^item> \<open>PhyAlloc\<close> (\<open>sys/mmu/phy_alloc.c\<close>): the bitmap of frames and the reference counts.
  \<^item> \<open>PageTable\<close>, \<open>PageWalk\<close> (\<open>sys/mmu/pt.c\<close>): table entries in physical memory reached through the mapping of
    all physical memory at \<open>KADDR\<close>; translation, mapping and removal, and the abstract address space they implement.
  \<^item> \<open>VirtMem\<close> (\<open>sys/mmu/virtual_mm.c\<close>, \<open>kmalloc.c\<close>): pages of the kernel's heap.
  \<^item> \<open>LinkedList\<close>: the null-terminated lists of the kernel as a locale over a node type, interpreted on tasks,
    memory areas and files.
  \<^item> \<open>CString\<close> (\<open>sys/kstring.c\<close>, \<open>libc/string.c\<close>): strings and blocks in byte memory.
  \<^item> \<open>Process\<close> (\<open>sys/process/process.c\<close>), \<open>Sched\<close> (\<open>process_manager.c\<close>, \<open>timer.c\<close>): tasks, their lists and
    memory areas, round robin choice, the timer interrupt as a context switch.
  \<^item> \<open>Tarfs\<close> (\<open>sys/fs/tarfs.c\<close>): the archive, the list of files, reading and positioning.
  \<^item> \<open>Printf\<close> (\<open>sys/kprintf.c\<close>, \<open>libc/printf.c\<close>): the formatter.
  \<^item> \<open>Console\<close> (\<open>sys/vgaconsole.c\<close>), \<open>Keyboard\<close> (\<open>sys/kb.c\<close>): the screen and the line editor.
  \<^item> \<open>Elf\<close> (\<open>sys/process/elf.c\<close>, \<open>crt/crt1.c\<close>): segments and the initial stack of a program.
  \<^item> \<open>Syscall\<close> (\<open>sys/syscall.c\<close>): every system call and the pipes.
  \<^item> \<open>Interrupts\<close> (\<open>sys/idt.c\<close>, \<open>irq.c\<close>, \<open>gdt.c\<close>, \<open>main.c\<close>): gates, faults, the start of the kernel.
  \<^item> \<open>Libc\<close> (\<open>libc/stdlib.c\<close>, \<open>malloc.c\<close>, \<open>scanf.c\<close>): a program's side of a system call, and its heap.
  \<^item> \<open>Shell\<close> (\<open>bin/sbush/sbush.c\<close>): the shell, from the line editor and the parser to pipes and scripts.
  \<^item> \<open>Programs\<close> (\<open>bin/cat\<close>, \<open>cd\<close>, \<open>ls\<close>, \<open>ps\<close>, \<open>abc\<close>): the small programs, and \<open>cat\<close> over the C library and
    any kernel that reads files and prints strings.

  \<^item> \<open>WarmLibc\<close>, \<open>WarmShell\<close> (\<open>w1/libc\<close>, \<open>w1/bin\<close>): the warm-up project, a C library and a shell on Linux, as far as
    its text differs from the later one; the kernel is a parameter.

  The theories that follow hold the composition of these parts:

  \<^item> \<open>SchedLive\<close>: runs of timer interrupts over a list of tasks.
  \<^item> \<open>Blocking\<close>: a blocking system call from the program's registers to the task that goes on.
  \<^item> \<open>ByteMemory\<close>, \<open>FlatMem\<close>: the laws of byte memory as locales, and the pages a task can use as an instance.
  \<^item> \<open>Paging\<close>: faults that bring in a page of the heap or the stack, down to the bytes of the page.
  \<^item> \<open>Spaces\<close>: two trees of tables that share the kernel's half, and what a mapping in one does to the other;
    \<open>Fork\<close>, \<open>ForkStack\<close>: the pages that \<open>fork\<close> shares with the child, and those of the stack, which it copies.
  \<^item> \<open>Pipes\<close>: a write and a read of a pipe over the memory of a task.
  \<^item> \<open>ProgStart\<close>: the stack the kernel builds and what \<open>_start\<close> reads of it.
  \<^item> \<open>UserHeap\<close>: the program's heap on the kernel's \<open>brk\<close>.
  \<^item> \<open>CatFile\<close>: \<open>cat\<close> over the dispatcher of the system calls, with its bytes in the pages of the current task, down
    to the archive and the screen.
  \<^item> \<open>ShellLines\<close>: the shell's parser over that heap, against a reference that splits a line into words.
  \<^item> \<open>ShellInput\<close>, \<open>TypedLine\<close>: the shell's input loop over the read system call and the keyboard interrupts,
    and a typed command from the keys to the list of arguments.

  \<^bold>\<open>Interfaces.\<close>  Six contracts are locales, each interpreted on the model's own definitions where they are
  provided: the frame allocator that the page tables, the kernel's heap and the loader draw on; the linked
  list over a node type (tasks, areas, files); byte memory and block memory (\<open>byte_memory\<close>,
  \<open>block_memory\<close>), provided by the mapped pages of a task and, without the copying operations, by a
  program's own image; \<open>brk_kernel\<close>, what \<open>malloc\<close> relies on when it asks the kernel for memory; 
  \<open>file_io\<close>, the files and the screen as \<open>cat\<close> uses them, provided by \<open>system_open\<close>, \<open>system_read\<close>, \<open>system_write\<close>
  and \<open>system_close\<close> over the mapped pages of the task, the archive and the console; and
  \<open>char_input\<close>, the characters that the shell reads one at a time, provided by \<open>system_read\<close>, the keyboard
  driver and the mapped pages of the reader.

  \<^bold>\<open>State.\<close>  The kernel's state is one record that each theory extends by its globals: \<open>mmu_state\<close> (physical
  memory, frame bitmap, \<open>cr3\<close>), \<open>proc_state\<close> (heaps of tasks, of \<open>mm_struct\<close> and of areas), \<open>time_state\<close>,
  \<open>fs_state\<close>, \<open>con_state\<close>, \<open>kb_state\<close>, \<open>sys_state\<close> and \<open>int_state\<close>.  Operations are polymorphic in what later
  theories add.  An operation that dereferences NULL, runs past the end of an array, loops for ever or
  touches an unmapped page has the result \<open>None\<close>; \<open>Some\<close> is a run that returns.  Objects that the code
  allocates with \<open>kmalloc\<close> are entries of typed heaps at the address that \<open>kmalloc\<close> returns; page tables
  and the memory of programs are bytes of physical memory.

  \<^bold>\<open>Loops and fuel.\<close>  Loops bounded by data are structural recursion; the others are
  \<open>partial_function (option)\<close>, so that a run that does not end is \<open>None\<close>, and the theorems that a loop
  returns say \<open>= Some\<close>.  The only bound is the depth to which scripts of the shell may run scripts, an
  argument of \<open>executeScript\<close>: the program's stack bounds it in the code, and any number may be given.

  \<^bold>\<open>What the lemmas show.\<close>  Each theory first proves the laws of its own operations, then the properties,
  each after a block with its number.  The frame allocator hands out distinct frames that were free and
  never the kernel's; mapping and removal refine the update of an abstract address space; the timer
  interrupt is a context switch that keeps at most one running task, and no runnable task starves; what is
  written to a pipe is read from it; a fault on the heap brings in a page of zeros; \<open>fork\<close> shares memory but
  for the stack, of which the child gets a copy; a program finds the arguments the kernel wrote on its
  stack; \<open>malloc\<close> on the kernel's \<open>brk\<close> refines first-fit allocation; \<open>cat\<close> prints a file; the shell reads the line that is
  typed, with its corrections, and splits it into its words; the descriptor table is well formed; the files of an archive are listed
  and read as they are; the keyboard driver refines a line editor; the formatter stays in its bounds,
  returns, and prints numbers that \<open>atoi\<close> reads back.  Where the code departs from its intent, the
  property states what the code does.

  \<^bold>\<open>The program's side of a call.\<close>  A program in the models of the C library has its memory as a function on
  addresses and calls a kernel that is a parameter.  Three definitions put the kernel's model there:
  \<open>kernel_brk\<close> (\<open>UserHeap\<close>) and \<open>user_kernel\<close> (\<open>CatFile\<close>) enter the dispatcher, the latter with the bytes of the
  program copied into its pages before the call and back behind it, so that a kernel that reads or writes
  elsewhere than at the program's addresses is noticed; \<open>keys_kernel\<close> (\<open>ShellInput\<close>) runs \<open>system_read\<close> and then
  the keyboard interrupts up to the delivery, and goes on with the reader.  It leaves out the runs in which the scheduler
  resumes the reader before the keys have come, which are possible (\<open>blocking_call_enters_head\<close>).

  \<^bold>\<open>Where the model is wider than the code.\<close>  Widths and precisions of the kernel's formatter are unbounded
  integers and its result is a list, so the 1024 bytes of the buffer behind it do not appear; the sums of
  \<open>htol\<close> wrap around where the code's signed arithmetic is undefined; the clock is recorded as the times shown
  and not as characters on the screen.

  \<^bold>\<open>Not modelled.\<close>  \<open>w2/bin_backup\<close> and \<open>w2/sbush.c\<close> are copies of earlier versions that are not built, \<open>shovelos-read-only/\<close> is
  another project; code under \<open>#if 0\<close> and in comments is not compiled.  Assembly entries are parameters
  (their addresses) or the assignment they make (\<open>cr3\<close>, registers saved on entry).  Interrupts arrive
  between operations, never within one.  \<open>kprintf\<close> has an empty body in the source; busy waits and manual
  tests (among the programs \<open>hello\<close>, \<open>test\<close>, \<open>testapi\<close> and \<open>printftest\<close>) have no model.  A program's \<open>fork\<close> returns
  once, with the value the kernel parameter gives; the memory of the two processes that follow is in \<open>Fork\<close> and \<open>ForkStack\<close>.
\<close>

end
